(* ===== verification/PrlResult.thy ===== *)
theory PrlResult
  imports Main
begin

text \<open>
  The result codes of \<^verbatim>\<open>PRL_RESULT\<close> that the modelled code names.  \<open>PRL_ERR_OTHER\<close> stands
  for the failure codes that calls into libraries outside the repository hand back.
\<close>

datatype (plugins only: size) prl_result =
    PRL_ERR_SUCCESS | PRL_ERR_FAILURE | PRL_ERR_TIMEOUT | PRL_ERR_OPERATION_PENDING
  | PRL_ERR_INVALID_ARG | PRL_ERR_INVALID_PARAM | PRL_ERR_INVALID_HANDLE
  | PRL_ERR_FILE_NOT_FOUND | PRL_ERR_DOUBLE_INIT | PRL_ERR_OUT_OF_MEMORY
  | PRL_ERR_ENTRY_ALREADY_EXISTS | PRL_ERR_ENTRY_DOES_NOT_EXIST | PRL_ERR_SAVE_VM_CATALOG
  | PRL_ERR_PARSE_VM_CONFIG | PRL_ERR_VM_UUID_NOT_FOUND | PRL_ERR_VM_DIRECTORY_NOT_EXIST
  | PRL_ERR_VM_DIR_CONFIG_ALREADY_EXISTS | PRL_ERR_VM_ALREADY_REGISTERED
  | PRL_ERR_VM_ALREADY_REGISTERED_UNIQUE_PARAMS | PRL_ERR_VM_ALREADY_REGISTERED_VM_NAME
  | PRL_ERR_VM_ALREADY_REGISTERED_VM_PATH | PRL_ERR_VM_ALREADY_REGISTERED_VM_UUID
  | PRL_ERR_ACCESS_TO_VM_DENIED | PRL_ERR_ACCESS_DENIED_TO_CHANGE_PERMISSIONS
  | PRL_ERR_ADMIN_CONFIRMATION_IS_REQUIRED_FOR_OPERATION
  | PRL_ERR_ADMIN_CONFIRMATION_IS_REQUIRED_FOR_VM_OPERATION
  | PRL_ERR_CANT_CHANGE_OWNER_OF_FILE
  | PRL_ERR_CANT_TO_CHANGE_PERMISSIONS_ON_REMOTE_LOCATION | PRL_ERR_VM_CONFIG_DOESNT_EXIST
  | PRL_ERR_VM_CONFIG_INVALID_SERVER_UUID | PRL_ERR_VM_CONFIG_INVALID_VM_UUID
  | PRL_ERR_NOT_LOCK_OWNER_SESSION_TRIES_TO_UNLOCK | PRL_ERR_VM_IS_EXCLUSIVELY_LOCKED
  | PRL_ERR_VM_IS_NOT_LOCKED | PRL_ERR_VM_LOCKED_CTL_FOR_BACKUP
  | PRL_ERR_VM_LOCKED_FOR_BACKUP | PRL_ERR_VM_LOCKED_FOR_CHANGE_FIREWALL
  | PRL_ERR_VM_LOCKED_FOR_CLONE | PRL_ERR_VM_LOCKED_FOR_COPY_IMAGE
  | PRL_ERR_VM_LOCKED_FOR_CREATE_SNAPSHOT | PRL_ERR_VM_LOCKED_FOR_DELETE
  | PRL_ERR_VM_LOCKED_FOR_DELETE_TO_SNAPSHOT | PRL_ERR_VM_LOCKED_FOR_DISK_COMPACT
  | PRL_ERR_VM_LOCKED_FOR_DISK_CONVERT | PRL_ERR_VM_LOCKED_FOR_DISK_RESIZE
  | PRL_ERR_VM_LOCKED_FOR_EDIT_COMMIT | PRL_ERR_VM_LOCKED_FOR_EDIT_COMMIT_WITH_RENAME
  | PRL_ERR_VM_LOCKED_FOR_EXECUTE | PRL_ERR_VM_LOCKED_FOR_EXECUTE_EX
  | PRL_ERR_VM_LOCKED_FOR_INTERNAL_REASON | PRL_ERR_VM_LOCKED_FOR_MIGRATE
  | PRL_ERR_VM_LOCKED_FOR_MOVE | PRL_ERR_VM_LOCKED_FOR_RESTORE_FROM_BACKUP
  | PRL_ERR_VM_LOCKED_FOR_SWITCH_TO_SNAPSHOT | PRL_ERR_VM_LOCKED_FOR_UNREGISTER
  | PRL_ERR_VM_LOCKED_FOR_UPDATE_SECURITY | PRL_ERR_VM_MUST_BE_STOPPED_FOR_CHANGE_DEVICES
  | PRL_ERR_CONFIG_BEGIN_EDIT_NOT_FOUND_OBJECT_UUID
  | PRL_ERR_CONFIG_BEGIN_EDIT_NOT_FOUND_USER_UUID | PRL_ERR_CPUFEATURES_DEFAULT_POOL_ARG
  | PRL_ERR_CPUFEATURES_INCOMPATIBLE_NODE | PRL_ERR_CPUFEATURES_INCORRECT_MASK
  | PRL_ERR_CPUFEATURES_NOT_IN_POOLS | PRL_ERR_CPUFEATURES_NO_BINARY
  | PRL_ERR_CPUFEATURES_POOLS_MANAGMENT | PRL_ERR_CPUFEATURES_RUNNING_VM_OR_CT
  | PRL_ERR_BUSE_ENTRY_ALREADY_EXIST | PRL_ERR_BUSE_ENTRY_ALREADY_INITIALIZED
  | PRL_ERR_BUSE_ENTRY_INVALID | PRL_ERR_BUSE_ENTRY_IO_ERROR | PRL_ERR_BUSE_INTERNAL_ERROR
  | PRL_ERR_BUSE_NOT_MOUNTED
  | PRL_ERR_VM_CONFIG_WAS_CHANGED | PRL_ERR_USER_PROFILE_WAS_CHANGED
  | PRL_ERR_COMMON_SERVER_PREFS_WERE_CHANGED
  | PRL_ERR_INCONSISTENCY_VM_CONFIG | PRL_ERR_UNEXPECTED | PRL_NET_ADAPTER_NOT_EXIST
  | PRL_NET_ERR_ETH_NO_BINDABLE_ADAPTER | PRL_NET_ERR_PRL_NO_BINDABLE_ADAPTER
  | PRL_NET_ETHLIST_CREATE_ERROR | PRL_NET_VMDEVICE_VIRTUAL_NETWORK_CONFIG_ERROR
  | PRL_NET_VMDEVICE_VIRTUAL_NETWORK_DISABLED | PRL_NET_VMDEVICE_VIRTUAL_NETWORK_NOT_EXIST
  | PRL_NET_VMDEVICE_VIRTUAL_NETWORK_NO_ADAPTER | PRL_NET_VALID_FAILURE
  | PRL_NET_VALID_WRONG_NET_MASK | PRL_NET_VALID_WRONG_HOST_IP_ADDR
  | PRL_NET_VALID_WRONG_DHCP_IP_ADDR | PRL_NET_VALID_DHCP_RANGE_WRONG_IP_ADDRS
  | PRL_NET_VALID_MISMATCH_DHCP_SCOPE_MASK | PRL_NET_VALID_DHCP_SCOPE_RANGE_LESS_MIN
  | PRL_ERR_TASK_NOT_FOUND | PRL_ERR_OPERATION_WAS_CANCELED | PRL_ERR_ATTACH_TO_TASK_BAD_SESSION
  | PRL_ERR_UNRECOGNIZED_REQUEST | PRL_ERR_ACCESS_DENIED
  | PRL_ERR_DISP_SHUTDOWN_IN_PROCESS | PRL_ERR_USER_IS_ALREADY_LOGGED
  | PRL_ERR_DISP_LOGON_ACTIONS_REACHED_UP_LIMIT | PRL_ERR_USER_OPERATION_NOT_AUTHORISED
  | PRL_ERR_PUBLIC_KEY_NOT_AUTHORIZED | PET_DSP_EVT_SMC_CANCEL_USER_COMMAND
  | PRL_ERR_UNINITIALIZED | PRL_ERR_OPERATION_FAILED | PRL_ERR_MAKE_DIRECTORY
  | PRL_ERR_CANT_REMOVE_ENTRY | PRL_ERR_CANT_RENAME_ENTRY
  | PRL_ERR_BACKUP_LOCKED_FOR_WRITING | PRL_ERR_BACKUP_LOCKED_FOR_READING
  | PRL_ERR_BACKUP_INTERNAL_ERROR | PRL_ERR_BACKUP_BACKUP_NOT_FOUND
  | PRL_ERR_BACKUP_UNSUPPORTED_KEEP_CHAIN | PRL_ERR_BACKUP_CANNOT_REMOVE_DIRECTORY
  | PRL_ERR_BACKUP_BACKUP_UUID_NOT_FOUND | PRL_ERR_ATTACH_BACKUP_URL_CHANGE_PROHIBITED
  | PRL_ERR_ATTACH_BACKUP_ALREADY_ATTACHED
  | PRL_ERR_OTHER nat

text \<open>
  \<^verbatim>\<open>PRL_SUCCEEDED\<close> and \<^verbatim>\<open>PRL_FAILED\<close> of the SDK: the only code of this enumeration
  that is not a failure is \<open>PRL_ERR_SUCCESS\<close>.
\<close>

definition prl_failed :: "prl_result \<Rightarrow> bool" where
  "prl_failed r \<longleftrightarrow> r \<noteq> PRL_ERR_SUCCESS"

abbreviation prl_succeeded :: "prl_result \<Rightarrow> bool" where
  "prl_succeeded r \<equiv> \<not> prl_failed r"

lemma prl_failed_simps [simp]:
  "\<not> prl_failed PRL_ERR_SUCCESS"
  "prl_failed PRL_ERR_FAILURE"
  "prl_failed (PRL_ERR_OTHER n)"
  by (simp_all add: prl_failed_def)

end
