(* ===== verification/Prelude.thy ===== *)
theory Prelude
  imports Main PrlResult
begin

text \<open>
  What every component theory shares: names for the Qt value types, the collections of facts
  that the component proofs pass to the simplifier, and lemmas on lists and finite maps that
  more than one component needs.

  Qt's value types are modelled by their documented values: a \<^verbatim>\<open>QString\<close> is a \<open>string\<close>
  (its null and its empty value are not distinguished by the code modelled here), a
  \<^verbatim>\<open>QList\<close> a list, a \<^verbatim>\<open>QSet\<close> a set, a \<^verbatim>\<open>QHash\<close> or \<^verbatim>\<open>QMap\<close> a finite map.
\<close>

type_synonym qstring = string
type_synonym uuid = string

text \<open>A VM identification \<^verbatim>\<open>CVmIdent\<close> is the pair of the VM's and the directory's uuid.\<close>

type_synonym vm_ident = "uuid \<times> uuid"

named_theorems frame_simps \<open>fields that an operation leaves alone\<close>
named_theorems inv_intros \<open>operations keep the component's invariant\<close>


section \<open>Removing the first element that satisfies a predicate\<close>

text \<open>
  The loop \<^verbatim>\<open>while (it.hasNext()) { if (p(it.next())) { it.remove(); break; } }\<close> over a
  mutable Qt iterator, used by several components.
\<close>

fun erase_first :: "('a \<Rightarrow> bool) \<Rightarrow> 'a list \<Rightarrow> 'a list" where
  "erase_first P [] = []"
| "erase_first P (x # xs) = (if P x then xs else x # erase_first P xs)"

lemma erase_first_none [simp]: "\<forall>x \<in> set xs. \<not> P x \<Longrightarrow> erase_first P xs = xs"
  by (induction xs) auto

lemma set_erase_first: "set (erase_first P xs) \<subseteq> set xs"
  by (induction xs) auto

lemma set_erase_first_D: "x \<in> set (erase_first P xs) \<Longrightarrow> x \<in> set xs"
  using set_erase_first by fastforce

lemma set_erase_first_keep: "x \<in> set xs \<Longrightarrow> \<not> P x \<Longrightarrow> x \<in> set (erase_first P xs)"
  by (induction xs) auto

lemma length_erase_first:
  "\<exists>x \<in> set xs. P x \<Longrightarrow> Suc (length (erase_first P xs)) = length xs"
  by (induction xs) auto

lemma erase_first_append:
  "erase_first P (xs @ ys) =
     (if \<exists>x \<in> set xs. P x then erase_first P xs @ ys else xs @ erase_first P ys)"
  by (induction xs) auto

lemma filter_erase_first_other:
  "(\<And>x. P x \<Longrightarrow> \<not> Q x) \<Longrightarrow> filter Q (erase_first P xs) = filter Q xs"
  by (induction xs) auto

lemma sorted_wrt_erase_first: "sorted_wrt R xs \<Longrightarrow> sorted_wrt R (erase_first P xs)"
  by (induction xs) (auto dest: set_erase_first_D)

lemma distinct_erase_first: "distinct xs \<Longrightarrow> distinct (erase_first P xs)"
  by (induction xs) (auto dest: set_erase_first_D)

lemma distinct_map_erase_first:
  "distinct (map f xs) \<Longrightarrow> distinct (map f (erase_first P xs))"
  by (induction xs) (auto dest: set_erase_first_D)

lemma find_Some_in: "find P xs = Some x \<Longrightarrow> x \<in> set xs \<and> P x"
  by (induction xs) (auto split: if_splits)


lemma at_most_one_filter:
  assumes "sorted_wrt R xs" "\<And>x y. P x \<Longrightarrow> P y \<Longrightarrow> \<not> R x y"
  shows "length (filter P xs) \<le> 1"
proof -
  have "sorted_wrt R (filter P xs)" using assms(1) by (rule sorted_wrt_filter)
  moreover have "\<forall>x \<in> set (filter P xs). P x" by simp
  ultimately show ?thesis
    using assms(2) by (cases "filter P xs" rule: remdups_adj.cases) auto
qed

lemma filter_erase_first_hit:
  assumes "x \<in> set xs" "Q x" "\<And>x. Q x \<Longrightarrow> P x"
  shows "Suc (length (filter P (erase_first Q xs))) = length (filter P xs)"
  using assms by (induction xs) auto


section \<open>Splitting text\<close>

text \<open>\<^verbatim>\<open>QString::split\<close> at a character; an empty string has one, empty, part.\<close>

fun split_on :: "char \<Rightarrow> qstring \<Rightarrow> qstring list" where
  "split_on c [] = [[]]"
| "split_on c (x # xs) =
     (if x = c then [] # split_on c xs
      else (case split_on c xs of [] \<Rightarrow> [[x]] | p # ps \<Rightarrow> (x # p) # ps))"

lemma split_on_nonempty [simp]: "split_on c xs \<noteq> []"
  by (induction xs) (auto split: list.split)

lemma split_on_none [simp]: "c \<notin> set xs \<Longrightarrow> split_on c xs = [xs]"
  by (induction xs) auto

lemma split_on_append [simp]: "c \<notin> set xs \<Longrightarrow> split_on c (xs @ c # ys) = xs # split_on c ys"
  by (induction xs) (auto split: list.split)


section \<open>Finite maps\<close>

lemma map_upd_Some_other [simp]: "k' \<noteq> k \<Longrightarrow> (m(k \<mapsto> v)) k' = m k'"
  by simp

lemma dom_restrict_conv: "(m |` A) k = Some v \<longleftrightarrow> k \<in> A \<and> m k = Some v"
  by (auto simp: restrict_map_def)

end
