(* ===== verification/VmLocksInterface.thy ===== *)
theory VmLocksInterface
  imports Prelude
begin

text \<open>
  The interface through which the rest of the dispatcher sees exclusive VM locks: a session takes
  the lock of a VM, gives it back, and anybody may ask which session holds it (the empty handle:
  nobody).  \<^verbatim>\<open>CDspVmDirHelper\<close> provides it; the access manager and the VM tools use it.
\<close>

locale vm_locks =
  fixes good :: "'s \<Rightarrow> bool"
    and acquire :: "'k \<Rightarrow> qstring \<Rightarrow> 's \<Rightarrow> prl_result \<times> 's"
    and release :: "'k \<Rightarrow> qstring \<Rightarrow> 's \<Rightarrow> prl_result \<times> 's"
    and holder :: "'k \<Rightarrow> 's \<Rightarrow> qstring"
  assumes good_acquire: "good s \<Longrightarrow> good (snd (acquire k h s))"
    and good_release: "good s \<Longrightarrow> good (snd (release k h s))"
    and acquire_success:
      "good s \<Longrightarrow> fst (acquire k h s) = PRL_ERR_SUCCESS \<Longrightarrow>
         holder k s = [] \<and> holder k (snd (acquire k h s)) = h"
    and acquire_failure:
      "good s \<Longrightarrow> fst (acquire k h s) \<noteq> PRL_ERR_SUCCESS \<Longrightarrow> holder k (snd (acquire k h s)) = holder k s"
    and acquire_frame: "k' \<noteq> k \<Longrightarrow> holder k' (snd (acquire k h s)) = holder k' s"
    and release_owner:
      "good s \<Longrightarrow> h \<noteq> [] \<Longrightarrow> holder k s = h \<Longrightarrow>
         fst (release k h s) = PRL_ERR_SUCCESS \<and> holder k (snd (release k h s)) = []"
    and release_other:
      "good s \<Longrightarrow> h \<noteq> [] \<Longrightarrow> holder k s \<noteq> h \<Longrightarrow>
         fst (release k h s) \<noteq> PRL_ERR_SUCCESS \<and> holder k (snd (release k h s)) = holder k s"
    and release_frame: "k' \<noteq> k \<Longrightarrow> holder k' (snd (release k h s)) = holder k' s"

text \<open>Requests of several sessions, as they arrive.\<close>

datatype 'k lock_request = LockRequest 'k qstring | UnlockRequest 'k qstring

primrec requester :: "'k lock_request \<Rightarrow> qstring" where
  "requester (LockRequest k h) = h"
| "requester (UnlockRequest k h) = h"

context vm_locks
begin

primrec serve :: "'k lock_request \<Rightarrow> 's \<Rightarrow> 's" where
  "serve (LockRequest k h) s = snd (acquire k h s)"
| "serve (UnlockRequest k h) s = snd (release k h s)"

lemma good_serve: "good s \<Longrightarrow> good (serve r s)"
  by (cases r) (auto intro: good_acquire good_release)

lemma holder_acquire_held:
  assumes "good s" "holder k s = h" "h \<noteq> []"
  shows "fst (acquire k h' s) \<noteq> PRL_ERR_SUCCESS" "holder k (snd (acquire k h' s)) = h"
proof -
  from assms acquire_success [of s k h'] show f: "fst (acquire k h' s) \<noteq> PRL_ERR_SUCCESS" by auto
  with assms acquire_failure show "holder k (snd (acquire k h' s)) = h" by blast
qed

lemma holder_serve:
  assumes "good s" "holder k s = h" "h \<noteq> []" "requester r \<noteq> h" "requester r \<noteq> []"
  shows "holder k (serve r s) = h"
proof (cases r)
  case (LockRequest k' h')
  with assms holder_acquire_held acquire_frame [of k k' h' s] show ?thesis
    by (cases "k' = k") auto
next
  case (UnlockRequest k' h')
  with assms release_other [of s h' k] release_frame [of k k' h' s] show ?thesis
    by (cases "k' = k") auto
qed

lemma lock_survives:
  assumes "good s" "holder k s = h" "h \<noteq> []" "\<forall>r \<in> set rs. requester r \<noteq> h \<and> requester r \<noteq> []"
  shows "holder k (fold serve rs s) = h" "good (fold serve rs s)"
  using assms by (induction rs arbitrary: s) (auto simp: holder_serve good_serve)

lemma lock_then_unlock:
  assumes "good s" "fst (acquire k h s) = PRL_ERR_SUCCESS" "h \<noteq> []"
    and "\<forall>r \<in> set rs. requester r \<noteq> h \<and> requester r \<noteq> []"
  defines "t \<equiv> fold serve rs (snd (acquire k h s))"
  shows "fst (release k h t) = PRL_ERR_SUCCESS" "holder k (snd (release k h t)) = []"
proof -
  have "holder k t = h \<and> good t"
    unfolding t_def using assms(1-4) acquire_success [of s k h] good_acquire [of s k h]
    by (auto simp: lock_survives)
  with release_owner [of t h k] assms(3)
  show "fst (release k h t) = PRL_ERR_SUCCESS" "holder k (snd (release k h t)) = []" by auto
qed

end

end
