(* ===== verification/DspCommands.thy ===== *)
theory DspCommands
  imports Main
begin

text \<open>
  The dispatcher commands of \<^verbatim>\<open>PVE::IDispatcherCommands\<close> that the modelled code names.
  The enumeration itself is declared in an SDK header that is not part of the repository; only
  the distinctness of its members is used.  \<open>DspCmdOther\<close> stands for every command that the
  modelled code does not name and therefore treats in its \<^verbatim>\<open>default\<close> branches.
\<close>

datatype (plugins only: size) dsp_cmd =
    DspCmdCreateVmBackup | DspCmdCtConvert | DspCmdCtlApplyVmConfig | DspCmdCtlCreateVmBackup
  | DspCmdCtlMigrateTarget | DspCmdCtlStartMigratedVm | DspCmdCtlUpdateShadowVm
  | DspCmdCtlVmCommitDiskUnfinished | DspCmdCtlVmEditBootcampReconfigure
  | DspCmdCtlVmEditFirewall | DspCmdCtlVmEditWithHardwareChanged | DspCmdCtlVmEditWithRename
  | DspCmdDirCopyImage | DspCmdDirCreateImage | DspCmdDirGetVmList | DspCmdDirRegVm
  | DspCmdDirRestoreVm | DspCmdDirUnregVm | DspCmdDirVmClone | DspCmdDirVmCloneLinked
  | DspCmdDirVmCreate | DspCmdDirVmDelete | DspCmdDirVmEditBegin | DspCmdDirVmEditCommit
  | DspCmdDirVmMigrate | DspCmdDirVmMigrateClone | DspCmdDirVmMove | DspCmdGetVmInfo
  | DspCmdGetVmToolsInfo | DspCmdHostCommonInfoBeginEdit | DspCmdHostCommonInfoCommit
  | DspCmdPerfomanceStatistics | DspCmdRestoreVmBackup | DspCmdSendProblemReport
  | DspCmdUserProfileBeginEdit | DspCmdUserProfileCommit | DspCmdVmAnswer
  | DspCmdVmCancelCompact | DspCmdVmCancelCompressor | DspCmdVmChangeLogLevel
  | DspCmdVmChangeSid | DspCmdVmCommitEncryption | DspCmdVmCompact | DspCmdVmConvertDisks
  | DspCmdVmCreateSnapshot | DspCmdVmDeleteSnapshot | DspCmdVmDevConnect
  | DspCmdVmDevDisconnect | DspCmdVmDropSuspendedState | DspCmdVmGetConfig
  | DspCmdVmGetPackedProblemReport | DspCmdVmGetProblemReport | DspCmdVmGetStatistics
  | DspCmdVmGetSuspendedScreen | DspCmdVmInitiateDevStateNotifications
  | DspCmdVmInstallTools | DspCmdVmInstallUtility | DspCmdVmInternal | DspCmdVmLock
  | DspCmdVmMount | DspCmdVmPause | DspCmdVmRemoveProtection | DspCmdVmReset
  | DspCmdVmResetUptime | DspCmdVmResizeDisk | DspCmdVmRestartGuest | DspCmdVmResume
  | DspCmdVmRunCompressor | DspCmdVmSetProtection | DspCmdVmStart | DspCmdVmStartEx
  | DspCmdVmStartVNCServer | DspCmdVmStop | DspCmdVmStopVNCServer | DspCmdVmStorageSetValue
  | DspCmdVmSubscribeToGuestStatistics | DspCmdVmSuspend | DspCmdVmSuspendCancel
  | DspCmdVmSwitchToSnapshot | DspCmdVmUmount | DspCmdVmUnlock
  | DspCmdVmUnsubscribeFromGuestStatistics | DspCmdVmUpdateNvram | DspCmdVmUpdateSecurity
  | DspCmdVmUpdateSnapshotData | DspCmdVmUpdateToolsSection
  | DspCmdOther nat

end
