(* ===== verification/ExclusiveOps.thy ===== *)
theory ExclusiveOps
  imports VmLocksInterface DspCommands "HOL-Library.AList"
begin

text \<open>
  The exclusive VM operations of \<^verbatim>\<open>CDspVmDirHelper\<close> (\<^verbatim>\<open>Task::Vm::Exclusive\<close> and
  \<^verbatim>\<open>CDspVmDirHelper::ExclusiveVmOperations\<close>): which commands may run on one VM at the same
  time, the table of running operations, and the blocking registration loop.

  A \<^verbatim>\<open>Gang\<close> is the set of operations running on one VM.  Its \<^verbatim>\<open>QMultiHash\<close> is a list in
  iteration order: Qt puts a new entry before the entries with an equal key and leaves the order
  between different keys unspecified; the model puts it in front.  The condition variable a gang
  shares with its waiters is an identifier into a table of flags.
\<close>

section \<open>Units of work\<close>

record op_unit =
  getTaskId :: qstring
  getSession :: qstring
  getCommand :: dsp_cmd

text \<open>The sets of \<^verbatim>\<open>struct Reference\<close>.\<close>

definition m_clones :: "dsp_cmd list" where
  "m_clones = [DspCmdDirVmClone, DspCmdDirVmMigrateClone]"

definition m_snapshots :: "dsp_cmd list" where
  "m_snapshots = [DspCmdVmCreateSnapshot, DspCmdVmDeleteSnapshot, DspCmdVmSwitchToSnapshot,
     DspCmdVmUpdateSnapshotData, DspCmdCtlVmCommitDiskUnfinished]"

definition m_backupConflicts :: "dsp_cmd list" where
  "m_backupConflicts = [DspCmdCreateVmBackup, DspCmdRestoreVmBackup, DspCmdDirVmDelete,
     DspCmdDirVmMigrate, DspCmdDirVmMigrateClone, DspCmdDirUnregVm, DspCmdVmCompact,
     DspCmdVmResizeDisk, DspCmdCtlVmEditWithRename, DspCmdVmConvertDisks, DspCmdDirVmMove]"

definition m_snapshotConflicts :: "dsp_cmd list" where
  "m_snapshotConflicts = [DspCmdDirVmClone, DspCmdDirVmCloneLinked, DspCmdDirVmMigrate,
     DspCmdDirVmMigrateClone, DspCmdDirVmDelete, DspCmdDirUnregVm, DspCmdDirVmEditCommit,
     DspCmdCtlVmEditWithRename, DspCmdCtlVmEditWithHardwareChanged, DspCmdCtlVmEditFirewall,
     DspCmdCreateVmBackup, DspCmdRestoreVmBackup, DspCmdVmResizeDisk, DspCmdVmCompact,
     DspCmdVmConvertDisks, DspCmdDirCopyImage, DspCmdDirVmMove]"

definition isClone :: "dsp_cmd \<Rightarrow> bool" where
  "isClone q \<longleftrightarrow> q \<in> set m_clones"

definition isSnapshot :: "dsp_cmd \<Rightarrow> bool" where
  "isSnapshot q \<longleftrightarrow> q \<in> set m_snapshots"

definition hasBackupConflict :: "dsp_cmd \<Rightarrow> bool" where
  "hasBackupConflict q \<longleftrightarrow> q \<in> set m_backupConflicts"

definition hasSnapshotConflict :: "dsp_cmd \<Rightarrow> bool" where
  "hasSnapshotConflict q \<longleftrightarrow> q \<in> set m_snapshotConflicts"

lemmas reference_defs = m_clones_def m_snapshots_def m_backupConflicts_def
  m_snapshotConflicts_def isClone_def isSnapshot_def hasBackupConflict_def
  hasSnapshotConflict_def


section \<open>Which operations are reconciled\<close>

text \<open>
  \<^verbatim>\<open>boost::logic::tribool\<close> is \<open>bool option\<close>; \<^verbatim>\<open>indeterminate\<close> is \<open>None\<close>.  The
  part common to both sides, \<^verbatim>\<open>Unit::isReconciled\<close>: \<open>me\<close> is the object, \<open>party\<close> the
  argument.
\<close>

definition unit_isReconciled :: "op_unit \<Rightarrow> op_unit \<Rightarrow> bool option" where
  "unit_isReconciled me party =
     (let x = getCommand party; c = getCommand me in
      if x = c then
        (if x \<in> {DspCmdDirVmClone, DspCmdDirCopyImage, DspCmdDirVmMigrateClone}
         then Some True else Some False)
      else if c = DspCmdDirVmEditCommit then
        (if x \<in> {DspCmdVmStart, DspCmdVmResume, DspCmdVmStartEx} then Some True else None)
      else if c = DspCmdVmCompact then
        (if x = DspCmdVmStartEx then Some True else None)
      else if c \<in> {DspCmdCtlVmEditFirewall, DspCmdCtlVmEditBootcampReconfigure,
                   DspCmdCtlVmEditWithHardwareChanged} then
        (if x = DspCmdVmStartEx then None else Some True)
      else if isClone c \<and> isClone x then Some True
      else None)"

text \<open>
  \<^verbatim>\<open>Newcomer::isReconciled\<close>: the operation that asks to run against one that is running.
  A \<^verbatim>\<open>case\<close> that leaves the switch with \<^verbatim>\<open>break\<close> is indeterminate.
\<close>

definition newcomer_isReconciled :: "op_unit \<Rightarrow> op_unit \<Rightarrow> bool option" where
  "newcomer_isReconciled me native =
     (case unit_isReconciled me native of
        Some b \<Rightarrow> Some b
      | None \<Rightarrow>
        (let x = getCommand native; c = getCommand me in
         if c \<in> {DspCmdVmLock, DspCmdVmStop} then
           (if x = DspCmdVmStartEx then Some True
            else Some (getSession me = getSession native))
         else if c = DspCmdDirVmEditCommit then
           (if x = DspCmdVmCompact then Some True else None)
         else if c = DspCmdCtlApplyVmConfig then
           (if x \<in> {DspCmdVmLock, DspCmdDirVmMove, DspCmdDirVmMigrate}
            then Some False else Some True)
         else if c = DspCmdCtlVmEditWithRename then
           (if x = DspCmdDirVmEditCommit then Some True else None)
         else if c \<in> {DspCmdDirVmMove, DspCmdDirVmMigrate, DspCmdDirVmMigrateClone,
                      DspCmdVmCompact, DspCmdCreateVmBackup, DspCmdCtlUpdateShadowVm} then
           (if x = DspCmdVmStartEx then Some True else None)
         else if c = DspCmdRestoreVmBackup then
           (if x \<in> {DspCmdVmStart, DspCmdVmResume, DspCmdVmStartEx} then Some False
            else Some (\<not> hasBackupConflict x))
         else if c \<in> {DspCmdVmCreateSnapshot, DspCmdVmDeleteSnapshot,
                      DspCmdVmSwitchToSnapshot, DspCmdCtlVmCommitDiskUnfinished} then
           Some (\<not> hasSnapshotConflict x)
         else if c = DspCmdVmResizeDisk then
           (if x = DspCmdVmStartEx then Some True
            else if x = DspCmdDirVmEditCommit \<and> getTaskId me = getTaskId native
            then Some True else None)
         else if c = DspCmdVmStartEx then
           (if x \<in> {DspCmdVmStart, DspCmdVmResume, DspCmdDirVmMigrate,
                    DspCmdDirVmMigrateClone, DspCmdVmSwitchToSnapshot}
            then Some True else None)
         else None))"

text \<open>
  \<^verbatim>\<open>Native::isReconciled\<close>: a running operation decides whether a newcomer may join it.
  What nobody decides is a conflict.
\<close>

definition native_isReconciled :: "op_unit \<Rightarrow> op_unit \<Rightarrow> bool" where
  "native_isReconciled me newcomer =
     (case unit_isReconciled me newcomer of
        Some b \<Rightarrow> b
      | None \<Rightarrow>
        (case newcomer_isReconciled newcomer me of
           Some b \<Rightarrow> b
         | None \<Rightarrow>
           (let x = getCommand newcomer; c = getCommand me in
            if c = DspCmdVmLock then getSession me = getSession newcomer
            else if c = DspCmdCreateVmBackup then
              (if x = DspCmdVmCreateSnapshot \<and> getTaskId me = getTaskId newcomer then True
               else \<not> hasBackupConflict x)
            else if c = DspCmdRestoreVmBackup then
              (if x \<in> {DspCmdVmStart, DspCmdVmResume} then False
               else \<not> (hasBackupConflict x \<or> isSnapshot x))
            else if c = DspCmdVmStartEx then x = DspCmdVmResume
            else False)))"

lemmas reconciled_defs = unit_isReconciled_def newcomer_isReconciled_def
  native_isReconciled_def Let_def

section \<open>Conflicts and gangs\<close>

record conflict =
  m_pending :: op_unit
  m_running :: op_unit
  m_resolved :: nat

record gang =
  m_resolver :: nat
  m_store :: "op_unit list"

text \<open>\<^verbatim>\<open>Conflict::getResult\<close>: the error names the operation that is running.\<close>

definition conflict_getResult :: "conflict \<Rightarrow> prl_result" where
  "conflict_getResult x =
     (let c = getCommand (m_running x) in
      if c \<in> {DspCmdDirVmClone, DspCmdDirVmCloneLinked} then PRL_ERR_VM_LOCKED_FOR_CLONE
      else if c = DspCmdDirVmDelete then PRL_ERR_VM_LOCKED_FOR_DELETE
      else if c = DspCmdDirUnregVm then PRL_ERR_VM_LOCKED_FOR_UNREGISTER
      else if c \<in> {DspCmdDirVmEditCommit, DspCmdCtlApplyVmConfig}
        then PRL_ERR_VM_LOCKED_FOR_EDIT_COMMIT
      else if c = DspCmdVmStart then PRL_ERR_VM_LOCKED_FOR_EXECUTE
      else if c = DspCmdVmStartEx then PRL_ERR_VM_LOCKED_FOR_EXECUTE_EX
      else if c = DspCmdDirVmMigrate then PRL_ERR_VM_LOCKED_FOR_MIGRATE
      else if c = DspCmdDirVmMigrateClone then PRL_ERR_VM_LOCKED_FOR_MIGRATE
      else if c = DspCmdCtlVmEditWithRename then PRL_ERR_VM_LOCKED_FOR_EDIT_COMMIT_WITH_RENAME
      else if c = DspCmdVmUpdateSecurity then PRL_ERR_VM_LOCKED_FOR_UPDATE_SECURITY
      else if c \<in> {DspCmdCtlVmEditWithHardwareChanged, DspCmdCtlVmEditBootcampReconfigure}
        then PRL_ERR_VM_MUST_BE_STOPPED_FOR_CHANGE_DEVICES
      else if c = DspCmdVmCreateSnapshot then PRL_ERR_VM_LOCKED_FOR_CREATE_SNAPSHOT
      else if c = DspCmdVmSwitchToSnapshot then PRL_ERR_VM_LOCKED_FOR_SWITCH_TO_SNAPSHOT
      else if c \<in> {DspCmdVmDeleteSnapshot, DspCmdCtlVmCommitDiskUnfinished}
        then PRL_ERR_VM_LOCKED_FOR_DELETE_TO_SNAPSHOT
      else if c = DspCmdCreateVmBackup then PRL_ERR_VM_LOCKED_FOR_BACKUP
      else if c = DspCmdCtlCreateVmBackup then PRL_ERR_VM_LOCKED_CTL_FOR_BACKUP
      else if c = DspCmdRestoreVmBackup then PRL_ERR_VM_LOCKED_FOR_RESTORE_FROM_BACKUP
      else if c = DspCmdVmLock then PRL_ERR_VM_IS_EXCLUSIVELY_LOCKED
      else if c = DspCmdVmResizeDisk then PRL_ERR_VM_LOCKED_FOR_DISK_RESIZE
      else if c = DspCmdVmCompact then PRL_ERR_VM_LOCKED_FOR_DISK_COMPACT
      else if c = DspCmdVmConvertDisks then PRL_ERR_VM_LOCKED_FOR_DISK_CONVERT
      else if c = DspCmdCtlVmEditFirewall then PRL_ERR_VM_LOCKED_FOR_CHANGE_FIREWALL
      else if c = DspCmdDirCopyImage then PRL_ERR_VM_LOCKED_FOR_COPY_IMAGE
      else if c = DspCmdDirVmMove then PRL_ERR_VM_LOCKED_FOR_MOVE
      else PRL_ERR_VM_LOCKED_FOR_INTERNAL_REASON)"

text \<open>
  \<^verbatim>\<open>Gang::join\<close>: \<open>Inl\<close> is the conflict with the first running operation that does not
  accept the newcomer, \<open>Inr\<close> the gang with the newcomer in it.
\<close>

definition gang_join :: "op_unit \<Rightarrow> gang \<Rightarrow> conflict + gang" where
  "gang_join party g =
     (case find (\<lambda>x. \<not> native_isReconciled x party) (m_store g) of
        Some x \<Rightarrow> Inl \<lparr>m_pending = party, m_running = x, m_resolved = m_resolver g\<rparr>
      | None \<Rightarrow> Inr (g\<lparr>m_store := party # m_store g\<rparr>))"

text \<open>
  The two \<^verbatim>\<open>Gang::eraseFirst\<close> overloads: \<open>None\<close> is \<^verbatim>\<open>false\<close>; otherwise the gang
  without the entry, and the resolver's flag set for the threads that wait on it.
\<close>

type_synonym flags = "nat \<Rightarrow> bool"

definition gang_erase :: "(op_unit \<Rightarrow> bool) \<Rightarrow> gang \<Rightarrow> flags \<Rightarrow> (gang \<times> flags) option" where
  "gang_erase P g f =
     (if \<exists>u \<in> set (m_store g). P u
      then Some (g\<lparr>m_store := erase_first P (m_store g)\<rparr>, f(m_resolver g := True))
      else None)"

definition gang_eraseFirst :: "dsp_cmd \<Rightarrow> gang \<Rightarrow> flags \<Rightarrow> (gang \<times> flags) option" where
  "gang_eraseFirst c = gang_erase (\<lambda>u. getCommand u = c)"

definition gang_eraseFirst_session ::
  "dsp_cmd \<Rightarrow> qstring \<Rightarrow> gang \<Rightarrow> flags \<Rightarrow> (gang \<times> flags) option" where
  "gang_eraseFirst_session c h = gang_erase (\<lambda>u. getCommand u = c \<and> getSession u = h)"

definition gang_findFirst :: "dsp_cmd \<Rightarrow> gang \<Rightarrow> op_unit option" where
  "gang_findFirst c g = find (\<lambda>u. getCommand u = c) (m_store g)"

definition gang_isEmpty :: "gang \<Rightarrow> bool" where
  "gang_isEmpty g \<longleftrightarrow> m_store g = []"


section \<open>The table of running operations\<close>

record ops_table =
  m_opHash :: "(qstring \<times> gang) list"
  event_flags :: flags
  next_event :: nat

definition makeKey :: "uuid \<Rightarrow> uuid \<Rightarrow> qstring" where
  "makeKey vmUuid vmDirUuid = vmUuid @ vmDirUuid"

text \<open>The commands that \<^verbatim>\<open>registerOp\<close> accepts.\<close>

definition registerOp_supported :: "dsp_cmd list" where
  "registerOp_supported =
     [DspCmdDirVmClone, DspCmdDirVmCloneLinked, DspCmdDirVmMigrate, DspCmdDirVmMigrateClone,
      DspCmdDirVmDelete, DspCmdDirUnregVm, DspCmdVmStop, DspCmdVmStart, DspCmdVmStartEx,
      DspCmdDirVmEditCommit, DspCmdVmDropSuspendedState, DspCmdCtlVmEditWithRename,
      DspCmdVmUpdateSecurity, DspCmdCtlVmEditWithHardwareChanged, DspCmdCtlVmEditFirewall,
      DspCmdCtlVmEditBootcampReconfigure, DspCmdVmCreateSnapshot, DspCmdVmSwitchToSnapshot,
      DspCmdVmDeleteSnapshot, DspCmdCreateVmBackup, DspCmdRestoreVmBackup, DspCmdVmResizeDisk,
      DspCmdVmCompact, DspCmdVmLock, DspCmdVmUpdateSnapshotData, DspCmdVmConvertDisks,
      DspCmdVmMount, DspCmdVmUmount, DspCmdDirCopyImage, DspCmdDirVmMove,
      DspCmdCtlVmCommitDiskUnfinished, DspCmdVmResume, DspCmdCtlApplyVmConfig, DspCmdCtConvert]"

text \<open>
  One iteration of the loop in \<^verbatim>\<open>registerOp\<close> up to the call of \<^verbatim>\<open>join\<close>: a VM
  without a gang gets one with an event of its own.
\<close>

definition registerOp_try ::
  "qstring \<Rightarrow> op_unit \<Rightarrow> ops_table \<Rightarrow> conflict option \<times> ops_table" where
  "registerOp_try key u s =
     (let s' = (if map_of (m_opHash s) key = None
                then s\<lparr>m_opHash := AList.update key
                          \<lparr>m_resolver = next_event s, m_store = []\<rparr> (m_opHash s),
                        event_flags := (event_flags s)(next_event s := False),
                        next_event := Suc (next_event s)\<rparr>
                else s);
          g = the (map_of (m_opHash s') key)
      in case gang_join u g of
           Inl c \<Rightarrow> (Some c, s')
         | Inr g' \<Rightarrow> (None, s'\<lparr>m_opHash := AList.update key g' (m_opHash s')\<rparr>))"

text \<open>
  The environment of one blocked iteration: the milliseconds on \<^verbatim>\<open>b.elapsed()\<close>, what the
  other threads do to the table while the mutex is released, and whether
  \<^verbatim>\<open>QWaitCondition::wait\<close> was woken or timed out.
\<close>

record wait_round =
  elapsed :: nat
  others :: "ops_table \<Rightarrow> ops_table"
  woken :: bool

definition TIMEOUT :: nat where
  "TIMEOUT = 30000"

definition event_wait :: "bool \<Rightarrow> nat \<Rightarrow> ops_table \<Rightarrow> prl_result \<times> ops_table" where
  "event_wait w e s =
     (if \<not> w then (PRL_ERR_TIMEOUT, s)
      else if \<not> event_flags s e then (PRL_ERR_OPERATION_PENDING, s)
      else (PRL_ERR_SUCCESS, s\<lparr>event_flags := (event_flags s)(e := False)\<rparr>))"

text \<open>
  \<^verbatim>\<open>Conflict::operator()\<close>: a conflict within one task fails at once; any other waits, and
  a failed wait is only logged.
\<close>

definition conflict_call ::
  "conflict \<Rightarrow> wait_round \<Rightarrow> ops_table \<Rightarrow> prl_result \<times> ops_table" where
  "conflict_call x r s =
     (if getTaskId (m_pending x) \<noteq> [] \<and> getTaskId (m_pending x) = getTaskId (m_running x)
      then (conflict_getResult x, s)
      else (PRL_ERR_SUCCESS, snd (event_wait (woken r) (m_resolved x) (others r s))))"

text \<open>
  The \<^verbatim>\<open>forever\<close> loop over the rounds the environment offers; \<open>None\<close>: still blocked when
  they are used up.
\<close>

fun registerOp_loop ::
  "wait_round list \<Rightarrow> qstring \<Rightarrow> op_unit \<Rightarrow> ops_table \<Rightarrow> (prl_result \<times> ops_table) option" where
  "registerOp_loop rs key u s =
     (case registerOp_try key u s of
        (None, s') \<Rightarrow> Some (PRL_ERR_SUCCESS, s')
      | (Some x, s') \<Rightarrow>
          (case rs of
             [] \<Rightarrow> None
           | r # rs' \<Rightarrow>
               if 2 * TIMEOUT \<le> elapsed r then Some (conflict_getResult x, s')
               else (case conflict_call x r s' of
                       (e, s'') \<Rightarrow> if prl_failed e then Some (e, s'')
                                  else registerOp_loop rs' key u s'')))"

declare registerOp_loop.simps [simp del]

definition registerOp ::
  "wait_round list \<Rightarrow> uuid \<Rightarrow> uuid \<Rightarrow> dsp_cmd \<Rightarrow> qstring \<Rightarrow> qstring \<Rightarrow> ops_table \<Rightarrow>
   (prl_result \<times> ops_table) option" where
  "registerOp rs vmUuid vmDirUuid cmd hSession sTaskId s =
     (if cmd \<notin> set registerOp_supported then Some (PRL_ERR_INVALID_ARG, s)
      else registerOp_loop rs (makeKey vmUuid vmDirUuid)
             \<lparr>getTaskId = sTaskId, getSession = hSession, getCommand = cmd\<rparr> s)"

text \<open>The label \<^verbatim>\<open>ok\<close> of \<^verbatim>\<open>unregisterOp\<close>: an empty gang leaves the table.\<close>

definition store_gang :: "qstring \<Rightarrow> gang \<times> flags \<Rightarrow> ops_table \<Rightarrow> ops_table" where
  "store_gang key gf s =
     s\<lparr>m_opHash := (if gang_isEmpty (fst gf) then AList.delete key (m_opHash s)
                    else AList.update key (fst gf) (m_opHash s)),
       event_flags := snd gf\<rparr>"

definition unregisterOp ::
  "uuid \<Rightarrow> uuid \<Rightarrow> dsp_cmd \<Rightarrow> qstring \<Rightarrow> ops_table \<Rightarrow> prl_result \<times> ops_table" where
  "unregisterOp vmUuid vmDirUuid cmd hSession s =
     (let key = makeKey vmUuid vmDirUuid;
          failed = (if cmd = DspCmdVmLock then PRL_ERR_VM_IS_NOT_LOCKED else PRL_ERR_FAILURE) in
      case map_of (m_opHash s) key of
        None \<Rightarrow> (failed, s)
      | Some g \<Rightarrow>
          if cmd = DspCmdVmLock then
            (case gang_eraseFirst_session DspCmdVmLock hSession g (event_flags s) of
               None \<Rightarrow> (PRL_ERR_NOT_LOCK_OWNER_SESSION_TRIES_TO_UNLOCK, s)
             | Some gf \<Rightarrow> (PRL_ERR_SUCCESS, store_gang key gf s))
          else
            (case gang_eraseFirst cmd g (event_flags s) of
               None \<Rightarrow> (failed, s)
             | Some gf \<Rightarrow> (PRL_ERR_SUCCESS, store_gang key gf s)))"

definition replaceOp ::
  "uuid \<Rightarrow> uuid \<Rightarrow> dsp_cmd \<Rightarrow> dsp_cmd \<Rightarrow> qstring \<Rightarrow> ops_table \<Rightarrow> prl_result \<times> ops_table" where
  "replaceOp vmUuid vmDirUuid fromCmd toCmd hSession s =
     (let key = makeKey vmUuid vmDirUuid in
      case map_of (m_opHash s) key of
        None \<Rightarrow> (PRL_ERR_FAILURE, s)
      | Some g \<Rightarrow>
          (case gang_findFirst fromCmd g of
             None \<Rightarrow> (PRL_ERR_FAILURE, s)
           | Some f \<Rightarrow>
               (let u = \<lparr>getTaskId = getTaskId f, getSession = hSession, getCommand = toCmd\<rparr>;
                    gf = (case gang_eraseFirst fromCmd g (event_flags s) of
                            None \<Rightarrow> (g, event_flags s) | Some gf \<Rightarrow> gf) in
                case gang_join u (fst gf) of
                  Inr g' \<Rightarrow> (PRL_ERR_SUCCESS,
                     s\<lparr>m_opHash := AList.update key g' (m_opHash s), event_flags := snd gf\<rparr>)
                | Inl x \<Rightarrow> (conflict_getResult x,
                     s\<lparr>m_opHash := AList.update key (fst gf) (m_opHash s),
                       event_flags := snd gf\<rparr>))))"

definition getVmLockerHandle :: "uuid \<Rightarrow> uuid \<Rightarrow> ops_table \<Rightarrow> qstring" where
  "getVmLockerHandle vmUuid vmDirUuid s =
     (case map_of (m_opHash s) (makeKey vmUuid vmDirUuid) of
        None \<Rightarrow> []
      | Some g \<Rightarrow> (case gang_findFirst DspCmdVmLock g of None \<Rightarrow> [] | Some u \<Rightarrow> getSession u))"

text \<open>
  The inner \<^verbatim>\<open>while (eraseFirst(DspCmdVmLock, hSession))\<close> of
  \<^verbatim>\<open>cleanupSessionVmLocks\<close>; every erasure shortens the store.
\<close>

function gang_eraseWhile :: "qstring \<Rightarrow> gang \<Rightarrow> flags \<Rightarrow> gang \<times> flags" where
  "gang_eraseWhile h g f =
     (case gang_eraseFirst_session DspCmdVmLock h g f of
        None \<Rightarrow> (g, f)
      | Some (g', f') \<Rightarrow> gang_eraseWhile h g' f')"
  by pat_completeness auto
termination
proof (relation "measure (\<lambda>(h, g, f). length (m_store g))", goal_cases)
  case (2 h g f gf g' f')
  then have E: "gang_eraseFirst_session DspCmdVmLock h g f = Some (g', f')" by simp
  let ?P = "\<lambda>u. getCommand u = DspCmdVmLock \<and> getSession u = h"
  from E have "\<exists>u \<in> set (m_store g). ?P u" and "g' = g\<lparr>m_store := erase_first ?P (m_store g)\<rparr>"
    by (auto simp: gang_eraseFirst_session_def gang_erase_def split: if_splits)
  then have "Suc (length (m_store g')) = length (m_store g)"
    using length_erase_first [of "m_store g" ?P] by simp
  then show ?case by simp
qed simp

declare gang_eraseWhile.simps [simp del]

text \<open>The iteration over the whole table, and the operation itself.\<close>

fun cleanup_gangs :: "qstring \<Rightarrow> (qstring \<times> gang) list \<Rightarrow> flags \<Rightarrow> (qstring \<times> gang) list \<times> flags"
where
  "cleanup_gangs h [] f = ([], f)"
| "cleanup_gangs h ((k, g) # gs) f =
     (let (g', f') = gang_eraseWhile h g f; (gs', f'') = cleanup_gangs h gs f' in
      (if gang_isEmpty g' then gs' else (k, g') # gs', f''))"

definition cleanupSessionVmLocks :: "qstring \<Rightarrow> ops_table \<Rightarrow> ops_table" where
  "cleanupSessionVmLocks h s =
     (let (gs, f) = cleanup_gangs h (m_opHash s) (event_flags s) in
      s\<lparr>m_opHash := gs, event_flags := f\<rparr>)"


section \<open>Reconciliation\<close>

lemma unit_isReconciled_same:
  "getCommand u = getCommand v \<Longrightarrow> unit_isReconciled u v =
     Some (getCommand u \<in> {DspCmdDirVmClone, DspCmdDirCopyImage, DspCmdDirVmMigrateClone})"
  by (simp add: unit_isReconciled_def Let_def)

lemma native_isReconciled_same:
  "getCommand u = getCommand v \<Longrightarrow> native_isReconciled u v \<longleftrightarrow>
     getCommand u \<in> {DspCmdDirVmClone, DspCmdDirCopyImage, DspCmdDirVmMigrateClone}"
  by (simp add: native_isReconciled_def unit_isReconciled_same)

text \<open>What may run beside the removal of a VM.\<close>

definition beside_delete :: "qstring \<Rightarrow> op_unit \<Rightarrow> bool" where
  "beside_delete h u \<longleftrightarrow>
     getCommand u \<in> {DspCmdCtlVmEditFirewall, DspCmdCtlVmEditBootcampReconfigure,
                     DspCmdCtlVmEditWithHardwareChanged, DspCmdCtlApplyVmConfig} \<or>
     getCommand u \<in> {DspCmdVmLock, DspCmdVmStop} \<and> getSession u = h"

lemma delete_accepts:
  assumes "getCommand d = DspCmdDirVmDelete"
  shows "native_isReconciled d u \<longleftrightarrow> beside_delete (getSession d) u"
  using assms
  by (auto simp add: reconciled_defs reference_defs beside_delete_def)

lemma delete_accepted:
  assumes "getCommand d = DspCmdDirVmDelete" "native_isReconciled u d"
  shows "beside_delete (getSession d) u"
  using assms
  by (auto simp add: reconciled_defs reference_defs beside_delete_def split: if_splits)

lemma lock_accepts:
  assumes "getCommand d = DspCmdVmLock" "native_isReconciled d u" "getCommand u = DspCmdVmLock"
  shows False
  using assms by (simp add: native_isReconciled_same)


section \<open>The invariant of the table\<close>

text \<open>
  A gang lists its operations newest first; each newer one was accepted by every older one.
\<close>

definition gang_ok :: "gang \<Rightarrow> bool" where
  "gang_ok g \<longleftrightarrow> m_store g \<noteq> [] \<and>
     sorted_wrt (\<lambda>newer older. native_isReconciled older newer) (m_store g)"

definition ops_ok :: "ops_table \<Rightarrow> bool" where
  "ops_ok s \<longleftrightarrow> distinct (map fst (m_opHash s)) \<and>
     (\<forall>k g. map_of (m_opHash s) k = Some g \<longrightarrow> gang_ok g)"

definition ops_init :: ops_table where
  "ops_init = \<lparr>m_opHash = [], event_flags = (\<lambda>_. False), next_event = 0\<rparr>"

lemma ops_okD:
  "ops_ok s \<Longrightarrow> map_of (m_opHash s) k = Some g \<Longrightarrow> gang_ok g"
  "ops_ok s \<Longrightarrow> distinct (map fst (m_opHash s))"
  by (auto simp: ops_ok_def)

lemma gang_joinE:
  assumes "gang_join u g = Inr g'"
  obtains "g' = g\<lparr>m_store := u # m_store g\<rparr>" "\<forall>x \<in> set (m_store g). native_isReconciled x u"
  using assms by (auto simp: gang_join_def find_None_iff split: option.splits)

lemma gang_join_conflict:
  assumes "gang_join u g = Inl c"
  shows "m_running c \<in> set (m_store g) \<and> m_pending c = u \<and>
    \<not> native_isReconciled (m_running c) u"
  using assms by (auto simp: gang_join_def dest: find_Some_in split: option.splits)

lemma gang_join_ok:
  "gang_join u g = Inr g' \<Longrightarrow> m_store g = [] \<or> gang_ok g \<Longrightarrow> gang_ok g'"
  by (auto simp: gang_ok_def elim!: gang_joinE)

lemma gang_erase_ok:
  assumes "gang_erase P g f = Some (g', f')" "gang_ok g"
  shows "gang_isEmpty g' \<or> gang_ok g'"
  using assms
  by (auto simp: gang_erase_def gang_ok_def gang_isEmpty_def sorted_wrt_erase_first
      split: if_splits)

lemma ops_ok_update:
  "ops_ok s \<Longrightarrow> gang_ok g \<Longrightarrow> m_opHash s' = AList.update k g (m_opHash s) \<Longrightarrow> ops_ok s'"
  by (auto simp: ops_ok_def distinct_update update_conv' split: if_splits)

lemma ops_ok_delete:
  "ops_ok s \<Longrightarrow> m_opHash s' = AList.delete k (m_opHash s) \<Longrightarrow> ops_ok s'"
  by (auto simp: ops_ok_def distinct_delete delete_conv' split: if_splits)

lemma ops_ok_store_gang [inv_intros]:
  assumes "ops_ok s" "gang_isEmpty g \<or> gang_ok g"
  shows "ops_ok (store_gang k (g, f) s)"
proof (cases "gang_isEmpty g")
  case True
  with assms(1) show ?thesis by (auto intro: ops_ok_delete simp: store_gang_def)
next
  case False
  with assms show ?thesis by (auto intro: ops_ok_update simp: store_gang_def)
qed

lemma registerOp_try_cases:
  obtains (joined) g where "gang_join u g = Inr (g\<lparr>m_store := u # m_store g\<rparr>)"
      "map_of (m_opHash s) k = Some g \<or> map_of (m_opHash s) k = None \<and> m_store g = []"
      "fst (registerOp_try k u s) = None"
      "map_of (m_opHash (snd (registerOp_try k u s))) =
         (map_of (m_opHash s))(k \<mapsto> g\<lparr>m_store := u # m_store g\<rparr>)"
      "distinct (map fst (m_opHash s)) \<Longrightarrow>
         distinct (map fst (m_opHash (snd (registerOp_try k u s))))"
  | (refused) g c where "gang_join u g = Inl c" "map_of (m_opHash s) k = Some g"
      "registerOp_try k u s = (Some c, s)"
proof (cases "map_of (m_opHash s) k")
  case None
  let ?g = "\<lparr>m_resolver = next_event s, m_store = []\<rparr>"
  have "gang_join u ?g = Inr (?g\<lparr>m_store := u # m_store ?g\<rparr>)" by (simp add: gang_join_def)
  with None show thesis
    by (intro joined [of ?g]) (auto simp: registerOp_try_def update_conv' distinct_update)
next
  case (Some g)
  show thesis
  proof (cases "gang_join u g")
    case (Inl c)
    with Some show thesis by (intro refused) (auto simp: registerOp_try_def)
  next
    case (Inr g')
    moreover from this have "g' = g\<lparr>m_store := u # m_store g\<rparr>" by (elim gang_joinE)
    ultimately show thesis using Some
      by (intro joined [of g]) (auto simp: registerOp_try_def update_conv' distinct_update)
  qed
qed

lemma ops_ok_registerOp_try [inv_intros]:
  assumes "ops_ok s" shows "ops_ok (snd (registerOp_try k u s))"
proof (cases rule: registerOp_try_cases [of u s k])
  case (joined g)
  have "gang_ok (g\<lparr>m_store := u # m_store g\<rparr>)"
    using gang_join_ok [OF joined(1)] joined(2) assms by (auto dest: ops_okD)
  with joined assms show ?thesis by (auto simp: ops_ok_def split: if_splits)
qed (use assms in simp)

lemma ops_ok_event_wait [inv_intros]: "ops_ok s \<Longrightarrow> ops_ok (snd (event_wait w e s))"
  by (simp add: event_wait_def ops_ok_def)

lemma ops_ok_unregisterOp [inv_intros]:
  "ops_ok s \<Longrightarrow> ops_ok (snd (unregisterOp v d c h s))"
  by (auto simp: unregisterOp_def Let_def gang_eraseFirst_def gang_eraseFirst_session_def
      split: option.splits prod.splits intro!: ops_ok_store_gang dest!: gang_erase_ok
      dest: ops_okD)


lemma gang_erase_SomeD:
  assumes "gang_erase P g f = Some (g', f')"
  shows "g' = g\<lparr>m_store := erase_first P (m_store g)\<rparr>" "\<exists>u \<in> set (m_store g). P u"
  using assms by (auto simp: gang_erase_def split: if_splits)

lemma replaced_gang_ok:
  assumes g: "gang_ok g" and e: "gang_eraseFirst c g f = Some (g', f')"
  shows "gang_join u g' = Inr g'' \<Longrightarrow> gang_ok g''" "gang_join u g' = Inl x \<Longrightarrow> gang_ok g'"
proof -
  from gang_erase_ok [OF e [unfolded gang_eraseFirst_def] g]
  have *: "m_store g' = [] \<or> gang_ok g'" by (simp add: gang_isEmpty_def)
  then show "gang_join u g' = Inr g'' \<Longrightarrow> gang_ok g''" by (rule gang_join_ok [rotated])
  show "gang_join u g' = Inl x \<Longrightarrow> gang_ok g'" using * gang_join_conflict [of u g' x] by auto
qed

lemma gang_findFirst_eraseFirst:
  assumes "gang_findFirst c g = Some w" obtains g' f' where "gang_eraseFirst c g f = Some (g', f')"
proof -
  from assms have "\<exists>u \<in> set (m_store g). getCommand u = c"
    by (auto simp: gang_findFirst_def dest: find_Some_in)
  with that show thesis by (simp add: gang_eraseFirst_def gang_erase_def)
qed

lemma ops_ok_replaceOp [inv_intros]:
  assumes "ops_ok s" shows "ops_ok (snd (replaceOp v d c c' h s))"
proof (cases "map_of (m_opHash s) (makeKey v d)")
  case None
  with assms show ?thesis by (simp add: replaceOp_def)
next
  case (Some g)
  show ?thesis
  proof (cases "gang_findFirst c g")
    case None
    with Some assms show ?thesis by (simp add: replaceOp_def)
  next
    case (Some w)
    then obtain g' f' where e: "gang_eraseFirst c g (event_flags s) = Some (g', f')"
      by (rule gang_findFirst_eraseFirst)
    let ?u = "\<lparr>getTaskId = getTaskId w, getSession = h, getCommand = c'\<rparr>"
    from \<open>map_of _ _ = Some g\<close> assms have g: "gang_ok g" by (blast dest: ops_okD)
    show ?thesis
      using \<open>map_of _ _ = Some g\<close> Some e assms replaced_gang_ok [OF g e, of ?u]
      by (auto simp: replaceOp_def Let_def split: sum.splits intro: ops_ok_update)
  qed
qed

text \<open>Removing a session's locks.\<close>

definition is_lock_of :: "qstring \<Rightarrow> op_unit \<Rightarrow> bool" where
  "is_lock_of h u \<longleftrightarrow> getCommand u = DspCmdVmLock \<and> getSession u = h"

lemma filter_not_erase_first: "filter (\<lambda>x. \<not> P x) (erase_first P xs) = filter (\<lambda>x. \<not> P x) xs"
  by (induction xs) auto

lemma fst_gang_eraseWhile:
  "fst (gang_eraseWhile h g f) = g\<lparr>m_store := filter (\<lambda>u. \<not> is_lock_of h u) (m_store g)\<rparr>"
proof (induction h g f rule: gang_eraseWhile.induct)
  case (1 h g f)
  show ?case
  proof (cases "gang_eraseFirst_session DspCmdVmLock h g f")
    case None
    then have "\<forall>u \<in> set (m_store g). \<not> is_lock_of h u"
      by (auto simp: gang_eraseFirst_session_def gang_erase_def is_lock_of_def split: if_splits)
    with None show ?thesis by (simp add: gang_eraseWhile.simps [of h g f] filter_True)
  next
    case (Some p)
    then obtain g' f' where p: "p = (g', f')" and
      e: "gang_eraseFirst_session DspCmdVmLock h g f = Some (g', f')" by (cases p) auto
    then have "g' = g\<lparr>m_store := erase_first (is_lock_of h) (m_store g)\<rparr>"
      unfolding gang_eraseFirst_session_def is_lock_of_def by (blast dest: gang_erase_SomeD)
    with 1 Some p show ?thesis
      by (simp add: gang_eraseWhile.simps [of h g f] filter_not_erase_first)
  qed
qed

definition purge_locks :: "qstring \<Rightarrow> gang option \<Rightarrow> gang option" where
  "purge_locks h g = (case g of None \<Rightarrow> None | Some g \<Rightarrow>
     (let us = filter (\<lambda>u. \<not> is_lock_of h u) (m_store g) in
      if us = [] then None else Some (g\<lparr>m_store := us\<rparr>)))"

lemma fst_cleanup_gangs:
  "fst (cleanup_gangs h gs f) = concat (map (\<lambda>(k, g). case purge_locks h (Some g) of
     None \<Rightarrow> [] | Some g' \<Rightarrow> [(k, g')]) gs)"
proof (induction h gs f rule: cleanup_gangs.induct)
  case (2 h k g gs f)
  obtain g' f' where e: "gang_eraseWhile h g f = (g', f')" by (cases "gang_eraseWhile h g f")
  obtain gs' f'' where c: "cleanup_gangs h gs f' = (gs', f'')" by (cases "cleanup_gangs h gs f'")
  from e fst_gang_eraseWhile [of h g f]
  have g': "g' = g\<lparr>m_store := filter (\<lambda>u. \<not> is_lock_of h u) (m_store g)\<rparr>" by simp
  from 2 e c have "gs' = concat (map (\<lambda>(k, g). case purge_locks h (Some g) of
     None \<Rightarrow> [] | Some g' \<Rightarrow> [(k, g')]) gs)" by simp
  with e c g' show ?case by (simp add: gang_isEmpty_def purge_locks_def)
qed simp

lemma distinct_cleanup_gangs:
  "distinct (map fst gs) \<Longrightarrow> distinct (map fst (fst (cleanup_gangs h gs f)))"
  unfolding fst_cleanup_gangs
proof (induction gs)
  case (Cons p gs)
  then show ?case by (cases p) (force split: option.splits)
qed simp

lemma map_of_cleanup_gangs:
  "distinct (map fst gs) \<Longrightarrow>
   map_of (fst (cleanup_gangs h gs f)) k = purge_locks h (map_of gs k)"
  unfolding fst_cleanup_gangs
proof (induction gs)
  case Nil
  then show ?case by (simp add: purge_locks_def)
next
  case (Cons p gs)
  obtain k' g where p: "p = (k', g)" by (cases p)
  have none: "purge_locks h None = None" by (simp add: purge_locks_def)
  from Cons have IH: "map_of (concat (map (\<lambda>(k, g). case purge_locks h (Some g) of
     None \<Rightarrow> [] | Some g' \<Rightarrow> [(k, g')]) gs)) k = purge_locks h (map_of gs k)" by simp
  from Cons.prems have "map_of gs k' = None" by (simp add: p map_of_eq_None_iff)
  with IH none show ?case by (auto simp: p split: option.split)
qed

lemma map_of_cleanupSessionVmLocks:
  "ops_ok s \<Longrightarrow>
   map_of (m_opHash (cleanupSessionVmLocks h s)) k = purge_locks h (map_of (m_opHash s) k)"
  using map_of_cleanup_gangs [of "m_opHash s" h "event_flags s" k]
  by (simp add: cleanupSessionVmLocks_def ops_ok_def case_prod_beta)

lemma ops_ok_cleanupSessionVmLocks [inv_intros]:
  assumes "ops_ok s" shows "ops_ok (cleanupSessionVmLocks h s)"
proof -
  have "distinct (map fst (m_opHash (cleanupSessionVmLocks h s)))"
    using distinct_cleanup_gangs [OF ops_okD(2) [OF assms], of h "event_flags s"]
    by (simp add: cleanupSessionVmLocks_def case_prod_beta)
  moreover have "gang_ok g" if "map_of (m_opHash (cleanupSessionVmLocks h s)) k = Some g" for k g
    using that assms unfolding map_of_cleanupSessionVmLocks [OF assms]
    by (auto simp: purge_locks_def Let_def gang_ok_def sorted_wrt_filter
        split: option.splits if_splits dest: ops_okD)
  ultimately show ?thesis by (simp add: ops_ok_def)
qed


section \<open>Reachable tables\<close>

text \<open>One critical section of the mutex: what a thread does to the table without releasing it.\<close>

inductive ops_step :: "ops_table \<Rightarrow> ops_table \<Rightarrow> bool" where
  attempt: "ops_step s (snd (registerOp_try k u s))"
| wake: "ops_step s (snd (event_wait w e s))"
| unregister: "ops_step s (snd (unregisterOp v d c h s))"
| replace: "ops_step s (snd (replaceOp v d c c' h s))"
| cleanup: "ops_step s (cleanupSessionVmLocks h s)"

inductive_cases ops_stepE: "ops_step s t"

definition ops_reachable :: "ops_table \<Rightarrow> bool" where
  "ops_reachable s \<longleftrightarrow> ops_step\<^sup>*\<^sup>* ops_init s"

lemma ops_ok_step: "ops_step s t \<Longrightarrow> ops_ok s \<Longrightarrow> ops_ok t"
  by (auto elim!: ops_stepE intro: inv_intros)

lemma ops_ok_steps: "ops_step\<^sup>*\<^sup>* s t \<Longrightarrow> ops_ok s \<Longrightarrow> ops_ok t"
  by (induction rule: rtranclp_induct) (auto intro: ops_ok_step)

lemma ops_ok_init: "ops_ok ops_init"
  by (simp add: ops_ok_def ops_init_def)

lemma ops_ok_reachable: "ops_reachable s \<Longrightarrow> ops_ok s"
  by (simp add: ops_reachable_def ops_ok_steps ops_ok_init)

lemma ops_reachable_step: "ops_reachable s \<Longrightarrow> ops_step s t \<Longrightarrow> ops_reachable t"
  by (simp add: ops_reachable_def)


section \<open>Facts about single operations\<close>

lemma conflict_getResult_failed [simp]: "prl_failed (conflict_getResult c)"
  by (simp add: conflict_getResult_def Let_def prl_failed_def)

lemma conflict_getResult_not_success [simp]: "conflict_getResult c \<noteq> PRL_ERR_SUCCESS"
  using conflict_getResult_failed [of c] by (simp only: prl_failed_def not_False_eq_True)

lemma registerOp_try_joined:
  assumes "registerOp_try k u s = (None, s')"
  obtains g where
    "map_of (m_opHash s) k = Some g \<or> map_of (m_opHash s) k = None \<and> m_store g = []"
    "\<forall>x \<in> set (m_store g). native_isReconciled x u"
    "map_of (m_opHash s') = (map_of (m_opHash s))(k \<mapsto> g\<lparr>m_store := u # m_store g\<rparr>)"
proof (cases rule: registerOp_try_cases [of u s k])
  case (joined g)
  with assms that [of g] show thesis by (auto elim!: gang_joinE)
qed (use assms in simp)

lemma registerOp_try_refused:
  assumes "registerOp_try k u s = (Some c, s')"
  obtains g where "s' = s" "map_of (m_opHash s) k = Some g" "m_running c \<in> set (m_store g)"
    "\<not> native_isReconciled (m_running c) u"
proof (cases rule: registerOp_try_cases [of u s k])
  case (refused g c')
  with assms that [of g] gang_join_conflict [OF refused(1)] show thesis by auto
qed (use assms in auto)

text \<open>The loop ends in one attempt, made in a table that the other threads left.\<close>

definition env_ok :: "wait_round list \<Rightarrow> bool" where
  "env_ok rs \<longleftrightarrow> (\<forall>r \<in> set rs. \<forall>t. ops_reachable t \<longrightarrow> ops_reachable (others r t))"

lemma ops_reachable_intros [inv_intros]:
  "ops_reachable s \<Longrightarrow> ops_reachable (snd (registerOp_try k u s))"
  "ops_reachable s \<Longrightarrow> ops_reachable (snd (event_wait w e s))"
  "ops_reachable s \<Longrightarrow> ops_reachable (snd (unregisterOp v d c h s))"
  "ops_reachable s \<Longrightarrow> ops_reachable (snd (replaceOp v d c c' h s))"
  "ops_reachable s \<Longrightarrow> ops_reachable (cleanupSessionVmLocks h s)"
  by (blast intro: ops_reachable_step ops_step.intros)+

lemma ops_reachable_init [simp]: "ops_reachable ops_init"
  by (simp add: ops_reachable_def)

lemma conflict_call_cases:
  assumes "conflict_call x r t = (e, t')"
  obtains "e = conflict_getResult x" "t' = t"
  | "e = PRL_ERR_SUCCESS" "t' = snd (event_wait (woken r) (m_resolved x) (others r t))"
  using assms by (auto simp: conflict_call_def split: if_splits)

lemma registerOp_loop_ends:
  assumes "registerOp_loop rs k u s = Some (e, s')" "ops_reachable s" "env_ok rs"
  obtains t where "ops_reachable t" "e = PRL_ERR_SUCCESS" "registerOp_try k u t = (None, s')"
  | t c where "ops_reachable t" "e = conflict_getResult c" "registerOp_try k u t = (Some c, t)"
      "s' = t"
proof -
  from assms have "(\<exists>t. ops_reachable t \<and> e = PRL_ERR_SUCCESS \<and> registerOp_try k u t = (None, s')) \<or>
    (\<exists>t c. ops_reachable t \<and> e = conflict_getResult c \<and> registerOp_try k u t = (Some c, t) \<and> s' = t)"
  proof (induction rs arbitrary: s)
    case Nil
    then show ?case
      by (auto simp: registerOp_loop.simps [of "[]"] split: option.splits prod.splits)
  next
    case (Cons r rs)
    obtain x t where att: "registerOp_try k u s = (x, t)" by (cases "registerOp_try k u s")
    show ?case
    proof (cases x)
      case None
      with att Cons.prems show ?thesis by (auto simp: registerOp_loop.simps [of "r # rs"])
    next
      case (Some c)
      with att have t: "t = s" by (auto elim: registerOp_try_refused)
      obtain e' t' where call: "conflict_call c r s = (e', t')" by (cases "conflict_call c r s")
      show ?thesis
      proof (cases "2 * TIMEOUT \<le> elapsed r \<or> prl_failed e'")
        case True
        have "e' = conflict_getResult c \<and> t' = s" if "prl_failed e'"
          using call that by (cases rule: conflict_call_cases) auto
        with True att t Some call Cons.prems(1) have "e = conflict_getResult c \<and> s' = s"
          by (auto simp: registerOp_loop.simps [of "r # rs"] split: if_splits)
        with att t Some Cons.prems(2) show ?thesis by blast
      next
        case False
        with call have "t' = snd (event_wait (woken r) (m_resolved c) (others r s))"
          by (auto elim: conflict_call_cases)
        with Cons.prems have "ops_reachable t'" "env_ok rs"
          by (auto simp: env_ok_def intro!: inv_intros)
        with Cons False att t Some call show ?thesis
          by (auto simp: registerOp_loop.simps [of "r # rs"])
      qed
    qed
  qed
  with that show thesis by blast
qed


section \<open>Exclusive locks\<close>

text \<open>
  \<^verbatim>\<open>registerExclusiveVmOperation\<close> takes the task id from the name of the current thread,
  \<open>thread\<close>, when that is a task helper and the caller gives none.
\<close>

definition registerExclusiveVmOperation ::
  "wait_round list \<Rightarrow> qstring option \<Rightarrow> uuid \<Rightarrow> uuid \<Rightarrow> dsp_cmd \<Rightarrow> qstring \<Rightarrow> qstring \<Rightarrow> ops_table \<Rightarrow>
   (prl_result \<times> ops_table) option" where
  "registerExclusiveVmOperation rs thread v d cmd h sTaskId s =
     registerOp rs v d cmd h
       (if sTaskId \<noteq> [] then sTaskId else (case thread of None \<Rightarrow> sTaskId | Some n \<Rightarrow> n)) s"

text \<open>
  \<^verbatim>\<open>lockVm\<close> and \<^verbatim>\<open>unlockVm\<close>; the flag says that the clients of the VM were told
  that its configuration changed.
\<close>

definition lockVm ::
  "wait_round list \<Rightarrow> qstring option \<Rightarrow> uuid \<Rightarrow> uuid \<Rightarrow> qstring \<Rightarrow> ops_table \<Rightarrow>
   (prl_result \<times> bool \<times> ops_table) option" where
  "lockVm rs thread v d h s =
     (case registerExclusiveVmOperation rs thread v d DspCmdVmLock h [] s of
        None \<Rightarrow> None
      | Some (rc, s') \<Rightarrow> Some (rc, \<not> prl_failed rc, s'))"

definition unlockVm ::
  "uuid \<Rightarrow> uuid \<Rightarrow> qstring \<Rightarrow> ops_table \<Rightarrow> prl_result \<times> bool \<times> ops_table" where
  "unlockVm v d h s =
     (case unregisterOp v d DspCmdVmLock h s of (rc, s') \<Rightarrow> (rc, \<not> prl_failed rc, s'))"

text \<open>One attempt to take the lock: the last round of \<^verbatim>\<open>registerOp\<close>.\<close>

definition lock_attempt :: "qstring \<Rightarrow> qstring \<Rightarrow> qstring \<Rightarrow> ops_table \<Rightarrow> prl_result \<times> ops_table" where
  "lock_attempt tid k h s =
     (case registerOp_try k \<lparr>getTaskId = tid, getSession = h, getCommand = DspCmdVmLock\<rparr> s of
        (None, s') \<Rightarrow> (PRL_ERR_SUCCESS, s')
      | (Some c, s') \<Rightarrow> (conflict_getResult c, s'))"

definition lock_release :: "qstring \<Rightarrow> qstring \<Rightarrow> ops_table \<Rightarrow> prl_result \<times> ops_table" where
  "lock_release k h s = unregisterOp k [] DspCmdVmLock h s"

definition lock_holder :: "qstring \<Rightarrow> ops_table \<Rightarrow> qstring" where
  "lock_holder k s = getVmLockerHandle k [] s"

lemma lock_release_key: "unregisterOp v d DspCmdVmLock h s = lock_release (makeKey v d) h s"
  by (simp add: unregisterOp_def lock_release_def makeKey_def)

lemma lock_holder_key: "getVmLockerHandle v d s = lock_holder (makeKey v d) s"
  by (simp add: getVmLockerHandle_def lock_holder_def makeKey_def)

lemma lock_holder_alt:
  "lock_holder k s = (case map_of (m_opHash s) k of None \<Rightarrow> []
     | Some g \<Rightarrow> (case find (\<lambda>u. getCommand u = DspCmdVmLock) (m_store g) of
         None \<Rightarrow> [] | Some u \<Rightarrow> getSession u))"
  by (simp add: lock_holder_def getVmLockerHandle_def makeKey_def gang_findFirst_def
      split: option.split)

lemma gang_at_most_one:
  assumes "gang_ok g" "c \<notin> {DspCmdDirVmClone, DspCmdDirCopyImage, DspCmdDirVmMigrateClone}"
  shows "length (filter (\<lambda>u. getCommand u = c) (m_store g)) \<le> 1"
  by (rule at_most_one_filter [where R = "\<lambda>newer older. native_isReconciled older newer"])
    (use assms in \<open>auto simp: gang_ok_def native_isReconciled_same\<close>)

lemma lock_holder_free:
  assumes "map_of (m_opHash s) k = Some g \<or> map_of (m_opHash s) k = None \<and> m_store g = []"
    and "\<forall>x \<in> set (m_store g). getCommand x \<noteq> DspCmdVmLock"
  shows "lock_holder k s = []"
proof -
  have "find (\<lambda>u. getCommand u = DspCmdVmLock) (m_store g) = None"
    using assms(2) by (simp add: find_None_iff)
  with assms(1) show ?thesis by (auto simp: lock_holder_alt)
qed

lemma lock_holder_found:
  assumes "lock_holder k s = h" "h \<noteq> []"
  obtains g u where "map_of (m_opHash s) k = Some g" "u \<in> set (m_store g)" "is_lock_of h u"
proof -
  from assms obtain g u where "map_of (m_opHash s) k = Some g" "getSession u = h"
    and f: "find (\<lambda>u. getCommand u = DspCmdVmLock) (m_store g) = Some u"
    by (auto simp: lock_holder_alt split: option.splits)
  with that find_Some_in [OF f] show thesis by (auto simp: is_lock_of_def)
qed

lemma lock_holder_unique:
  assumes "ops_ok s" "map_of (m_opHash s) k = Some g" "u \<in> set (m_store g)" "is_lock_of h u"
  shows "lock_holder k s = h"
proof -
  let ?P = "\<lambda>u. getCommand u = DspCmdVmLock"
  have "gang_ok g" using assms by (blast dest: ops_okD)
  then have "length (filter ?P (m_store g)) \<le> 1" by (rule gang_at_most_one) simp
  moreover have u: "u \<in> set (filter ?P (m_store g))" using assms by (simp add: is_lock_of_def)
  ultimately have "filter ?P (m_store g) = [u]"
    by (cases "filter ?P (m_store g)" rule: remdups_adj.cases) auto
  moreover obtain w where "find ?P (m_store g) = Some w"
    using u by (cases "find ?P (m_store g)") (auto simp: find_None_iff)
  moreover from this have "w \<in> set (filter ?P (m_store g))" by (auto dest: find_Some_in)
  ultimately show ?thesis using assms by (simp add: lock_holder_alt is_lock_of_def)
qed

lemma map_of_store_gang:
  "distinct (map fst (m_opHash s)) \<Longrightarrow> map_of (m_opHash (store_gang k (g, f) s)) =
     (map_of (m_opHash s))(k := if m_store g = [] then None else Some g)"
  by (simp add: store_gang_def gang_isEmpty_def update_conv' delete_conv')

lemma lock_release_cases:
  assumes "ops_ok s"
  obtains (erased) g where "map_of (m_opHash s) k = Some g" "fst (lock_release k h s) = PRL_ERR_SUCCESS"
      "\<exists>u \<in> set (m_store g). is_lock_of h u"
      "map_of (m_opHash (snd (lock_release k h s))) = (map_of (m_opHash s))(k :=
         (let us = erase_first (is_lock_of h) (m_store g) in
          if us = [] then None else Some (g\<lparr>m_store := us\<rparr>)))"
  | (kept) "fst (lock_release k h s) \<noteq> PRL_ERR_SUCCESS" "snd (lock_release k h s) = s"
      "\<And>g u. map_of (m_opHash s) k = Some g \<Longrightarrow> u \<in> set (m_store g) \<Longrightarrow> \<not> is_lock_of h u"
proof (cases "map_of (m_opHash s) k")
  case None
  then show thesis by (intro kept) (auto simp: lock_release_def unregisterOp_def makeKey_def)
next
  case (Some g)
  have e: "gang_eraseFirst_session DspCmdVmLock h g f = gang_erase (is_lock_of h) g f" for f
    by (simp add: gang_eraseFirst_session_def is_lock_of_def [abs_def])
  show thesis
  proof (cases "\<exists>u \<in> set (m_store g). is_lock_of h u")
    case True
    with Some e show thesis
      by (intro erased [of g])
        (auto simp: lock_release_def unregisterOp_def makeKey_def gang_erase_def Let_def
          map_of_store_gang ops_okD [OF assms])
  next
    case False
    with Some e show thesis
      by (intro kept) (auto simp: lock_release_def unregisterOp_def makeKey_def gang_erase_def)
  qed
qed


lemma lock_attempt_joined:
  assumes "fst (lock_attempt tid k h s) = PRL_ERR_SUCCESS"
  shows "lock_holder k s = [] \<and> lock_holder k (snd (lock_attempt tid k h s)) = h"
proof -
  let ?u = "\<lparr>getTaskId = tid, getSession = h, getCommand = DspCmdVmLock\<rparr>"
  from assms obtain s' where s': "registerOp_try k ?u s = (None, s')"
    by (auto simp: lock_attempt_def split: prod.splits option.splits)
  then obtain g where g: "map_of (m_opHash s) k = Some g \<or> map_of (m_opHash s) k = None \<and> m_store g = []"
      "\<forall>x \<in> set (m_store g). native_isReconciled x ?u"
      "map_of (m_opHash s') = (map_of (m_opHash s))(k \<mapsto> g\<lparr>m_store := ?u # m_store g\<rparr>)"
    by (rule registerOp_try_joined)
  from g(2) have "\<forall>x \<in> set (m_store g). getCommand x \<noteq> DspCmdVmLock"
    by (auto simp: native_isReconciled_same)
  with g(1) have "lock_holder k s = []" by (rule lock_holder_free)
  moreover have "lock_holder k s' = h" using g(3) by (simp add: lock_holder_alt)
  ultimately show ?thesis using s' by (simp add: lock_attempt_def)
qed

lemma lock_attempt_refused:
  assumes "fst (lock_attempt tid k h s) \<noteq> PRL_ERR_SUCCESS"
  shows "snd (lock_attempt tid k h s) = s"
  using assms by (auto simp: lock_attempt_def split: prod.splits option.splits
      elim: registerOp_try_refused)

lemma lock_attempt_frame:
  assumes "k' \<noteq> k" shows "lock_holder k' (snd (lock_attempt tid k h s)) = lock_holder k' s"
proof (cases "fst (lock_attempt tid k h s) = PRL_ERR_SUCCESS")
  case True
  then obtain s' where "registerOp_try k \<lparr>getTaskId = tid, getSession = h, getCommand = DspCmdVmLock\<rparr> s = (None, s')"
    by (auto simp: lock_attempt_def split: prod.splits option.splits)
  with assms show ?thesis
    by (auto simp: lock_attempt_def lock_holder_alt elim: registerOp_try_joined)
qed (simp add: lock_attempt_refused)

lemma ops_ok_lock_attempt: "ops_ok s \<Longrightarrow> ops_ok (snd (lock_attempt tid k h s))"
  using ops_ok_registerOp_try
    [of s k "\<lparr>getTaskId = tid, getSession = h, getCommand = DspCmdVmLock\<rparr>"]
  by (auto simp: lock_attempt_def split: prod.splits option.splits)

lemma lock_release_frame:
  assumes "k' \<noteq> k" shows "lock_holder k' (snd (lock_release k h s)) = lock_holder k' s"
  using assms
  by (auto simp: lock_release_def unregisterOp_def makeKey_def lock_holder_alt store_gang_def
      update_conv' delete_conv' split: option.splits)

lemma lock_release_holds:
  assumes "ops_ok s" "h \<noteq> []" "lock_holder k s = h"
  shows "fst (lock_release k h s) = PRL_ERR_SUCCESS \<and> lock_holder k (snd (lock_release k h s)) = []"
  using assms(1)
proof (cases rule: lock_release_cases [of s k h])
  case (erased g)
  then obtain u where u: "u \<in> set (m_store g)" "is_lock_of h u" by blast
  let ?P = "\<lambda>u. getCommand u = DspCmdVmLock" and ?us = "erase_first (is_lock_of h) (m_store g)"
  have "gang_ok g" using assms(1) erased(1) by (rule ops_okD)
  then have "length (filter ?P (m_store g)) \<le> 1" by (rule gang_at_most_one) simp
  moreover have "Suc (length (filter ?P ?us)) = length (filter ?P (m_store g))"
    using u by (intro filter_erase_first_hit [of u]) (auto simp: is_lock_of_def)
  ultimately have "length (filter ?P ?us) = 0" by linarith
  then have "find ?P ?us = None" by (simp add: find_None_iff filter_empty_conv)
  with erased show ?thesis by (auto simp: lock_holder_alt Let_def)
next
  case kept
  with assms lock_holder_found show ?thesis by blast
qed

lemma lock_release_not_held:
  assumes "ops_ok s" "lock_holder k s \<noteq> h"
  shows "fst (lock_release k h s) \<noteq> PRL_ERR_SUCCESS \<and> snd (lock_release k h s) = s"
  using assms(1)
proof (cases rule: lock_release_cases [of s k h])
  case (erased g)
  with assms lock_holder_unique show ?thesis by blast
qed simp

lemma ops_ok_lock_release: "ops_ok s \<Longrightarrow> ops_ok (snd (lock_release k h s))"
  by (simp add: lock_release_def inv_intros)

interpretation vml: vm_locks ops_ok "lock_attempt tid" lock_release lock_holder for tid
  by unfold_locales
    (auto simp: ops_ok_lock_attempt ops_ok_lock_release lock_attempt_joined lock_attempt_refused
      lock_attempt_frame lock_release_frame lock_release_holds lock_release_not_held)


section \<open>Properties\<close>

text \<open>Units used by the concrete instances.\<close>

definition unit_of :: "dsp_cmd \<Rightarrow> qstring \<Rightarrow> qstring \<Rightarrow> op_unit" where
  "unit_of c h t = \<lparr>getTaskId = t, getSession = h, getCommand = c\<rparr>"

definition table_of :: "op_unit list \<Rightarrow> ops_table" where
  "table_of us = fold (\<lambda>u s. snd (registerOp_try ''vd'' u s)) us ops_init"

lemma ops_reachable_fold:
  "ops_reachable s \<Longrightarrow> ops_reachable (fold (\<lambda>u s. snd (registerOp_try k u s)) us s)"
  by (induction us arbitrary: s) (auto intro: inv_intros)

lemma ops_reachable_table_of [simp]: "ops_reachable (table_of us)"
  by (simp add: table_of_def ops_reachable_fold)

lemmas table_eval = table_of_def registerOp_try_def gang_join_def ops_init_def unit_of_def Let_def
  reconciled_defs reference_defs

text \<open>C1. In every table that the operations can produce from the empty one, a listed VM has at
  least one operation, and of two operations of a VM the one that came first accepts the other:
  no conflicting operations run on one VM.\<close>

theorem no_conflicting_operations:
  assumes "ops_reachable s" "map_of (m_opHash s) k = Some g"
  shows "m_store g \<noteq> [] \<and> (\<forall>j < length (m_store g). \<forall>i < j.
    native_isReconciled (m_store g ! j) (m_store g ! i))"
  using ops_okD(1) [OF ops_ok_reachable [OF assms(1)] assms(2)]
  by (auto simp: gang_ok_def sorted_wrt_iff_nth_less)

lemma no_conflicting_operations_witness:
  "\<exists>g. map_of (m_opHash (table_of [unit_of DspCmdDirVmEditCommit ''a'' ''1'',
       unit_of DspCmdVmStart ''b'' ''2''])) ''vd'' = Some g \<and> length (m_store g) = 2 \<and>
     native_isReconciled (m_store g ! 1) (m_store g ! 0)"
proof -
  let ?t = "table_of [unit_of DspCmdDirVmEditCommit ''a'' ''1'', unit_of DspCmdVmStart ''b'' ''2'']"
  have "\<exists>g. map_of (m_opHash ?t) ''vd'' = Some g \<and> length (m_store g) = 2"
    by (simp add: table_eval)
  then show ?thesis
    using no_conflicting_operations [OF ops_reachable_table_of, of _ "''vd''"] by force
qed

text \<open>C2. While the removal of a VM (DirVmDelete) is registered, no second removal is, and every
  other operation of the VM is a firewall, bootcamp or hardware edit, the application of a
  configuration, or a lock or a stop by the session that removes the VM.\<close>

theorem delete_runs_alone:
  assumes "ops_reachable s" "map_of (m_opHash s) k = Some g"
    and "d \<in> set (m_store g)" "getCommand d = DspCmdDirVmDelete"
  shows "filter (\<lambda>u. getCommand u = DspCmdDirVmDelete) (m_store g) = [d] \<and>
    (\<forall>u \<in> set (m_store g). u = d \<or> beside_delete (getSession d) u)"
proof
  let ?P = "\<lambda>u. getCommand u = DspCmdDirVmDelete"
  have ok: "gang_ok g" using assms(1,2) by (blast dest: ops_okD ops_ok_reachable)
  then have "length (filter ?P (m_store g)) \<le> 1" by (rule gang_at_most_one) simp
  moreover have "d \<in> set (filter ?P (m_store g))" using assms by simp
  ultimately show "filter ?P (m_store g) = [d]"
    by (cases "filter ?P (m_store g)" rule: remdups_adj.cases) auto
  show "\<forall>u \<in> set (m_store g). u = d \<or> beside_delete (getSession d) u"
  proof
    fix u assume "u \<in> set (m_store g)"
    with assms(3) obtain i j where "m_store g ! i = u" "m_store g ! j = d"
      "i < length (m_store g)" "j < length (m_store g)" by (auto simp: in_set_conv_nth)
    then have "u = d \<or> native_isReconciled u d \<or> native_isReconciled d u"
      using ok by (cases i j rule: linorder_cases) (auto simp: gang_ok_def sorted_wrt_iff_nth_less)
    then show "u = d \<or> beside_delete (getSession d) u"
      using assms(4) delete_accepts delete_accepted by blast
  qed
qed

lemma delete_runs_alone_witness:
  "\<exists>g. map_of (m_opHash (table_of [unit_of DspCmdVmLock ''a'' ''1'',
       unit_of DspCmdDirVmDelete ''a'' ''2''])) ''vd'' = Some g \<and> length (m_store g) = 2 \<and>
     (\<forall>u \<in> set (m_store g). u = unit_of DspCmdDirVmDelete ''a'' ''2'' \<or> beside_delete ''a'' u)"
proof -
  let ?t = "table_of [unit_of DspCmdVmLock ''a'' ''1'', unit_of DspCmdDirVmDelete ''a'' ''2'']"
  have "\<exists>g. map_of (m_opHash ?t) ''vd'' = Some g \<and> length (m_store g) = 2 \<and>
    unit_of DspCmdDirVmDelete ''a'' ''2'' \<in> set (m_store g)"
    by (simp add: table_eval)
  then show ?thesis
    using delete_runs_alone [OF ops_reachable_table_of, of _ "''vd''" _ "unit_of DspCmdDirVmDelete ''a'' ''2''"]
    by (fastforce simp: unit_of_def)
qed

text \<open>C3. When registerOp returns, whatever the other threads did meanwhile, it either accepted the
  operation, which is then the newest of its VM and accepted by each older one, or it failed with
  the error of an operation of the VM that does not accept the new one, and did not register it.\<close>

theorem registerOp_outcome:
  assumes "ops_reachable s" "env_ok rs" "cmd \<in> set registerOp_supported"
    and "registerOp rs v d cmd h t s = Some (e, s')"
  shows "ops_reachable s' \<and> (\<exists>g. map_of (m_opHash s') (makeKey v d) = Some g \<and>
    (if e = PRL_ERR_SUCCESS
     then \<exists>us. m_store g = unit_of cmd h t # us \<and>
            (\<forall>x \<in> set us. native_isReconciled x (unit_of cmd h t))
     else \<exists>c. e = conflict_getResult c \<and> m_running c \<in> set (m_store g) \<and>
            \<not> native_isReconciled (m_running c) (unit_of cmd h t)))"
proof -
  from assms(3,4) have "registerOp_loop rs (makeKey v d) (unit_of cmd h t) s = Some (e, s')"
    by (simp add: registerOp_def unit_of_def)
  from this assms(1,2) show ?thesis
  proof (cases rule: registerOp_loop_ends)
    case (1 r)
    then have "ops_reachable s'" using ops_reachable_intros(1) [of r "makeKey v d" "unit_of cmd h t"]
      by simp
    with 1 show ?thesis by (auto elim!: registerOp_try_joined)
  next
    case (2 r c)
    then show ?thesis by (auto elim!: registerOp_try_refused)
  qed
qed

lemma registerOp_outcome_witness:
  "\<exists>e s'. registerOp [\<lparr>elapsed = 60000, others = id, woken = False\<rparr>] ''v'' ''d''
       DspCmdDirVmClone ''b'' ''2'' (table_of [unit_of DspCmdDirVmDelete ''a'' ''1'']) = Some (e, s') \<and>
     e = PRL_ERR_VM_LOCKED_FOR_DELETE \<and> ops_reachable s'"
proof -
  let ?rs = "[\<lparr>elapsed = 60000, others = id, woken = False\<rparr>]"
  let ?s = "table_of [unit_of DspCmdDirVmDelete ''a'' ''1'']"
  have "\<exists>s'. registerOp ?rs ''v'' ''d'' DspCmdDirVmClone ''b'' ''2'' ?s =
      Some (PRL_ERR_VM_LOCKED_FOR_DELETE, s')"
    by (simp add: registerOp_def registerOp_supported_def registerOp_loop.simps makeKey_def
        TIMEOUT_def conflict_getResult_def table_eval)
  then show ?thesis
    using registerOp_outcome [of ?s ?rs DspCmdDirVmClone "''v''" "''d''" "''b''" "''2''"]
    by (fastforce simp: env_ok_def registerOp_supported_def)
qed

text \<open>C4. registerOp does not block for ever: with a wait that ends after both timeouts, 60000
  milliseconds, it returns.\<close>

theorem registerOp_returns:
  assumes "r \<in> set rs" "60000 \<le> elapsed r"
  shows "\<exists>res. registerOp rs v d cmd h t s = Some res"
proof -
  have "\<exists>res. registerOp_loop rs k u s = Some res" for k u
    using assms
    by (induction rs arbitrary: s)
      (auto simp: registerOp_loop.simps [of "_ # _"] TIMEOUT_def split: option.split prod.split)
  then show ?thesis by (simp add: registerOp_def)
qed

lemma registerOp_returns_witness:
  "\<exists>res. registerOp [\<lparr>elapsed = 60000, others = id, woken = False\<rparr>] ''v'' ''d'' DspCmdVmStart ''a'' []
     ops_init = Some res"
  by (rule registerOp_returns [of "\<lparr>elapsed = 60000, others = id, woken = False\<rparr>"]) simp_all

text \<open>C5. unregisterOp undoes an accepted registration: by the session that registered it, it
  succeeds and leaves every VM with the operations it had before.\<close>

theorem register_then_unregister:
  assumes "ops_reachable s"
    and "registerOp_try (makeKey v d) u s = (None, s')"
  shows "fst (unregisterOp v d (getCommand u) (getSession u) s') = PRL_ERR_SUCCESS \<and>
    map_of (m_opHash (snd (unregisterOp v d (getCommand u) (getSession u) s'))) = map_of (m_opHash s)"
proof -
  let ?k = "makeKey v d"
  from assms(2) obtain g where
    g: "map_of (m_opHash s) ?k = Some g \<or> map_of (m_opHash s) ?k = None \<and> m_store g = []"
    and g': "map_of (m_opHash s') = (map_of (m_opHash s))(?k \<mapsto> g\<lparr>m_store := u # m_store g\<rparr>)"
    by (rule registerOp_try_joined)
  have "ops_reachable s'" using ops_reachable_intros(1) [OF assms(1), of ?k u] assms(2) by simp
  then have dist: "distinct (map fst (m_opHash s'))" by (blast dest: ops_ok_reachable ops_okD)
  have "m_store g = [] \<longleftrightarrow> map_of (m_opHash s) ?k = None"
    using g ops_okD(1) [OF ops_ok_reachable [OF assms(1)]] by (auto simp: gang_ok_def)
  with g have "(map_of (m_opHash s))(?k := if m_store g = [] then None else Some g) = map_of (m_opHash s)"
    by (auto simp: fun_upd_idem)
  then show ?thesis
    using dist g'
    by (simp add: unregisterOp_def gang_eraseFirst_session_def gang_eraseFirst_def gang_erase_def
        map_of_store_gang Let_def)
qed

lemma register_then_unregister_witness:
  "map_of (m_opHash (snd (unregisterOp ''v'' ''d'' DspCmdVmStart ''b''
     (snd (registerOp_try ''vd'' (unit_of DspCmdVmStart ''b'' ''2'')
       (table_of [unit_of DspCmdDirVmEditCommit ''a'' ''1'']))))))
   = map_of (m_opHash (table_of [unit_of DspCmdDirVmEditCommit ''a'' ''1'']))"
proof -
  let ?s = "table_of [unit_of DspCmdDirVmEditCommit ''a'' ''1'']"
  let ?u = "unit_of DspCmdVmStart ''b'' ''2''"
  have "registerOp_try (makeKey ''v'' ''d'') ?u ?s = (None, snd (registerOp_try ''vd'' ?u ?s))"
    by (simp add: makeKey_def table_eval)
  from register_then_unregister [OF ops_reachable_table_of this]
  show ?thesis by (simp add: unit_of_def)
qed

text \<open>Lock and unlock requests as they reach the table.\<close>

definition session_request :: "qstring lock_request \<Rightarrow> ops_table \<Rightarrow> ops_table" where
  "session_request r s = (case r of
     LockRequest k h \<Rightarrow> snd (lock_attempt [] k h s) | UnlockRequest k h \<Rightarrow> snd (lock_release k h s))"

lemma session_request_serve: "session_request = vml.serve []"
proof (intro ext)
  show "session_request r s = vml.serve [] r s" for r s
    by (cases r) (simp_all add: session_request_def)
qed

text \<open>C6. A lock that a session took with lockVm stays its own through every lock and unlock
  request of other sessions, and it can always give it back: unlockVm then succeeds, tells the
  clients, and leaves the VM unlocked.\<close>

theorem lock_is_kept_and_returned:
  assumes "ops_reachable s" "h \<noteq> []" "env_ok rs"
    and "lockVm rs thread v d h s = Some (PRL_ERR_SUCCESS, ev, s')"
    and "\<forall>r \<in> set reqs. requester r \<notin> {h, []}"
  defines "t \<equiv> fold session_request reqs s'"
  shows "getVmLockerHandle v d t = h \<and> fst (unlockVm v d h t) = PRL_ERR_SUCCESS \<and>
    fst (snd (unlockVm v d h t)) \<and> getVmLockerHandle v d (snd (snd (unlockVm v d h t))) = []"
proof -
  let ?tid = "case thread of None \<Rightarrow> [] | Some n \<Rightarrow> n"
  let ?u = "\<lparr>getTaskId = ?tid, getSession = h, getCommand = DspCmdVmLock\<rparr>"
  from assms(4) have "registerOp_loop rs (makeKey v d) ?u s = Some (PRL_ERR_SUCCESS, s')"
    by (auto simp: lockVm_def registerExclusiveVmOperation_def registerOp_def registerOp_supported_def
        split: option.splits prod.splits)
  from this assms(1,3) obtain r where r: "ops_reachable r" "registerOp_try (makeKey v d) ?u r = (None, s')"
    by (cases rule: registerOp_loop_ends) (auto simp: eq_commute [of PRL_ERR_SUCCESS])
  then have l: "lock_attempt ?tid (makeKey v d) h r = (PRL_ERR_SUCCESS, s')"
    by (simp add: lock_attempt_def)
  have "ops_ok s'" "lock_holder (makeKey v d) s' = h"
    using vml.good_acquire [OF ops_ok_reachable [OF r(1)], of ?tid "makeKey v d" h]
      vml.acquire_success [OF ops_ok_reachable [OF r(1)], of ?tid "makeKey v d" h] l by auto
  then have t: "ops_ok t" "lock_holder (makeKey v d) t = h"
    unfolding t_def session_request_serve using assms(2,5)
    by (auto intro!: vml.lock_survives)
  with vml.release_owner [OF t(1) assms(2) t(2)] show ?thesis
    by (auto simp: unlockVm_def lock_release_key lock_holder_key split: prod.splits)
qed

lemma lock_is_kept_and_returned_witness:
  "\<exists>ev s'. lockVm [] None ''v'' ''d'' ''a'' ops_init = Some (PRL_ERR_SUCCESS, ev, s') \<and>
     getVmLockerHandle ''v'' ''d''
       (fold session_request [LockRequest ''vd'' ''b'', UnlockRequest ''vd'' ''b''] s') = ''a''"
proof -
  have "\<exists>s'. lockVm [] None ''v'' ''d'' ''a'' ops_init = Some (PRL_ERR_SUCCESS, True, s')"
    by (simp add: lockVm_def registerExclusiveVmOperation_def registerOp_def registerOp_loop.simps
        registerOp_supported_def makeKey_def table_eval)
  then show ?thesis
    using lock_is_kept_and_returned [of ops_init "''a''" "[]" None "''v''" "''d''" _ _
        "[LockRequest ''vd'' ''b'', UnlockRequest ''vd'' ''b'']"]
    by (fastforce simp: env_ok_def)
qed

text \<open>When a session ends, cleanupSessionVmLocks removes its locks, all of them and nothing
  else: a VM keeps its other operations in their order, and is dropped when none is left.\<close>

theorem cleanup_removes_the_locks_of_the_session:
  assumes "ops_reachable s"
  shows "map_of (m_opHash (cleanupSessionVmLocks h s)) k =
    (case map_of (m_opHash s) k of None \<Rightarrow> None
     | Some g \<Rightarrow>
         if \<forall>u \<in> set (m_store g). is_lock_of h u then None
         else Some (g\<lparr>m_store := filter (\<lambda>u. \<not> is_lock_of h u) (m_store g)\<rparr>))"
  by (simp add: map_of_cleanupSessionVmLocks ops_ok_reachable assms purge_locks_def Let_def
      filter_empty_conv split: option.split)

lemma cleanup_removes_the_locks_of_the_session_witness:
  "map_of (m_opHash (cleanupSessionVmLocks ''a'' (table_of [unit_of DspCmdVmLock ''a'' ''1'']))) ''vd''
     = None"
  unfolding cleanup_removes_the_locks_of_the_session [OF ops_reachable_table_of]
  by (simp add: table_eval is_lock_of_def)

end
