(* ===== verification/VmState.thy ===== *)
theory VmState
  imports Prelude
begin

text \<open>
  The state machine of one VM (\<^verbatim>\<open>CDspVmStateMachine.h\<close>) and the reactor that feeds it with
  libvirt's events (\<^verbatim>\<open>CDspRegistry.cpp\<close>).

  The two transition tables are lists of rows in the order of the source.  The interpreter does
  what boost::msm documents: the active state of a submachine sees an event before its owner does;
  a row fires when its source is active and its guard holds, running exit, actions and entry in
  this order; entering \<^verbatim>\<open>Running\<close> starts it in its initial state, entering it through the
  pseudo state \<^verbatim>\<open>Already\<close> passes the event on to that state; an event without a row leaves the
  state as it is.  What the actions do outside the machine is a list of effects; what they read
  there (the configuration, the suspend file) is the record \<open>env\<close>, fixed for one event.
\<close>

section \<open>States and events\<close>

datatype vm_value = VMS_UNKNOWN | VMS_STOPPED | VMS_RUNNING | VMS_PAUSED | VMS_SUSPENDED
  | VMS_MOUNTED | VMS_DELETING_STATE | VMS_STOPPING | VMS_MIGRATING | VMS_OTHER nat

datatype tools_state = PTS_NOT_INSTALLED | PTS_POSSIBLY_INSTALLED | PTS_OTHER nat

text \<open>An update of the configuration is identified by a number.\<close>

datatype vm_event = Conventional vm_value | Switch | Agent | Reboot | UpgradeEvent
  | ToolsEvent "tools_state option" | ConfigUpdate nat

datatype inner_state = Already | Rebooted | Stopping | Started

datatype outer_state = Unknown | Stopped | Suspended | Mounted | Deleting | Reverting
  | PausedOrdinary | PausedUnknown | Running

text \<open>The value each state reports; \<^verbatim>\<open>Reverting\<close> and \<^verbatim>\<open>Paused::Unknown\<close> inherit theirs.\<close>

fun state_value :: "outer_state \<Rightarrow> vm_value" where
  "state_value Unknown = VMS_UNKNOWN"
| "state_value Stopped = VMS_STOPPED"
| "state_value Suspended = VMS_SUSPENDED"
| "state_value Mounted = VMS_MOUNTED"
| "state_value Deleting = VMS_DELETING_STATE"
| "state_value Reverting = VMS_STOPPED"
| "state_value PausedOrdinary = VMS_PAUSED"
| "state_value PausedUnknown = VMS_PAUSED"
| "state_value Running = VMS_RUNNING"

record env =
  savFileExists :: bool
  hasConfig :: bool
  isTemplate :: bool
  config_migrating :: bool
  runtimeOk :: bool
  senderValid :: bool
  connectorOk :: bool

datatype effect = ETraffic | ERoutesUp | ERoutesDown | ELock | EUnlock | EClusterRunning bool
  | EUpgradeNvram | EMemoryStats | EVncRuntime | ERepair | EBackupDisable
  | EStateChanged vm_value vm_value | EUnregistered
  | EConnect "nat option" bool | EApply nat | ENoTransition


section \<open>The machine inside the running state\<close>

text \<open>
  The data of \<^verbatim>\<open>Started\<close>: the state of the guest tools and whether a connection to the guest
  is under way (\<^verbatim>\<open>m_guard\<close>).
\<close>

record started =
  m_tools :: "tools_state option"
  m_guard :: bool

definition setTools :: "tools_state option \<Rightarrow> started \<Rightarrow> started" where
  "setTools v d = d\<lparr>m_guard := False, m_tools := v\<rparr>"

text \<open>
  \<^verbatim>\<open>connect_\<close>: the factory may give no connector.  The decorators are the number of retries
  and whether the network of the guest is to be configured.
\<close>

definition connect :: "env \<Rightarrow> nat option \<Rightarrow> bool \<Rightarrow> started \<Rightarrow> started \<times> effect list" where
  "connect v retries network d =
     (if connectorOk v then (d\<lparr>m_guard := True\<rparr>, [EConnect retries network]) else (d, []))"

definition started_on_entry :: "env \<Rightarrow> vm_event \<Rightarrow> started \<Rightarrow> started \<times> effect list" where
  "started_on_entry v e d =
     (if e = Conventional VMS_RUNNING then connect v (Some 1) False d
      else if e \<in> {Switch, Agent} then connect v None True d
      else (d, []))"

definition started_on_exit :: "started \<Rightarrow> started" where
  "started_on_exit d = setTools None d"

text \<open>The internal transitions of \<^verbatim>\<open>Started\<close>, and \<^verbatim>\<open>Running_::upgrade\<close>.\<close>

fun started_internal :: "env \<Rightarrow> vm_event \<Rightarrow> started \<Rightarrow> (started \<times> effect list) option" where
  "started_internal v Agent d = Some (if \<not> m_guard d then connect v None False d else (d, []))"
| "started_internal v (ConfigUpdate n) d = Some (d, [EApply n])"
| "started_internal v (ToolsEvent t) d = Some (setTools t d, [])"
| "started_internal v _ d = None"

definition inner_upgrade :: "env \<Rightarrow> effect list" where
  "inner_upgrade v = (if runtimeOk v then [EVncRuntime] else [])"

text \<open>
  The transition table of \<^verbatim>\<open>Running_\<close>: the target of a row, \<open>None\<close> for
  \<^verbatim>\<open>msmf::none\<close> and for the internal rows.
\<close>

definition running_table :: "(inner_state \<times> vm_event \<times> inner_state option) list" where
  "running_table =
     [(Started, Conventional VMS_STOPPING, Some Stopping),
      (Rebooted, Conventional VMS_STOPPING, Some Stopping),
      (Started, UpgradeEvent, None),
      (Rebooted, UpgradeEvent, None),
      (Stopping, Reboot, Some Rebooted),
      (Started, Reboot, Some Rebooted),
      (Rebooted, Conventional VMS_RUNNING, None),
      (Rebooted, Reboot, None),
      (Rebooted, Agent, Some Started),
      (Already, Conventional VMS_RUNNING, Some Started)]"

definition inner_leave :: "inner_state \<Rightarrow> started \<Rightarrow> started" where
  "inner_leave i d = (if i = Started then started_on_exit d else d)"

definition inner_enter :: "env \<Rightarrow> vm_event \<Rightarrow> inner_state \<Rightarrow> started \<Rightarrow> started \<times> effect list" where
  "inner_enter v e i d = (if i = Started then started_on_entry v e d else (d, []))"

text \<open>The row of \<^verbatim>\<open>Rebooted\<close> on a configuration update runs \<^verbatim>\<open>Running_::apply\<close>.\<close>

fun rebooted_apply :: "inner_state \<Rightarrow> vm_event \<Rightarrow> effect list option" where
  "rebooted_apply Rebooted (ConfigUpdate n) = Some [EApply n]"
| "rebooted_apply _ _ = None"

definition running_row ::
  "env \<Rightarrow> vm_event \<Rightarrow> inner_state \<Rightarrow> started \<Rightarrow> ((inner_state \<times> started) \<times> effect list) option" where
  "running_row v e i d =
     (case find (\<lambda>r. fst r = i \<and> fst (snd r) = e) running_table of
        None \<Rightarrow> None
      | Some (_, _, None) \<Rightarrow> Some ((i, d), if e = UpgradeEvent then inner_upgrade v else [])
      | Some (_, _, Some j) \<Rightarrow>
          (let (d', fx) = inner_enter v e j (inner_leave i d) in Some ((j, d'), fx)))"

text \<open>One event in the submachine, \<open>None\<close> when it has no transition.\<close>

definition inner_process ::
  "env \<Rightarrow> vm_event \<Rightarrow> inner_state \<times> started \<Rightarrow> ((inner_state \<times> started) \<times> effect list) option" where
  "inner_process v e s =
     (let (i, d) = s in
      case (if i = Started then started_internal v e d else None) of
        Some (d', fx) \<Rightarrow> Some ((i, d'), fx)
      | None \<Rightarrow>
          (case rebooted_apply i e of
             Some fx \<Rightarrow> Some ((i, d), fx)
           | None \<Rightarrow> running_row v e i d))"


section \<open>The machine of a VM\<close>

datatype row_action = Traffic | RoutesUp | RoutesDown | Runtime | Lock | Unlock | Cluster
  | Upgrade | BackupDisable | Notification

datatype row_target = To outer_state | RunningAlready

fun target_state :: "row_target \<Rightarrow> outer_state" where
  "target_state (To s) = s"
| "target_state RunningAlready = Running"

text \<open>The guard \<^verbatim>\<open>HasState\<close> tells the two targets of a stop apart.\<close>

definition HasState :: "env \<Rightarrow> outer_state \<Rightarrow> bool" where
  "HasState v t = (if t = Stopped then \<not> savFileExists v else savFileExists v)"

definition cluster_configure :: "outer_state \<Rightarrow> outer_state \<Rightarrow> effect list" where
  "cluster_configure a b =
     (let f = (a = Running); t = (b = Running) in
      if \<not> f \<and> \<not> t then [] else [EClusterRunning (\<not> f \<and> t)])"

fun action_effects :: "env \<Rightarrow> outer_state \<Rightarrow> outer_state \<Rightarrow> row_action \<Rightarrow> effect list" where
  "action_effects v a b Traffic = (if hasConfig v then [ETraffic] else [])"
| "action_effects v a b RoutesUp = (if hasConfig v then [ERoutesUp] else [])"
| "action_effects v a b RoutesDown = (if hasConfig v then [ERoutesDown] else [])"
| "action_effects v a b Runtime =
     EMemoryStats # (if runtimeOk v then [EVncRuntime, ERepair] @ cluster_configure a b else [])"
| "action_effects v a b Lock = [ELock]"
| "action_effects v a b Unlock = [EUnlock]"
| "action_effects v a b Cluster = (if config_migrating v then [] else cluster_configure a b)"
| "action_effects v a b Upgrade =
     (if config_migrating v \<or> a \<noteq> Running \<or> b = Running then [] else [EUpgradeNvram])"
| "action_effects v a b BackupDisable = (if hasConfig v then [EBackupDisable] else [])"
| "action_effects v a b Notification =
     (if b = Unknown then (if hasConfig v \<and> isTemplate v then [] else [EUnregistered])
      else if senderValid v then [EStateChanged (state_value a) (state_value b)] else [])"

record row =
  row_source :: outer_state
  row_event :: vm_event
  row_target :: row_target
  row_actions :: "row_action list"
  row_guarded :: bool

definition mk_row :: "outer_state \<Rightarrow> vm_event \<Rightarrow> row_target \<Rightarrow> row_action list \<Rightarrow> bool \<Rightarrow> row" where
  "mk_row s e t as g =
     \<lparr>row_source = s, row_event = e, row_target = t, row_actions = as, row_guarded = g\<rparr>"

definition start_actions :: "row_action list" where
  "start_actions = [Traffic, RoutesUp, Runtime, Lock, Notification]"

definition stop_actions :: "row_action list" where
  "stop_actions = [RoutesDown, Unlock, Cluster, Upgrade, BackupDisable, Notification]"

definition paused_stop_actions :: "row_action list" where
  "paused_stop_actions = [RoutesDown, BackupDisable, Unlock, Notification]"

definition transition_table :: "row list" where
  "transition_table =
     [mk_row Unknown (Conventional VMS_STOPPED) (To Stopped) [Notification] True,
      mk_row Unknown (Conventional VMS_STOPPED) (To Suspended) [Notification] True,
      mk_row Unknown (Conventional VMS_SUSPENDED) (To Suspended) [Notification] False,
      mk_row Unknown (Conventional VMS_PAUSED) (To PausedUnknown) [RoutesUp, Lock, Notification] False,
      mk_row Unknown (Conventional VMS_RUNNING) RunningAlready start_actions False,

      mk_row Stopped (Conventional VMS_RUNNING) (To Running) start_actions False,
      mk_row Stopped (Conventional VMS_DELETING_STATE) (To Deleting) [] False,
      mk_row Stopped (Conventional VMS_MOUNTED) (To Mounted) [Notification] False,
      mk_row Stopped (Conventional VMS_UNKNOWN) (To Unknown) [Notification] False,

      mk_row Deleting (Conventional VMS_STOPPED) (To Stopped) [] False,
      mk_row Deleting (Conventional VMS_SUSPENDED) (To Suspended) [] False,

      mk_row Suspended (Conventional VMS_UNKNOWN) (To Unknown) [Notification] False,
      mk_row Suspended (Conventional VMS_DELETING_STATE) (To Deleting) [] False,
      mk_row Suspended (Conventional VMS_STOPPED) (To Stopped) [Notification] False,
      mk_row Suspended (Conventional VMS_PAUSED) (To PausedOrdinary) [RoutesUp, Lock, Notification] False,
      mk_row Suspended (Conventional VMS_RUNNING) (To Running) start_actions False,

      mk_row Running (Conventional VMS_STOPPED) (To Stopped) stop_actions False,
      mk_row Running (Conventional VMS_SUSPENDED) (To Suspended) stop_actions False,
      mk_row Running (Conventional VMS_PAUSED) (To PausedOrdinary) [Cluster, Upgrade, Notification] False,
      mk_row Running (Conventional VMS_UNKNOWN) (To Unknown) stop_actions False,

      mk_row PausedOrdinary (Conventional VMS_STOPPED) (To Stopped) paused_stop_actions False,
      mk_row PausedOrdinary (Conventional VMS_SUSPENDED) (To Suspended) paused_stop_actions False,
      mk_row PausedOrdinary (Conventional VMS_UNKNOWN) (To Unknown) paused_stop_actions False,
      mk_row PausedOrdinary (Conventional VMS_RUNNING) RunningAlready [Traffic, Cluster, Notification] False,
      mk_row PausedUnknown (Conventional VMS_STOPPED) (To Stopped) paused_stop_actions False,
      mk_row PausedUnknown (Conventional VMS_UNKNOWN) (To Unknown) paused_stop_actions False,
      mk_row PausedUnknown (Conventional VMS_SUSPENDED) (To Suspended) paused_stop_actions False,
      mk_row PausedUnknown (Conventional VMS_RUNNING) RunningAlready
        [Traffic, Cluster, Runtime, Notification] False,

      mk_row Mounted (Conventional VMS_STOPPED) (To Stopped) [Notification] False,
      mk_row Mounted (Conventional VMS_UNKNOWN) (To Unknown) [Notification] False,

      mk_row Stopped Switch (To Reverting) [] False,
      mk_row Suspended Switch (To Reverting) [] False,

      mk_row Reverting (Conventional VMS_STOPPED) (To Stopped) [Notification] True,
      mk_row Reverting (Conventional VMS_STOPPED) (To Suspended) [Notification] True,
      mk_row Reverting (Conventional VMS_SUSPENDED) (To Suspended) [Notification] False,
      mk_row Reverting (Conventional VMS_PAUSED) (To PausedOrdinary)
        [RoutesUp, Runtime, Lock, Notification] False,
      mk_row Reverting (Conventional VMS_RUNNING) (To Running) start_actions False]"

record machine =
  outer :: outer_state
  inner :: inner_state
  started_data :: started

definition machine_init :: machine where
  "machine_init = \<lparr>outer = Unknown, inner = Rebooted,
     started_data = \<lparr>m_tools = None, m_guard = False\<rparr>\<rparr>"

definition row_enabled :: "env \<Rightarrow> vm_event \<Rightarrow> machine \<Rightarrow> row \<Rightarrow> bool" where
  "row_enabled v e m r \<longleftrightarrow> row_source r = outer m \<and> row_event r = e \<and>
     (row_guarded r \<longrightarrow> HasState v (target_state (row_target r)))"

definition leave_outer :: "machine \<Rightarrow> machine" where
  "leave_outer m =
     (if outer m = Running then m\<lparr>started_data := inner_leave (inner m) (started_data m)\<rparr> else m)"

definition enter_outer :: "env \<Rightarrow> vm_event \<Rightarrow> row_target \<Rightarrow> machine \<Rightarrow> machine \<times> effect list" where
  "enter_outer v e t m =
     (case t of
        To s \<Rightarrow> (m\<lparr>outer := s, inner := if s = Running then Rebooted else inner m\<rparr>, [])
      | RunningAlready \<Rightarrow>
          (case inner_process v e (Already, started_data m) of
             None \<Rightarrow> (m\<lparr>outer := Running, inner := Already\<rparr>, [ENoTransition])
           | Some ((i, d), fx) \<Rightarrow>
               (m\<lparr>outer := Running, inner := i, started_data := d\<rparr>, fx)))"

definition fire :: "env \<Rightarrow> vm_event \<Rightarrow> row \<Rightarrow> machine \<Rightarrow> machine \<times> effect list" where
  "fire v e r m =
     (let acts = concat (map (action_effects v (outer m) (target_state (row_target r))) (row_actions r));
          (m', fx) = enter_outer v e (row_target r) (leave_outer m)
      in (m', acts @ fx))"

definition process_event :: "env \<Rightarrow> vm_event \<Rightarrow> machine \<Rightarrow> machine \<times> effect list" where
  "process_event v e m =
     (case (if outer m = Running then inner_process v e (inner m, started_data m) else None) of
        Some ((i, d), fx) \<Rightarrow> (m\<lparr>inner := i, started_data := d\<rparr>, fx)
      | None \<Rightarrow>
          (case find (row_enabled v e m) transition_table of
             None \<Rightarrow> (m, [ENoTransition])
           | Some r \<Rightarrow> fire v e r m))"


section \<open>The reactor\<close>

text \<open>What \<^verbatim>\<open>Vm\<close> remembers about the action libvirt takes on a reboot.\<close>

datatype on_reboot = REBOOT_NONE | CONFIG_DESTROY | UPGRADE_TMP_DESTROY | UPGRADED_NEED_START

record vm =
  vm_name :: qstring
  vm_machine :: machine
  m_upgradeState :: on_reboot

definition vm_init :: vm where
  "vm_init = \<lparr>vm_name = [], vm_machine = machine_init, m_upgradeState = REBOOT_NONE\<rparr>"

text \<open>Events are ignored until the VM is defined, that is, named.\<close>

definition react :: "env \<Rightarrow> vm_event \<Rightarrow> vm \<Rightarrow> vm \<times> effect list" where
  "react v e x =
     (if vm_name x = [] then (x, [])
      else (let (m, fx) = process_event v e (vm_machine x) in (x\<lparr>vm_machine := m\<rparr>, fx)))"

definition isOnRebootDestroy :: "vm \<Rightarrow> bool" where
  "isOnRebootDestroy x \<longleftrightarrow> m_upgradeState x = UPGRADE_TMP_DESTROY \<or> m_upgradeState x = CONFIG_DESTROY"

definition isOnRebootUpgradeDestroy :: "vm \<Rightarrow> bool" where
  "isOnRebootUpgradeDestroy x \<longleftrightarrow> m_upgradeState x = UPGRADE_TMP_DESTROY"

definition isStartNeeded :: "vm \<Rightarrow> bool" where
  "isStartNeeded x \<longleftrightarrow> m_upgradeState x = UPGRADED_NEED_START"

definition initOnRebootState :: "bool \<Rightarrow> vm \<Rightarrow> vm" where
  "initOnRebootState destroy x = x\<lparr>m_upgradeState := if destroy then CONFIG_DESTROY else REBOOT_NONE\<rparr>"

text \<open>
  The reactor's weak pointer may be dead, \<open>None\<close>.  \<^verbatim>\<open>reboot\<close> itself does not test it and is
  modelled for a live one only.
\<close>

definition forward :: "env \<Rightarrow> vm_event \<Rightarrow> vm option \<Rightarrow> vm option \<times> effect list" where
  "forward v e x = (case x of None \<Rightarrow> (None, [])
     | Some x \<Rightarrow> (let (x', fx) = react v e x in (Some x', fx)))"

definition reactor_reboot :: "env \<Rightarrow> vm \<Rightarrow> vm \<times> effect list" where
  "reactor_reboot v x =
     (if isOnRebootDestroy x then
        react v (Conventional VMS_STOPPED)
          (if isOnRebootUpgradeDestroy x then x\<lparr>m_upgradeState := UPGRADED_NEED_START\<rparr> else x)
      else react v Reboot x)"

definition proceed :: "env \<Rightarrow> vm_value \<Rightarrow> vm option \<Rightarrow> vm option \<times> effect list" where
  "proceed v destination x =
     forward v (Conventional
       (if destination \<in> {VMS_RUNNING, VMS_STOPPING, VMS_STOPPED, VMS_PAUSED, VMS_MOUNTED,
                          VMS_SUSPENDED, VMS_DELETING_STATE}
        then destination else VMS_UNKNOWN)) x"

text \<open>
  The part of \<^verbatim>\<open>Vm::updateConfig\<close> that concerns the name and the pending upgrade of the
  NVRAM: \<open>inactive_destroy\<close> is the \<^verbatim>\<open>on_reboot\<close> action of the inactive configuration,
  \<open>old_nvram\<close> that the VM boots from an EFI whose NVRAM is not yet upgraded.  The flags of the
  result: libvirt's action was set to destroy; the VM was started.
\<close>

definition updateConfig ::
  "qstring \<Rightarrow> bool \<Rightarrow> bool \<Rightarrow> vm \<Rightarrow> vm \<times> bool \<times> bool" where
  "updateConfig name inactive_destroy old_nvram x =
     (let should_start = isStartNeeded x;
          x' = initOnRebootState inactive_destroy (x\<lparr>vm_name := name\<rparr>) in
      if outer (vm_machine x) = Running then
        (if old_nvram \<and> m_upgradeState x' \<noteq> CONFIG_DESTROY
         then (x'\<lparr>m_upgradeState := UPGRADE_TMP_DESTROY\<rparr>, True, False)
         else (x', False, False))
      else (x', False, should_start))"

definition getToolsState :: "vm \<Rightarrow> qstring option \<Rightarrow> tools_state" where
  "getToolsState x config_version =
     (case m_tools (started_data (vm_machine x)) of
        Some t \<Rightarrow> t
      | None \<Rightarrow> (case config_version of None \<Rightarrow> PTS_NOT_INSTALLED
                | Some w \<Rightarrow> if w = [] then PTS_NOT_INSTALLED else PTS_POSSIBLY_INSTALLED))"


section \<open>Runs\<close>

fun run_machine :: "(env \<times> vm_event) list \<Rightarrow> machine \<Rightarrow> machine \<times> effect list" where
  "run_machine [] m = (m, [])"
| "run_machine ((v, e) # es) m =
     (let (m', fx) = process_event v e m; (m'', fx') = run_machine es m' in (m'', fx @ fx'))"

lemma run_machine_snoc:
  "run_machine (es @ [(v, e)]) m =
     (let (m', fx) = run_machine es m; (m'', fx') = process_event v e m' in (m'', fx @ fx'))"
  by (induction es arbitrary: m) (auto simp: Let_def split: prod.splits)

text \<open>The state of a VM as the rest of the dispatcher thinks of it.\<close>

datatype phase = Absent | Off | On

fun phase_of :: "outer_state \<Rightarrow> phase" where
  "phase_of Unknown = Absent"
| "phase_of Running = On"
| "phase_of PausedOrdinary = On"
| "phase_of PausedUnknown = On"
| "phase_of _ = Off"

lemmas table_defs = transition_table_def mk_row_def row_enabled_def start_actions_def
  stop_actions_def paused_stop_actions_def

text \<open>What a fired row does, read off the table.\<close>

lemma find_row_cases:
  assumes "find (row_enabled v e m) transition_table = Some r"
  shows "r \<in> set transition_table" "row_source r = outer m" "row_event r = e"
    "row_guarded r \<Longrightarrow> HasState v (target_state (row_target r))"
  using assms by (auto dest!: find_Some_in simp: row_enabled_def)

definition row_sane :: "row \<Rightarrow> bool" where
  "row_sane r \<longleftrightarrow>
     (let a = phase_of (row_source r); b = phase_of (target_state (row_target r)) in
      count_list (row_actions r) Lock = (if a \<noteq> On \<and> b = On then 1 else 0) \<and>
      count_list (row_actions r) Unlock = (if a = On \<and> b \<noteq> On then 1 else 0) \<and>
      count_list (row_actions r) RoutesUp = (if a \<noteq> On \<and> b = On then 1 else 0) \<and>
      count_list (row_actions r) RoutesDown = (if a = On \<and> b \<noteq> On then 1 else 0) \<and>
      (row_target r = RunningAlready \<longrightarrow> row_event r = Conventional VMS_RUNNING) \<and>
      row_source r \<noteq> target_state (row_target r))"

lemma rows_sane: "\<forall>r \<in> set transition_table. row_sane r"
  by (simp add: transition_table_def mk_row_def row_sane_def start_actions_def stop_actions_def
      paused_stop_actions_def)


section \<open>Facts about the interpreter\<close>

definition inner_effect :: "effect \<Rightarrow> bool" where
  "inner_effect x = (case x of EConnect _ _ \<Rightarrow> True | EApply _ \<Rightarrow> True | EVncRuntime \<Rightarrow> True | _ \<Rightarrow> False)"

lemma count_list_concat_map:
  assumes "\<And>x. count_list (f x) y = (if x = k then 1 else 0)"
  shows "count_list (concat (map f xs)) y = count_list xs k"
  using assms by (induction xs) auto

lemma count_list_0I: "y \<notin> set xs \<Longrightarrow> count_list xs y = 0"
  by simp

lemma action_effects_count:
  "count_list (action_effects v a b x) ELock = (if x = Lock then 1 else 0)"
  "count_list (action_effects v a b x) EUnlock = (if x = Unlock then 1 else 0)"
  "hasConfig v \<Longrightarrow> count_list (action_effects v a b x) ERoutesUp = (if x = RoutesUp then 1 else 0)"
  "hasConfig v \<Longrightarrow> count_list (action_effects v a b x) ERoutesDown = (if x = RoutesDown then 1 else 0)"
  by (cases x; simp add: cluster_configure_def Let_def)+

lemma connect_effects: "connect v n b d = (d', fx) \<Longrightarrow> x \<in> set fx \<Longrightarrow> inner_effect x"
  by (auto simp: connect_def inner_effect_def split: if_splits)

lemma started_effects:
  "started_internal v e d = Some (d', fx) \<Longrightarrow> x \<in> set fx \<Longrightarrow> inner_effect x"
  "started_on_entry v e d = (d', fx) \<Longrightarrow> x \<in> set fx \<Longrightarrow> inner_effect x"
  by (cases "(v, e, d)" rule: started_internal.cases;
      auto simp: started_on_entry_def inner_effect_def dest: connect_effects split: if_splits)+

lemma running_table_find:
  assumes "find (\<lambda>r. fst r = i \<and> fst (snd r) = e) running_table = Some (a, b, Some j)"
  shows "j \<noteq> Already" "a = i" "b = e"
  using find_Some_in [OF assms] by (auto simp: running_table_def)

lemma rebooted_apply_Some: "rebooted_apply i e = Some fx \<Longrightarrow> \<exists>n. fx = [EApply n]"
  by (cases "(i, e)" rule: rebooted_apply.cases) auto

lemma running_row_effects:
  "running_row v e i d = Some (s', fx) \<Longrightarrow> x \<in> set fx \<Longrightarrow> inner_effect x"
  by (auto simp: running_row_def inner_enter_def inner_upgrade_def inner_effect_def
      dest: started_effects(2) split: option.splits if_splits prod.splits)

lemma inner_process_effects:
  assumes "inner_process v e s = Some (s', fx)" "x \<in> set fx"
  shows "inner_effect x"
proof -
  obtain i d where s: "s = (i, d)" by (cases s)
  show ?thesis
  proof (cases "if i = Started then started_internal v e d else None")
    case None
    show ?thesis
    proof (cases "rebooted_apply i e")
      case None
      with \<open>(if _ then _ else _) = None\<close> assms s show ?thesis
        by (auto simp: inner_process_def dest: running_row_effects)
    next
      case (Some gx)
      with \<open>(if _ then _ else _) = None\<close> assms s show ?thesis
        by (auto simp: inner_process_def inner_effect_def dest: rebooted_apply_Some)
    qed
  next
    case (Some p)
    with assms s show ?thesis
      by (cases p) (auto simp: inner_process_def dest: started_effects(1) split: if_splits)
  qed
qed

text \<open>The tools of the guest are known in \<^verbatim>\<open>Started\<close> only.\<close>

lemma inner_leave_tools: "(m_tools d \<noteq> None \<Longrightarrow> i = Started) \<Longrightarrow> m_tools (inner_leave i d) = None"
  by (cases "m_tools d") (auto simp: inner_leave_def started_on_exit_def setTools_def)

lemma inner_enter_tools: "inner_enter v e i d = (d', fx) \<Longrightarrow> m_tools d' = m_tools d"
  by (auto simp: inner_enter_def started_on_entry_def connect_def split: if_splits)

lemma running_row_started:
  assumes "running_row v e i d = Some ((j, d'), fx)" "m_tools d \<noteq> None \<Longrightarrow> i = Started"
  shows "j = i \<or> j \<noteq> Already" "m_tools d' \<noteq> None \<Longrightarrow> j = Started"
proof -
  obtain a b c where f: "find (\<lambda>r. fst r = i \<and> fst (snd r) = e) running_table = Some (a, b, c)"
    using assms(1) by (auto simp: running_row_def split: option.splits)
  have "(j = i \<or> j \<noteq> Already) \<and> (m_tools d' \<noteq> None \<longrightarrow> j = Started)"
  proof (cases c)
    case None
    with f assms show ?thesis by (auto simp: running_row_def)
  next
    case (Some k)
    with f assms(1) have "j = k" "inner_enter v e k (inner_leave i d) = (d', fx)"
      by (auto simp: running_row_def split: prod.splits)
    moreover have "m_tools (inner_leave i d) = None"
      using assms(2) by (rule inner_leave_tools)
    ultimately have "m_tools d' = None" using inner_enter_tools by fastforce
    moreover from f Some \<open>j = k\<close> have "j \<noteq> Already" by (auto dest: running_table_find(1))
    ultimately show ?thesis by simp
  qed
  then show "j = i \<or> j \<noteq> Already" "m_tools d' \<noteq> None \<Longrightarrow> j = Started" by auto
qed

lemma inner_process_started:
  assumes "inner_process v e (i, d) = Some ((j, d'), fx)" "m_tools d \<noteq> None \<Longrightarrow> i = Started"
  shows "(j = i \<or> j \<noteq> Already) \<and> (m_tools d' \<noteq> None \<longrightarrow> j = Started)"
proof (cases "if i = Started then started_internal v e d else None")
  case None
  show ?thesis
  proof (cases "rebooted_apply i e")
    case None
    with \<open>(if _ then _ else _) = None\<close> assms running_row_started [of v e i d j d' fx]
    show ?thesis by (auto simp: inner_process_def)
  next
    case (Some gx)
    with \<open>(if _ then _ else _) = None\<close> assms show ?thesis by (auto simp: inner_process_def)
  qed
next
  case (Some p)
  with assms show ?thesis by (cases p) (auto simp: inner_process_def split: if_splits)
qed

lemma already_process:
  "inner_process v (Conventional VMS_RUNNING) (Already, d) =
     (let (d', fx) = connect v (Some 1) False d in Some ((Started, d'), fx))"
  by (simp add: inner_process_def running_row_def running_table_def inner_enter_def inner_leave_def
      started_on_entry_def Let_def)

lemma process_event_cases:
  obtains (inner) i d fx where "outer m = Running"
      "inner_process v e (inner m, started_data m) = Some ((i, d), fx)"
      "process_event v e m = (m\<lparr>inner := i, started_data := d\<rparr>, fx)"
  | (none) "process_event v e m = (m, [ENoTransition])"
  | (row) r where "r \<in> set transition_table" "row_sane r" "row_source r = outer m" "row_event r = e"
      "row_guarded r \<Longrightarrow> HasState v (target_state (row_target r))"
      "process_event v e m = fire v e r m"
proof (cases "if outer m = Running then inner_process v e (inner m, started_data m) else None")
  case None
  show thesis
  proof (cases "find (row_enabled v e m) transition_table")
    case None
    with \<open>(if _ then _ else _) = None\<close> show thesis by (intro none) (simp add: process_event_def)
  next
    case (Some r)
    with \<open>(if _ then _ else _) = None\<close> show thesis
      using find_row_cases [OF Some] rows_sane
      by (intro row [of r]) (auto simp: process_event_def)
  qed
next
  case (Some p)
  then show thesis
    by (cases p, cases "fst p") (auto intro!: inner simp: process_event_def split: if_splits)
qed

lemma fire_result:
  assumes "row_sane r" "row_event r = e"
  obtains fx where "outer (fst (fire v e r m)) = target_state (row_target r)"
    "snd (fire v e r m) =
       concat (map (action_effects v (outer m) (target_state (row_target r))) (row_actions r)) @ fx"
    "\<And>x. x \<in> set fx \<Longrightarrow> inner_effect x"
proof (cases "row_target r")
  case (To s)
  then show thesis by (intro that [of "[]"]) (auto simp: fire_def enter_outer_def Let_def)
next
  case RunningAlready
  with assms have e: "e = Conventional VMS_RUNNING" by (simp add: row_sane_def Let_def)
  obtain d' fx where c: "connect v (Some 1) False (started_data (leave_outer m)) = (d', fx)"
    by (cases "connect v (Some 1) False (started_data (leave_outer m))")
  with RunningAlready e show thesis
    by (intro that [of fx])
      (auto simp: fire_def enter_outer_def already_process Let_def dest: connect_effects)
qed

lemma inner_effects_count:
  assumes "\<And>x. x \<in> set fx \<Longrightarrow> inner_effect x" "\<not> inner_effect y"
  shows "count_list fx y = 0" "y \<notin> set fx"
proof -
  show "y \<notin> set fx" using assms by blast
  then show "count_list fx y = 0" by (rule count_list_0I)
qed

lemma not_inner_effect [simp]:
  "\<not> inner_effect ELock" "\<not> inner_effect EUnlock" "\<not> inner_effect ERoutesUp"
  "\<not> inner_effect ERoutesDown" "\<not> inner_effect (EStateChanged a b)" "\<not> inner_effect EUnregistered"
  "\<not> inner_effect ENoTransition"
  by (simp_all add: inner_effect_def)

text \<open>What one event does to the lock and the routes: they follow the phase.\<close>

definition entered :: "machine \<Rightarrow> machine \<Rightarrow> nat" where
  "entered m m' = (if phase_of (outer m) \<noteq> On \<and> phase_of (outer m') = On then 1 else 0)"

lemma process_event_counts:
  assumes "process_event v e m = (m', fx)"
  shows "count_list fx ELock = entered m m'" "count_list fx EUnlock = entered m' m"
    "hasConfig v \<Longrightarrow> count_list fx ERoutesUp = entered m m'"
    "hasConfig v \<Longrightarrow> count_list fx ERoutesDown = entered m' m"
proof -
  have "count_list fx ELock = entered m m' \<and> count_list fx EUnlock = entered m' m \<and>
    (hasConfig v \<longrightarrow> count_list fx ERoutesUp = entered m m' \<and> count_list fx ERoutesDown = entered m' m)"
  proof (cases rule: process_event_cases [of m v e])
    case (inner i d gx)
    with assms have "m' = m\<lparr>inner := i, started_data := d\<rparr>" "fx = gx" by auto
    moreover have "\<And>x. x \<in> set gx \<Longrightarrow> inner_effect x" using inner inner_process_effects by blast
    ultimately show ?thesis by (simp add: inner_effects_count entered_def)
  next
    case none
    with assms show ?thesis by (auto simp: entered_def)
  next
    case (row r)
    from row(2,4) obtain gx where
      g: "outer (fst (fire v e r m)) = target_state (row_target r)"
      "snd (fire v e r m) =
         concat (map (action_effects v (outer m) (target_state (row_target r))) (row_actions r)) @ gx"
      "\<And>x. x \<in> set gx \<Longrightarrow> inner_effect x"
      by (rule fire_result [where v = v and m = m]) blast
    from g row assms have fx: "fx =
         concat (map (action_effects v (outer m) (target_state (row_target r))) (row_actions r)) @ gx"
      and m': "outer m' = target_state (row_target r)" by (simp_all add: prod_eq_iff)
    have "row_sane r" "row_source r = outer m" using row by auto
    then show ?thesis
      unfolding fx m' entered_def
      by (auto simp: row_sane_def Let_def inner_effects_count [OF g(3)]
          count_list_concat_map [OF action_effects_count(1)]
          count_list_concat_map [OF action_effects_count(2)]
          count_list_concat_map [OF action_effects_count(3)]
          count_list_concat_map [OF action_effects_count(4)])
  qed
  then show "count_list fx ELock = entered m m'" "count_list fx EUnlock = entered m' m"
    "hasConfig v \<Longrightarrow> count_list fx ERoutesUp = entered m m'"
    "hasConfig v \<Longrightarrow> count_list fx ERoutesDown = entered m' m" by auto
qed


section \<open>Properties\<close>

lemma run_counts:
  assumes "run_machine es m = (m', fx)"
  shows "count_list fx ELock + entered m' m = count_list fx EUnlock + entered m m' \<and>
    ((\<forall>(v, e) \<in> set es. hasConfig v) \<longrightarrow>
     count_list fx ERoutesUp + entered m' m = count_list fx ERoutesDown + entered m m')"
  using assms
proof (induction es arbitrary: m fx)
  case Nil
  then show ?case by (auto simp: entered_def)
next
  case (Cons p es)
  obtain v e where p: "p = (v, e)" by (cases p)
  obtain m1 f1 where s: "process_event v e m = (m1, f1)" by (cases "process_event v e m")
  obtain f2 where r: "run_machine es m1 = (m', f2)" and fx: "fx = f1 @ f2"
    using Cons.prems s p by (auto split: prod.splits)
  from Cons.IH [OF r] process_event_counts [OF s] fx p show ?case
    by (auto simp: entered_def split: if_splits)
qed


definition env0 :: env where
  "env0 = \<lparr>savFileExists = False, hasConfig = True, isTemplate = False, config_migrating = False,
     runtimeOk = True, senderValid = True, connectorOk = True\<rparr>"

definition run0 :: "vm_event list \<Rightarrow> machine \<times> effect list" where
  "run0 es = run_machine (map (Pair env0) es) machine_init"


text \<open>At most one row of the transition table applies to an event: the guard HasState decides
  between the two targets of a stop, so the order of the rows does not matter.\<close>

theorem transitions_are_deterministic:
  "length (filter (row_enabled v e m) transition_table) \<le> 1"
proof (cases e)
  case (Conventional x)
  then show ?thesis
    by (cases "outer m"; cases x; cases "savFileExists v")
      (simp_all add: transition_table_def mk_row_def row_enabled_def HasState_def)
qed (cases "outer m"; simp add: transition_table_def mk_row_def row_enabled_def)+

text \<open>The effects that tell the clients of a state.\<close>

definition notification :: "effect \<Rightarrow> bool" where
  "notification x = (case x of EStateChanged _ _ \<Rightarrow> True | EUnregistered \<Rightarrow> True | _ \<Rightarrow> False)"


lemma inner_effect_not_notification: "inner_effect x \<Longrightarrow> \<not> notification x"
  by (cases x) (auto simp: inner_effect_def notification_def)

lemma filter_notification_action:
  "filter notification (action_effects v a b x) =
     (if x = Notification then action_effects v a b Notification else [])"
  by (cases x) (auto simp: notification_def cluster_configure_def Let_def)

lemma filter_notification_actions:
  "filter notification (concat (map (action_effects v a b) xs)) =
     concat (replicate (count_list xs Notification) (action_effects v a b Notification))"
proof (induction xs)
  case (Cons x xs)
  then show ?case using filter_notification_action [of v a b x] by simp
qed simp

lemma rows_notify:
  "\<forall>r \<in> set transition_table. count_list (row_actions r) Notification =
     (if Deleting \<in> {row_source r, target_state (row_target r)} \<or>
         target_state (row_target r) = Reverting then 0 else 1)"
  by (simp add: transition_table_def mk_row_def start_actions_def stop_actions_def
      paused_stop_actions_def)

text \<open>Every transition to another state, other than one from or to the state of a removal and
  one into a revert, tells the clients once: that the VM is gone when it becomes unknown, unless it
  is a template, and otherwise the pair of the old and the new value, while the sender is there.\<close>

theorem transitions_are_notified:
  "filter notification (snd (process_event v e m)) =
     (let a = outer m; b = outer (fst (process_event v e m)) in
      if a = b \<or> Deleting \<in> {a, b} \<or> b = Reverting then []
      else if b = Unknown then (if hasConfig v \<and> isTemplate v then [] else [EUnregistered])
      else if senderValid v then [EStateChanged (state_value a) (state_value b)] else [])"
proof (cases rule: process_event_cases [of m v e])
  case (inner i d gx)
  then have "\<forall>x \<in> set gx. \<not> notification x"
    using inner_process_effects inner_effect_not_notification by blast
  with inner show ?thesis by (simp add: filter_empty_conv)
next
  case none
  then show ?thesis by (simp add: notification_def)
next
  case (row r)
  from row(2,4) obtain gx where
    g: "outer (fst (fire v e r m)) = target_state (row_target r)"
    "snd (fire v e r m) =
       concat (map (action_effects v (outer m) (target_state (row_target r))) (row_actions r)) @ gx"
    "\<And>x. x \<in> set gx \<Longrightarrow> inner_effect x"
    by (rule fire_result [where v = v and m = m]) blast
  from g(3) have "filter notification gx = []"
    by (auto simp: filter_empty_conv dest: inner_effect_not_notification)
  moreover have "outer m \<noteq> target_state (row_target r)"
    using row by (simp add: row_sane_def Let_def)
  ultimately show ?thesis
    using row g rows_notify by (auto simp: filter_notification_actions Let_def)
qed

text \<open>C8. The state of the guest tools is known only in the innermost state Started of a running VM,
  and the machine never rests in the pseudo state Already.\<close>

theorem tools_are_known_when_started:
  "let m = fst (run_machine es machine_init) in
     (m_tools (started_data m) = None \<or> outer m = Running \<and> inner m = Started) \<and> inner m \<noteq> Already"
proof -
  define ok where "ok = (\<lambda>m::machine. (m_tools (started_data m) = None \<or> outer m = Running \<and> inner m = Started)
     \<and> inner m \<noteq> Already)"
  have step: "ok (fst (process_event v e m))" if "ok m" for v e m
  proof (cases rule: process_event_cases [of m v e])
    case (inner i d fx)
    with inner_process_started [OF inner(2)] that show ?thesis by (auto simp: ok_def)
  next
    case none
    with that show ?thesis by simp
  next
    case (row r)
    have leave: "m_tools (started_data (leave_outer m)) = None" "inner (leave_outer m) = inner m"
      using that by (auto simp: ok_def leave_outer_def inner_leave_def started_on_exit_def setTools_def)
    show ?thesis
    proof (cases "row_target r")
      case (To s)
      with row leave that show ?thesis by (auto simp: fire_def enter_outer_def Let_def ok_def)
    next
      case RunningAlready
      moreover from this row have "e = Conventional VMS_RUNNING" by (simp add: row_sane_def Let_def)
      ultimately show ?thesis using row leave
        by (auto simp: fire_def enter_outer_def already_process connect_def ok_def Let_def)
    qed
  qed
  have "ok m \<Longrightarrow> ok (fst (run_machine es m))" for m
  proof (induction es arbitrary: m)
    case (Cons p es)
    then show ?case using step [of m "fst p" "snd p"]
      by (cases p) (simp add: case_prod_beta Let_def)
  qed simp
  moreover have "ok machine_init" by (simp add: ok_def machine_init_def)
  ultimately show ?thesis by (simp add: ok_def Let_def)
qed

lemma inner_process_stopped: "inner_process v (Conventional VMS_STOPPED) (i, d) = None"
  by (cases i) (simp_all add: inner_process_def running_row_def running_table_def)

lemma running_stops:
  assumes "outer m = Running"
  shows "outer (fst (process_event v (Conventional VMS_STOPPED) m)) = Stopped"
  using assms
  by (simp add: process_event_def inner_process_stopped transition_table_def mk_row_def
      row_enabled_def fire_def enter_outer_def Let_def)

text \<open>The restart that upgrades the NVRAM of a running VM: the update sets libvirt's action on a
  reboot to destroy, the next reboot then takes the VM to a stopped state, and the first update after
  it, and only that one, starts the VM again.\<close>

theorem nvram_upgrade_restarts_once:
  fixes x :: vm and v :: env and name :: qstring and d3 n3 d4 n4 :: bool
  assumes "outer (vm_machine x) = Running" "name \<noteq> []"
  defines "x1 \<equiv> updateConfig name False True x"
  defines "x2 \<equiv> reactor_reboot v (fst x1)"
  defines "x3 \<equiv> updateConfig name d3 n3 (fst x2)"
  defines "x4 \<equiv> updateConfig name d4 n4 (fst x3)"
  shows "fst (snd x1) \<and> \<not> snd (snd x1) \<and> outer (vm_machine (fst x2)) = Stopped \<and>
    snd (snd x3) \<and> \<not> snd (snd x4)"
proof -
  from assms(1) have x1: "x1 = (x\<lparr>vm_name := name, m_upgradeState := UPGRADE_TMP_DESTROY\<rparr>, True, False)"
    by (simp add: x1_def updateConfig_def initOnRebootState_def Let_def)
  then have x2: "outer (vm_machine (fst x2)) = Stopped" "m_upgradeState (fst x2) = UPGRADED_NEED_START"
    using assms(1,2) running_stops [of "vm_machine x" v]
    by (auto simp: x2_def reactor_reboot_def isOnRebootDestroy_def isOnRebootUpgradeDestroy_def
        react_def split: prod.splits)
  then have "snd (snd x3)" "outer (vm_machine (fst x3)) = Stopped"
      "m_upgradeState (fst x3) \<noteq> UPGRADED_NEED_START"
    by (auto simp: x3_def updateConfig_def initOnRebootState_def isStartNeeded_def Let_def)
  moreover from this have "\<not> snd (snd x4)"
    by (simp add: x4_def updateConfig_def initOnRebootState_def isStartNeeded_def Let_def)
  ultimately show ?thesis using x1 x2 by simp
qed

definition running_vm :: vm where
  "running_vm = \<lparr>vm_name = ''vm'',
     vm_machine = fst (run0 [Conventional VMS_STOPPED, Conventional VMS_RUNNING, Agent]),
     m_upgradeState = REBOOT_NONE\<rparr>"

lemma nvram_upgrade_restarts_once_witness:
  "outer (vm_machine (fst (reactor_reboot env0 (fst (updateConfig ''vm'' False True running_vm))))) = Stopped"
proof -
  have "outer (vm_machine running_vm) = Running" by code_simp
  then show ?thesis using nvram_upgrade_restarts_once [where x = running_vm and name = "''vm''" and v = env0] by simp
qed

end
