(* ===== verification/VmDirectory.thy ===== *)
theory VmDirectory
  imports Prelude "HOL-Library.Multiset"
begin

text \<open>
  The catalogue of VM directories: \<^verbatim>\<open>CDspVmDirManager\<close>, the set of ephemeral directories
  and the iterator over all items (\<^verbatim>\<open>CDspVmDirManager.cpp\<close>).

  \<^verbatim>\<open>CVmDirectories\<close>, \<^verbatim>\<open>CVmDirectory\<close> and \<^verbatim>\<open>CFileHelper\<close> are classes of another
  repository; what the code calls of them is the record \<open>catalogue_api\<close>, an argument of the
  definitions, and \<open>api_ok\<close> what their documentation promises.  Objects that the code compares by
  address carry an identifier.  The outcome of writing the catalogue's file is an argument.
\<close>

section \<open>Data\<close>

datatype vm_type = PVT_VM | PVT_CT

record dir_item =
  item_ptr :: nat
  vmUuid :: uuid
  vmHome :: qstring
  vmName :: qstring
  ctId :: qstring
  vmIsTemplate :: bool
  vmType :: vm_type

record temp_item =
  t_vmUuid :: uuid
  t_vmXmlPath :: qstring
  t_vmName :: qstring
  m_sItemId :: qstring

record directory =
  dir_uuid :: uuid
  defaultVmFolder :: qstring
  m_lstVmDirectoryItems :: "dir_item list"
  temporaryCatalogue :: "temp_item list"

record catalogue =
  m_lstVmDirectory :: "directory list"
  m_directoryList :: "uuid set"
  m_vmDirCatalogueFile :: qstring
  saved_file :: "directory list"

record catalogue_api =
  getVmDirectoryByUuid :: "uuid \<Rightarrow> directory list \<Rightarrow> nat option"
  addVmDirectory :: "directory \<Rightarrow> directory list \<Rightarrow> directory list"
  addVmDirectoryItem :: "dir_item \<Rightarrow> dir_item list \<Rightarrow> dir_item list"
  IsPathsEqual :: "qstring \<Rightarrow> qstring \<Rightarrow> bool"

text \<open>
  The lookup gives a directory with the uuid when there is one; an addition puts the new element
  somewhere and keeps the others in their order.
\<close>

definition inserts :: "('a \<Rightarrow> 'a list \<Rightarrow> 'a list) \<Rightarrow> bool" where
  "inserts add \<longleftrightarrow> (\<forall>x xs. \<exists>ys zs. xs = ys @ zs \<and> add x xs = ys @ x # zs)"

definition api_ok :: "catalogue_api \<Rightarrow> bool" where
  "api_ok A \<longleftrightarrow>
     (\<forall>u ds. (case getVmDirectoryByUuid A u ds of
        None \<Rightarrow> \<forall>d \<in> set ds. dir_uuid d \<noteq> u
      | Some i \<Rightarrow> i < length ds \<and> dir_uuid (ds ! i) = u)) \<and>
     inserts (addVmDirectory A) \<and> inserts (addVmDirectoryItem A)"

text \<open>What an operation tells the rest of the dispatcher.\<close>

datatype dir_effect = UpdateCtidMap uuid qstring | RemoveCtConfig qstring | RemoveFromCache qstring


section \<open>Looking up\<close>

definition getVmDirectory :: "catalogue_api \<Rightarrow> uuid \<Rightarrow> catalogue \<Rightarrow> directory option" where
  "getVmDirectory A u s =
     (case getVmDirectoryByUuid A u (m_lstVmDirectory s) of
        None \<Rightarrow> None | Some i \<Rightarrow> Some (m_lstVmDirectory s ! i))"

text \<open>
  The code holds a pointer to the directory it found; a change of that directory is a change at its
  place in the list.
\<close>

definition setVmDirectory :: "nat \<Rightarrow> directory \<Rightarrow> catalogue \<Rightarrow> catalogue" where
  "setVmDirectory i d s = s\<lparr>m_lstVmDirectory := (m_lstVmDirectory s)[i := d]\<rparr>"

definition getVmDirItemByUuid :: "catalogue_api \<Rightarrow> uuid \<Rightarrow> uuid \<Rightarrow> catalogue \<Rightarrow> dir_item option" where
  "getVmDirItemByUuid A d v s =
     (case getVmDirectory A d s of None \<Rightarrow> None
      | Some x \<Rightarrow> find (\<lambda>i. vmUuid i = v) (m_lstVmDirectoryItems x))"

definition getVmDirItemByHome :: "catalogue_api \<Rightarrow> uuid \<Rightarrow> qstring \<Rightarrow> catalogue \<Rightarrow> dir_item option" where
  "getVmDirItemByHome A d h s =
     (case getVmDirectory A d s of None \<Rightarrow> None
      | Some x \<Rightarrow> find (\<lambda>i. IsPathsEqual A (vmHome i) h) (m_lstVmDirectoryItems x))"

definition getVmDirItemByName :: "catalogue_api \<Rightarrow> uuid \<Rightarrow> qstring \<Rightarrow> catalogue \<Rightarrow> dir_item option" where
  "getVmDirItemByName A d n s =
     (case getVmDirectory A d s of None \<Rightarrow> None
      | Some x \<Rightarrow> find (\<lambda>i. vmName i = n) (m_lstVmDirectoryItems x))"

definition getVmNameByUuid :: "catalogue_api \<Rightarrow> vm_ident \<Rightarrow> catalogue \<Rightarrow> qstring" where
  "getVmNameByUuid A x s =
     (case getVmDirItemByUuid A (snd x) (fst x) s of None \<Rightarrow> [] | Some i \<Rightarrow> vmName i)"

definition getVmHomeByUuid :: "catalogue_api \<Rightarrow> vm_ident \<Rightarrow> catalogue \<Rightarrow> qstring" where
  "getVmHomeByUuid A x s =
     (case getVmDirItemByUuid A (snd x) (fst x) s of None \<Rightarrow> [] | Some i \<Rightarrow> vmHome i)"


section \<open>The iterator over all items\<close>

text \<open>
  \<^verbatim>\<open>Item::Iterator\<close>: the rest of the current directory and the directories after it, the
  current one included; at the end both are empty.
\<close>

record item_iterator =
  m_innerP :: "dir_item list"
  m_outerP :: "directory list"

fun iterator_setup :: "directory list \<Rightarrow> item_iterator" where
  "iterator_setup [] = \<lparr>m_innerP = [], m_outerP = []\<rparr>"
| "iterator_setup (d # ds) =
     (if m_lstVmDirectoryItems d \<noteq> [] then \<lparr>m_innerP = m_lstVmDirectoryItems d, m_outerP = d # ds\<rparr>
      else iterator_setup ds)"

definition iterator_increment :: "item_iterator \<Rightarrow> item_iterator" where
  "iterator_increment p =
     (if m_outerP p = [] then p
      else if tl (m_innerP p) = [] then iterator_setup (tl (m_outerP p))
      else p\<lparr>m_innerP := tl (m_innerP p)\<rparr>)"

definition iterator_dereference :: "item_iterator \<Rightarrow> uuid \<times> dir_item" where
  "iterator_dereference p = (dir_uuid (hd (m_outerP p)), hd (m_innerP p))"

text \<open>The loop \<^verbatim>\<open>foreach (i, d.getItemList())\<close>, with as much fuel as it needs.\<close>

fun iterate :: "nat \<Rightarrow> item_iterator \<Rightarrow> (uuid \<times> dir_item) list option" where
  "iterate 0 p = (if m_outerP p = [] then Some [] else None)"
| "iterate (Suc n) p =
     (if m_outerP p = [] then Some []
      else map_option ((#) (iterator_dereference p)) (iterate n (iterator_increment p)))"

definition getItemList :: "directory list \<Rightarrow> (uuid \<times> dir_item) list" where
  "getItemList ds = concat (map (\<lambda>d. map (Pair (dir_uuid d)) (m_lstVmDirectoryItems d)) ds)"

definition getAllVmIdList :: "catalogue \<Rightarrow> vm_ident list" where
  "getAllVmIdList s = map (\<lambda>(d, i). (vmUuid i, d)) (getItemList (m_lstVmDirectory s))"

definition checkWhetherVmAlreadyPresents :: "catalogue_api \<Rightarrow> qstring \<Rightarrow> catalogue \<Rightarrow> bool" where
  "checkWhetherVmAlreadyPresents A home s \<longleftrightarrow>
     (\<exists>(d, i) \<in> set (getItemList (m_lstVmDirectory s)). IsPathsEqual A (vmHome i) home)"

text \<open>\<^verbatim>\<open>QHash::insert\<close> replaces: of two items of a directory the later one stays.\<close>

definition findVmDirItemsInCatalogue ::
  "catalogue_api \<Rightarrow> uuid \<Rightarrow> qstring \<Rightarrow> catalogue \<Rightarrow> (uuid \<rightharpoonup> dir_item)" where
  "findVmDirItemsInCatalogue A v path s =
     fold (\<lambda>(d, i) h. if v = vmUuid i \<and> IsPathsEqual A path (vmHome i) then h(d \<mapsto> i) else h)
       (getItemList (m_lstVmDirectory s)) Map.empty"


section \<open>Changing the catalogue\<close>

text \<open>
  \<^verbatim>\<open>saveVmDirCatalogue\<close>: what is written lacks the ephemeral directories; \<open>res\<close> is the
  result of \<^verbatim>\<open>saveToFile\<close>.
\<close>

definition saveVmDirCatalogue :: "prl_result \<Rightarrow> catalogue \<Rightarrow> prl_result \<times> catalogue" where
  "saveVmDirCatalogue res s =
     (if prl_failed res then (PRL_ERR_SAVE_VM_CATALOG, s)
      else (PRL_ERR_SUCCESS,
        s\<lparr>saved_file := filter (\<lambda>d. dir_uuid d \<notin> m_directoryList s) (m_lstVmDirectory s)\<rparr>))"

definition addNewVmDirectory ::
  "catalogue_api \<Rightarrow> prl_result \<Rightarrow> directory option \<Rightarrow> catalogue \<Rightarrow> prl_result \<times> catalogue" where
  "addNewVmDirectory A res x s =
     (case x of
        None \<Rightarrow> (PRL_ERR_INVALID_PARAM, s)
      | Some d \<Rightarrow>
          if getVmDirectoryByUuid A (dir_uuid d) (m_lstVmDirectory s) \<noteq> None
          then (PRL_ERR_VM_DIR_CONFIG_ALREADY_EXISTS, s)
          else saveVmDirCatalogue res
                 (s\<lparr>m_lstVmDirectory := addVmDirectory A d (m_lstVmDirectory s)\<rparr>))"

definition addVmDirItem ::
  "catalogue_api \<Rightarrow> prl_result \<Rightarrow> uuid \<Rightarrow> dir_item option \<Rightarrow> catalogue \<Rightarrow>
   prl_result \<times> dir_effect list \<times> catalogue" where
  "addVmDirItem A res u x s =
     (case x of
        None \<Rightarrow> (PRL_ERR_INVALID_PARAM, [], s)
      | Some item \<Rightarrow>
          (case getVmDirectoryByUuid A u (m_lstVmDirectory s) of
             None \<Rightarrow> (PRL_ERR_VM_DIRECTORY_NOT_EXIST, [], s)
           | Some n \<Rightarrow>
               if getVmDirItemByUuid A u (vmUuid item) s \<noteq> None
               then (PRL_ERR_ENTRY_ALREADY_EXISTS, [], s)
               else
                 (let d = m_lstVmDirectory s ! n;
                      its = addVmDirectoryItem A item (m_lstVmDirectoryItems d);
                      (r, s') = saveVmDirCatalogue res
                         (setVmDirectory n (d\<lparr>m_lstVmDirectoryItems := its\<rparr>) s)
                  in if prl_failed r
                     then (r, [], setVmDirectory n
                       (d\<lparr>m_lstVmDirectoryItems := erase_first (\<lambda>i. item_ptr i = item_ptr item) its\<rparr>) s')
                     else (r, if vmType item = PVT_CT
                              then [UpdateCtidMap (vmUuid item) (ctId item)] else [], s'))))"

definition deleteVmDirItem ::
  "catalogue_api \<Rightarrow> prl_result \<Rightarrow> uuid \<Rightarrow> uuid \<Rightarrow> catalogue \<Rightarrow>
   prl_result \<times> dir_effect list \<times> catalogue" where
  "deleteVmDirItem A res u v s =
     (case getVmDirectoryByUuid A u (m_lstVmDirectory s) of
        None \<Rightarrow> (PRL_ERR_VM_DIRECTORY_NOT_EXIST, [], s)
      | Some n \<Rightarrow>
          (case find (\<lambda>i. vmUuid i = v) (m_lstVmDirectoryItems (m_lstVmDirectory s ! n)) of
             None \<Rightarrow> (PRL_ERR_ENTRY_DOES_NOT_EXIST, [], s)
           | Some item \<Rightarrow>
               (let d = m_lstVmDirectory s ! n;
                    its = erase_first (\<lambda>i. vmUuid i = v) (m_lstVmDirectoryItems d);
                    (r, s') = saveVmDirCatalogue res
                       (setVmDirectory n (d\<lparr>m_lstVmDirectoryItems := its\<rparr>) s)
                in if prl_failed r
                   then (r, [], setVmDirectory n
                     (d\<lparr>m_lstVmDirectoryItems := addVmDirectoryItem A item its\<rparr>) s')
                   else (r,
                     if vmType item = PVT_CT
                     then [UpdateCtidMap (vmUuid item) [], RemoveCtConfig (vmHome item),
                           RemoveFromCache (vmHome item)]
                     else [RemoveFromCache (vmHome item)], s'))))"

definition updateVmDirItem :: "prl_result \<Rightarrow> dir_item option \<Rightarrow> catalogue \<Rightarrow> prl_result \<times> catalogue" where
  "updateVmDirItem res x s =
     (case x of None \<Rightarrow> (PRL_ERR_INVALID_ARG, s) | Some _ \<Rightarrow> saveVmDirCatalogue res s)"

definition getVzDirectoryUuid :: uuid where
  "getVzDirectoryUuid = ''{03bbd245-ddf6-42fe-9812-46ac816349f5}''"

definition getTemplatesDirectoryUuid :: uuid where
  "getTemplatesDirectoryUuid = ''{a610e7fa-23d7-48cd-9086-b9c82021a885}''"

text \<open>
  \<^verbatim>\<open>initVzDirCatalogue\<close>: \<open>fill\<close> is the answer of \<^verbatim>\<open>fillVzDirectory\<close>, the items it
  found or its error; \<open>path\<close> the private directory of the containers.
\<close>

definition initVzDirCatalogue ::
  "catalogue_api \<Rightarrow> prl_result + dir_item list \<Rightarrow> qstring \<Rightarrow> prl_result \<Rightarrow> catalogue \<Rightarrow>
   prl_result \<times> dir_effect list \<times> catalogue" where
  "initVzDirCatalogue A fill path res s =
     (case fill of
        Inl e \<Rightarrow> (e, [], s)
      | Inr its \<Rightarrow>
          (let d = \<lparr>dir_uuid = getVzDirectoryUuid, defaultVmFolder = path,
                    m_lstVmDirectoryItems = its, temporaryCatalogue = []\<rparr>;
               ds = erase_first (\<lambda>x. dir_uuid x = getVzDirectoryUuid) (m_lstVmDirectory s);
               (r, s') = saveVmDirCatalogue res (s\<lparr>m_lstVmDirectory := addVmDirectory A d ds\<rparr>)
           in (r, map (\<lambda>i. UpdateCtidMap (vmUuid i) (ctId i)) its, s')))"

definition initTemplatesDirCatalogue ::
  "catalogue_api \<Rightarrow> qstring \<Rightarrow> prl_result \<Rightarrow> catalogue \<Rightarrow> prl_result \<times> catalogue" where
  "initTemplatesDirCatalogue A path res s =
     (if \<forall>d \<in> set (m_lstVmDirectory s). dir_uuid d \<noteq> getTemplatesDirectoryUuid
      then saveVmDirCatalogue res (s\<lparr>m_lstVmDirectory := addVmDirectory A
             \<lparr>dir_uuid = getTemplatesDirectoryUuid, defaultVmFolder = path,
              m_lstVmDirectoryItems = [], temporaryCatalogue = []\<rparr> (m_lstVmDirectory s)\<rparr>)
      else (PRL_ERR_SUCCESS, s))"

text \<open>\<open>loaded\<close> is the answer of \<^verbatim>\<open>loadFromFile\<close>.\<close>

definition setCatalogueFileName ::
  "catalogue_api \<Rightarrow> qstring \<Rightarrow> prl_result + directory list \<Rightarrow> catalogue \<Rightarrow> prl_result \<times> catalogue" where
  "setCatalogueFileName A name loaded s =
     (if IsPathsEqual A (m_vmDirCatalogueFile s) name then (PRL_ERR_SUCCESS, s)
      else (case loaded of
              Inl e \<Rightarrow> (e, s)
            | Inr ds \<Rightarrow> (PRL_ERR_SUCCESS, s\<lparr>m_lstVmDirectory := ds, m_vmDirCatalogueFile := name\<rparr>)))"


section \<open>Ephemeral directories\<close>

text \<open>\<open>fresh\<close> is the uuid that \<^verbatim>\<open>Uuid::createUuid\<close> gives.\<close>

definition ephemeral_insert ::
  "catalogue_api \<Rightarrow> uuid \<Rightarrow> qstring \<Rightarrow> catalogue \<Rightarrow> (prl_result + uuid) \<times> catalogue" where
  "ephemeral_insert A fresh path s =
     (if \<exists>d \<in> set (m_lstVmDirectory s). path = defaultVmFolder d
      then (Inl PRL_ERR_VM_DIR_CONFIG_ALREADY_EXISTS, s)
      else (Inr fresh, s\<lparr>m_lstVmDirectory := addVmDirectory A
              \<lparr>dir_uuid = fresh, defaultVmFolder = path, m_lstVmDirectoryItems = [],
               temporaryCatalogue = []\<rparr> (m_lstVmDirectory s),
            m_directoryList := insert fresh (m_directoryList s)\<rparr>))"

definition remove_nth :: "nat \<Rightarrow> 'a list \<Rightarrow> 'a list" where
  "remove_nth i xs = take i xs @ drop (Suc i) xs"

definition ephemeral_remove :: "catalogue_api \<Rightarrow> uuid \<Rightarrow> catalogue \<Rightarrow> prl_result \<times> catalogue" where
  "ephemeral_remove A u s =
     (if u \<notin> m_directoryList s then (PRL_ERR_FILE_NOT_FOUND, s)
      else (case getVmDirectoryByUuid A u (m_lstVmDirectory s) of
              None \<Rightarrow> (PRL_ERR_FILE_NOT_FOUND, s)
            | Some i \<Rightarrow>
                if m_lstVmDirectoryItems (m_lstVmDirectory s ! i) \<noteq> []
                then (PRL_ERR_INVALID_HANDLE, s)
                else (PRL_ERR_SUCCESS, s\<lparr>m_lstVmDirectory := remove_nth i (m_lstVmDirectory s),
                        m_directoryList := m_directoryList s - {u}\<rparr>)))"

definition ephemeral_find :: "qstring \<Rightarrow> catalogue \<Rightarrow> uuid option" where
  "ephemeral_find path s =
     (case find (\<lambda>d. path = defaultVmFolder d) (m_lstVmDirectory s) of
        None \<Rightarrow> None
      | Some d \<Rightarrow> if dir_uuid d \<in> m_directoryList s then Some (dir_uuid d) else None)"


section \<open>Exclusive VM parameters\<close>

text \<open>What one registered item has in common with the lock item.\<close>

definition item_errors :: "catalogue_api \<Rightarrow> temp_item \<Rightarrow> dir_item \<Rightarrow> prl_result list" where
  "item_errors A l i =
     (if t_vmUuid l \<noteq> [] \<and> t_vmUuid l = vmUuid i
      then [PRL_ERR_VM_ALREADY_REGISTERED_VM_UUID] else []) @
     (if t_vmName l \<noteq> [] \<and> vmName i = t_vmName l
      then [PRL_ERR_VM_ALREADY_REGISTERED_VM_NAME] else []) @
     (if t_vmXmlPath l \<noteq> [] \<and> vmHome i \<noteq> [] \<and> IsPathsEqual A (vmHome i) (t_vmXmlPath l)
      then [PRL_ERR_VM_ALREADY_REGISTERED_VM_PATH] else [])"

definition same_vm :: "catalogue_api \<Rightarrow> temp_item \<Rightarrow> dir_item \<Rightarrow> bool" where
  "same_vm A l i \<longleftrightarrow> t_vmUuid l = vmUuid i \<and> IsPathsEqual A (vmHome i) (t_vmXmlPath l) \<and>
     vmName i = t_vmName l"

text \<open>
  The search in \<^verbatim>\<open>checkAndLockNotExistsExclusiveVmParameters\<close> over the items of a directory:
  \<open>Inl\<close> is the list of errors that was thrown, \<open>Inr\<close> the errors collected so far.  \<open>collect\<close>
  says that the caller wants all errors.
\<close>

fun check_items ::
  "catalogue_api \<Rightarrow> bool \<Rightarrow> temp_item \<Rightarrow> dir_item list \<Rightarrow> prl_result list \<Rightarrow>
   prl_result list + prl_result list" where
  "check_items A collect l [] errs = Inr errs"
| "check_items A collect l (i # its) errs =
     (if errs @ item_errors A l i \<noteq> [] \<and> same_vm A l i then Inl [PRL_ERR_VM_ALREADY_REGISTERED]
      else if \<not> collect \<and> errs @ item_errors A l i \<noteq> [] then Inl (errs @ item_errors A l i)
      else check_items A collect l its (errs @ item_errors A l i))"

definition temp_conflict :: "catalogue_api \<Rightarrow> temp_item \<Rightarrow> temp_item \<Rightarrow> bool" where
  "temp_conflict A l t \<longleftrightarrow>
     t_vmUuid l \<noteq> [] \<and> t_vmUuid l = t_vmUuid t \<or>
     t_vmXmlPath l \<noteq> [] \<and> IsPathsEqual A (t_vmXmlPath l) (t_vmXmlPath t) \<or>
     t_vmName l \<noteq> [] \<and> t_vmName l = t_vmName t"

definition push_temp :: "nat \<Rightarrow> temp_item \<Rightarrow> catalogue \<Rightarrow> catalogue" where
  "push_temp n l s =
     (let d = m_lstVmDirectory s ! n in
      setVmDirectory n (d\<lparr>temporaryCatalogue := temporaryCatalogue d @ [l]\<rparr>) s)"

text \<open>
  The result is the list of errors, empty for success; the code returns its first element.  The
  lock item is not null: with a null one the code fails an assertion and then reads through it.
\<close>

definition checkAndLock ::
  "catalogue_api \<Rightarrow> bool \<Rightarrow> uuid \<Rightarrow> temp_item \<Rightarrow> catalogue \<Rightarrow> prl_result list \<times> catalogue" where
  "checkAndLock A collect u l s =
     (case getVmDirectoryByUuid A u (m_lstVmDirectory s) of
        None \<Rightarrow> ([PRL_ERR_VM_DIRECTORY_NOT_EXIST], s)
      | Some n \<Rightarrow>
          (let d = m_lstVmDirectory s ! n in
           case check_items A collect l (m_lstVmDirectoryItems d) [] of
             Inl errs \<Rightarrow> (errs, s)
           | Inr errs \<Rightarrow>
               if errs \<noteq> [] then (errs, s)
               else if \<exists>t \<in> set (temporaryCatalogue d). temp_conflict A l t
               then ([PRL_ERR_VM_ALREADY_REGISTERED_UNIQUE_PARAMS], s)
               else ([], push_temp n l s)))"

definition errors_result :: "prl_result list \<Rightarrow> prl_result" where
  "errors_result errs = (case errs of [] \<Rightarrow> PRL_ERR_SUCCESS | e # _ \<Rightarrow> e)"

definition lockExisting ::
  "catalogue_api \<Rightarrow> uuid \<Rightarrow> temp_item option \<Rightarrow> catalogue \<Rightarrow> prl_result \<times> catalogue" where
  "lockExisting A u x s =
     (case x of
        None \<Rightarrow> (PRL_ERR_INVALID_ARG, s)
      | Some l \<Rightarrow>
          (case getVmDirectoryByUuid A u (m_lstVmDirectory s) of
             None \<Rightarrow> (PRL_ERR_VM_DIRECTORY_NOT_EXIST, s)
           | Some n \<Rightarrow>
               if \<forall>i \<in> set (m_lstVmDirectoryItems (m_lstVmDirectory s ! n)). t_vmUuid l \<noteq> vmUuid i
               then (PRL_ERR_VM_UUID_NOT_FOUND, s)
               else if \<exists>t \<in> set (temporaryCatalogue (m_lstVmDirectory s ! n)).
                         t_vmUuid l \<noteq> [] \<and> t_vmUuid l = t_vmUuid t
               then (PRL_ERR_VM_ALREADY_REGISTERED_UNIQUE_PARAMS, s)
               else (PRL_ERR_SUCCESS, push_temp n l s)))"

definition lockExclusive ::
  "catalogue_api \<Rightarrow> uuid \<Rightarrow> temp_item option \<Rightarrow> catalogue \<Rightarrow> prl_result \<times> catalogue" where
  "lockExclusive A u x s =
     (case x of
        None \<Rightarrow> (PRL_ERR_INVALID_ARG, s)
      | Some l \<Rightarrow>
          (case getVmDirectoryByUuid A u (m_lstVmDirectory s) of
             None \<Rightarrow> (PRL_ERR_VM_DIRECTORY_NOT_EXIST, s)
           | Some n \<Rightarrow>
               if \<exists>t \<in> set (temporaryCatalogue (m_lstVmDirectory s ! n)).
                    t_vmUuid l \<noteq> [] \<and> t_vmUuid l = t_vmUuid t
               then (PRL_ERR_VM_ALREADY_REGISTERED_UNIQUE_PARAMS, s)
               else (PRL_ERR_SUCCESS, push_temp n l s)))"

definition unlock_at :: "nat \<Rightarrow> qstring \<Rightarrow> catalogue \<Rightarrow> catalogue" where
  "unlock_at n k s =
     (let d = m_lstVmDirectory s ! n in
      setVmDirectory n (d\<lparr>temporaryCatalogue :=
        erase_first (\<lambda>t. m_sItemId t = k) (temporaryCatalogue d)\<rparr>) s)"

definition unlockExclusive :: "catalogue_api \<Rightarrow> uuid \<Rightarrow> temp_item option \<Rightarrow> catalogue \<Rightarrow> catalogue" where
  "unlockExclusive A u x s =
     (case x of
        None \<Rightarrow> s
      | Some l \<Rightarrow>
          (case getVmDirectoryByUuid A u (m_lstVmDirectory s) of
             None \<Rightarrow> s
           | Some n \<Rightarrow> unlock_at n (m_sItemId l) s))"

definition unlockExclusiveAll :: "catalogue_api \<Rightarrow> temp_item option \<Rightarrow> catalogue \<Rightarrow> catalogue" where
  "unlockExclusiveAll A x s =
     fold (\<lambda>u. unlockExclusive A u x) (map dir_uuid (m_lstVmDirectory s)) s"

text \<open>The overload over a list of directories; an empty list means all of them.\<close>

fun checkAndLock_dirs ::
  "catalogue_api \<Rightarrow> bool \<Rightarrow> uuid list \<Rightarrow> temp_item \<Rightarrow> catalogue \<Rightarrow> prl_result list \<times> catalogue" where
  "checkAndLock_dirs A collect [] l s = ([], s)"
| "checkAndLock_dirs A collect (u # us) l s =
     (case checkAndLock A collect u l s of
        ([], s') \<Rightarrow> checkAndLock_dirs A collect us l s'
      | (errs, s') \<Rightarrow> (errs, unlockExclusiveAll A (Some l) s'))"

definition checkAndLockList ::
  "catalogue_api \<Rightarrow> bool \<Rightarrow> uuid list \<Rightarrow> temp_item \<Rightarrow> catalogue \<Rightarrow> prl_result list \<times> catalogue" where
  "checkAndLockList A collect sel l s =
     checkAndLock_dirs A collect
       (filter (\<lambda>u. sel = [] \<or> u \<in> set sel) (map dir_uuid (m_lstVmDirectory s))) l s"


section \<open>Facts about the parameters\<close>

lemma api_find_Some:
  assumes "api_ok A" "getVmDirectoryByUuid A u ds = Some n"
  shows "n < length ds" "dir_uuid (ds ! n) = u"
  using assms unfolding api_ok_def by (metis (mono_tags, lifting) option.simps(5))+

lemma api_find_None:
  assumes "api_ok A" "getVmDirectoryByUuid A u ds = None" shows "u \<notin> dir_uuid ` set ds"
  using assms unfolding api_ok_def by (metis (mono_tags, lifting) imageE option.simps(4))

lemma insertsE:
  assumes "inserts add" obtains ys zs where "xs = ys @ zs" "add x xs = ys @ x # zs"
  using assms unfolding inserts_def by blast

lemma inserts_mset: "inserts add \<Longrightarrow> mset (add x xs) = add_mset x (mset xs)"
  by (rule insertsE [of add xs x]) auto

lemma inserts_set: "inserts add \<Longrightarrow> set (add x xs) = insert x (set xs)"
  by (rule insertsE [of add xs x]) auto

lemma inserts_distinct_map:
  "inserts add \<Longrightarrow> distinct (map f (add x xs)) \<longleftrightarrow> f x \<notin> f ` set xs \<and> distinct (map f xs)"
  by (rule insertsE [of add xs x]) (auto simp: image_iff)

lemma inserts_erase:
  assumes "inserts add" "P x" "\<And>y. y \<in> set xs \<Longrightarrow> \<not> P y"
  shows "erase_first P (add x xs) = xs"
proof (rule insertsE [OF assms(1), of xs x])
  fix ys zs assume "xs = ys @ zs" "add x xs = ys @ x # zs"
  with assms(2,3) show ?thesis by (auto simp: erase_first_append)
qed

lemma api_inserts: "api_ok A \<Longrightarrow> inserts (addVmDirectory A)" "api_ok A \<Longrightarrow> inserts (addVmDirectoryItem A)"
  by (simp_all add: api_ok_def)

lemma saveVmDirCatalogue_cases:
  obtains "saveVmDirCatalogue res s = (PRL_ERR_SAVE_VM_CATALOG, s)" "prl_failed res"
  | "saveVmDirCatalogue res s = (PRL_ERR_SUCCESS,
        s\<lparr>saved_file := filter (\<lambda>d. dir_uuid d \<notin> m_directoryList s) (m_lstVmDirectory s)\<rparr>)"
    "\<not> prl_failed res"
  by (cases "prl_failed res") (auto simp: saveVmDirCatalogue_def)

lemma save_failed_simp [simp]: "prl_failed PRL_ERR_SAVE_VM_CATALOG"
  by (simp add: prl_failed_def)


section \<open>The iterator\<close>

definition rest :: "item_iterator \<Rightarrow> (uuid \<times> dir_item) list" where
  "rest p = (case m_outerP p of [] \<Rightarrow> []
     | d # ds \<Rightarrow> map (Pair (dir_uuid d)) (m_innerP p) @ getItemList ds)"

definition iterator_ok :: "item_iterator \<Rightarrow> bool" where
  "iterator_ok p \<longleftrightarrow> (m_outerP p \<noteq> [] \<longrightarrow> m_innerP p \<noteq> [])"

lemma iterator_setup_rest: "rest (iterator_setup ds) = getItemList ds \<and> iterator_ok (iterator_setup ds)"
  by (induction ds) (auto simp: rest_def getItemList_def iterator_ok_def)

lemma iterator_increment_rest:
  assumes "iterator_ok p" "m_outerP p \<noteq> []"
  shows "rest p = iterator_dereference p # rest (iterator_increment p)"
    "iterator_ok (iterator_increment p)"
proof -
  from assms obtain d ds i its where p: "m_outerP p = d # ds" "m_innerP p = i # its"
    by (auto simp: iterator_ok_def neq_Nil_conv)
  show "rest p = iterator_dereference p # rest (iterator_increment p)"
  proof (cases its)
    case Nil
    with p have "iterator_increment p = iterator_setup ds" by (simp add: iterator_increment_def)
    with p Nil iterator_setup_rest [of ds] show ?thesis
      by (simp add: rest_def [of p] iterator_dereference_def)
  next
    case (Cons j js)
    with p show ?thesis by (simp add: rest_def iterator_dereference_def iterator_increment_def)
  qed
  show "iterator_ok (iterator_increment p)"
    using iterator_setup_rest [of ds] p by (auto simp: iterator_increment_def iterator_ok_def)
qed

lemma rest_empty_iff: "iterator_ok p \<Longrightarrow> rest p = [] \<longleftrightarrow> m_outerP p = []"
  by (auto simp: rest_def iterator_ok_def split: list.splits)

lemma iterate_rest: "iterator_ok p \<Longrightarrow> length (rest p) \<le> n \<Longrightarrow> iterate n p = Some (rest p)"
proof (induction n arbitrary: p)
  case 0
  then have "rest p = []" by simp
  with 0 show ?case using rest_empty_iff [of p] by simp
next
  case (Suc n)
  show ?case
  proof (cases "m_outerP p = []")
    case True
    then show ?thesis by (simp add: rest_def)
  next
    case False
    with Suc iterator_increment_rest [of p] show ?thesis by simp
  qed
qed


section \<open>The invariant of the catalogue\<close>

definition dir_ok :: "directory \<Rightarrow> bool" where
  "dir_ok d \<longleftrightarrow> distinct (map vmUuid (m_lstVmDirectoryItems d)) \<and>
     distinct (map item_ptr (m_lstVmDirectoryItems d))"

definition cat_ok :: "catalogue \<Rightarrow> bool" where
  "cat_ok s \<longleftrightarrow> distinct (map dir_uuid (m_lstVmDirectory s)) \<and>
     (\<forall>d \<in> set (m_lstVmDirectory s). dir_ok d) \<and>
     m_directoryList s \<inter> dir_uuid ` set (saved_file s) = {}"

lemma cat_ok_save [inv_intros]: "cat_ok s \<Longrightarrow> cat_ok (snd (saveVmDirCatalogue res s))"
  by (rule saveVmDirCatalogue_cases [of res s]) (auto simp: cat_ok_def)

lemma cat_ok_set:
  assumes "cat_ok s" "n < length (m_lstVmDirectory s)" "dir_uuid d = dir_uuid (m_lstVmDirectory s ! n)"
    and "dir_ok d"
  shows "cat_ok (setVmDirectory n d s)"
proof -
  have "map dir_uuid ((m_lstVmDirectory s)[n := d]) = map dir_uuid (m_lstVmDirectory s)"
    using assms(2,3) by (simp add: map_update list_update_same_conv)
  with assms show ?thesis
    by (auto simp: cat_ok_def setVmDirectory_def dest!: set_update_subset_insert [THEN subsetD])
qed

lemma cat_ok_dir: "cat_ok s \<Longrightarrow> n < length (m_lstVmDirectory s) \<Longrightarrow> dir_ok (m_lstVmDirectory s ! n)"
  by (simp add: cat_ok_def)

lemma dir_ok_add:
  assumes "api_ok A" "dir_ok d" "item_ptr x \<notin> item_ptr ` set (m_lstVmDirectoryItems d)"
    and "vmUuid x \<notin> vmUuid ` set (m_lstVmDirectoryItems d)"
  shows "dir_ok (d\<lparr>m_lstVmDirectoryItems := addVmDirectoryItem A x (m_lstVmDirectoryItems d)\<rparr>)"
  using assms by (simp add: dir_ok_def inserts_distinct_map [OF api_inserts(2)])

lemma dir_ok_erase: "dir_ok d \<Longrightarrow> dir_ok (d\<lparr>m_lstVmDirectoryItems := erase_first P (m_lstVmDirectoryItems d)\<rparr>)"
  by (simp add: dir_ok_def distinct_map_erase_first)

lemma setVmDirectory_twice: "setVmDirectory n d' (setVmDirectory n d s) = setVmDirectory n d' s"
  by (simp add: setVmDirectory_def)

lemma setVmDirectory_same: "setVmDirectory n (m_lstVmDirectory s ! n) s = s"
  by (simp add: setVmDirectory_def)


lemma cat_ok_addVmDirItem [inv_intros]:
  assumes "api_ok A" "cat_ok s"
    and fresh: "\<And>d i. d \<in> set (m_lstVmDirectory s) \<Longrightarrow> i \<in> set (m_lstVmDirectoryItems d) \<Longrightarrow>
      item_ptr i \<noteq> item_ptr x"
  shows "cat_ok (snd (snd (addVmDirItem A res u (Some x) s)))"
proof (cases "getVmDirectoryByUuid A u (m_lstVmDirectory s)")
  case None
  with assms show ?thesis by (simp add: addVmDirItem_def)
next
  case (Some n)
  note n = api_find_Some [OF assms(1) Some]
  let ?d = "m_lstVmDirectory s ! n" and ?its = "addVmDirectoryItem A x (m_lstVmDirectoryItems (m_lstVmDirectory s ! n))"
  have d: "dir_ok ?d" "?d \<in> set (m_lstVmDirectory s)" using n assms(2) by (auto intro: cat_ok_dir)
  have fr: "item_ptr x \<notin> item_ptr ` set (m_lstVmDirectoryItems ?d)" using fresh [OF d(2)] by force
  show ?thesis
  proof (cases "getVmDirItemByUuid A u (vmUuid x) s = None")
    case True
    then have "vmUuid x \<notin> vmUuid ` set (m_lstVmDirectoryItems ?d)"
      using Some by (auto simp: getVmDirItemByUuid_def getVmDirectory_def find_None_iff)
    then have ok: "dir_ok (?d\<lparr>m_lstVmDirectoryItems := ?its\<rparr>)"
      using fr d assms(1) by (intro dir_ok_add)
    then have "cat_ok (setVmDirectory n (?d\<lparr>m_lstVmDirectoryItems := ?its\<rparr>) s)"
      using assms(2) n by (intro cat_ok_set) auto
    moreover have "erase_first (\<lambda>i. item_ptr i = item_ptr x) ?its = m_lstVmDirectoryItems ?d"
      using fresh d by (intro inserts_erase [OF api_inserts(2) [OF assms(1)]]) auto
    ultimately show ?thesis
      using Some True assms(2)
      by (cases rule: saveVmDirCatalogue_cases [of res "setVmDirectory n (?d\<lparr>m_lstVmDirectoryItems := ?its\<rparr>) s"])
        (auto simp: addVmDirItem_def Let_def setVmDirectory_twice setVmDirectory_same
          dest: cat_ok_save [of _ res])
  next
    case False
    with Some assms show ?thesis by (simp add: addVmDirItem_def)
  qed
qed

lemma found_item:
  assumes "find (\<lambda>i. vmUuid i = v) its = Some x"
  shows "x \<in> set its" "vmUuid x = v"
    "mset its = add_mset x (mset (erase_first (\<lambda>i. vmUuid i = v) its))"
  using assms by (induction its) (auto split: if_splits)

lemma mset_distinct_map: "mset xs = mset ys \<Longrightarrow> distinct (map f xs) \<longleftrightarrow> distinct (map f ys)"
  by (rule mset_eq_imp_distinct_iff) simp

lemma dir_ok_readd:
  assumes "api_ok A" "dir_ok d" "find (\<lambda>i. vmUuid i = v) (m_lstVmDirectoryItems d) = Some x"
  shows "dir_ok (d\<lparr>m_lstVmDirectoryItems :=
    addVmDirectoryItem A x (erase_first (\<lambda>i. vmUuid i = v) (m_lstVmDirectoryItems d))\<rparr>)"
    (is "dir_ok (d\<lparr>m_lstVmDirectoryItems := ?its\<rparr>)")
proof -
  have "mset ?its = mset (m_lstVmDirectoryItems d)"
    using found_item(3) [OF assms(3)] by (simp add: inserts_mset [OF api_inserts(2) [OF assms(1)]])
  with assms(2) mset_distinct_map [of ?its "m_lstVmDirectoryItems d" vmUuid]
    mset_distinct_map [of ?its "m_lstVmDirectoryItems d" item_ptr]
  show ?thesis by (simp add: dir_ok_def)
qed

lemma cat_ok_deleteVmDirItem [inv_intros]:
  assumes "api_ok A" "cat_ok s"
  shows "cat_ok (snd (snd (deleteVmDirItem A res u v s)))"
proof (cases "getVmDirectoryByUuid A u (m_lstVmDirectory s)")
  case None
  with assms show ?thesis by (simp add: deleteVmDirItem_def)
next
  case (Some n)
  note n = api_find_Some [OF assms(1) Some]
  let ?d = "m_lstVmDirectory s ! n"
  let ?its = "erase_first (\<lambda>i. vmUuid i = v) (m_lstVmDirectoryItems ?d)"
  have d: "dir_ok ?d" using n assms(2) by (auto intro: cat_ok_dir)
  show ?thesis
  proof (cases "find (\<lambda>i. vmUuid i = v) (m_lstVmDirectoryItems ?d)")
    case None
    with Some assms show ?thesis by (simp add: deleteVmDirItem_def)
  next
    case (Some x)
    have "cat_ok (setVmDirectory n (?d\<lparr>m_lstVmDirectoryItems := ?its\<rparr>) s)"
      using assms(2) n d by (intro cat_ok_set dir_ok_erase) auto
    moreover have "cat_ok (setVmDirectory n (?d\<lparr>m_lstVmDirectoryItems := addVmDirectoryItem A x ?its\<rparr>) s)"
      using assms(2) n dir_ok_readd [OF assms(1) d Some] by (intro cat_ok_set) auto
    ultimately show ?thesis
      using \<open>getVmDirectoryByUuid _ _ _ = Some n\<close> Some
      by (cases rule: saveVmDirCatalogue_cases [of res "setVmDirectory n (?d\<lparr>m_lstVmDirectoryItems := ?its\<rparr>) s"])
        (auto simp: deleteVmDirItem_def Let_def setVmDirectory_twice dest: cat_ok_save [of _ res])
  qed
qed


lemma cat_ok_add_dir:
  assumes "api_ok A" "cat_ok s" "dir_ok d" "dir_uuid d \<notin> dir_uuid ` set (m_lstVmDirectory s)"
  shows "cat_ok (s\<lparr>m_lstVmDirectory := addVmDirectory A d (m_lstVmDirectory s)\<rparr>)"
  using assms
  by (simp add: cat_ok_def inserts_distinct_map [OF api_inserts(1)] inserts_set [OF api_inserts(1)])

lemma cat_ok_addNewVmDirectory [inv_intros]:
  assumes "api_ok A" "cat_ok s" "dir_ok d"
  shows "cat_ok (snd (addNewVmDirectory A res (Some d) s))"
  using assms
  by (auto simp: addNewVmDirectory_def intro!: cat_ok_save cat_ok_add_dir dest: api_find_None)

lemma cat_ok_updateVmDirItem [inv_intros]: "cat_ok s \<Longrightarrow> cat_ok (snd (updateVmDirItem res x s))"
  by (auto simp: updateVmDirItem_def intro: cat_ok_save split: option.split)

lemma dir_uuid_erase:
  assumes "distinct (map dir_uuid ds)"
  shows "u \<notin> dir_uuid ` set (erase_first (\<lambda>d. dir_uuid d = u) ds)"
  using assms by (induction ds) auto

lemma cat_ok_initVzDirCatalogue [inv_intros]:
  assumes "api_ok A" "cat_ok s" "\<And>its. fill = Inr its \<Longrightarrow> distinct (map vmUuid its) \<and> distinct (map item_ptr its)"
  shows "cat_ok (snd (snd (initVzDirCatalogue A fill path res s)))"
proof (cases fill)
  case (Inr its)
  let ?ds = "erase_first (\<lambda>x. dir_uuid x = getVzDirectoryUuid) (m_lstVmDirectory s)"
  let ?d = "\<lparr>dir_uuid = getVzDirectoryUuid, defaultVmFolder = path, m_lstVmDirectoryItems = its,
    temporaryCatalogue = []\<rparr>"
  have "cat_ok (s\<lparr>m_lstVmDirectory := ?ds\<rparr>)" "getVzDirectoryUuid \<notin> dir_uuid ` set ?ds"
    using assms(2) dir_uuid_erase
    by (auto simp: cat_ok_def distinct_map_erase_first dest: set_erase_first_D)
  then have "cat_ok (s\<lparr>m_lstVmDirectory := addVmDirectory A ?d ?ds\<rparr>)"
    using cat_ok_add_dir [OF assms(1), of "s\<lparr>m_lstVmDirectory := ?ds\<rparr>" ?d] assms(3) Inr
    by (simp add: dir_ok_def)
  with Inr show ?thesis
    by (auto simp: initVzDirCatalogue_def Let_def case_prod_beta intro: cat_ok_save)
qed (use assms in \<open>simp add: initVzDirCatalogue_def\<close>)

lemma cat_ok_initTemplatesDirCatalogue [inv_intros]:
  "api_ok A \<Longrightarrow> cat_ok s \<Longrightarrow> cat_ok (snd (initTemplatesDirCatalogue A path res s))"
  by (auto simp: initTemplatesDirCatalogue_def dir_ok_def intro!: cat_ok_save cat_ok_add_dir)

lemma cat_ok_ephemeral_insert [inv_intros]:
  assumes "api_ok A" "cat_ok s" "fresh \<notin> dir_uuid ` set (m_lstVmDirectory s)"
    "fresh \<notin> dir_uuid ` set (saved_file s)"
  shows "cat_ok (snd (ephemeral_insert A fresh path s))"
  using cat_ok_add_dir [OF assms(1,2), of "\<lparr>dir_uuid = fresh, defaultVmFolder = path,
      m_lstVmDirectoryItems = [], temporaryCatalogue = []\<rparr>"] assms(3,4,2)
  by (auto simp: ephemeral_insert_def dir_ok_def cat_ok_def)

lemma distinct_map_remove_nth:
  assumes "distinct (map f xs)" shows "distinct (map f (remove_nth n xs))"
proof (cases "n < length xs")
  case True
  with id_take_nth_drop [OF True] assms
  have "distinct (map f (take n xs @ xs ! n # drop (Suc n) xs))" by simp
  then show ?thesis by (auto simp: remove_nth_def)
qed (use assms in \<open>simp add: remove_nth_def\<close>)

lemma set_remove_nth: "set (remove_nth n xs) \<subseteq> set xs"
  by (auto simp: remove_nth_def dest: in_set_takeD in_set_dropD)

lemma cat_ok_ephemeral_remove [inv_intros]:
  assumes "cat_ok s" shows "cat_ok (snd (ephemeral_remove A u s))"
proof -
  have "cat_ok (s\<lparr>m_lstVmDirectory := remove_nth i (m_lstVmDirectory s),
      m_directoryList := m_directoryList s - {u}\<rparr>)" for i
    using assms distinct_map_remove_nth [of dir_uuid "m_lstVmDirectory s" i]
      set_remove_nth [of i "m_lstVmDirectory s"] by (auto simp: cat_ok_def)
  with assms show ?thesis by (auto simp: ephemeral_remove_def split: option.split)
qed

lemma cat_ok_push_temp [inv_intros]:
  "cat_ok s \<Longrightarrow> n < length (m_lstVmDirectory s) \<Longrightarrow> cat_ok (push_temp n l s)"
  using cat_ok_dir [of s n] by (auto simp: push_temp_def Let_def dir_ok_def intro!: cat_ok_set)

lemma cat_ok_unlock_at [inv_intros]:
  "cat_ok s \<Longrightarrow> n < length (m_lstVmDirectory s) \<Longrightarrow> cat_ok (unlock_at n k s)"
  using cat_ok_dir [of s n] by (auto simp: unlock_at_def Let_def dir_ok_def intro!: cat_ok_set)

lemma cat_ok_unlockExclusive [inv_intros]:
  "api_ok A \<Longrightarrow> cat_ok s \<Longrightarrow> cat_ok (unlockExclusive A u x s)"
  by (auto simp: unlockExclusive_def intro!: cat_ok_unlock_at dest: api_find_Some split: option.split)

lemma cat_ok_unlockExclusiveAll [inv_intros]:
  assumes "api_ok A" "cat_ok s" shows "cat_ok (unlockExclusiveAll A x s)"
proof -
  have "cat_ok (fold (\<lambda>u. unlockExclusive A u x) us t)" if "cat_ok t" for us t
    using that by (induction us arbitrary: t) (auto intro: cat_ok_unlockExclusive assms(1))
  with assms show ?thesis by (simp add: unlockExclusiveAll_def)
qed

lemma cat_ok_checkAndLock [inv_intros]:
  "api_ok A \<Longrightarrow> cat_ok s \<Longrightarrow> cat_ok (snd (checkAndLock A c u l s))"
  by (auto simp: checkAndLock_def Let_def intro!: cat_ok_push_temp dest: api_find_Some
      split: option.split sum.split)

lemma cat_ok_checkAndLock_dirs:
  "api_ok A \<Longrightarrow> cat_ok s \<Longrightarrow> cat_ok (snd (checkAndLock_dirs A c us l s))"
proof (induction us arbitrary: s)
  case (Cons u us)
  obtain errs t where c: "checkAndLock A c u l s = (errs, t)" by (cases "checkAndLock A c u l s")
  with cat_ok_checkAndLock [OF Cons.prems, of c u l] have "cat_ok t" by simp
  with c Cons show ?case by (auto simp: cat_ok_unlockExclusiveAll split: list.split)
qed simp

lemma cat_ok_locks [inv_intros]:
  "api_ok A \<Longrightarrow> cat_ok s \<Longrightarrow> cat_ok (snd (lockExisting A u x s))"
  "api_ok A \<Longrightarrow> cat_ok s \<Longrightarrow> cat_ok (snd (lockExclusive A u x s))"
  "api_ok A \<Longrightarrow> cat_ok s \<Longrightarrow> cat_ok (snd (checkAndLockList A c sel l s))"
  by (auto simp: lockExisting_def lockExclusive_def checkAndLockList_def
      intro!: cat_ok_push_temp cat_ok_checkAndLock_dirs dest: api_find_Some split: option.split)


section \<open>Facts about the locks\<close>

lemma check_items_none:
  "check_items A c l its [] = Inr errs \<Longrightarrow> errs = concat (map (item_errors A l) its)"
proof -
  have "check_items A c l its acc = Inr errs \<Longrightarrow> errs = acc @ concat (map (item_errors A l) its)" for acc
  proof (induction its arbitrary: acc)
    case (Cons i its)
    from Cons.prems have "check_items A c l its (acc @ item_errors A l i) = Inr errs"
      by (simp only: check_items.simps sum.distinct split: if_splits)
    from Cons.IH [OF this] show ?case by simp
  qed simp
  then show "check_items A c l its [] = Inr errs \<Longrightarrow> errs = concat (map (item_errors A l) its)"
    by fastforce
qed

lemma check_items_ok:
  assumes "\<forall>i \<in> set its. item_errors A l i = []" shows "check_items A c l its [] = Inr []"
  using assms by (induction its) auto

lemma check_items_Inl: "check_items A c l its acc = Inl errs \<Longrightarrow> errs \<noteq> []"
  by (induction its arbitrary: acc) (auto split: if_splits)

definition lockable :: "catalogue_api \<Rightarrow> temp_item \<Rightarrow> directory \<Rightarrow> bool" where
  "lockable A l d \<longleftrightarrow> (\<forall>i \<in> set (m_lstVmDirectoryItems d). item_errors A l i = []) \<and>
     (\<forall>t \<in> set (temporaryCatalogue d). \<not> temp_conflict A l t)"

lemma checkAndLock_alt:
  "checkAndLock A c u l s =
     (case getVmDirectoryByUuid A u (m_lstVmDirectory s) of
        None \<Rightarrow> ([PRL_ERR_VM_DIRECTORY_NOT_EXIST], s)
      | Some n \<Rightarrow>
          if lockable A l (m_lstVmDirectory s ! n) then ([], push_temp n l s)
          else (fst (checkAndLock A c u l s), s))"
  "getVmDirectoryByUuid A u (m_lstVmDirectory s) = Some n \<Longrightarrow>
     \<not> lockable A l (m_lstVmDirectory s ! n) \<Longrightarrow> fst (checkAndLock A c u l s) \<noteq> []"
proof -
  show "checkAndLock A c u l s =
     (case getVmDirectoryByUuid A u (m_lstVmDirectory s) of
        None \<Rightarrow> ([PRL_ERR_VM_DIRECTORY_NOT_EXIST], s)
      | Some n \<Rightarrow>
          if lockable A l (m_lstVmDirectory s ! n) then ([], push_temp n l s)
          else (fst (checkAndLock A c u l s), s))"
    by (auto simp: checkAndLock_def Let_def lockable_def check_items_ok
        dest: check_items_none check_items_Inl split: option.split sum.split)
  show "getVmDirectoryByUuid A u (m_lstVmDirectory s) = Some n \<Longrightarrow>
     \<not> lockable A l (m_lstVmDirectory s ! n) \<Longrightarrow> fst (checkAndLock A c u l s) \<noteq> []"
    by (auto simp: checkAndLock_def Let_def lockable_def
        dest: check_items_none check_items_Inl split: sum.split)
qed

text \<open>The catalogue with a lock item added to the directories of a set.\<close>

definition with_lock :: "uuid set \<Rightarrow> temp_item \<Rightarrow> catalogue \<Rightarrow> catalogue" where
  "with_lock D l s = s\<lparr>m_lstVmDirectory := map (\<lambda>d. if dir_uuid d \<in> D
     then d\<lparr>temporaryCatalogue := temporaryCatalogue d @ [l]\<rparr> else d) (m_lstVmDirectory s)\<rparr>"

lemma with_lock_empty [simp]: "with_lock {} l s = s"
  by (simp add: with_lock_def)

lemma uuids_with_lock [simp]:
  "map dir_uuid (m_lstVmDirectory (with_lock D l s)) = map dir_uuid (m_lstVmDirectory s)"
  by (auto simp: with_lock_def)

lemma list_update_by_uuid:
  assumes "distinct (map dir_uuid ds)" "n < length ds" "u = dir_uuid (ds ! n)"
  shows "ds[n := f (ds ! n)] = map (\<lambda>d. if dir_uuid d = u then f d else d) ds"
proof (rule nth_equalityI)
  fix i assume "i < length (ds[n := f (ds ! n)])"
  then have i: "i < length ds" by simp
  have "dir_uuid (ds ! i) = u \<longleftrightarrow> i = n"
    using assms i nth_eq_iff_index_eq [OF assms(1)] by fastforce
  with i show "ds[n := f (ds ! n)] ! i = map (\<lambda>d. if dir_uuid d = u then f d else d) ds ! i"
    by (auto simp: nth_list_update)
qed simp

lemma setVmDirectory_by_uuid:
  assumes "distinct (map dir_uuid (m_lstVmDirectory s))" "n < length (m_lstVmDirectory s)"
  shows "setVmDirectory n (f (m_lstVmDirectory s ! n)) s =
    s\<lparr>m_lstVmDirectory := map (\<lambda>d. if dir_uuid d = dir_uuid (m_lstVmDirectory s ! n) then f d else d)
       (m_lstVmDirectory s)\<rparr>"
  using list_update_by_uuid [OF assms refl] by (simp add: setVmDirectory_def)

lemma push_temp_with_lock:
  assumes "distinct (map dir_uuid (m_lstVmDirectory s))" "n < length (m_lstVmDirectory s)"
    and "dir_uuid (m_lstVmDirectory s ! n) = u" "u \<notin> D"
  shows "push_temp n l (with_lock D l s) = with_lock (insert u D) l s"
proof -
  let ?t = "with_lock D l s"
  have u: "dir_uuid (m_lstVmDirectory ?t ! n) = u"
    using assms by (auto simp: with_lock_def)
  have dist: "distinct (map dir_uuid (m_lstVmDirectory ?t))"
    unfolding uuids_with_lock by (rule assms(1))
  have len: "n < length (m_lstVmDirectory ?t)" using assms(2) by (simp add: with_lock_def)
  have "push_temp n l ?t = ?t\<lparr>m_lstVmDirectory := map (\<lambda>d. if dir_uuid d = u
      then d\<lparr>temporaryCatalogue := temporaryCatalogue d @ [l]\<rparr> else d) (m_lstVmDirectory ?t)\<rparr>"
    unfolding push_temp_def Let_def
    using setVmDirectory_by_uuid [OF dist len, of "\<lambda>d. d\<lparr>temporaryCatalogue := temporaryCatalogue d @ [l]\<rparr>"] u
    by (simp only:)
  then show ?thesis using assms(4) by (auto simp: with_lock_def)
qed

lemma unlock_at_with_lock:
  assumes "distinct (map dir_uuid (m_lstVmDirectory s))" "n < length (m_lstVmDirectory s)"
    and "dir_uuid (m_lstVmDirectory s ! n) = u"
    and fresh: "\<And>d t. d \<in> set (m_lstVmDirectory s) \<Longrightarrow> t \<in> set (temporaryCatalogue d) \<Longrightarrow>
      m_sItemId t \<noteq> m_sItemId l"
  shows "unlock_at n (m_sItemId l) (with_lock D l s) = with_lock (D - {u}) l s"
proof -
  let ?t = "with_lock D l s" and ?e = "erase_first (\<lambda>t. m_sItemId t = m_sItemId l)"
  have u: "dir_uuid (m_lstVmDirectory ?t ! n) = u"
    using assms by (auto simp: with_lock_def)
  have dist: "distinct (map dir_uuid (m_lstVmDirectory ?t))"
    unfolding uuids_with_lock by (rule assms(1))
  have len: "n < length (m_lstVmDirectory ?t)" using assms(2) by (simp add: with_lock_def)
  have "unlock_at n (m_sItemId l) ?t = ?t\<lparr>m_lstVmDirectory := map (\<lambda>d. if dir_uuid d = u
      then d\<lparr>temporaryCatalogue := ?e (temporaryCatalogue d)\<rparr> else d) (m_lstVmDirectory ?t)\<rparr>"
    unfolding unlock_at_def Let_def
    using setVmDirectory_by_uuid [OF dist len, of "\<lambda>d. d\<lparr>temporaryCatalogue := ?e (temporaryCatalogue d)\<rparr>"] u
    by (simp only:)
  moreover have "?e (temporaryCatalogue d @ [l]) = temporaryCatalogue d"
      "?e (temporaryCatalogue d) = temporaryCatalogue d" if "d \<in> set (m_lstVmDirectory s)" for d
    using fresh [OF that] by (auto simp: erase_first_append)
  ultimately show ?thesis by (auto simp: with_lock_def)
qed

lemma unlock_all_with_lock:
  assumes "api_ok A" "distinct (map dir_uuid (m_lstVmDirectory s))" "D \<subseteq> dir_uuid ` set (m_lstVmDirectory s)"
    and fresh: "\<And>d t. d \<in> set (m_lstVmDirectory s) \<Longrightarrow> t \<in> set (temporaryCatalogue d) \<Longrightarrow>
      m_sItemId t \<noteq> m_sItemId l"
  shows "unlockExclusiveAll A (Some l) (with_lock D l s) = s"
proof -
  have step: "unlockExclusive A u (Some l) (with_lock E l s) = with_lock (E - {u}) l s"
    if u: "u \<in> dir_uuid ` set (m_lstVmDirectory s)" for u E
  proof -
    have "u \<in> dir_uuid ` set (m_lstVmDirectory (with_lock E l s))"
      using u uuids_with_lock [of E l s] by (metis list.set_map)
    then obtain n where n: "getVmDirectoryByUuid A u (m_lstVmDirectory (with_lock E l s)) = Some n"
      using api_find_None [OF assms(1)] by (cases "getVmDirectoryByUuid A u (m_lstVmDirectory (with_lock E l s))") auto
    with api_find_Some [OF assms(1) n]
    have "n < length (m_lstVmDirectory s)" "dir_uuid (m_lstVmDirectory s ! n) = u"
      by (auto simp: with_lock_def split: if_splits)
    from unlock_at_with_lock [OF assms(2) this fresh] n show ?thesis
      by (simp add: unlockExclusive_def)
  qed
  have "fold (\<lambda>u. unlockExclusive A u (Some l)) us (with_lock E l s) = with_lock (E - set us) l s"
    if "set us \<subseteq> dir_uuid ` set (m_lstVmDirectory s)" for us E
    using that
  proof (induction us arbitrary: E)
    case (Cons u us)
    then show ?case using step [of u E] by (simp add: set_diff_eq conj_commute) (metis Diff_insert2 set_diff_eq)
  qed simp
  from this [of "map dir_uuid (m_lstVmDirectory s)" D] assms(3)
  show ?thesis by (simp add: unlockExclusiveAll_def Diff_eq_empty_iff [THEN iffD2])
qed


lemma checkAndLock_dirs_with_lock:
  assumes A: "api_ok A" and dist: "distinct (map dir_uuid (m_lstVmDirectory s))"
    and fresh: "\<And>d t. d \<in> set (m_lstVmDirectory s) \<Longrightarrow> t \<in> set (temporaryCatalogue d) \<Longrightarrow>
      m_sItemId t \<noteq> m_sItemId l"
    and "distinct us" "set us \<subseteq> dir_uuid ` set (m_lstVmDirectory s)" "D \<inter> set us = {}"
    and "D \<subseteq> dir_uuid ` set (m_lstVmDirectory s)"
  shows "(fst (checkAndLock_dirs A c us l (with_lock D l s)) = [] \<longleftrightarrow>
      (\<forall>d \<in> set (m_lstVmDirectory s). dir_uuid d \<in> set us \<longrightarrow> lockable A l d)) \<and>
    snd (checkAndLock_dirs A c us l (with_lock D l s)) =
      (if fst (checkAndLock_dirs A c us l (with_lock D l s)) = [] then with_lock (D \<union> set us) l s else s)"
  using assms(4-)
proof (induction us arbitrary: D)
  case (Cons u us)
  let ?t = "with_lock D l s"
  have "u \<in> dir_uuid ` set (m_lstVmDirectory ?t)"
    using Cons.prems uuids_with_lock [of D l s] by (metis list.set_map list.set_intros(1) subsetD)
  then obtain n where n: "getVmDirectoryByUuid A u (m_lstVmDirectory ?t) = Some n"
    using api_find_None [OF A] by (cases "getVmDirectoryByUuid A u (m_lstVmDirectory ?t)") auto
  with api_find_Some [OF A n] have n': "n < length (m_lstVmDirectory s)" "dir_uuid (m_lstVmDirectory s ! n) = u"
    by (auto simp: with_lock_def split: if_splits)
  have same: "m_lstVmDirectory ?t ! n = m_lstVmDirectory s ! n"
    using n' Cons.prems by (auto simp: with_lock_def)
  have only: "d = m_lstVmDirectory s ! n" if "d \<in> set (m_lstVmDirectory s)" "dir_uuid d = u" for d
    using that n' dist by (metis distinct_map inj_onD nth_mem)
  show ?case
  proof (cases "lockable A l (m_lstVmDirectory s ! n)")
    case True
    then have "checkAndLock A c u l ?t = ([], push_temp n l ?t)"
      using checkAndLock_alt(1) [of A c u l ?t] n same by simp
    also have "push_temp n l ?t = with_lock (insert u D) l s"
      using Cons.prems by (intro push_temp_with_lock [OF dist n']) auto
    finally have c: "checkAndLock A c u l ?t = ([], with_lock (insert u D) l s)" .
    have "(fst (checkAndLock_dirs A c us l (with_lock (insert u D) l s)) = [] \<longleftrightarrow>
        (\<forall>d \<in> set (m_lstVmDirectory s). dir_uuid d \<in> set us \<longrightarrow> lockable A l d)) \<and>
      snd (checkAndLock_dirs A c us l (with_lock (insert u D) l s)) =
        (if fst (checkAndLock_dirs A c us l (with_lock (insert u D) l s)) = []
         then with_lock (insert u D \<union> set us) l s else s)"
      using Cons.prems by (intro Cons.IH) auto
    with c True only show ?thesis by auto
  next
    case False
    then obtain e es where "checkAndLock A c u l ?t = (e # es, ?t)"
      using checkAndLock_alt(1) [of A c u l ?t] checkAndLock_alt(2) [of A u ?t n l c] n same
      by (cases "fst (checkAndLock A c u l ?t)") auto
    moreover have "unlockExclusiveAll A (Some l) ?t = s"
      using Cons.prems fresh by (intro unlock_all_with_lock [OF A dist]) auto
    ultimately show ?thesis using False n' by (auto intro!: bexI [of _ "m_lstVmDirectory s ! n"])
  qed
qed simp


section \<open>Reachable catalogues\<close>

text \<open>
  Every operation, with what its callers guarantee: new items and directories are new objects, a
  directory read from a file or from the container tools has distinct VMs, and a new uuid is new.
\<close>

inductive cat_step :: "catalogue_api \<Rightarrow> catalogue \<Rightarrow> catalogue \<Rightarrow> bool" for A where
  add_dir: "dir_ok d \<Longrightarrow> cat_step A s (snd (addNewVmDirectory A res (Some d) s))"
| add_item: "(\<And>d i. d \<in> set (m_lstVmDirectory s) \<Longrightarrow> i \<in> set (m_lstVmDirectoryItems d) \<Longrightarrow>
      item_ptr i \<noteq> item_ptr x) \<Longrightarrow> cat_step A s (snd (snd (addVmDirItem A res u (Some x) s)))"
| delete_item: "cat_step A s (snd (snd (deleteVmDirItem A res u v s)))"
| update_item: "cat_step A s (snd (updateVmDirItem res y s))"
| init_vz: "(\<And>its. fill = Inr its \<Longrightarrow> distinct (map vmUuid its) \<and> distinct (map item_ptr its)) \<Longrightarrow>
      cat_step A s (snd (snd (initVzDirCatalogue A fill path res s)))"
| init_templates: "cat_step A s (snd (initTemplatesDirCatalogue A path res s))"
| ephemeral_insert: "fresh \<notin> dir_uuid ` set (m_lstVmDirectory s) \<Longrightarrow> fresh \<notin> dir_uuid ` set (saved_file s) \<Longrightarrow>
      cat_step A s (snd (ephemeral_insert A fresh path s))"
| ephemeral_remove: "cat_step A s (snd (ephemeral_remove A u s))"
| check_lock: "cat_step A s (snd (checkAndLock A c u l s))"
| check_lock_list: "cat_step A s (snd (checkAndLockList A c sel l s))"
| lock_existing: "cat_step A s (snd (lockExisting A u y' s))"
| lock_exclusive: "cat_step A s (snd (lockExclusive A u y' s))"
| unlock: "cat_step A s (unlockExclusive A u y' s)"
| unlock_all: "cat_step A s (unlockExclusiveAll A y' s)"

inductive_cases cat_stepE: "cat_step A s t"

lemma cat_ok_step: "cat_step A s t \<Longrightarrow> api_ok A \<Longrightarrow> cat_ok s \<Longrightarrow> cat_ok t"
  by (induction rule: cat_step.induct) (auto intro: inv_intros)

text \<open>A catalogue as it was read from its file.\<close>

definition loaded :: "catalogue \<Rightarrow> bool" where
  "loaded s \<longleftrightarrow> distinct (map dir_uuid (m_lstVmDirectory s)) \<and>
     (\<forall>d \<in> set (m_lstVmDirectory s). dir_ok d) \<and> m_directoryList s = {}"

lemma cat_ok_loaded: "loaded s \<Longrightarrow> cat_ok s"
  by (simp add: loaded_def cat_ok_def)

lemma cat_ok_steps:
  assumes "(cat_step A)\<^sup>*\<^sup>* s t" "api_ok A" "loaded s" shows "cat_ok t"
  using assms by (induction rule: rtranclp_induct) (auto intro: cat_ok_step cat_ok_loaded)


section \<open>Properties\<close>

text \<open>An instance of the parameters: first match, appending, equality of paths.\<close>

definition plain_api :: catalogue_api where
  "plain_api = \<lparr>getVmDirectoryByUuid = (\<lambda>u ds.
       let k = length (takeWhile (\<lambda>d. dir_uuid d \<noteq> u) ds) in if k < length ds then Some k else None),
     addVmDirectory = (\<lambda>d ds. ds @ [d]), addVmDirectoryItem = (\<lambda>i its. its @ [i]),
     IsPathsEqual = (=)\<rparr>"

lemma inserts_append: "inserts (\<lambda>x xs. xs @ [x])"
proof (unfold inserts_def, intro allI exI conjI)
  show "xs = xs @ []" "xs @ [x] = xs @ x # []" for x :: 'a and xs by simp_all
qed

lemma takeWhile_shorter: "length (takeWhile P xs) < length xs \<longleftrightarrow> (\<exists>x \<in> set xs. \<not> P x)"
  by (induction xs) auto

lemma plain_api_ok: "api_ok plain_api"
proof -
  have "dir_uuid (ds ! length (takeWhile (\<lambda>d. dir_uuid d \<noteq> u) ds)) = u"
    if "length (takeWhile (\<lambda>d. dir_uuid d \<noteq> u) ds) < length ds" for u ds
    using nth_length_takeWhile [OF that] by simp
  then show ?thesis
    by (auto simp: api_ok_def plain_api_def Let_def inserts_append takeWhile_shorter)
qed

definition item_of :: "nat \<Rightarrow> uuid \<Rightarrow> qstring \<Rightarrow> dir_item" where
  "item_of n v h = \<lparr>item_ptr = n, vmUuid = v, vmHome = h, vmName = v, ctId = [], vmIsTemplate = False,
     vmType = PVT_VM\<rparr>"

definition catalogue0 :: catalogue where
  "catalogue0 = \<lparr>m_lstVmDirectory =
     [\<lparr>dir_uuid = ''d1'', defaultVmFolder = ''/vz'', m_lstVmDirectoryItems = [item_of 1 ''a'' ''/a''],
       temporaryCatalogue = []\<rparr>,
      \<lparr>dir_uuid = ''d2'', defaultVmFolder = ''/pvt'', m_lstVmDirectoryItems = [],
       temporaryCatalogue = []\<rparr>],
     m_directoryList = {}, m_vmDirCatalogueFile = ''f'', saved_file = []\<rparr>"

text \<open>C9. From a catalogue as loaded, every sequence of operations keeps the VMs of each directory and
  the directories distinct, and never has an ephemeral directory in what was written to the file.\<close>

theorem catalogue_invariant:
  assumes "api_ok A" "loaded s" "(cat_step A)\<^sup>*\<^sup>* s t"
  shows "distinct (map dir_uuid (m_lstVmDirectory t)) \<and>
    (\<forall>d \<in> set (m_lstVmDirectory t). distinct (map vmUuid (m_lstVmDirectoryItems d))) \<and>
    m_directoryList t \<inter> dir_uuid ` set (saved_file t) = {}"
  using cat_ok_steps [OF assms(3,1,2)] by (simp add: cat_ok_def dir_ok_def)

lemma catalogue_invariant_witness:
  "m_directoryList (snd (updateVmDirItem PRL_ERR_SUCCESS (Some (item_of 1 ''a'' ''/a''))
     (snd (ephemeral_insert plain_api ''e'' ''/tmp'' catalogue0)))) \<inter>
   dir_uuid ` set (saved_file (snd (updateVmDirItem PRL_ERR_SUCCESS (Some (item_of 1 ''a'' ''/a''))
     (snd (ephemeral_insert plain_api ''e'' ''/tmp'' catalogue0))))) = {}"
proof -
  have "loaded catalogue0" by (simp add: loaded_def catalogue0_def dir_ok_def)
  moreover have "cat_step plain_api catalogue0 (snd (ephemeral_insert plain_api ''e'' ''/tmp'' catalogue0))"
    by (rule cat_step.ephemeral_insert) (simp_all add: catalogue0_def)
  ultimately show ?thesis
    using catalogue_invariant [OF plain_api_ok, of catalogue0]
    by (meson cat_step.update_item rtranclp.rtrancl_into_rtrancl rtranclp.rtrancl_refl)
qed

text \<open>Catalogues that differ in the order of the items in their directories at most.\<close>

definition same_catalogue :: "catalogue \<Rightarrow> catalogue \<Rightarrow> bool" where
  "same_catalogue s t \<longleftrightarrow> t = s\<lparr>m_lstVmDirectory := m_lstVmDirectory t\<rparr> \<and>
     list_all2 (\<lambda>d d'. d' = d\<lparr>m_lstVmDirectoryItems := m_lstVmDirectoryItems d'\<rparr> \<and>
       mset (m_lstVmDirectoryItems d') = mset (m_lstVmDirectoryItems d))
       (m_lstVmDirectory s) (m_lstVmDirectory t)"

lemma same_catalogue_refl [simp]: "same_catalogue s s"
  by (simp add: same_catalogue_def list_all2_conv_all_nth)

lemma same_catalogue_set:
  assumes "mset its = mset (m_lstVmDirectoryItems (m_lstVmDirectory s ! n))"
  shows "same_catalogue s (setVmDirectory n ((m_lstVmDirectory s ! n)\<lparr>m_lstVmDirectoryItems := its\<rparr>) s)"
  using assms by (cases "n < length (m_lstVmDirectory s)")
    (auto simp: same_catalogue_def setVmDirectory_def list_all2_conv_all_nth nth_list_update)

text \<open>C10. When the file cannot be written, adding an item leaves the catalogue as it was, and removing
  one leaves the same items in every directory.\<close>

theorem failed_save_is_rolled_back:
  assumes "api_ok A" "prl_failed res"
    and "\<And>d i. d \<in> set (m_lstVmDirectory s) \<Longrightarrow> i \<in> set (m_lstVmDirectoryItems d) \<Longrightarrow>
      item_ptr i \<noteq> item_ptr x"
  shows "snd (snd (addVmDirItem A res u (Some x) s)) = s \<and>
    same_catalogue s (snd (snd (deleteVmDirItem A res u v s)))"
proof
  show "snd (snd (addVmDirItem A res u (Some x) s)) = s"
  proof (cases "getVmDirectoryByUuid A u (m_lstVmDirectory s)")
    case (Some n)
    let ?d = "m_lstVmDirectory s ! n"
    have "?d \<in> set (m_lstVmDirectory s)" using api_find_Some [OF assms(1) Some] by simp
    then have "erase_first (\<lambda>i. item_ptr i = item_ptr x)
        (addVmDirectoryItem A x (m_lstVmDirectoryItems ?d)) = m_lstVmDirectoryItems ?d"
      using assms(3) by (intro inserts_erase [OF api_inserts(2) [OF assms(1)]]) auto
    with Some assms(2) show ?thesis
      by (simp add: addVmDirItem_def saveVmDirCatalogue_def Let_def setVmDirectory_twice
          setVmDirectory_same)
  qed (simp add: addVmDirItem_def)
  show "same_catalogue s (snd (snd (deleteVmDirItem A res u v s)))"
  proof (cases "getVmDirectoryByUuid A u (m_lstVmDirectory s)")
    case None
    then show ?thesis by (simp add: deleteVmDirItem_def)
  next
    case (Some n)
    let ?d = "m_lstVmDirectory s ! n"
    show ?thesis
    proof (cases "find (\<lambda>i. vmUuid i = v) (m_lstVmDirectoryItems ?d)")
      case None
      with Some show ?thesis by (simp add: deleteVmDirItem_def)
    next
      case (Some y)
      then have "mset (addVmDirectoryItem A y (erase_first (\<lambda>i. vmUuid i = v) (m_lstVmDirectoryItems ?d)))
          = mset (m_lstVmDirectoryItems ?d)"
        using found_item(3) [OF Some] by (simp add: inserts_mset [OF api_inserts(2) [OF assms(1)]])
      from same_catalogue_set [OF this] \<open>getVmDirectoryByUuid _ _ _ = Some n\<close> Some assms(2)
      show ?thesis
        by (simp add: deleteVmDirItem_def saveVmDirCatalogue_def Let_def setVmDirectory_twice)
    qed
  qed
qed

lemma failed_save_is_rolled_back_witness:
  "snd (snd (addVmDirItem plain_api PRL_ERR_FAILURE ''d1'' (Some (item_of 2 ''b'' ''/b'')) catalogue0))
     = catalogue0"
  by (rule failed_save_is_rolled_back [THEN conjunct1, OF plain_api_ok])
    (auto simp: catalogue0_def item_of_def)


text \<open>Locking the parameters of a new VM in several directories is all or nothing: it succeeds
  exactly if in each selected directory no registered VM and no other lock has one of them, then
  each of these directories has the lock, and otherwise no directory is changed.\<close>

theorem locking_is_all_or_nothing:
  assumes "api_ok A" "distinct (map dir_uuid (m_lstVmDirectory s))"
    and "\<And>d t. d \<in> set (m_lstVmDirectory s) \<Longrightarrow> t \<in> set (temporaryCatalogue d) \<Longrightarrow>
      m_sItemId t \<noteq> m_sItemId l"
  shows "(fst (checkAndLockList A c sel l s) = [] \<longleftrightarrow>
      (\<forall>d \<in> set (m_lstVmDirectory s). sel = [] \<or> dir_uuid d \<in> set sel \<longrightarrow> lockable A l d)) \<and>
    snd (checkAndLockList A c sel l s) =
      (if fst (checkAndLockList A c sel l s) = []
       then s\<lparr>m_lstVmDirectory := map (\<lambda>d. if sel = [] \<or> dir_uuid d \<in> set sel
              then d\<lparr>temporaryCatalogue := temporaryCatalogue d @ [l]\<rparr> else d) (m_lstVmDirectory s)\<rparr>
       else s)"
proof -
  let ?us = "filter (\<lambda>u. sel = [] \<or> u \<in> set sel) (map dir_uuid (m_lstVmDirectory s))"
  have "with_lock ({} \<union> set ?us) l s =
      s\<lparr>m_lstVmDirectory := map (\<lambda>d. if sel = [] \<or> dir_uuid d \<in> set sel
              then d\<lparr>temporaryCatalogue := temporaryCatalogue d @ [l]\<rparr> else d) (m_lstVmDirectory s)\<rparr>"
    by (auto simp: with_lock_def)
  with checkAndLock_dirs_with_lock [OF assms, where us = ?us and D = "{}" and c = c] assms(2)
  show ?thesis by (auto simp: checkAndLockList_def)
qed

definition lock0 :: temp_item where
  "lock0 = \<lparr>t_vmUuid = ''a'', t_vmXmlPath = ''/n'', t_vmName = ''n'', m_sItemId = ''1''\<rparr>"

lemma locking_is_all_or_nothing_witness:
  "snd (checkAndLockList plain_api True [] lock0 catalogue0) = catalogue0"
proof -
  have d: "distinct (map dir_uuid (m_lstVmDirectory catalogue0))" by (simp add: catalogue0_def)
  have f: "d \<in> set (m_lstVmDirectory catalogue0) \<Longrightarrow> t \<in> set (temporaryCatalogue d) \<Longrightarrow>
    m_sItemId t \<noteq> m_sItemId lock0" for d t by (auto simp: catalogue0_def)
  have "fst (checkAndLockList plain_api True [] lock0 catalogue0) \<noteq> []" by code_simp
  with locking_is_all_or_nothing [OF plain_api_ok d f, where c = True and sel = "[]"] show ?thesis by auto
qed

text \<open>The iterator over the items of all directories, which skips the empty ones, visits exactly
  the items, directory by directory and in order, and ends.\<close>

theorem iterator_visits_all_items:
  "iterate (length (getItemList ds)) (iterator_setup ds) = Some (getItemList ds)"
  using iterator_setup_rest [of ds] iterate_rest [of "iterator_setup ds"] by simp

end
