(* ===== verification/VmRegistry.thy ===== *)
theory VmRegistry
  imports VmDirectory
begin

text \<open>
  The registry of VMs (\<^verbatim>\<open>Registry::Public\<close> and \<^verbatim>\<open>Registry::Actual\<close>,
  \<^verbatim>\<open>CDspRegistry.cpp\<close>): the VMs libvirt knows, declared or not in the VM directories, and the
  bookings of VMs that the directories know and libvirt does not yet.

  A \<^verbatim>\<open>QSharedPointer<Vm>\<close> is a number into a table of objects; the users' directories, which
  the construction of a VM looks up, are an argument.  Each operation is one critical section of the
  read-write lock; \<^verbatim>\<open>reset\<close>, which releases it between its steps, is modelled without other
  threads in between.
\<close>

section \<open>State\<close>

record vm_object =
  obj_ident :: vm_ident
  obj_home :: qstring

datatype booking = Declaration vm_ident qstring | Bin nat

record registry =
  m_definedMap :: "uuid \<rightharpoonup> nat"
  m_undeclaredMap :: "uuid \<rightharpoonup> nat"
  m_bookingMap :: "uuid \<rightharpoonup> booking"
  objects :: "nat \<Rightarrow> vm_object"
  next_object :: nat

definition registry_init :: registry where
  "registry_init = \<lparr>m_definedMap = Map.empty, m_undeclaredMap = Map.empty, m_bookingMap = Map.empty,
     objects = (\<lambda>_. \<lparr>obj_ident = ([], []), obj_home = []\<rparr>), next_object = 0\<rparr>"


section \<open>Operations\<close>

definition registry_find :: "uuid \<Rightarrow> registry \<Rightarrow> nat option" where
  "registry_find u s = m_definedMap s u"

definition registry_declare :: "vm_ident \<Rightarrow> qstring \<Rightarrow> registry \<Rightarrow> prl_result \<times> registry" where
  "registry_declare ident home s =
     (let u = fst ident in
      if m_definedMap s u \<noteq> None then (PRL_ERR_VM_ALREADY_REGISTERED_VM_UUID, s)
      else (case m_undeclaredMap s u of
          Some m \<Rightarrow> (PRL_ERR_SUCCESS, s\<lparr>m_definedMap := (m_definedMap s)(u \<mapsto> m),
                       m_undeclaredMap := (m_undeclaredMap s)(u := None)\<rparr>)
        | None \<Rightarrow>
            if m_bookingMap s u \<noteq> None then (PRL_ERR_DOUBLE_INIT, s)
            else (PRL_ERR_SUCCESS, s\<lparr>m_bookingMap := (m_bookingMap s)(u \<mapsto> Declaration ident home)\<rparr>)))"

definition registry_undeclare :: "uuid \<Rightarrow> registry \<Rightarrow> prl_result \<times> registry" where
  "registry_undeclare u s =
     (case m_definedMap s u of
        None \<Rightarrow>
          if m_bookingMap s u \<noteq> None
          then (PRL_ERR_SUCCESS, s\<lparr>m_bookingMap := (m_bookingMap s)(u := None)\<rparr>)
          else (PRL_ERR_FILE_NOT_FOUND, s)
      | Some m \<Rightarrow> (PRL_ERR_SUCCESS, s\<lparr>m_definedMap := (m_definedMap s)(u := None),
                     m_undeclaredMap := (m_undeclaredMap s)(u \<mapsto> m)\<rparr>))"

text \<open>
  \<^verbatim>\<open>Visitor\<close>: a new VM belongs to the service user of the workspace with that directory.
\<close>

definition visitor_new :: "uuid set \<Rightarrow> vm_ident \<Rightarrow> qstring \<Rightarrow> registry \<Rightarrow> (prl_result + nat) \<times> registry" where
  "visitor_new user_dirs ident home s =
     (if snd ident \<in> user_dirs
      then (Inr (next_object s),
        s\<lparr>objects := (objects s)(next_object s := \<lparr>obj_ident = ident, obj_home = home\<rparr>),
          next_object := Suc (next_object s)\<rparr>)
      else (Inl PRL_ERR_FAILURE, s))"

definition visitor_apply :: "uuid set \<Rightarrow> booking \<Rightarrow> registry \<Rightarrow> (prl_result + nat) \<times> registry" where
  "visitor_apply user_dirs b s =
     (case b of Declaration ident home \<Rightarrow> visitor_new user_dirs ident home s | Bin m \<Rightarrow> (Inr m, s))"

text \<open>Where \<^verbatim>\<open>define\<close> takes the VM from: the booking, which is used up, or a new one.\<close>

definition define_source :: "uuid set \<Rightarrow> uuid \<Rightarrow> uuid \<Rightarrow> registry \<Rightarrow> (prl_result + nat) \<times> registry" where
  "define_source user_dirs default_dir u s =
     (case m_bookingMap s u of
        Some b \<Rightarrow> visitor_apply user_dirs b (s\<lparr>m_bookingMap := (m_bookingMap s)(u := None)\<rparr>)
      | None \<Rightarrow> visitor_new user_dirs (u, default_dir) [] s)"

definition registry_define ::
  "uuid set \<Rightarrow> uuid \<Rightarrow> uuid \<Rightarrow> registry \<Rightarrow> (prl_result + nat) \<times> registry" where
  "registry_define user_dirs default_dir u s =
     (if m_definedMap s u \<noteq> None \<or> m_undeclaredMap s u \<noteq> None
      then (Inl PRL_ERR_VM_ALREADY_REGISTERED_VM_UUID, s)
      else (case define_source user_dirs default_dir u s of
              (Inl e, s') \<Rightarrow> (Inl e, s')
            | (Inr i, s') \<Rightarrow> (Inr i, s'\<lparr>m_definedMap := (m_definedMap s')(u \<mapsto> i)\<rparr>)))"

text \<open>The item that \<^verbatim>\<open>undefine\<close> asks the VM directories to drop, if any.\<close>

definition registry_undefine :: "uuid \<Rightarrow> registry \<Rightarrow> (uuid \<times> uuid) option \<times> registry" where
  "registry_undefine u s =
     (case m_definedMap s u of
        None \<Rightarrow> (None, s\<lparr>m_undeclaredMap := (m_undeclaredMap s)(u := None)\<rparr>)
      | Some m \<Rightarrow> (Some (snd (obj_ident (objects s m)), u),
                   s\<lparr>m_definedMap := (m_definedMap s)(u := None)\<rparr>))"

text \<open>One step of the loop in \<^verbatim>\<open>reset\<close>; \<open>b\<close> are the VMs that were defined.\<close>

definition reset_step :: "(uuid \<rightharpoonup> nat) \<Rightarrow> uuid \<times> dir_item \<Rightarrow> registry \<Rightarrow> registry" where
  "reset_step b x s =
     (let (d, i) = x; u = vmUuid i in
      if ctId i \<noteq> [] \<or> vmIsTemplate i \<or> d = getTemplatesDirectoryUuid then s
      else (case b u of
              None \<Rightarrow> snd (registry_declare (u, d) (vmHome i) s)
            | Some m \<Rightarrow> s\<lparr>objects := (objects s)(m := (objects s m)\<lparr>obj_home := vmHome i\<rparr>),
                          m_bookingMap := (m_bookingMap s)(u \<mapsto> Bin m)\<rparr>))"

definition registry_reset :: "(uuid \<times> dir_item) list \<Rightarrow> registry \<Rightarrow> registry" where
  "registry_reset its s = fold (reset_step (m_definedMap s)) its (s\<lparr>m_definedMap := Map.empty\<rparr>)"

definition registry_snapshot :: "registry \<Rightarrow> uuid set" where
  "registry_snapshot s = dom (m_definedMap s) \<union> dom (m_undeclaredMap s)"


section \<open>The invariant\<close>

text \<open>A booking stands for its VM.\<close>

definition booking_ok :: "registry \<Rightarrow> uuid \<Rightarrow> booking \<Rightarrow> bool" where
  "booking_ok s u b = (case b of Declaration ident _ \<Rightarrow> fst ident = u
     | Bin m \<Rightarrow> m < next_object s \<and> fst (obj_ident (objects s m)) = u)"

text \<open>
  What the maps hold for one uuid: at most one of a defined VM, an undeclared VM and a booking.
  \<open>b\<close> is the VM that a \<^verbatim>\<open>reset\<close> under way took out of the map of the defined ones.
\<close>

definition slot_ok :: "registry \<Rightarrow> uuid \<Rightarrow> nat option \<Rightarrow> nat option \<Rightarrow> booking option \<Rightarrow> nat option \<Rightarrow> bool"
where
  "slot_ok s u d n k b \<longleftrightarrow>
     (d \<noteq> None \<longrightarrow> n = None \<and> k = None \<and> b = None) \<and> (n \<noteq> None \<longrightarrow> k = None \<and> b = None) \<and>
     (\<forall>m. Some m \<in> {d, n, b} \<longrightarrow> booking_ok s u (Bin m)) \<and> (\<forall>x. k = Some x \<longrightarrow> booking_ok s u x)"

definition reg_ok_with :: "(uuid \<rightharpoonup> nat) \<Rightarrow> registry \<Rightarrow> bool" where
  "reg_ok_with b s \<longleftrightarrow>
     (\<forall>u. slot_ok s u (m_definedMap s u) (m_undeclaredMap s u) (m_bookingMap s u) (b u))"

abbreviation reg_ok :: "registry \<Rightarrow> bool" where
  "reg_ok \<equiv> reg_ok_with Map.empty"

lemma booking_ok_frame:
  "objects t = objects s \<Longrightarrow> next_object t = next_object s \<Longrightarrow> booking_ok t u k = booking_ok s u k"
  by (simp add: booking_ok_def split: booking.split)

lemma slot_ok_frame:
  "objects t = objects s \<Longrightarrow> next_object t = next_object s \<Longrightarrow>
     slot_ok t u d n k b = slot_ok s u d n k b"
proof -
  assume "objects t = objects s" "next_object t = next_object s"
  then have "booking_ok t = booking_ok s" by (intro ext) (rule booking_ok_frame)
  then show ?thesis by (simp only: slot_ok_def)
qed

text \<open>An operation that changes what the maps hold for one uuid.\<close>

lemma reg_ok_at:
  assumes "reg_ok_with b s" "objects t = objects s" "next_object t = next_object s"
    and "\<And>v. v \<noteq> u \<Longrightarrow> m_definedMap t v = m_definedMap s v \<and> m_undeclaredMap t v = m_undeclaredMap s v \<and>
      m_bookingMap t v = m_bookingMap s v"
    and "slot_ok s u (m_definedMap t u) (m_undeclaredMap t u) (m_bookingMap t u) (b u)"
  shows "reg_ok_with b t"
  unfolding reg_ok_with_def slot_ok_frame [OF assms(2,3)]
proof
  fix v
  show "slot_ok s v (m_definedMap t v) (m_undeclaredMap t v) (m_bookingMap t v) (b v)"
  proof (cases "v = u")
    case True
    then show ?thesis using assms(5) by simp
  next
    case False
    show ?thesis unfolding assms(4) [OF False, THEN conjunct1]
        assms(4) [OF False, THEN conjunct2, THEN conjunct1] assms(4) [OF False, THEN conjunct2, THEN conjunct2]
      using assms(1) by (simp add: reg_ok_with_def)
  qed
qed

lemma slot_okD: "reg_ok_with b s \<Longrightarrow>
    slot_ok s u (m_definedMap s u) (m_undeclaredMap s u) (m_bookingMap s u) (b u)"
  by (simp add: reg_ok_with_def)

lemma reg_ok_declare [inv_intros]:
  assumes "reg_ok_with b s" "b (fst ident) = None"
  shows "reg_ok_with b (snd (registry_declare ident home s))"
  using slot_okD [OF assms(1), of "fst ident"] assms
  by (intro reg_ok_at [OF assms(1), where u = "fst ident"])
    (auto simp: registry_declare_def Let_def slot_ok_def booking_ok_def [of _ _ "Declaration _ _"]
      split: option.split)

lemma reg_ok_undeclare [inv_intros]:
  assumes "reg_ok s" shows "reg_ok (snd (registry_undeclare u s))"
  using slot_okD [OF assms, of u]
  by (intro reg_ok_at [OF assms, where u = u])
    (auto simp: registry_undeclare_def slot_ok_def split: option.split)

lemma reg_ok_undefine [inv_intros]:
  assumes "reg_ok s" shows "reg_ok (snd (registry_undefine u s))"
  using slot_okD [OF assms, of u]
  by (intro reg_ok_at [OF assms, where u = u])
    (auto simp: registry_undefine_def slot_ok_def split: option.split)

definition with_object :: "vm_object \<Rightarrow> registry \<Rightarrow> registry" where
  "with_object x s = s\<lparr>objects := (objects s)(next_object s := x), next_object := Suc (next_object s)\<rparr>"

lemma booking_ok_new: "booking_ok s u k \<Longrightarrow> booking_ok (with_object x s) u k"
  by (auto simp: booking_ok_def with_object_def split: booking.split)

lemma reg_ok_new: "reg_ok_with b s \<Longrightarrow> reg_ok_with b (with_object x s)"
  by (simp add: reg_ok_with_def slot_ok_def booking_ok_new with_object_def)
    (metis booking_ok_new with_object_def)

lemma visitor_new_alt:
  "visitor_new user_dirs ident home s =
     (if snd ident \<in> user_dirs
      then (Inr (next_object s), with_object \<lparr>obj_ident = ident, obj_home = home\<rparr> s)
      else (Inl PRL_ERR_FAILURE, s))"
  by (simp add: visitor_new_def with_object_def)

lemma booking_ok_with_object:
  "fst (obj_ident x) = u \<Longrightarrow> booking_ok (with_object x s) u (Bin (next_object s))"
  by (simp add: booking_ok_def with_object_def)

lemma define_source_ok:
  assumes "reg_ok s" "m_definedMap s u = None" "m_undeclaredMap s u = None"
    and "define_source user_dirs dd u s = (m, t)"
  shows "reg_ok t \<and> m_definedMap t = m_definedMap s \<and> m_undeclaredMap t = m_undeclaredMap s \<and>
    m_bookingMap t = (m_bookingMap s)(u := None) \<and> (\<forall>i. m = Inr i \<longrightarrow> booking_ok t u (Bin i))"
proof (cases "m_bookingMap s u")
  case None
  then have "(m_bookingMap s)(u := None) = m_bookingMap s" by auto
  with None assms reg_ok_new show ?thesis
    by (auto simp: define_source_def visitor_new_alt booking_ok_with_object with_object_def
        split: if_splits intro: booking_ok_with_object [unfolded with_object_def])
next
  case (Some b)
  let ?s = "s\<lparr>m_bookingMap := (m_bookingMap s)(u := None)\<rparr>"
  have s: "reg_ok ?s" using slot_okD [OF assms(1), of u] assms(2,3)
    by (intro reg_ok_at [OF assms(1), where u = u]) (auto simp: slot_ok_def)
  have b: "booking_ok s u b" using slot_okD [OF assms(1), of u] Some by (auto simp: slot_ok_def)
  show ?thesis
  proof (cases b)
    case (Declaration ident home)
    with b have "fst ident = u" by (simp add: booking_ok_def)
    with Some Declaration assms(4) reg_ok_new [OF s] s show ?thesis
      by (auto simp: define_source_def visitor_apply_def visitor_new_alt with_object_def
          booking_ok_def split: if_splits)
  next
    case (Bin k)
    with b have "booking_ok ?s u (Bin k)" by (simp add: booking_ok_def)
    with Some Bin assms(4) s show ?thesis
      by (auto simp: define_source_def visitor_apply_def)
  qed
qed

lemma reg_ok_define [inv_intros]:
  assumes "reg_ok s" shows "reg_ok (snd (registry_define user_dirs dd u s))"
proof (cases "m_definedMap s u \<noteq> None \<or> m_undeclaredMap s u \<noteq> None")
  case False
  obtain m t where d: "define_source user_dirs dd u s = (m, t)" by fastforce
  from define_source_ok [OF assms _ _ d] False have t: "reg_ok t" "m_undeclaredMap t u = None"
    "m_bookingMap t u = None" "\<And>i. m = Inr i \<Longrightarrow> booking_ok t u (Bin i)" by auto
  then have "reg_ok (t\<lparr>m_definedMap := (m_definedMap t)(u \<mapsto> i)\<rparr>)" if "m = Inr i" for i
    using that by (intro reg_ok_at [OF t(1), where u = u]) (auto simp: slot_ok_def)
  with False d t(1) show ?thesis by (auto simp: registry_define_def split: sum.split)
qed (use assms in \<open>auto simp: registry_define_def\<close>)


lemma booking_ok_home:
  "booking_ok (s\<lparr>objects := (objects s)(m := (objects s m)\<lparr>obj_home := h\<rparr>)\<rparr>) u k = booking_ok s u k"
  by (auto simp: booking_ok_def split: booking.split)

lemma reg_ok_reset_step:
  assumes "reg_ok_with b s" shows "reg_ok_with b (reset_step b x s)"
proof -
  obtain d i where x: "x = (d, i)" by (cases x)
  show ?thesis
  proof (cases "b (vmUuid i)")
    case None
    with assms x show ?thesis by (auto simp: reset_step_def Let_def intro: inv_intros)
  next
    case (Some m)
    let ?s = "s\<lparr>objects := (objects s)(m := (objects s m)\<lparr>obj_home := vmHome i\<rparr>)\<rparr>"
    have r: "reg_ok_with b ?s" using assms by (simp add: reg_ok_with_def slot_ok_def booking_ok_home)
    have "reg_ok_with b (?s\<lparr>m_bookingMap := (m_bookingMap ?s)(vmUuid i \<mapsto> Bin m)\<rparr>)"
      using slot_okD [OF r, of "vmUuid i"] Some
      by (intro reg_ok_at [OF r, where u = "vmUuid i"]) (auto simp: slot_ok_def)
    with assms x Some show ?thesis by (auto simp: reset_step_def Let_def)
  qed
qed

lemma reg_ok_with_reset:
  assumes "reg_ok s"
  shows "reg_ok_with (m_definedMap s) (registry_reset its s)"
proof -
  have "slot_ok s u None (m_undeclaredMap s u) (m_bookingMap s u) (m_definedMap s u)" for u
    using slot_okD [OF assms, of u] by (auto simp: slot_ok_def)
  then have "slot_ok (s\<lparr>m_definedMap := Map.empty\<rparr>) u None (m_undeclaredMap s u) (m_bookingMap s u)
      (m_definedMap s u)" for u
    using slot_ok_frame [of "s\<lparr>m_definedMap := Map.empty\<rparr>" s] by simp
  then have "reg_ok_with (m_definedMap s) (s\<lparr>m_definedMap := Map.empty\<rparr>)" by (simp add: reg_ok_with_def)
  moreover have "reg_ok_with b (fold (reset_step b) its t)" if "reg_ok_with b t" for b t
    using that by (induction its arbitrary: t) (auto intro: reg_ok_reset_step)
  ultimately show ?thesis by (simp add: registry_reset_def)
qed

lemma reg_ok_reset [inv_intros]: "reg_ok s \<Longrightarrow> reg_ok (registry_reset its s)"
  using reg_ok_with_reset [of s its] by (auto simp: reg_ok_with_def slot_ok_def)

text \<open>The operations as steps; the directory's items are whatever they are.\<close>

inductive reg_step :: "registry \<Rightarrow> registry \<Rightarrow> bool" where
  step_declare: "reg_step s (snd (registry_declare ident home s))"
| step_undeclare: "reg_step s (snd (registry_undeclare u s))"
| step_define: "reg_step s (snd (registry_define user_dirs dd u s))"
| step_undefine: "reg_step s (snd (registry_undefine u s))"
| step_reset: "reg_step s (registry_reset its s)"

inductive_cases reg_stepE: "reg_step s t"

lemma reg_ok_init: "reg_ok registry_init"
  by (simp add: reg_ok_with_def slot_ok_def registry_init_def)

lemma reg_ok_steps: "reg_step\<^sup>*\<^sup>* registry_init s \<Longrightarrow> reg_ok s"
  by (induction rule: rtranclp_induct) (auto intro: reg_ok_init inv_intros elim!: reg_stepE)


section \<open>The life of one uuid\<close>

text \<open>The abstract state of a uuid, and what each operation promises of it.\<close>

datatype vm_status = Free | Booked | Defined | Undeclared

definition status :: "registry \<Rightarrow> uuid \<Rightarrow> vm_status" where
  "status s u = (if m_definedMap s u \<noteq> None then Defined
     else if m_undeclaredMap s u \<noteq> None then Undeclared
     else if m_bookingMap s u \<noteq> None then Booked else Free)"

fun status_declare :: "vm_status \<Rightarrow> prl_result \<times> vm_status" where
  "status_declare Free = (PRL_ERR_SUCCESS, Booked)"
| "status_declare Booked = (PRL_ERR_DOUBLE_INIT, Booked)"
| "status_declare Undeclared = (PRL_ERR_SUCCESS, Defined)"
| "status_declare Defined = (PRL_ERR_VM_ALREADY_REGISTERED_VM_UUID, Defined)"

fun status_undeclare :: "vm_status \<Rightarrow> prl_result \<times> vm_status" where
  "status_undeclare Free = (PRL_ERR_FILE_NOT_FOUND, Free)"
| "status_undeclare Booked = (PRL_ERR_SUCCESS, Free)"
| "status_undeclare Undeclared = (PRL_ERR_FILE_NOT_FOUND, Undeclared)"
| "status_undeclare Defined = (PRL_ERR_SUCCESS, Undeclared)"

fun status_undefine :: "vm_status \<Rightarrow> vm_status" where
  "status_undefine Booked = Booked"
| "status_undefine _ = Free"

text \<open>A definition makes the VM defined, or fails and uses up the booking.\<close>

definition status_define :: "bool \<Rightarrow> vm_status \<Rightarrow> vm_status" where
  "status_define ok x = (if x \<in> {Defined, Undeclared} then x else if ok then Defined else Free)"

lemma status_define_ok:
  assumes "reg_ok s"
  shows "status (snd (registry_define user_dirs dd u s)) =
    (status s)(u := status_define (\<not> isl (fst (registry_define user_dirs dd u s))) (status s u))"
proof (cases "m_definedMap s u \<noteq> None \<or> m_undeclaredMap s u \<noteq> None")
  case True
  then show ?thesis by (auto simp: registry_define_def status_def status_define_def)
next
  case False
  obtain m t where d: "define_source user_dirs dd u s = (m, t)" by fastforce
  moreover from False define_source_ok [OF assms _ _ d]
  have "m_definedMap t = m_definedMap s" "m_undeclaredMap t = m_undeclaredMap s"
    "m_bookingMap t = (m_bookingMap s)(u := None)" by auto
  ultimately show ?thesis using False
    by (intro ext; cases m) (simp_all add: registry_define_def status_def status_define_def)
qed

lemma status_undefine_ok:
  assumes "reg_ok s"
  shows "status (snd (registry_undefine u s)) = (status s)(u := status_undefine (status s u))"
proof -
  have s: "m_definedMap s u = None \<or> m_undeclaredMap s u = None \<and> m_bookingMap s u = None"
    "m_undeclaredMap s u = None \<or> m_bookingMap s u = None"
    using slot_okD [OF assms, of u] by (auto simp: slot_ok_def)
  then show ?thesis
    by (intro ext; cases "m_definedMap s u"; cases "m_undeclaredMap s u"; cases "m_bookingMap s u")
      (simp_all add: registry_undefine_def status_def)
qed

lemma status_declare_ok:
  "fst (registry_declare ident home s) = fst (status_declare (status s (fst ident)))"
  "status (snd (registry_declare ident home s)) =
     (status s)(fst ident := snd (status_declare (status s (fst ident))))"
proof -
  show "fst (registry_declare ident home s) = fst (status_declare (status s (fst ident)))"
    by (simp add: registry_declare_def status_def Let_def split: option.split)
  show "status (snd (registry_declare ident home s)) =
     (status s)(fst ident := snd (status_declare (status s (fst ident))))"
    by (intro ext; cases "m_definedMap s (fst ident)"; cases "m_undeclaredMap s (fst ident)";
        cases "m_bookingMap s (fst ident)") (simp_all add: registry_declare_def status_def Let_def)
qed

lemma status_undeclare_ok:
  assumes "reg_ok s"
  shows "fst (registry_undeclare u s) = fst (status_undeclare (status s u))"
    "status (snd (registry_undeclare u s)) = (status s)(u := snd (status_undeclare (status s u)))"
proof -
  have s: "m_definedMap s u = None \<or> m_undeclaredMap s u = None \<and> m_bookingMap s u = None"
    "m_undeclaredMap s u = None \<or> m_bookingMap s u = None"
    using slot_okD [OF assms, of u] by (auto simp: slot_ok_def)
  show "fst (registry_undeclare u s) = fst (status_undeclare (status s u))"
    using s by (cases "m_definedMap s u"; cases "m_undeclaredMap s u"; cases "m_bookingMap s u")
      (simp_all add: registry_undeclare_def status_def)
  show "status (snd (registry_undeclare u s)) = (status s)(u := snd (status_undeclare (status s u)))"
    using s by (intro ext; cases "m_definedMap s u"; cases "m_undeclaredMap s u"; cases "m_bookingMap s u")
      (simp_all add: registry_undeclare_def status_def)
qed

text \<open>A booking made by \<^verbatim>\<open>reset\<close> stays.\<close>

lemma reset_step_booking:
  assumes "b u = Some m"
  shows "m_bookingMap s u = Some (Bin m) \<Longrightarrow> m_bookingMap (reset_step b x s) u = Some (Bin m)"
    "vmUuid (snd x) = u \<Longrightarrow> ctId (snd x) = [] \<Longrightarrow> \<not> vmIsTemplate (snd x) \<Longrightarrow>
       fst x \<noteq> getTemplatesDirectoryUuid \<Longrightarrow> m_bookingMap (reset_step b x s) u = Some (Bin m)"
  using assms by (cases x; auto simp: reset_step_def registry_declare_def Let_def split: option.split)+

lemma fold_reset_booking:
  assumes "b u = Some m"
  shows "m_bookingMap s u = Some (Bin m) \<Longrightarrow> m_bookingMap (fold (reset_step b) its s) u = Some (Bin m)"
    "\<exists>x \<in> set its. vmUuid (snd x) = u \<and> ctId (snd x) = [] \<and> \<not> vmIsTemplate (snd x) \<and>
       fst x \<noteq> getTemplatesDirectoryUuid \<Longrightarrow> m_bookingMap (fold (reset_step b) its s) u = Some (Bin m)"
proof -
  show keep: "m_bookingMap s u = Some (Bin m) \<Longrightarrow> m_bookingMap (fold (reset_step b) its s) u = Some (Bin m)"
    for s its by (induction its arbitrary: s) (auto intro: reset_step_booking assms)
  show "\<exists>x \<in> set its. vmUuid (snd x) = u \<and> ctId (snd x) = [] \<and> \<not> vmIsTemplate (snd x) \<and>
       fst x \<noteq> getTemplatesDirectoryUuid \<Longrightarrow> m_bookingMap (fold (reset_step b) its s) u = Some (Bin m)"
  proof (induction its arbitrary: s)
    case (Cons x its)
    show ?case
    proof (cases "vmUuid (snd x) = u \<and> ctId (snd x) = [] \<and> \<not> vmIsTemplate (snd x) \<and>
       fst x \<noteq> getTemplatesDirectoryUuid")
      case True
      with reset_step_booking(2) [of b u m, OF assms] keep show ?thesis by simp
    next
      case False
      with Cons show ?thesis by auto
    qed
  qed simp
qed


section \<open>Properties\<close>



definition registry0 :: registry where
  "registry0 = snd (registry_define {''d''} ''d'' ''u'' registry_init)"

lemma registry0_reachable: "reg_step\<^sup>*\<^sup>* registry_init registry0"
  unfolding registry0_def by (blast intro: reg_step.intros)


text \<open>A definition that fails has used up the booking, with the home of the VM.\<close>

lemma failed_definition_loses_booking:
  "fst (registry_define {} ''d'' ''u'' (snd (registry_declare (''u'', ''d'') ''/home'' registry_init)))
     = Inl PRL_ERR_FAILURE \<and>
   m_bookingMap (snd (registry_define {} ''d'' ''u''
     (snd (registry_declare (''u'', ''d'') ''/home'' registry_init)))) ''u'' = None"
  by (simp add: registry_define_def define_source_def visitor_apply_def visitor_new_def
      registry_declare_def registry_init_def)



text \<open>A VM that was defined when libvirt went away, and that a directory still lists, is the same
  object when libvirt defines it again after the reset.\<close>

theorem reset_keeps_listed_vms:
  assumes "reg_step\<^sup>*\<^sup>* registry_init s" "m_definedMap s u = Some m"
    and "(d, i) \<in> set its" "vmUuid i = u" "ctId i = []" "\<not> vmIsTemplate i"
    and "d \<noteq> getTemplatesDirectoryUuid"
  shows "fst (registry_define user_dirs dd u (registry_reset its s)) = Inr m"
proof -
  let ?t = "registry_reset its s"
  have "\<exists>x \<in> set its. vmUuid (snd x) = u \<and> ctId (snd x) = [] \<and> \<not> vmIsTemplate (snd x) \<and>
       fst x \<noteq> getTemplatesDirectoryUuid"
    using assms(3-7) by (intro bexI [of _ "(d, i)"]) auto
  from fold_reset_booking(2) [of "m_definedMap s", OF assms(2) this]
  have b: "m_bookingMap ?t u = Some (Bin m)" by (simp add: registry_reset_def)
  have "m_definedMap ?t u = None \<and> m_undeclaredMap ?t u = None"
    using slot_okD [OF reg_ok_with_reset [OF reg_ok_steps [OF assms(1)]], of its u] b
    by (auto simp: slot_ok_def)
  with b show ?thesis by (simp add: registry_define_def define_source_def visitor_apply_def)
qed

lemma reset_keeps_listed_vms_witness:
  "fst (registry_define {} [] ''u'' (registry_reset [(''d'', item_of 1 ''u'' ''/u'')] registry0)) = Inr 0"
  by (rule reset_keeps_listed_vms [OF registry0_reachable, of _ _ "''d''" "item_of 1 ''u'' ''/u''"])
    (simp_all add: item_of_def getTemplatesDirectoryUuid_def registry0_def registry_define_def
      define_source_def visitor_new_def registry_init_def)

end
