(* ===== verification/AllowedCommands.thy ===== *)
theory AllowedCommands
  imports Main
begin

text \<open>
  The members of \<^verbatim>\<open>PRL_ALLOWED_VM_COMMAND\<close> (an enumeration of the SDK) that the access
  table of \<^verbatim>\<open>CDspAccessManager.cpp\<close> refers to.
\<close>

datatype (plugins only: size) allowed_cmd =
    PAR_CT_CONVERT | PAR_MAX | PAR_SRV_SENDPROBLEMREPORT_ACCESS
  | PAR_SRV_SERVER_PROFILE_BEGINEDIT_ACCESS | PAR_SRV_SERVER_PROFILE_COMMIT_ACCESS
  | PAR_SRV_USER_PROFILE_BEGINEDIT_ACCESS | PAR_SRV_USER_PROFILE_COMMIT_ACCESS
  | PAR_VMDEV_CONNECT_ACCESS | PAR_VMDEV_COPY_IMAGE_ACCESS | PAR_VMDEV_CREATEIMAGE_ACCESS
  | PAR_VMDEV_DISCONNECT_ACCESS | PAR_VM_BEGINEDIT_ACCESS | PAR_VM_CANCEL_COMPACT_ACCESS
  | PAR_VM_CANCEL_COMPRESSOR_ACCESS | PAR_VM_CHANGE_SID_ACCESS | PAR_VM_CLONE_ACCESS
  | PAR_VM_COMMIT_ACCESS | PAR_VM_COMPACT_ACCESS | PAR_VM_CONVERT_DISKS_ACCESS
  | PAR_VM_CREATE_ACCESS | PAR_VM_CREATE_BACKUP_ACCESS | PAR_VM_CREATE_SNAPSHOT_ACCESS
  | PAR_VM_DELETE_ACCESS | PAR_VM_DELETE_SNAPSHOT_ACCESS | PAR_VM_DROPSUSPENDEDSTATE_ACCESS
  | PAR_VM_GETCONFIG_ACCESS | PAR_VM_GETPROBLEMREPORT_ACCESS | PAR_VM_GETSTATISTICS_ACCESS
  | PAR_VM_GET_SUSPENDED_SCREEN_ACCESS | PAR_VM_GET_TOOLS_INFO | PAR_VM_GET_VMINFO_ACCESS
  | PAR_VM_INITIATE_DEV_STATE_NOTIFICATIONS_ACCESS | PAR_VM_INSTALL_TOOLS_ACCESS
  | PAR_VM_INSTALL_UTILITY_ACCESS | PAR_VM_INTERNAL_CMD_ACCESS | PAR_VM_LOCK_ACCESS
  | PAR_VM_MIGRATE_ACCESS | PAR_VM_MOUNT_ACCESS | PAR_VM_MOVE_ACCESS | PAR_VM_PAUSE_ACCESS
  | PAR_VM_PERFSTAT_ACCESS | PAR_VM_REGISTER_ACCESS | PAR_VM_REMOVE_PROTECTION_ACCESS
  | PAR_VM_RESET_ACCESS | PAR_VM_RESET_UPTIME_ACCESS | PAR_VM_RESIZE_DISK_ACCESS
  | PAR_VM_RESTART_GUEST_ACCESS | PAR_VM_RESTORE_ACCESS | PAR_VM_RESTORE_BACKUP_ACCESS
  | PAR_VM_RESUME_ACCESS | PAR_VM_RUN_COMPRESSOR_ACCESS | PAR_VM_SEND_ANSWER_ACCESS
  | PAR_VM_SET_PROTECTION_ACCESS | PAR_VM_START_ACCESS | PAR_VM_START_EX_ACCESS
  | PAR_VM_START_STOP_VNC_SERVER | PAR_VM_STATISTICS_SUBSCRIPTION_ACCESS
  | PAR_VM_STOP_ACCESS | PAR_VM_SUSPEND_ACCESS | PAR_VM_SWITCH_TO_SNAPSHOT_ACCESS
  | PAR_VM_UNLOCK_ACCESS | PAR_VM_UNREG_ACCESS
  | PAR_VM_UNSUBSCRIBEFROMGUESTSTATISTICS_ACCESS | PAR_VM_UPDATE_NVRAM
  | PAR_VM_UPDATE_TOOLS_SECTION | PAR_VM_UPDATE_SECURITY_ACCESS
  | PAR_OTHER nat

end
