(* ===== verification/AccessRights.thy ===== *)
theory AccessRights
  imports VmDirectory VmLocksInterface DspCommands AllowedCommands "HOL-Library.Word"
begin

text \<open>
  Access to VMs (\<^verbatim>\<open>CDspAccessManager.cpp\<close>): the rights each command needs, the rights a
  session has on a VM's files, the checks a command has to pass, and the conversion between VM
  rights and file permissions.

  What the code asks the file system and the user's authentication about one VM is the record
  \<open>vm_files\<close>; what \<^verbatim>\<open>loadConfig\<close> gives is an optional \<open>vm_config\<close>; the bits of
  \<^verbatim>\<open>CAuth\<close>, which another repository defines, are the record \<open>cauth\<close>.
\<close>

unbundle bit_operations_syntax

section \<open>Rights\<close>

type_synonym sec_am = "32 word"

definition arCanNone :: sec_am where "arCanNone = 0"

definition arCanRead :: sec_am where "arCanRead = 1"

definition arCanWrite :: sec_am where "arCanWrite = 2"

definition arCanExecute :: sec_am where "arCanExecute = 4"

definition arVmIsExists :: sec_am where "arVmIsExists = 8"

lemmas ar_defs = arCanNone_def arCanRead_def arCanWrite_def arCanExecute_def arVmIsExists_def

definition canRead :: "sec_am \<Rightarrow> bool" where "canRead m \<longleftrightarrow> m AND arCanRead \<noteq> 0"

definition canWrite :: "sec_am \<Rightarrow> bool" where "canWrite m \<longleftrightarrow> m AND arCanWrite \<noteq> 0"

definition canExecute :: "sec_am \<Rightarrow> bool" where "canExecute m \<longleftrightarrow> m AND arCanExecute \<noteq> 0"

definition isExists :: "sec_am \<Rightarrow> bool" where "isExists m \<longleftrightarrow> m AND arVmIsExists \<noteq> 0"

definition makeModeNO_ACCESS :: sec_am where "makeModeNO_ACCESS = arCanNone"

definition makeModeR :: sec_am where "makeModeR = arCanRead"

definition makeModeRW :: sec_am where "makeModeRW = arCanRead OR arCanWrite"

definition makeModeRX :: sec_am where "makeModeRX = arCanRead OR arCanExecute"

definition makeModeRWX :: sec_am where "makeModeRWX = arCanRead OR arCanWrite OR arCanExecute"

text \<open>The abbreviations of \<^verbatim>\<open>initAccessRights\<close>, and its table in the order of the source.\<close>

abbreviation (input) arN :: sec_am where "arN \<equiv> arCanNone"

abbreviation (input) arR :: sec_am where "arR \<equiv> arCanRead"

abbreviation (input) arRW :: sec_am where "arRW \<equiv> arCanRead OR arCanWrite"

abbreviation (input) arRX :: sec_am where "arRX \<equiv> arCanRead OR arCanExecute"

abbreviation (input) arRWX :: sec_am where "arRWX \<equiv> arCanRead OR arCanWrite OR arCanExecute"

definition m_accessRights :: "(dsp_cmd \<times> sec_am \<times> allowed_cmd) list" where
  "m_accessRights =
     [(DspCmdVmStart, arRX, PAR_VM_START_ACCESS),
      (DspCmdVmStartEx, arRWX, PAR_VM_START_EX_ACCESS),
      (DspCmdVmRestartGuest, arRX, PAR_VM_RESTART_GUEST_ACCESS),
      (DspCmdVmStop, arRX, PAR_VM_STOP_ACCESS),
      (DspCmdVmGetConfig, arR, PAR_VM_GETCONFIG_ACCESS),
      (DspCmdGetVmInfo, arR, PAR_VM_GET_VMINFO_ACCESS),
      (DspCmdVmReset, arRX, PAR_VM_RESET_ACCESS), (DspCmdVmPause, arRX, PAR_VM_PAUSE_ACCESS),
      (DspCmdVmSuspend, arRX, PAR_VM_SUSPEND_ACCESS),
      (DspCmdVmSuspendCancel, arRX, PAR_VM_SUSPEND_ACCESS),
      (DspCmdVmGetSuspendedScreen, arR, PAR_VM_GET_SUSPENDED_SCREEN_ACCESS),
      (DspCmdVmResume, arRX, PAR_VM_RESUME_ACCESS),
      (DspCmdVmDropSuspendedState, arRX, PAR_VM_DROPSUSPENDEDSTATE_ACCESS),
      (DspCmdVmCreateSnapshot, arRWX, PAR_VM_CREATE_SNAPSHOT_ACCESS),
      (DspCmdVmSwitchToSnapshot, arRWX, PAR_VM_SWITCH_TO_SNAPSHOT_ACCESS),
      (DspCmdVmInternal, arRWX, PAR_VM_INTERNAL_CMD_ACCESS),
      (DspCmdVmDeleteSnapshot, arRWX, PAR_VM_DELETE_SNAPSHOT_ACCESS),
      (DspCmdVmDevConnect, arRWX, PAR_VMDEV_CONNECT_ACCESS),
      (DspCmdVmDevDisconnect, arRWX, PAR_VMDEV_DISCONNECT_ACCESS),
      (DspCmdVmInstallUtility, arRWX, PAR_VM_INSTALL_UTILITY_ACCESS),
      (DspCmdVmInstallTools, arRWX, PAR_VM_INSTALL_TOOLS_ACCESS),
      (DspCmdVmRunCompressor, arRWX, PAR_VM_RUN_COMPRESSOR_ACCESS),
      (DspCmdVmCancelCompressor, arRWX, PAR_VM_CANCEL_COMPRESSOR_ACCESS),
      (DspCmdDirRegVm, arRW, PAR_VM_REGISTER_ACCESS),
      (DspCmdDirRestoreVm, arRW, PAR_VM_RESTORE_ACCESS),
      (DspCmdDirVmDelete, arRW, PAR_VM_DELETE_ACCESS),
      (DspCmdDirVmClone, arR, PAR_VM_CLONE_ACCESS),
      (DspCmdDirVmMigrate, arRWX, PAR_VM_MIGRATE_ACCESS),
      (DspCmdCtlMigrateTarget, arRWX, PAR_VM_MIGRATE_ACCESS),
      (DspCmdCtlStartMigratedVm, arRX, PAR_VM_START_ACCESS),
      (DspCmdCreateVmBackup, arR, PAR_VM_CREATE_BACKUP_ACCESS),
      (DspCmdRestoreVmBackup, arRWX, PAR_VM_RESTORE_BACKUP_ACCESS),
      (DspCmdDirVmEditBegin, arRW, PAR_VM_BEGINEDIT_ACCESS),
      (DspCmdDirVmEditCommit, arRW, PAR_VM_COMMIT_ACCESS),
      (DspCmdDirCreateImage, arRW, PAR_VMDEV_CREATEIMAGE_ACCESS),
      (DspCmdDirCopyImage, arR, PAR_VMDEV_COPY_IMAGE_ACCESS),
      (DspCmdDirUnregVm, arRW, PAR_VM_UNREG_ACCESS),
      (DspCmdVmGetStatistics, arR, PAR_VM_GETSTATISTICS_ACCESS),
      (DspCmdVmSubscribeToGuestStatistics, arR, PAR_VM_STATISTICS_SUBSCRIPTION_ACCESS),
      (DspCmdVmUnsubscribeFromGuestStatistics, arR, PAR_VM_UNSUBSCRIBEFROMGUESTSTATISTICS_ACCESS),
      (DspCmdVmGetProblemReport, arR, PAR_VM_GETPROBLEMREPORT_ACCESS),
      (DspCmdVmGetPackedProblemReport, arR, PAR_VM_GETPROBLEMREPORT_ACCESS),
      (DspCmdSendProblemReport, arR, PAR_SRV_SENDPROBLEMREPORT_ACCESS),
      (DspCmdVmInitiateDevStateNotifications, arR, PAR_VM_INITIATE_DEV_STATE_NOTIFICATIONS_ACCESS),
      (DspCmdVmAnswer, arRX, PAR_VM_SEND_ANSWER_ACCESS),
      (DspCmdVmCompact, arRWX, PAR_VM_COMPACT_ACCESS),
      (DspCmdVmCancelCompact, arRWX, PAR_VM_CANCEL_COMPACT_ACCESS),
      (DspCmdVmConvertDisks, arRW, PAR_VM_CONVERT_DISKS_ACCESS),
      (DspCmdPerfomanceStatistics, arR, PAR_VM_PERFSTAT_ACCESS),
      (DspCmdVmUpdateToolsSection, arRWX, PAR_VM_UPDATE_TOOLS_SECTION),
      (DspCmdVmStartVNCServer, arRWX, PAR_VM_START_STOP_VNC_SERVER),
      (DspCmdVmStopVNCServer, arRWX, PAR_VM_START_STOP_VNC_SERVER),
      (DspCmdVmLock, arRWX, PAR_VM_LOCK_ACCESS), (DspCmdVmUnlock, arRWX, PAR_VM_UNLOCK_ACCESS),
      (DspCmdVmResizeDisk, arRW, PAR_VM_RESIZE_DISK_ACCESS),
      (DspCmdVmChangeSid, arRX, PAR_VM_CHANGE_SID_ACCESS),
      (DspCmdVmResetUptime, arRWX, PAR_VM_RESET_UPTIME_ACCESS),
      (DspCmdGetVmToolsInfo, arR, PAR_VM_GET_TOOLS_INFO),
      (DspCmdVmSetProtection, arRW, PAR_VM_SET_PROTECTION_ACCESS),
      (DspCmdVmRemoveProtection, arRW, PAR_VM_REMOVE_PROTECTION_ACCESS),
      (DspCmdDirVmCreate, arN, PAR_VM_CREATE_ACCESS),
      (DspCmdUserProfileBeginEdit, arN, PAR_SRV_USER_PROFILE_BEGINEDIT_ACCESS),
      (DspCmdUserProfileCommit, arN, PAR_SRV_USER_PROFILE_COMMIT_ACCESS),
      (DspCmdHostCommonInfoBeginEdit, arN, PAR_SRV_SERVER_PROFILE_BEGINEDIT_ACCESS),
      (DspCmdHostCommonInfoCommit, arN, PAR_SRV_SERVER_PROFILE_COMMIT_ACCESS),
      (DspCmdDirGetVmList, arR, PAR_MAX), (DspCmdVmStorageSetValue, arRW, PAR_MAX),
      (DspCmdVmChangeLogLevel, arRX, PAR_MAX), (DspCmdVmMount, arRWX, PAR_VM_MOUNT_ACCESS),
      (DspCmdVmUmount, arRWX, PAR_VM_MOUNT_ACCESS), (DspCmdDirVmMove, arRWX, PAR_VM_MOVE_ACCESS),
      (DspCmdVmCommitEncryption, arRW, PAR_VM_COMMIT_ACCESS),
      (DspCmdVmUpdateNvram, arRWX, PAR_VM_UPDATE_NVRAM), (DspCmdCtConvert, arRWX, PAR_CT_CONVERT)]"


section \<open>What a session may do with a VM's files\<close>

record vm_files =
  existsForRoot :: bool
  existsForUser :: bool
  fsSupportsPerms :: bool
  configReadable :: bool
  dirsReadable :: bool
  configWritable :: bool
  configExecutable :: bool
  dirWritable :: bool
  onNtfs :: bool
  onFat :: bool
  ownsConfig :: bool
  ownsDir :: bool
  ownerName :: qstring

record session =
  clientHandle :: qstring
  confirmationEnabled :: bool
  localAdministrator :: bool

definition getAccessRightsToVm :: "session \<Rightarrow> vm_files \<Rightarrow> sec_am" where
  "getAccessRightsToVm ss f =
     (if \<not> (existsForRoot f \<or> existsForUser f) then arCanNone
      else if localAdministrator ss \<or> \<not> fsSupportsPerms f
      then arVmIsExists OR arCanRead OR arCanWrite OR arCanExecute
      else if configReadable f \<and> dirsReadable f
      then arVmIsExists OR arCanRead OR
        (if configWritable f \<and> dirWritable f then arCanWrite else 0) OR
        (if (configExecutable f \<or> configWritable f) \<and> dirWritable f then arCanExecute else 0)
      else arVmIsExists)"

definition isOwnerOfVm :: "session \<Rightarrow> vm_files \<Rightarrow> bool" where
  "isOwnerOfVm ss f =
     (if \<not> fsSupportsPerms f then True
      else if onNtfs f then True
      else if onFat f \<and> localAdministrator ss then True
      else ownsConfig f \<and> ownsDir f)"

definition getOwnerOfVm :: "vm_files \<Rightarrow> qstring" where
  "getOwnerOfVm f = (if \<not> fsSupportsPerms f then [] else ownerName f)"


section \<open>Checking access\<close>

text \<open>The directory item with what only the access manager reads of it.\<close>

record access_item = dir_item +
  vmNotValid :: bool
  lockedOperations :: "allowed_cmd list"

record vm_config =
  cfg_vmUuid :: uuid
  cfg_serverUuid :: uuid
  cfg_isTemplate :: bool

text \<open>The check that concerns the confirmation of a command by an administrator.\<close>

definition checkAccess_common :: "session option \<Rightarrow> dsp_cmd \<Rightarrow> allowed_cmd list \<Rightarrow> prl_result" where
  "checkAccess_common x cmd common =
     (case x of
        None \<Rightarrow> PRL_ERR_FAILURE
      | Some ss \<Rightarrow>
          (case (if confirmationEnabled ss then map_of m_accessRights cmd else None) of
             None \<Rightarrow> PRL_ERR_SUCCESS
           | Some (_, sdkCmd) \<Rightarrow>
               if sdkCmd \<in> set common
               then PRL_ERR_ADMIN_CONFIRMATION_IS_REQUIRED_FOR_OPERATION else PRL_ERR_SUCCESS))"

text \<open>\<open>holder\<close> is the handle of the session that holds the lock of the VM.\<close>

definition lock_check :: "session \<Rightarrow> dsp_cmd \<Rightarrow> qstring \<Rightarrow> prl_result" where
  "lock_check ss cmd holder =
     (if holder \<noteq> [] \<and> clientHandle ss \<noteq> holder then
        (if cmd = DspCmdVmUnlock then PRL_ERR_NOT_LOCK_OWNER_SESSION_TRIES_TO_UNLOCK
         else if cmd \<in> {DspCmdVmUnsubscribeFromGuestStatistics, DspCmdVmSubscribeToGuestStatistics,
                        DspCmdVmGetStatistics, DspCmdPerfomanceStatistics}
         then PRL_ERR_SUCCESS
         else PRL_ERR_VM_IS_EXCLUSIVELY_LOCKED)
      else PRL_ERR_SUCCESS)"

definition server_check :: "dsp_cmd \<Rightarrow> uuid \<Rightarrow> vm_config \<Rightarrow> bool" where
  "server_check cmd server c \<longleftrightarrow>
     server = cfg_serverUuid c \<or>
     cmd \<in> {DspCmdDirUnregVm, DspCmdCtlMigrateTarget, DspCmdCtlStartMigratedVm} \<or>
     cmd \<in> {DspCmdDirRegVm, DspCmdDirVmClone, DspCmdDirVmDelete} \<and> cfg_isTemplate c"

text \<open>
  The checks of \<^verbatim>\<open>checkAccess\<close> on an item, in their order.  \<open>cfgfile\<close> is what
  \<^verbatim>\<open>loadConfig\<close> gives, \<open>common\<close> the operations to be confirmed for all VMs.
\<close>

definition checkAccess_result ::
  "session option \<Rightarrow> dsp_cmd \<Rightarrow> qstring \<Rightarrow> vm_files \<Rightarrow> vm_config option \<Rightarrow> uuid \<Rightarrow> allowed_cmd list \<Rightarrow>
   access_item \<Rightarrow> prl_result" where
  "checkAccess_result x cmd holder f cfgfile server common i =
     (case x of
        None \<Rightarrow> PRL_ERR_ACCESS_TO_VM_DENIED
      | Some ss \<Rightarrow>
          if prl_failed (lock_check ss cmd holder) then lock_check ss cmd holder
          else (case map_of m_accessRights cmd of
             None \<Rightarrow> PRL_ERR_ACCESS_TO_VM_DENIED
           | Some (need, sdkCmd) \<Rightarrow>
               (let have = getAccessRightsToVm ss f in
                if need AND have \<noteq> need
                then (if isExists have then PRL_ERR_ACCESS_TO_VM_DENIED
                      else PRL_ERR_VM_CONFIG_DOESNT_EXIST)
                else (case cfgfile of
                   None \<Rightarrow> PRL_ERR_PARSE_VM_CONFIG
                 | Some c \<Rightarrow>
                     if cfg_vmUuid c \<noteq> vmUuid i then PRL_ERR_VM_CONFIG_INVALID_VM_UUID
                     else if \<not> server_check cmd server c then PRL_ERR_VM_CONFIG_INVALID_SERVER_UUID
                     else if confirmationEnabled ss then
                       (if prl_failed (checkAccess_common x cmd common)
                        then checkAccess_common x cmd common
                        else if sdkCmd \<in> set (lockedOperations i)
                        then PRL_ERR_ADMIN_CONFIRMATION_IS_REQUIRED_FOR_VM_OPERATION
                        else PRL_ERR_SUCCESS)
                     else PRL_ERR_SUCCESS))))"

text \<open>
  The item becomes invalid when its configuration is missing and the caller gave the flag
  \<^verbatim>\<open>bSetNotValid\<close>; the flag of the result is its value.
\<close>

definition checkAccess_item ::
  "session option \<Rightarrow> dsp_cmd \<Rightarrow> qstring \<Rightarrow> vm_files \<Rightarrow> vm_config option \<Rightarrow> uuid \<Rightarrow> allowed_cmd list \<Rightarrow>
   bool \<Rightarrow> access_item \<Rightarrow> prl_result \<times> bool \<times> access_item" where
  "checkAccess_item x cmd holder f cfgfile server common wants i =
     (let r = checkAccess_result x cmd holder f cfgfile server common i in
      if r = PRL_ERR_VM_CONFIG_DOESNT_EXIST \<and> wants \<and> \<not> vmNotValid i
      then (r, True, i\<lparr>vmNotValid := True\<rparr>) else (r, False, i))"

text \<open>The lookups of \<^verbatim>\<open>CDspVmDirHelper\<close> that find the directory of a VM.\<close>

fun getVmDirUuidByVmUuid :: "uuid \<Rightarrow> directory list \<Rightarrow> uuid" where
  "getVmDirUuidByVmUuid v [] = []"
| "getVmDirUuidByVmUuid v (d # ds) =
     (if \<exists>i \<in> set (m_lstVmDirectoryItems d). vmUuid i = v then dir_uuid d
      else getVmDirUuidByVmUuid v ds)"

definition getVmIdentByVmUuid :: "uuid \<Rightarrow> catalogue \<Rightarrow> vm_ident" where
  "getVmIdentByVmUuid v s = (v, getVmDirUuidByVmUuid v (m_lstVmDirectory s))"

text \<open>The overload by uuid; \<open>check\<close> is the check of the item found.\<close>

definition checkAccess_uuid ::
  "catalogue_api \<Rightarrow> session option \<Rightarrow> uuid \<Rightarrow> catalogue \<Rightarrow> (dir_item \<Rightarrow> prl_result) \<Rightarrow> prl_result" where
  "checkAccess_uuid A x v s check =
     (case x of
        None \<Rightarrow> PRL_ERR_ACCESS_TO_VM_DENIED
      | Some ss \<Rightarrow>
          (let ident = getVmIdentByVmUuid v s in
           case getVmDirItemByUuid A (snd ident) (fst ident) s of
             None \<Rightarrow> PRL_ERR_VM_UUID_NOT_FOUND
           | Some i \<Rightarrow> check i))"

definition allowed_row :: "sec_am \<Rightarrow> dsp_cmd \<times> sec_am \<times> allowed_cmd \<Rightarrow> bool" where
  "allowed_row have r =
     (let (c, m, p) = r in
      if isExists have then m AND have = m else c \<in> {DspCmdDirUnregVm, DspCmdVmStop})"

text \<open>The hash is iterated in no particular order; the model's order is that of the table.\<close>

definition getAllowedVmCommands :: "session \<Rightarrow> vm_files \<Rightarrow> allowed_cmd list" where
  "getAllowedVmCommands ss f =
     (let have = getAccessRightsToVm ss f;
          cmds = map (\<lambda>(c, m, p). p) (filter (allowed_row have) m_accessRights)
      in if isOwnerOfVm ss f \<or> localAdministrator ss
         then cmds @ [PAR_VM_UPDATE_SECURITY_ACCESS] @
           (if PAR_VM_RESET_UPTIME_ACCESS \<in> set cmds then [] else [PAR_VM_RESET_UPTIME_ACCESS])
         else cmds)"


section \<open>VM rights and file permissions\<close>

type_synonym access_mode = "32 word"

record cauth =
  fileMayRead :: access_mode
  fileMayWrite :: access_mode
  fileMayExecute :: access_mode
  pathNotFound :: access_mode

text \<open>The four are different single bits.\<close>

definition cauth_ok :: "cauth \<Rightarrow> bool" where
  "cauth_ok C \<longleftrightarrow>
     0 \<notin> {fileMayRead C, fileMayWrite C, fileMayExecute C, pathNotFound C} \<and>
     fileMayRead C AND fileMayWrite C = 0 \<and> fileMayRead C AND fileMayExecute C = 0 \<and>
     fileMayRead C AND pathNotFound C = 0 \<and> fileMayWrite C AND fileMayExecute C = 0 \<and>
     fileMayWrite C AND pathNotFound C = 0 \<and> fileMayExecute C AND pathNotFound C = 0"

definition ConvertCAuthPermToVmPerm :: "cauth \<Rightarrow> access_mode \<Rightarrow> access_mode \<Rightarrow> sec_am" where
  "ConvertCAuthPermToVmPerm C cfg dir =
     (let has = (\<lambda>m b. m AND b \<noteq> 0) in
      if has cfg (pathNotFound C) then arCanNone
      else if has cfg (fileMayRead C) \<and> has dir (fileMayRead C)
      then arVmIsExists OR arCanRead OR
        (if has cfg (fileMayWrite C) \<and> has dir (fileMayWrite C) then arCanWrite else 0) OR
        (if (has cfg (fileMayExecute C) \<or> has cfg (fileMayWrite C)) \<and> has dir (fileMayWrite C)
         then arCanExecute else 0)
      else arVmIsExists)"

definition ConvertVmPermToCAuthPerm :: "cauth \<Rightarrow> sec_am \<Rightarrow> access_mode \<times> access_mode" where
  "ConvertVmPermToCAuthPerm C p =
     (if p AND arCanRead = 0 then (0, 0)
      else (fileMayRead C OR (if p AND arCanWrite \<noteq> 0 then fileMayWrite C else 0) OR
              (if p AND arCanExecute \<noteq> 0 then fileMayExecute C else 0),
            fileMayRead C OR (if p AND arCanWrite \<noteq> 0 then fileMayWrite C else 0) OR
              (if p AND arCanExecute \<noteq> 0 then fileMayWrite C else 0)))"

text \<open>
  \<^verbatim>\<open>getFullAccessRightsToVm\<close>: \<open>cfg\<close> and \<open>dir\<close> are the answers of
  \<^verbatim>\<open>GetSimplePermissionsToFile\<close>: an error, or the modes of the owner and of the others and
  whether the latter are mixed.  The result has the two rights and the mixed flag.
\<close>

type_synonym perm_answer = "prl_result + access_mode \<times> access_mode \<times> bool"

definition getFullAccessRightsToVm ::
  "cauth \<Rightarrow> vm_files option \<Rightarrow> perm_answer \<Rightarrow> perm_answer \<Rightarrow> prl_result \<times> sec_am \<times> sec_am \<times> bool" where
  "getFullAccessRightsToVm C x cfg dir =
     (case x of
        None \<Rightarrow> (PRL_ERR_INVALID_ARG, arCanNone, arCanNone, False)
      | Some f \<Rightarrow>
          if \<not> (existsForRoot f \<or> existsForUser f)
          then (PRL_ERR_FAILURE, arCanNone, arCanNone, False)
          else if \<not> fsSupportsPerms f
          then (PRL_ERR_FAILURE, arCanRead OR arCanWrite OR arCanExecute, arVmIsExists, False)
          else (case cfg of
             Inl e \<Rightarrow> (e, arVmIsExists, arVmIsExists, False)
           | Inr (fo, ft, fm) \<Rightarrow>
               (case dir of
                  Inl e \<Rightarrow> (e, arVmIsExists, arVmIsExists, False)
                | Inr (od, td, dm) \<Rightarrow>
                    (PRL_ERR_SUCCESS, ConvertCAuthPermToVmPerm C fo od,
                     ConvertCAuthPermToVmPerm C ft td, fm \<or> dm))))"

text \<open>
  \<^verbatim>\<open>setFullAccessRightsToVm\<close>: the calls of \<^verbatim>\<open>SetSimplePermissionsToFile\<close> it makes, on
  the directory and then on the configuration, with the modes for the owner and the others;
  \<open>answers\<close> are their results.
\<close>

datatype perm_target = PermDir | PermConfig

definition setFullAccessRightsToVm ::
  "cauth \<Rightarrow> session \<Rightarrow> vm_files \<Rightarrow> sec_am option \<Rightarrow> sec_am option \<Rightarrow> prl_result \<times> prl_result \<Rightarrow>
   prl_result \<times> (perm_target \<times> access_mode option \<times> access_mode option) list" where
  "setFullAccessRightsToVm C ss f own oth answers =
     (if \<not> existsForUser f then (PRL_ERR_VM_CONFIG_DOESNT_EXIST, [])
      else if \<not> fsSupportsPerms f then (PRL_ERR_CANT_TO_CHANGE_PERMISSIONS_ON_REMOTE_LOCATION, [])
      else if \<not> isOwnerOfVm ss f \<and> \<not> localAdministrator ss
      then (PRL_ERR_ACCESS_DENIED_TO_CHANGE_PERMISSIONS, [])
      else
        (let conv = map_option (ConvertVmPermToCAuthPerm C);
             c1 = (PermDir, map_option snd (conv own), map_option snd (conv oth));
             c2 = (PermConfig, map_option fst (conv own), map_option fst (conv oth))
         in if prl_failed (fst answers) then (fst answers, [c1])
            else if prl_failed (snd answers) then (snd answers, [c1, c2])
            else (PRL_ERR_SUCCESS, [c1, c2])))"


section \<open>Facts\<close>

lemma lock_check_locked:
  assumes "holder \<noteq> []" "clientHandle ss \<noteq> holder"
    and "cmd \<notin> {DspCmdVmUnsubscribeFromGuestStatistics, DspCmdVmSubscribeToGuestStatistics,
                 DspCmdVmGetStatistics, DspCmdPerfomanceStatistics}"
  shows "prl_failed (lock_check ss cmd holder)"
  using assms by (simp add: lock_check_def prl_failed_def)

text \<open>Any provider of VM locks: a locked VM is closed to the commands of other sessions.\<close>

context vm_locks
begin

lemma locked_out:
  assumes "good s" "holder k s = h" "h \<noteq> []" "\<forall>r \<in> set rs. requester r \<noteq> h \<and> requester r \<noteq> []"
    and "clientHandle ss \<noteq> h"
    and "cmd \<notin> {DspCmdVmUnsubscribeFromGuestStatistics, DspCmdVmSubscribeToGuestStatistics,
                 DspCmdVmGetStatistics, DspCmdPerfomanceStatistics}"
  shows "prl_failed (checkAccess_result (Some ss) cmd (holder k (fold serve rs s)) f c server common i)"
proof -
  have "holder k (fold serve rs s) = h" using assms(1-4) by (rule lock_survives)
  with lock_check_locked [OF assms(3,5,6)] show ?thesis by (simp add: checkAccess_result_def)
qed

end

lemma and_single_bits:
  "(arCanRead :: sec_am) AND arCanWrite = 0" "(arCanRead :: sec_am) AND arCanExecute = 0"
  by (simp_all add: ar_defs)

lemma cauth_okD:
  assumes "cauth_ok C"
  shows "fileMayRead C \<noteq> 0" "fileMayWrite C \<noteq> 0" "fileMayExecute C \<noteq> 0" "pathNotFound C \<noteq> 0"
    "fileMayRead C AND fileMayWrite C = 0" "fileMayRead C AND fileMayExecute C = 0"
    "fileMayRead C AND pathNotFound C = 0" "fileMayWrite C AND fileMayRead C = 0"
    "fileMayWrite C AND fileMayExecute C = 0" "fileMayWrite C AND pathNotFound C = 0"
    "fileMayExecute C AND fileMayRead C = 0" "fileMayExecute C AND fileMayWrite C = 0"
    "fileMayExecute C AND pathNotFound C = 0"
using assms unfolding cauth_ok_def by (simp_all add: and.commute)


section \<open>Properties\<close>

text \<open>C23. checkAccess lets a command through exactly if no other session holds the lock of the VM or
  the command only concerns statistics, the command is known and the session has every right it
  needs on files that exist, the configuration loads and is that of the VM and of this server (or
  the command is exempt), and neither list of commands to be confirmed has the command, if
  confirmation is on.\<close>

theorem checkAccess_grants:
  "checkAccess_result (Some ss) cmd holder f cfgfile server common i = PRL_ERR_SUCCESS \<longleftrightarrow>
     (holder = [] \<or> holder = clientHandle ss \<or>
       cmd \<in> {DspCmdVmUnsubscribeFromGuestStatistics, DspCmdVmSubscribeToGuestStatistics,
              DspCmdVmGetStatistics, DspCmdPerfomanceStatistics}) \<and>
     (\<exists>need sdkCmd c. map_of m_accessRights cmd = Some (need, sdkCmd) \<and>
        need AND getAccessRightsToVm ss f = need \<and> cfgfile = Some c \<and> cfg_vmUuid c = vmUuid i \<and>
        server_check cmd server c \<and>
        \<not> (confirmationEnabled ss \<and> sdkCmd \<in> set common \<union> set (lockedOperations i)))"
proof (cases "prl_failed (lock_check ss cmd holder)")
  case True
  then show ?thesis by (auto simp: checkAccess_result_def lock_check_def prl_failed_def split: if_splits)
next
  case False
  then have l: "holder = [] \<or> holder = clientHandle ss \<or>
       cmd \<in> {DspCmdVmUnsubscribeFromGuestStatistics, DspCmdVmSubscribeToGuestStatistics,
              DspCmdVmGetStatistics, DspCmdPerfomanceStatistics}"
    by (auto simp: lock_check_def prl_failed_def split: if_splits)
  show ?thesis
  proof (cases "map_of m_accessRights cmd")
    case None
    with False show ?thesis by (simp add: checkAccess_result_def)
  next
    case (Some p)
    with False l show ?thesis
      by (cases p; cases cfgfile)
        (auto simp: checkAccess_result_def checkAccess_common_def Let_def prl_failed_def)
  qed
qed

text \<open>Rights that are written to the files of a VM and read back are the same rights, except that
  the right to write brings the right to execute, and that without the right to read there are
  none.\<close>

theorem rights_survive_the_files:
  assumes "cauth_ok C"
  defines "back \<equiv> (\<lambda>p. case ConvertVmPermToCAuthPerm C p of (cfg, dir) \<Rightarrow> ConvertCAuthPermToVmPerm C cfg dir)"
  shows "(canRead (back p) \<longleftrightarrow> canRead p) \<and> (canWrite (back p) \<longleftrightarrow> canRead p \<and> canWrite p) \<and>
    (canExecute (back p) \<longleftrightarrow> canRead p \<and> (canWrite p \<or> canExecute p)) \<and> isExists (back p)"
  using cauth_okD [OF assms(1)]
  by (simp add: back_def ConvertVmPermToCAuthPerm_def ConvertCAuthPermToVmPerm_def Let_def
      canRead_def canWrite_def canExecute_def isExists_def bit.conj_disj_distribs ar_defs)

definition cauth0 :: cauth where
  "cauth0 = \<lparr>fileMayRead = 1, fileMayWrite = 2, fileMayExecute = 4, pathNotFound = 8\<rparr>"

lemma rights_survive_the_files_witness:
  "canExecute (case ConvertVmPermToCAuthPerm cauth0 makeModeRW of
     (cfg, dir) \<Rightarrow> ConvertCAuthPermToVmPerm cauth0 cfg dir)"
proof -
  have "cauth_ok cauth0" by (simp add: cauth_ok_def cauth0_def)
  from rights_survive_the_files [OF this, of makeModeRW] show ?thesis
    by (simp add: makeModeRW_def canRead_def canWrite_def ar_defs)
qed


definition reader_files :: vm_files where
  "reader_files =
     \<lparr>existsForRoot = True, existsForUser = True, fsSupportsPerms = True, configReadable = True,
      dirsReadable = True, configWritable = False, configExecutable = False, dirWritable = False,
      onNtfs = False, onFat = False, ownsConfig = False, ownsDir = False, ownerName = ''alice''\<rparr>"

definition reader :: session where
  "reader = \<lparr>clientHandle = ''bob'', confirmationEnabled = False, localAdministrator = False\<rparr>"


end
