(* ===== verification/TaskTable.thy ===== *)
theory TaskTable
  imports Prelude "HOL-Library.AList"
begin

text \<open>
  The long tasks of the dispatcher (\<^verbatim>\<open>CDspTaskHelper.cpp\<close>) and the table that holds them
  (\<^verbatim>\<open>CDspTaskManager.cpp\<close>).

  Task objects have an address; the table, a \<^verbatim>\<open>QHash\<close> of smart pointers, is a list in iteration
  order.  A task is a thread: Qt emits \<^verbatim>\<open>finished()\<close> when the thread is about to end, and
  \<^verbatim>\<open>isRunning()\<close> may still be true when the queued signal arrives, hence the state
  \<open>Finishing\<close>.  What tasks and the code around them send to clients is a list of responses, in which
  the answer a task gives at its end is told apart.  \<open>freed\<close> lists the tasks whose smart pointers
  the table dropped.
\<close>

section \<open>Data\<close>

record client =
  client_ptr :: nat
  client_handle :: qstring
  prev_session :: qstring

text \<open>The flags of a command that the code reads.\<close>

datatype request_flag = PACF_NON_INTERACTIVE_MODE | PACF_CANCEL_TASK_ON_END_SESSION

record package =
  header_uuid :: uuid
  header_type :: nat
  command_flags :: "request_flag list"

datatype thread_state = Idle | Running | Finishing | Finished | Terminated

record task =
  m_JobUuid :: uuid
  m_pUser :: client
  m_requestPkg :: package
  m_uiRequestFlags :: "request_flag list"
  m_bForceQuestionsSign :: bool
  m_pLostTaskUser :: "client option"
  m_pLastError :: prl_result
  m_bOperationCancelled :: bool
  m_bTaskCompleted :: bool
  m_pUserCaller :: "client option"
  m_externalTask :: "nat option"
  m_pbIsRunning :: "nat option"
  m_bExlusiveWasLocked :: bool
  thread :: thread_state

datatype response = Answer nat client package prl_result | Reply client package prl_result

record task_table =
  objs :: "nat \<Rightarrow> task"
  m_bDeinited :: bool
  m_tasks :: "(uuid \<times> nat) list"
  m_tasksToDelete :: "nat list"
  timers :: nat
  signals :: "nat list"
  freed :: "nat list"
  sent :: "response list"
  static_flags :: "nat \<Rightarrow> bool"

definition isRunning :: "task \<Rightarrow> bool" where
  "isRunning t \<longleftrightarrow> thread t = Running \<or> thread t = Finishing"

definition isFinished :: "task \<Rightarrow> bool" where
  "isFinished t \<longleftrightarrow> thread t = Finished \<or> thread t = Terminated"

definition on_task :: "nat \<Rightarrow> (task \<Rightarrow> task) \<Rightarrow> task_table \<Rightarrow> task_table" where
  "on_task i f s = s\<lparr>objs := (objs s)(i := f (objs s i))\<rparr>"

definition send :: "response \<Rightarrow> task_table \<Rightarrow> task_table" where
  "send r s = s\<lparr>sent := sent s @ [r]\<rparr>"


section \<open>Tasks\<close>

definition parseFlags :: "task \<Rightarrow> task" where
  "parseFlags t =
     (let fl = command_flags (m_requestPkg t)
      in t\<lparr>m_uiRequestFlags := fl,
           m_bForceQuestionsSign := (PACF_NON_INTERACTIVE_MODE \<in> set fl \<or> m_bForceQuestionsSign t)\<rparr>)"

text \<open>The constructor; \<open>u\<close> is the uuid that \<^verbatim>\<open>createUuid\<close> gives.\<close>

definition new_task :: "uuid \<Rightarrow> client \<Rightarrow> package \<Rightarrow> bool \<Rightarrow> nat option \<Rightarrow> task" where
  "new_task u user p bForceQuestionsSign pbIsRunning = parseFlags
     \<lparr>m_JobUuid = u, m_pUser = user, m_requestPkg = p, m_uiRequestFlags = [],
      m_bForceQuestionsSign = bForceQuestionsSign, m_pLostTaskUser = None, m_pLastError = PRL_ERR_SUCCESS,
      m_bOperationCancelled = False, m_bTaskCompleted = False, m_pUserCaller = None, m_externalTask = None,
      m_pbIsRunning = pbIsRunning, m_bExlusiveWasLocked = False, thread = Idle\<rparr>"

definition shouldBeCanceled_OnClientDisconnect :: "task \<Rightarrow> bool" where
  "shouldBeCanceled_OnClientDisconnect t \<longleftrightarrow> PACF_CANCEL_TASK_ON_END_SESSION \<in> set (m_uiRequestFlags t)"

text \<open>
  A cancellation comes from a client with its request, or from the dispatcher.  It is handed to the
  external task a task waits for.  A chain of external tasks without an end is the value \<open>None\<close>.
\<close>

definition support_cancelOperation ::
  "nat \<Rightarrow> (client \<times> package) option \<Rightarrow> task_table \<Rightarrow> task_table" where
  "support_cancelOperation i caller s =
     (let s1 = on_task i (\<lambda>t. t\<lparr>m_bOperationCancelled := True, m_pUserCaller := map_option fst caller\<rparr>) s
      in case caller of
           None \<Rightarrow> s1
         | Some (u, p) \<Rightarrow>
             send (Reply u p (if m_bTaskCompleted (objs s1 i) then PRL_ERR_TASK_NOT_FOUND else PRL_ERR_SUCCESS)) s1)"

partial_function (option) cancelOperation ::
  "nat \<Rightarrow> (client \<times> package) option \<Rightarrow> task_table \<Rightarrow> task_table option" where
  [code]: "cancelOperation i caller s =
     (let s1 = support_cancelOperation i caller s
      in case m_externalTask (objs s1 i) of
           None \<Rightarrow> Some s1
         | Some j \<Rightarrow> cancelOperation j caller s1)"

definition undoCancelled :: "nat \<Rightarrow> task_table \<Rightarrow> task_table" where
  "undoCancelled i = on_task i (\<lambda>t. t\<lparr>m_bOperationCancelled := False, m_pUserCaller := None\<rparr>)"

definition start :: "nat \<Rightarrow> task_table \<Rightarrow> task_table" where
  "start i s = (if m_bOperationCancelled (objs s i) then s else on_task i (\<lambda>t. t\<lparr>thread := Running\<rparr>) s)"

definition setLastErrorCode :: "nat \<Rightarrow> prl_result \<Rightarrow> task_table \<Rightarrow> task_table" where
  "setLastErrorCode i rc = on_task i (\<lambda>t. t\<lparr>m_pLastError := rc\<rparr>)"

definition answer :: "nat \<Rightarrow> prl_result \<Rightarrow> task_table \<Rightarrow> task_table" where
  "answer i rc s = send (Answer i (m_pUser (objs s i)) (m_requestPkg (objs s i)) rc) s"

definition finalizeTask :: "nat \<Rightarrow> task_table \<Rightarrow> task_table" where
  "finalizeTask i s =
     (let t = objs s i
      in if prl_failed (m_pLastError t)
         then if m_bOperationCancelled t then answer i PRL_ERR_OPERATION_WAS_CANCELED s
              else answer i (m_pLastError t) s
         else answer i (m_pLastError t) s)"

text \<open>
  \<^verbatim>\<open>run()\<close>: \<open>prepareTask\<close> and \<open>run_body\<close> are virtual; each returns a code or throws.  What they do to
  the rest of the state are steps of their own.  Behind the end, the thread is about to finish.
\<close>

datatype outcome = Threw | Returned prl_result

definition setTaskCompleted :: "nat \<Rightarrow> task_table \<Rightarrow> task_table" where
  "setTaskCompleted i = on_task i (\<lambda>t. t\<lparr>m_bTaskCompleted := True\<rparr>)"

definition default_response :: "nat \<Rightarrow> task_table \<Rightarrow> task_table" where
  "default_response i s = answer i PRL_ERR_UNEXPECTED (setLastErrorCode i PRL_ERR_UNEXPECTED s)"

definition finish_run :: "nat \<Rightarrow> outcome \<Rightarrow> outcome \<Rightarrow> task_table \<Rightarrow> task_table" where
  "finish_run i prepared body s =
     (let s' = (case prepared of
          Threw \<Rightarrow> default_response i s
        | Returned r \<Rightarrow>
            let s1 = setLastErrorCode i r s in
            if prl_failed r then setTaskCompleted i (finalizeTask i s1)
            else (case body of
                    Threw \<Rightarrow> default_response i s1
                  | Returned r' \<Rightarrow> setTaskCompleted i (finalizeTask i (setLastErrorCode i r' s1))))
      in on_task i (\<lambda>t. t\<lparr>thread := Finishing\<rparr>) s')"

definition reassign :: "client \<Rightarrow> package \<Rightarrow> task \<Rightarrow> task" where
  "reassign c p t = parseFlags
     (t\<lparr>m_pLostTaskUser := (case m_pLostTaskUser t of None \<Rightarrow> Some (m_pUser t) | Some u \<Rightarrow> Some u),
        m_pUser := c,
        m_requestPkg := p\<lparr>header_type := header_type (m_requestPkg t)\<rparr>\<rparr>)"

definition reassignTask :: "nat \<Rightarrow> client \<Rightarrow> package \<Rightarrow> task_table \<Rightarrow> task_table" where
  "reassignTask i c p = on_task i (reassign c p)"

definition getActualClient :: "task \<Rightarrow> client" where
  "getActualClient t = (case m_pLostTaskUser t of Some u \<Rightarrow> u | None \<Rightarrow> m_pUser t)"

text \<open>\<open>dir_of\<close> is \<^verbatim>\<open>QFileInfo(home).dir().path()\<close> with native separators replaced.\<close>

definition isFileInsideVmHome :: "(qstring \<Rightarrow> qstring) \<Rightarrow> qstring \<Rightarrow> qstring \<Rightarrow> bool" where
  "isFileInsideVmHome dir_of filePath strVmHome \<longleftrightarrow>
     \<not> (strVmHome = [] \<or> filePath = []) \<and> take (length (dir_of strVmHome)) filePath = dir_of strVmHome"

text \<open>The flag that lets one task of a kind run at a time.\<close>

definition lockToExecute :: "nat \<Rightarrow> task_table \<Rightarrow> bool \<times> task_table" where
  "lockToExecute i s =
     (case m_pbIsRunning (objs s i) of
        None \<Rightarrow> (False, s)
      | Some f \<Rightarrow>
          if \<not> static_flags s f
          then (True, on_task i (\<lambda>t. t\<lparr>m_bExlusiveWasLocked := True\<rparr>) (s\<lparr>static_flags := (static_flags s)(f := True)\<rparr>))
          else (False, s))"

definition unlockToExecute :: "nat \<Rightarrow> task_table \<Rightarrow> task_table" where
  "unlockToExecute i s =
     (case m_pbIsRunning (objs s i) of
        None \<Rightarrow> s
      | Some f \<Rightarrow>
          if m_bExlusiveWasLocked (objs s i) then s\<lparr>static_flags := (static_flags s)(f := False)\<rparr> else s)"

text \<open>
  \<^verbatim>\<open>runExternalTask\<close> up to its wait, and behind it.
\<close>

definition setExternalTask :: "nat \<Rightarrow> nat option \<Rightarrow> task_table \<Rightarrow> task_table" where
  "setExternalTask i j = on_task i (\<lambda>t. t\<lparr>m_externalTask := j\<rparr>)"

definition runExternalTask_begin :: "nat \<Rightarrow> nat \<Rightarrow> task_table \<Rightarrow> task_table" where
  "runExternalTask_begin i j s = start j (setExternalTask i (Some j) s)"

definition runExternalTask_end :: "nat \<Rightarrow> nat \<Rightarrow> task_table \<Rightarrow> prl_result \<times> task_table" where
  "runExternalTask_end i j s = (m_pLastError (objs s j), setExternalTask i None s)"


section \<open>The table\<close>

definition registerTask :: "nat \<Rightarrow> task_table \<Rightarrow> (nat option \<times> task_table) option" where
  "registerTask i s =
     (let t = objs s i in
      if m_bDeinited s then map_option (Pair (Some i)) (cancelOperation i (Some (m_pUser t, m_requestPkg t)) s)
      else if m_JobUuid t \<in> fst ` set (m_tasks s) then Some (None, s)
      else Some (Some i, s\<lparr>m_tasks := (m_JobUuid t, i) # m_tasks s\<rparr>))"

definition schedule :: "nat \<Rightarrow> task_table \<Rightarrow> (nat option \<times> task_table) option" where
  "schedule i s = map_option (\<lambda>(r, s'). case r of None \<Rightarrow> (None, s') | Some p \<Rightarrow> (Some p, start p s')) (registerTask i s)"

definition hasAnyTasks :: "task_table \<Rightarrow> bool" where
  "hasAnyTasks s \<longleftrightarrow> 0 < length (m_tasks s)"

definition findTaskByUuid :: "uuid \<Rightarrow> task_table \<Rightarrow> nat option" where
  "findTaskByUuid u s = map_of (m_tasks s) u"

definition cancelTask :: "uuid \<Rightarrow> task_table \<Rightarrow> (bool \<times> task_table) option" where
  "cancelTask u s =
     (case map_of (m_tasks s) u of
        None \<Rightarrow> Some (False, s)
      | Some i \<Rightarrow> map_option (Pair True) (cancelOperation i None s))"

definition getAllTasks :: "task_table \<Rightarrow> nat list" where
  "getAllTasks s = map snd (m_tasks s)"

definition getTaskListByPacketUuid :: "uuid \<Rightarrow> task_table \<Rightarrow> nat list" where
  "getTaskListByPacketUuid u s = filter (\<lambda>i. u = header_uuid (m_requestPkg (objs s i))) (getAllTasks s)"

definition getTaskListBySession :: "qstring \<Rightarrow> task_table \<Rightarrow> nat list" where
  "getTaskListBySession h s =
     (if h = [] then [] else filter (\<lambda>i. client_handle (m_pUser (objs s i)) = h) (getAllTasks s))"

definition unregisterTask :: "uuid \<Rightarrow> task_table \<Rightarrow> task_table" where
  "unregisterTask u s =
     (case map_of (m_tasks s) u of
        None \<Rightarrow> s
      | Some i \<Rightarrow> s\<lparr>m_tasks := AList.delete u (m_tasks s), m_tasksToDelete := m_tasksToDelete s @ [i],
                     timers := Suc (timers s)\<rparr>)"

text \<open>
  \<^verbatim>\<open>cleanFinishedTasks\<close>: first the sender of the signal, if a task sent it, then the loop over the
  tasks to delete.  The lists are the tasks freed now, the tasks kept for later, and the table.
\<close>

definition clean_sender ::
  "nat option \<Rightarrow> task_table \<Rightarrow> nat list \<times> nat list \<times> (uuid \<times> nat) list" where
  "clean_sender sender s =
     (case sender of
        None \<Rightarrow> ([], m_tasksToDelete s, m_tasks s)
      | Some i \<Rightarrow>
          if i \<in> set (getAllTasks s)
          then if isRunning (objs s i) then ([], m_tasksToDelete s @ [i], m_tasks s)
               else ([i], m_tasksToDelete s, AList.delete (m_JobUuid (objs s i)) (m_tasks s))
          else ([], m_tasksToDelete s, m_tasks s))"

fun clean_loop ::
  "(nat \<Rightarrow> task) \<Rightarrow> nat list \<Rightarrow> (uuid \<times> nat) list \<Rightarrow> nat list \<times> nat list \<times> (uuid \<times> nat) list" where
  "clean_loop ob [] ts = ([], [], ts)"
| "clean_loop ob (i # is) ts =
     (if \<not> isRunning (ob i)
      then (case clean_loop ob is (AList.delete (m_JobUuid (ob i)) ts) of (now, keep, ts') \<Rightarrow> (i # now, keep, ts'))
      else (case clean_loop ob is ts of (now, keep, ts') \<Rightarrow> (now, i # keep, ts')))"

definition cleanFinishedTasks :: "nat option \<Rightarrow> task_table \<Rightarrow> task_table" where
  "cleanFinishedTasks sender s =
     (case clean_sender sender s of (now1, del, ts) \<Rightarrow>
      case clean_loop (objs s) del ts of (now2, keep, ts') \<Rightarrow>
        s\<lparr>m_tasks := ts', m_tasksToDelete := keep,
          timers := (if keep \<noteq> [] then Suc (timers s) else timers s), freed := freed s @ now1 @ now2\<rparr>)"

text \<open>
  \<^verbatim>\<open>deinit\<close>: the flag and the snapshot of the tasks; the cancellation of those that run; up to 35
  sleeps, of which \<open>runs k\<close> says whether a task still runs after the \<open>k\<close>-th; and the end.
\<close>

definition deinit_begin :: "task_table \<Rightarrow> nat list \<times> task_table" where
  "deinit_begin s = (if m_bDeinited s then ([], s) else (getAllTasks s, s\<lparr>m_bDeinited := True\<rparr>))"

fun deinit_cancel :: "nat list \<Rightarrow> task_table \<Rightarrow> (nat \<times> task_table) option" where
  "deinit_cancel [] s = Some (0, s)"
| "deinit_cancel (i # is) s =
     (if isRunning (objs s i)
      then Option.bind (if m_bOperationCancelled (objs s i) then Some s else cancelOperation i None s)
             (\<lambda>s1. map_option (\<lambda>(n, s2). (Suc n, s2)) (deinit_cancel is s1))
      else deinit_cancel is s)"

definition TASK_TERMINATE_TIMEOUT :: int where "TASK_TERMINATE_TIMEOUT = 7 * 1000"

function deinit_sleeps :: "int \<Rightarrow> (nat \<Rightarrow> bool) \<Rightarrow> nat \<Rightarrow> nat" where
  "deinit_sleeps t runs k =
     (if 0 < t then if runs (Suc k) then deinit_sleeps (t - 200) runs (Suc k) else Suc k else k)"
  by auto
termination by (relation "measure (\<lambda>(t, r, k). nat t)") auto

declare deinit_sleeps.simps [simp del]

definition deinit_end :: "task_table \<Rightarrow> task_table" where
  "deinit_end s =
     (let ids = set (getAllTasks s)
      in s\<lparr>m_tasks := [], m_tasksToDelete := [], freed := freed s @ getAllTasks s @ m_tasksToDelete s,
           objs := (\<lambda>i. if i \<in> ids \<and> isRunning (objs s i) then (objs s i)\<lparr>thread := Terminated\<rparr> else objs s i)\<rparr>)"

text \<open>Without a task to cancel \<^verbatim>\<open>deinit\<close> leaves the table as it is.\<close>

definition deinit_finish :: "nat \<Rightarrow> task_table \<Rightarrow> task_table" where
  "deinit_finish cancelCount s = (if cancelCount = 0 then s else deinit_end s)"


section \<open>Futures\<close>

definition future_abort :: "nat option \<Rightarrow> (client \<times> package) option \<Rightarrow> task_table \<Rightarrow> task_table option" where
  "future_abort f caller s =
     (case f of
        None \<Rightarrow> Some s
      | Some i \<Rightarrow>
          if \<not> m_bOperationCancelled (objs s i) \<and> \<not> isFinished (objs s i) then cancelOperation i caller s
          else Some s)"

text \<open>The code that \<^verbatim>\<open>getResult\<close> leaves in an event that had \<open>old\<close>; \<^verbatim>\<open>getCancelResult\<close> is not overridden.\<close>

definition future_getResult :: "nat option \<Rightarrow> prl_result \<Rightarrow> task_table \<Rightarrow> prl_result" where
  "future_getResult f old s =
     (case f of
        None \<Rightarrow> PRL_ERR_OPERATION_WAS_CANCELED
      | Some i \<Rightarrow>
          if isFinished (objs s i) then m_pLastError (objs s i)
          else if m_bOperationCancelled (objs s i) then PRL_ERR_OPERATION_WAS_CANCELED
          else old)"


section \<open>Runs of the table\<close>

text \<open>The tasks that the table holds, and the answers of a task.\<close>

definition held :: "task_table \<Rightarrow> nat set" where
  "held s = set (getAllTasks s) \<union> set (m_tasksToDelete s)"

fun is_answer :: "nat \<Rightarrow> response \<Rightarrow> bool" where
  "is_answer i (Answer j u p r) \<longleftrightarrow> j = i"
| "is_answer i (Reply u p r) \<longleftrightarrow> False"

definition answers :: "nat \<Rightarrow> task_table \<Rightarrow> nat" where
  "answers i s = length (filter (is_answer i) (sent s))"

definition externals :: "task_table \<Rightarrow> nat set" where
  "externals s = {j. \<exists>k. m_externalTask (objs s k) = Some j}"

text \<open>The signal \<^verbatim>\<open>finished()\<close> is queued for the tasks that were registered.\<close>

definition notify :: "nat \<Rightarrow> task_table \<Rightarrow> task_table" where
  "notify i s = (if i \<in> held s then s\<lparr>signals := signals s @ [i]\<rparr> else s)"

definition task_init :: "(nat \<Rightarrow> task) \<Rightarrow> task_table" where
  "task_init ob = \<lparr>objs = ob, m_bDeinited = False, m_tasks = [], m_tasksToDelete = [], timers = 0, signals = [],
     freed = [], sent = [], static_flags = (\<lambda>f. False)\<rparr>"

text \<open>
  What happens until \<^verbatim>\<open>deinit\<close> empties the table.  A task is registered and run once; it is started
  while the table holds it; an external task is neither registered nor another's external task.
\<close>

inductive task_reachable :: "task_table \<Rightarrow> bool" where
  init: "inj (\<lambda>i. m_JobUuid (ob i)) \<Longrightarrow> \<forall>i. thread (ob i) = Idle \<and> m_externalTask (ob i) = None \<Longrightarrow>
    task_reachable (task_init ob)"
| register: "task_reachable s \<Longrightarrow> thread (objs s i) = Idle \<Longrightarrow> i \<notin> held s \<union> set (freed s) \<union> externals s \<Longrightarrow>
    registerTask i s = Some (r, s') \<Longrightarrow> task_reachable s'"
| start: "task_reachable s \<Longrightarrow> thread (objs s i) = Idle \<Longrightarrow> i \<in> held s \<Longrightarrow> task_reachable (start i s)"
| cancel: "task_reachable s \<Longrightarrow> cancelOperation i caller s = Some s' \<Longrightarrow> task_reachable s'"
| undo: "task_reachable s \<Longrightarrow> task_reachable (undoCancelled i s)"
| reassign: "task_reachable s \<Longrightarrow> task_reachable (reassignTask i c p s)"
| external_begin: "task_reachable s \<Longrightarrow> thread (objs s i) = Running \<Longrightarrow> m_externalTask (objs s i) = None \<Longrightarrow>
    thread (objs s j) = Idle \<Longrightarrow> j \<notin> held s \<union> set (freed s) \<union> externals s \<Longrightarrow>
    task_reachable (runExternalTask_begin i j s)"
| external_end: "task_reachable s \<Longrightarrow> m_externalTask (objs s i) = Some j \<Longrightarrow> \<not> isRunning (objs s j) \<Longrightarrow>
    task_reachable (snd (runExternalTask_end i j s))"
| finish: "task_reachable s \<Longrightarrow> thread (objs s i) = Running \<Longrightarrow> m_externalTask (objs s i) = None \<Longrightarrow>
    task_reachable (notify i (finish_run i prepared body s))"
| thread_end: "task_reachable s \<Longrightarrow> thread (objs s i) = Finishing \<Longrightarrow>
    task_reachable (on_task i (\<lambda>t. t\<lparr>thread := Finished\<rparr>) s)"
| unregister: "task_reachable s \<Longrightarrow> task_reachable (unregisterTask u s)"
| signal: "task_reachable s \<Longrightarrow> i \<in> set (signals s) \<Longrightarrow>
    task_reachable (cleanFinishedTasks (Some i) (s\<lparr>signals := remove1 i (signals s)\<rparr>))"
| timer: "task_reachable s \<Longrightarrow> 0 < timers s \<Longrightarrow>
    task_reachable (cleanFinishedTasks None (s\<lparr>timers := timers s - 1\<rparr>))"
| deinit: "task_reachable s \<Longrightarrow> task_reachable (snd (deinit_begin s))"


section \<open>The invariant\<close>

definition ended :: "task \<Rightarrow> bool" where
  "ended t \<longleftrightarrow> thread t = Finishing \<or> thread t = Finished"

definition table_ok :: "task_table \<Rightarrow> bool" where
  "table_ok s \<longleftrightarrow> distinct (map fst (m_tasks s)) \<and>
     (\<forall>(u, i) \<in> set (m_tasks s). m_JobUuid (objs s i) = u) \<and> inj (\<lambda>i. m_JobUuid (objs s i))"

definition running_ok :: "task_table \<Rightarrow> bool" where
  "running_ok s \<longleftrightarrow>
     (\<forall>i. isRunning (objs s i) \<longrightarrow> i \<in> held s \<union> externals s) \<and>
     (\<forall>i \<in> set (freed s). \<not> isRunning (objs s i)) \<and> set (freed s) \<inter> held s = {} \<and>
     externals s \<inter> (held s \<union> set (freed s)) = {}"

definition external_edges :: "task_table \<Rightarrow> (nat \<times> nat) set" where
  "external_edges s = {(k, j). m_externalTask (objs s k) = Some j}"

definition externals_ok :: "task_table \<Rightarrow> bool" where
  "externals_ok s \<longleftrightarrow> finite (external_edges s) \<and> acyclic (external_edges s) \<and>
     (\<forall>(k, j) \<in> external_edges s. thread (objs s k) = Running)"

definition pending_ok :: "task_table \<Rightarrow> bool" where
  "pending_ok s \<longleftrightarrow> (m_tasksToDelete s \<noteq> [] \<longrightarrow> 0 < timers s) \<and>
     (\<forall>i \<in> set (getAllTasks s). ended (objs s i) \<longrightarrow> i \<in> set (signals s) \<or> i \<in> set (m_tasksToDelete s))"

definition answers_ok :: "task_table \<Rightarrow> bool" where
  "answers_ok s \<longleftrightarrow> (\<forall>i. answers i s = (if ended (objs s i) then 1 else 0)) \<and>
     (\<forall>i. thread (objs s i) \<noteq> Terminated)"

definition tasks_ok :: "task_table \<Rightarrow> bool" where
  "tasks_ok s \<longleftrightarrow> table_ok s \<and> running_ok s \<and> externals_ok s \<and> pending_ok s \<and> answers_ok s"

text \<open>The part of the state the invariant speaks of; most operations on a task leave it alone.\<close>

definition same_shape :: "task_table \<Rightarrow> task_table \<Rightarrow> bool" where
  "same_shape s s' \<longleftrightarrow>
     (\<forall>i. thread (objs s' i) = thread (objs s i) \<and> m_externalTask (objs s' i) = m_externalTask (objs s i) \<and>
        m_JobUuid (objs s' i) = m_JobUuid (objs s i) \<and> answers i s' = answers i s) \<and>
     m_tasks s' = m_tasks s \<and> m_tasksToDelete s' = m_tasksToDelete s \<and> timers s' = timers s \<and>
     signals s' = signals s \<and> freed s' = freed s"

lemmas ok_defs = tasks_ok_def table_ok_def running_ok_def externals_ok_def pending_ok_def answers_ok_def

lemma same_shape_refl [simp]: "same_shape s s"
  by (simp add: same_shape_def)

lemma same_shape_trans: "same_shape s t \<Longrightarrow> same_shape t u \<Longrightarrow> same_shape s u"
  by (simp add: same_shape_def)

lemma tasks_ok_same_shape:
  assumes "same_shape s s'" "tasks_ok s" shows "tasks_ok s'"
proof -
  have "isRunning (objs s' i) = isRunning (objs s i)" "ended (objs s' i) = ended (objs s i)" for i
    using assms(1) by (simp_all add: same_shape_def isRunning_def ended_def)
  moreover have "getAllTasks s' = getAllTasks s" "held s' = held s" "externals s' = externals s"
    "external_edges s' = external_edges s"
    using assms(1) by (simp_all add: same_shape_def getAllTasks_def held_def externals_def external_edges_def)
  ultimately show ?thesis
    using assms unfolding ok_defs by (simp add: same_shape_def)
qed

lemma same_shape_on_task:
  assumes "\<And>t. thread (f t) = thread t" "\<And>t. m_externalTask (f t) = m_externalTask t" "\<And>t. m_JobUuid (f t) = m_JobUuid t"
  shows "same_shape s (on_task i f s)"
  using assms by (simp add: same_shape_def on_task_def answers_def)

lemma same_shape_reply: "same_shape s t \<Longrightarrow> same_shape s (send (Reply u p r) t)"
  by (simp add: same_shape_def send_def answers_def)

lemma same_shape_support_cancel: "same_shape s (support_cancelOperation i caller s)"
  unfolding support_cancelOperation_def Let_def
  by (auto intro!: same_shape_on_task same_shape_reply split: option.split)

lemma same_shape_cancel:
  assumes "cancelOperation i caller s = Some s'" shows "same_shape s s'"
proof (rule cancelOperation.raw_induct [where P = "\<lambda>i caller s s'. same_shape s s'", OF _ assms])
  fix f i caller s s'
  assume IH: "\<And>i caller s s'. f i caller s = Some s' \<Longrightarrow> same_shape s s'"
    and step: "(let s1 = support_cancelOperation i caller s
      in case m_externalTask (objs s1 i) of None \<Rightarrow> Some s1 | Some j \<Rightarrow> f j caller s1) = Some s'"
  let ?s1 = "support_cancelOperation i caller s"
  have "same_shape ?s1 s'"
  proof (cases "m_externalTask (objs ?s1 i)")
    case None
    with step show ?thesis by (simp add: Let_def)
  next
    case (Some j)
    with step have "f j caller ?s1 = Some s'" by (simp add: Let_def)
    then show ?thesis by (rule IH)
  qed
  with same_shape_support_cancel show "same_shape s s'" by (rule same_shape_trans)
qed

lemma same_shape_fields:
  "same_shape s (undoCancelled i s)" "same_shape s (reassignTask i c p s)" "same_shape s (setLastErrorCode i rc s)"
  "same_shape s (setTaskCompleted i s)" "same_shape s (snd (deinit_begin s))"
  by (auto simp: undoCancelled_def reassignTask_def setLastErrorCode_def setTaskCompleted_def reassign_def
      parseFlags_def Let_def deinit_begin_def same_shape_def answers_def on_task_def)

lemma objs_on_task [frame_simps]: "objs (on_task i f s) = (objs s)(i := f (objs s i))"
  by (simp add: on_task_def)

lemma on_task_frame [frame_simps]:
  "m_tasks (on_task i f s) = m_tasks s" "m_tasksToDelete (on_task i f s) = m_tasksToDelete s"
  "timers (on_task i f s) = timers s" "signals (on_task i f s) = signals s" "freed (on_task i f s) = freed s"
  "answers k (on_task i f s) = answers k s" "getAllTasks (on_task i f s) = getAllTasks s"
  "held (on_task i f s) = held s"
  by (simp_all add: on_task_def answers_def getAllTasks_def held_def)

lemma send_frame [frame_simps]:
  "m_tasks (send r s) = m_tasks s" "m_tasksToDelete (send r s) = m_tasksToDelete s" "timers (send r s) = timers s"
  "signals (send r s) = signals s" "freed (send r s) = freed s" "objs (send r s) = objs s"
  "getAllTasks (send r s) = getAllTasks s" "held (send r s) = held s" "external_edges (send r s) = external_edges s"
  by (simp_all add: send_def getAllTasks_def held_def external_edges_def)

lemma notify_frame [frame_simps]:
  "m_tasks (notify i s) = m_tasks s" "m_tasksToDelete (notify i s) = m_tasksToDelete s" "timers (notify i s) = timers s"
  "freed (notify i s) = freed s" "objs (notify i s) = objs s" "answers k (notify i s) = answers k s"
  "signals (notify i s) = signals s @ (if i \<in> held s then [i] else [])"
  "getAllTasks (notify i s) = getAllTasks s" "held (notify i s) = held s" "external_edges (notify i s) = external_edges s"
  by (simp_all add: notify_def getAllTasks_def held_def external_edges_def answers_def)

lemma external_edges_on_task [frame_simps]:
  "(\<And>t. m_externalTask (f t) = m_externalTask t) \<Longrightarrow> external_edges (on_task i f s) = external_edges s"
  by (auto simp: external_edges_def objs_on_task split: if_splits)

lemma table_ok_on_task [frame_simps]:
  "(\<And>t. m_JobUuid (f t) = m_JobUuid t) \<Longrightarrow> table_ok (on_task i f s) = table_ok s"
proof -
  assume "\<And>t. m_JobUuid (f t) = m_JobUuid t"
  then have "m_JobUuid (objs (on_task i f s) k) = m_JobUuid (objs s k)" for k by (simp add: objs_on_task)
  then show ?thesis by (simp add: table_ok_def frame_simps)
qed

lemma externals_edges: "externals s = snd ` external_edges s"
  by (force simp: externals_def external_edges_def)

text \<open>A change of one thread keeps the invariant, if the thread may run there and answered as it should.\<close>

lemma tasks_ok_thread:
  assumes "tasks_ok s" "external_edges s' = external_edges s" "held s' = held s" "table_ok s'" "freed s' = freed s"
    and same: "\<forall>k. k \<noteq> i \<longrightarrow> thread (objs s' k) = thread (objs s k) \<and> answers k s' = answers k s"
    and run: "isRunning (objs s' i) \<Longrightarrow> i \<in> held s \<union> externals s \<and> i \<notin> set (freed s)"
    and ext: "m_externalTask (objs s i) = None \<or> thread (objs s' i) = Running"
    and pend: "pending_ok s'"
    and ans: "answers i s' = (if ended (objs s' i) then 1 else 0)" "thread (objs s' i) \<noteq> Terminated"
  shows "tasks_ok s'"
proof -
  have k: "isRunning (objs s' k) = isRunning (objs s k)" "ended (objs s' k) = ended (objs s k)"
    "thread (objs s' k) = thread (objs s k)" "answers k s' = answers k s" if "k \<noteq> i" for k
    using same that by (simp_all add: isRunning_def ended_def)
  have "externals s' = externals s" by (simp add: externals_edges assms(2))
  moreover have "\<forall>k. isRunning (objs s' k) \<longrightarrow> k \<in> held s \<union> externals s"
    using k run assms(1) unfolding ok_defs by metis
  moreover have "\<forall>k \<in> set (freed s). \<not> isRunning (objs s' k)"
    using k run assms(1) unfolding ok_defs by metis
  ultimately have "running_ok s'"
    using assms(1,3,5) unfolding tasks_ok_def running_ok_def by simp
  moreover have "externals_ok s'"
  proof -
    have "thread (objs s' k) = Running" if "(k, j) \<in> external_edges s" for k j
    proof (cases "k = i")
      case True
      with that ext show ?thesis by (auto simp: external_edges_def)
    next
      case False
      with k(3) that assms(1) show ?thesis unfolding ok_defs by auto
    qed
    then show ?thesis using assms(1,2) unfolding tasks_ok_def externals_ok_def by auto
  qed
  moreover have "answers_ok s'"
    unfolding answers_ok_def
  proof (intro conjI allI)
    fix k
    show "answers k s' = (if ended (objs s' k) then 1 else 0)" "thread (objs s' k) \<noteq> Terminated"
      using k [of k] ans assms(1) unfolding tasks_ok_def answers_ok_def by (cases "k = i"; simp)+
  qed
  ultimately show ?thesis using assms(4) pend by (simp add: tasks_ok_def)
qed

lemma tasks_ok_start:
  assumes "tasks_ok s" "thread (objs s i) = Idle" "i \<in> held s"
  shows "tasks_ok (start i s)"
proof (cases "m_bOperationCancelled (objs s i)")
  case True
  with assms(1) show ?thesis by (simp add: start_def)
next
  case False
  let ?s = "on_task i (\<lambda>t. t\<lparr>thread := Running\<rparr>) s"
  have "tasks_ok ?s"
  proof (rule tasks_ok_thread [OF assms(1), of _ i])
    show "external_edges ?s = external_edges s" by (simp add: frame_simps)
    show "table_ok ?s" using assms(1) by (simp add: tasks_ok_def frame_simps)
    show "pending_ok ?s" using assms(1) by (auto simp: ok_defs frame_simps ended_def)
    show "isRunning (objs ?s i) \<Longrightarrow> i \<in> held s \<union> externals s \<and> i \<notin> set (freed s)"
      using assms(1,3) by (auto simp: ok_defs)
    show "answers i ?s = (if ended (objs ?s i) then 1 else 0)"
      using assms(1,2) by (auto simp: ok_defs frame_simps ended_def)
  qed (simp_all add: frame_simps)
  with False show ?thesis by (simp add: start_def)
qed

lemma tasks_ok_thread_end:
  assumes "tasks_ok s" "thread (objs s i) = Finishing"
  shows "tasks_ok (on_task i (\<lambda>t. t\<lparr>thread := Finished\<rparr>) s)"
proof -
  let ?s = "on_task i (\<lambda>t. t\<lparr>thread := Finished\<rparr>) s"
  have "tasks_ok ?s"
  proof (rule tasks_ok_thread [OF assms(1), of _ i])
    show "external_edges ?s = external_edges s" by (simp add: frame_simps)
    show "table_ok ?s" using assms(1) by (simp add: tasks_ok_def frame_simps)
    show "pending_ok ?s" using assms by (auto simp: ok_defs frame_simps ended_def)
    show "m_externalTask (objs s i) = None \<or> thread (objs ?s i) = Running"
      using assms by (cases "m_externalTask (objs s i)") (auto simp: ok_defs external_edges_def)
    show "answers i ?s = (if ended (objs ?s i) then 1 else 0)"
      using assms by (auto simp: ok_defs frame_simps ended_def)
    show "isRunning (objs ?s i) \<Longrightarrow> i \<in> held s \<union> externals s \<and> i \<notin> set (freed s)"
      by (simp add: frame_simps isRunning_def)
  qed (simp_all add: frame_simps)
  then show ?thesis .
qed

text \<open>The end of a run sends one answer and leaves the thread about to finish.\<close>

lemma finish_run_form:
  "\<exists>u p r g. finish_run i prepared body s = on_task i g (send (Answer i u p r) s) \<and>
     (\<forall>t. thread (g t) = Finishing \<and> m_externalTask (g t) = m_externalTask t \<and> m_JobUuid (g t) = m_JobUuid t)"
proof -
  note defs = finish_run_def default_response_def finalizeTask_def setLastErrorCode_def setTaskCompleted_def
    answer_def send_def on_task_def Let_def
  consider "prepared = Threw" | r where "prepared = Returned r" "prl_failed r"
    | r where "prepared = Returned r" "\<not> prl_failed r" "body = Threw"
    | r r' where "prepared = Returned r" "\<not> prl_failed r" "body = Returned r'"
    by (cases prepared; cases body) auto
  then show ?thesis
  proof cases
    case 1
    then show ?thesis
      by (intro exI [of _ "m_pUser (objs s i)"] exI [of _ "m_requestPkg (objs s i)"] exI [of _ PRL_ERR_UNEXPECTED]
          exI [of _ "\<lambda>t. t\<lparr>m_pLastError := PRL_ERR_UNEXPECTED, thread := Finishing\<rparr>"]) (simp add: defs)
  next
    case (2 r)
    then show ?thesis
      by (intro exI [of _ "m_pUser (objs s i)"] exI [of _ "m_requestPkg (objs s i)"]
          exI [of _ "if m_bOperationCancelled (objs s i) then PRL_ERR_OPERATION_WAS_CANCELED else r"]
          exI [of _ "\<lambda>t. t\<lparr>m_pLastError := r, m_bTaskCompleted := True, thread := Finishing\<rparr>"]) (simp add: defs)
  next
    case (3 r)
    then show ?thesis
      by (intro exI [of _ "m_pUser (objs s i)"] exI [of _ "m_requestPkg (objs s i)"] exI [of _ PRL_ERR_UNEXPECTED]
          exI [of _ "\<lambda>t. t\<lparr>m_pLastError := PRL_ERR_UNEXPECTED, thread := Finishing\<rparr>"]) (simp add: defs)
  next
    case (4 r r')
    then show ?thesis
      by (intro exI [of _ "m_pUser (objs s i)"] exI [of _ "m_requestPkg (objs s i)"]
          exI [of _ "if prl_failed r' \<and> m_bOperationCancelled (objs s i) then PRL_ERR_OPERATION_WAS_CANCELED else r'"]
          exI [of _ "\<lambda>t. t\<lparr>m_pLastError := r', m_bTaskCompleted := True, thread := Finishing\<rparr>"]) (simp add: defs)
  qed
qed

lemma tasks_ok_finish:
  assumes "tasks_ok s" "thread (objs s i) = Running" "m_externalTask (objs s i) = None"
  shows "tasks_ok (notify i (finish_run i prepared body s))"
proof -
  obtain u p r g where f: "finish_run i prepared body s = on_task i g (send (Answer i u p r) s)"
    and g: "\<And>t. thread (g t) = Finishing" "\<And>t. m_externalTask (g t) = m_externalTask t"
      "\<And>t. m_JobUuid (g t) = m_JobUuid t"
    using finish_run_form by blast
  let ?s = "notify i (on_task i g (send (Answer i u p r) s))"
  have sent: "answers k (send (Answer i u p r) s) = answers k s + (if k = i then 1 else 0)" for k
    by (simp add: answers_def send_def)
  have fr: "held ?s = held s" "freed ?s = freed s" "m_tasksToDelete ?s = m_tasksToDelete s" "timers ?s = timers s"
    "objs ?s = (objs s)(i := g (objs s i))" "getAllTasks ?s = getAllTasks s" "m_tasks ?s = m_tasks s"
    "signals ?s = signals s @ (if i \<in> held s then [i] else [])" "answers k ?s = answers k s + (if k = i then 1 else 0)" for k
    by (simp_all add: frame_simps sent)
  have "tasks_ok ?s"
  proof (rule tasks_ok_thread [OF assms(1), of _ i])
    show "external_edges ?s = external_edges s" using g(2) by (auto simp: external_edges_def fr split: if_splits)
    have "m_JobUuid (objs ?s k) = m_JobUuid (objs s k)" for k using g(3) by (simp add: fr)
    then show "table_ok ?s" using assms(1) by (simp add: tasks_ok_def table_ok_def fr)
    show "pending_ok ?s" using assms(1) by (auto simp: ok_defs fr ended_def held_def)
    show "isRunning (objs ?s i) \<Longrightarrow> i \<in> held s \<union> externals s \<and> i \<notin> set (freed s)"
      using assms(1,2) by (auto simp: ok_defs isRunning_def)
    show "answers i ?s = (if ended (objs ?s i) then 1 else 0)"
      using assms(1,2) g(1) by (auto simp: ok_defs fr ended_def)
  qed (simp_all add: fr g assms(3))
  then show ?thesis by (simp only: f)
qed

lemma tasks_ok_register:
  assumes "tasks_ok s" "thread (objs s i) = Idle" "i \<notin> held s \<union> set (freed s) \<union> externals s"
    and "registerTask i s = Some (r, s')"
  shows "tasks_ok s'"
proof -
  consider "same_shape s s'" | "s' = s\<lparr>m_tasks := (m_JobUuid (objs s i), i) # m_tasks s\<rparr>"
      "m_JobUuid (objs s i) \<notin> fst ` set (m_tasks s)"
    using assms(4) same_shape_cancel by (auto simp: registerTask_def Let_def split: if_splits)
  then show ?thesis
  proof cases
    case 1
    then show ?thesis using assms(1) by (rule tasks_ok_same_shape)
  next
    case 2
    have fr: "objs s' = objs s" "freed s' = freed s" "held s' = insert i (held s)" "external_edges s' = external_edges s"
      "externals s' = externals s" "answers k s' = answers k s" for k
      by (auto simp: 2(1) held_def getAllTasks_def external_edges_def externals_def answers_def)
    have "table_ok s'" using assms(1) 2 by (auto simp: ok_defs)
    moreover have "running_ok s'" using assms(1,3) by (auto simp: ok_defs fr)
    moreover have "externals_ok s'" "answers_ok s'" using assms(1) by (simp_all add: ok_defs fr)
    moreover have "pending_ok s'" using assms(1,2) 2(1) by (auto simp: ok_defs getAllTasks_def ended_def)
    ultimately show ?thesis by (simp add: tasks_ok_def)
  qed
qed

lemma tasks_ok_external_begin:
  assumes "tasks_ok s" "thread (objs s i) = Running" "m_externalTask (objs s i) = None" "thread (objs s j) = Idle"
    and "j \<notin> held s \<union> set (freed s) \<union> externals s"
  shows "tasks_ok (runExternalTask_begin i j s)"
proof -
  let ?s1 = "setExternalTask i (Some j) s" and ?s = "runExternalTask_begin i j s"
  have ij: "i \<noteq> j" using assms(2,4) by auto
  have e1: "external_edges ?s1 = insert (i, j) (external_edges s)"
    using assms(3) by (auto simp: external_edges_def setExternalTask_def frame_simps split: if_splits)
  have e: "external_edges ?s = insert (i, j) (external_edges s)"
    by (simp add: e1 runExternalTask_begin_def start_def frame_simps)
  have th: "thread (objs ?s k) = (if k = j \<and> \<not> m_bOperationCancelled (objs s j) then Running else thread (objs s k))"
    "m_JobUuid (objs ?s k) = m_JobUuid (objs s k)" for k
    using ij by (auto simp: runExternalTask_begin_def start_def setExternalTask_def frame_simps)
  have fr: "held ?s = held s" "freed ?s = freed s" "m_tasks ?s = m_tasks s" "m_tasksToDelete ?s = m_tasksToDelete s"
    "timers ?s = timers s" "signals ?s = signals s" "getAllTasks ?s = getAllTasks s" "answers k ?s = answers k s" for k
    by (simp_all add: runExternalTask_begin_def start_def setExternalTask_def frame_simps)
  have x: "externals ?s = insert j (externals s)" by (simp add: externals_edges e)
  have none: "m_externalTask (objs s j) = None"
    using assms(1,4) by (cases "m_externalTask (objs s j)") (auto simp: ok_defs external_edges_def)
  have "table_ok ?s" using assms(1) by (simp add: tasks_ok_def table_ok_def fr th)
  moreover have "running_ok ?s"
    using assms(1,4,5) by (auto simp: ok_defs fr x th isRunning_def split: if_splits)
  moreover have "externals_ok ?s"
  proof -
    have "(j, i) \<notin> (external_edges s)\<^sup>*"
      using none ij by (auto simp: external_edges_def elim: converse_rtranclE)
    with assms(1,2) show ?thesis by (auto simp: ok_defs e th acyclic_insert)
  qed
  moreover have "pending_ok ?s" "answers_ok ?s"
    using assms(1,4) by (auto simp: ok_defs fr th ended_def)
  ultimately show ?thesis by (simp add: tasks_ok_def)
qed

lemma tasks_ok_external_end:
  assumes "tasks_ok s" "m_externalTask (objs s i) = Some j" "\<not> isRunning (objs s j)"
  shows "tasks_ok (snd (runExternalTask_end i j s))"
proof -
  let ?s = "setExternalTask i None s"
  have e: "external_edges ?s = external_edges s - {(i, j)}"
    using assms(2) by (auto simp: external_edges_def setExternalTask_def frame_simps split: if_splits)
  have th: "thread (objs ?s k) = thread (objs s k)" "m_JobUuid (objs ?s k) = m_JobUuid (objs s k)"
    "isRunning (objs ?s k) = isRunning (objs s k)" "ended (objs ?s k) = ended (objs s k)" for k
    by (simp_all add: setExternalTask_def frame_simps isRunning_def ended_def)
  have fr: "held ?s = held s" "freed ?s = freed s" "m_tasks ?s = m_tasks s" "m_tasksToDelete ?s = m_tasksToDelete s"
    "timers ?s = timers s" "signals ?s = signals s" "getAllTasks ?s = getAllTasks s" "answers k ?s = answers k s" for k
    by (simp_all add: setExternalTask_def frame_simps)
  have x: "externals ?s \<subseteq> externals s" "externals s \<subseteq> insert j (externals ?s)"
    using assms(2) by (auto simp: externals_edges e)
  have "table_ok ?s" using assms(1) by (simp add: tasks_ok_def table_ok_def fr th)
  moreover have "running_ok ?s" using assms(1,3) x by (auto simp: tasks_ok_def running_ok_def fr th)
  moreover have "externals_ok ?s"
    using assms(1) by (auto simp: ok_defs e th intro: acyclic_subset)
  moreover have "pending_ok ?s" "answers_ok ?s" using assms(1) by (simp_all add: ok_defs fr th)
  ultimately show ?thesis by (simp add: tasks_ok_def runExternalTask_end_def)
qed

lemma tasks_ok_unregister:
  assumes "tasks_ok s" shows "tasks_ok (unregisterTask u s)"
proof (cases "map_of (m_tasks s) u")
  case None
  with assms show ?thesis by (simp add: unregisterTask_def)
next
  case (Some i)
  let ?s = "unregisterTask u s"
  have m: "(u, i) \<in> set (m_tasks s)" using Some by (rule map_of_SomeD)
  have d: "distinct (map fst (m_tasks s))" using assms by (simp add: ok_defs)
  have f: "objs ?s = objs s" "freed ?s = freed s" "signals ?s = signals s" "timers ?s = Suc (timers s)"
    "m_tasksToDelete ?s = m_tasksToDelete s @ [i]" "m_tasks ?s = AList.delete u (m_tasks s)"
    "external_edges ?s = external_edges s" "externals ?s = externals s" "answers k ?s = answers k s" for k
    using Some by (simp_all add: unregisterTask_def external_edges_def externals_def answers_def)
  have g: "set (getAllTasks s) = insert i (set (getAllTasks ?s))"
  proof -
    have "fst e \<noteq> u \<or> e = (u, i)" if "e \<in> set (m_tasks s)" for e
      using m d that by (cases e) (auto dest: eq_key_imp_eq_value)
    with m have "set (m_tasks s) = insert (u, i) {e \<in> set (m_tasks s). fst e \<noteq> u}" by blast
    then have "snd ` set (m_tasks s) = snd ` insert (u, i) {e \<in> set (m_tasks s). fst e \<noteq> u}" by (rule arg_cong)
    also have "\<dots> = insert i (snd ` {e \<in> set (m_tasks s). fst e \<noteq> u})" by simp
    also have "{e \<in> set (m_tasks s). fst e \<noteq> u} = set (m_tasks ?s)" by (auto simp: f(6) AList.delete_eq)
    finally show ?thesis by (simp add: getAllTasks_def)
  qed
  then have h: "held ?s = held s" by (auto simp: held_def f)
  have "table_ok ?s" using assms by (auto simp: ok_defs f AList.delete_eq distinct_map_filter)
  moreover have "running_ok ?s" "externals_ok ?s" "answers_ok ?s" using assms by (simp_all add: ok_defs f h)
  moreover have "pending_ok ?s" using assms g by (auto simp: ok_defs f)
  ultimately show ?thesis by (simp add: tasks_ok_def)
qed

text \<open>What the two parts of \<^verbatim>\<open>cleanFinishedTasks\<close> compute.\<close>

lemma clean_loop_form:
  "clean_loop ob is ts = (filter (\<lambda>i. \<not> isRunning (ob i)) is, filter (\<lambda>i. isRunning (ob i)) is,
     filter (\<lambda>(u, k). \<forall>i \<in> set is. isRunning (ob i) \<or> m_JobUuid (ob i) \<noteq> u) ts)"
proof (induction "is" arbitrary: ts)
  case (Cons i "is")
  show ?case
    by (cases "isRunning (ob i)") (simp_all add: Cons.IH AList.delete_eq, auto intro!: filter_cong)
qed (simp add: case_prod_beta)

lemma clean_sender_form:
  assumes "table_ok s"
  obtains now1 del where
    "clean_sender sender s = (now1, del, filter (\<lambda>(u, k). k \<notin> set now1) (m_tasks s))"
    "\<forall>i \<in> set now1. \<not> isRunning (objs s i) \<and> i \<in> set (getAllTasks s)"
    "set (m_tasksToDelete s) \<subseteq> set del" "set del \<subseteq> held s"
    "\<forall>i. sender = Some i \<longrightarrow> i \<notin> set (getAllTasks s) \<or> i \<in> set now1 \<or> i \<in> set del"
proof -
  have all: "filter (\<lambda>(u, k). k \<notin> set []) (m_tasks s) = m_tasks s" by (simp add: case_prod_beta)
  consider i where "sender = Some i" "i \<in> set (getAllTasks s)" "isRunning (objs s i)"
    | i where "sender = Some i" "i \<in> set (getAllTasks s)" "\<not> isRunning (objs s i)"
    | "\<forall>i. sender = Some i \<longrightarrow> i \<notin> set (getAllTasks s)" by blast
  then show ?thesis
  proof cases
    case 1
    with all show ?thesis by (intro that [of "[]" "m_tasksToDelete s @ [i]"]) (auto simp: clean_sender_def held_def)
  next
    case 2
    have "(u, k) \<in> set (m_tasks s) \<Longrightarrow> (m_JobUuid (objs s i) \<noteq> u) = (k \<noteq> i)" for u k
      using assms 2(2) by (auto simp: table_ok_def inj_def)
    then have "AList.delete (m_JobUuid (objs s i)) (m_tasks s) = filter (\<lambda>(u, k). k \<notin> set [i]) (m_tasks s)"
      by (auto simp: AList.delete_eq intro!: filter_cong)
    with 2 show ?thesis by (intro that [of "[i]" "m_tasksToDelete s"]) (auto simp: clean_sender_def held_def)
  next
    case 3
    with all show ?thesis
      by (intro that [of "[]" "m_tasksToDelete s"]) (auto simp: clean_sender_def held_def split: option.split)
  qed
qed

lemma tasks_ok_clean:
  assumes "tasks_ok s0" and s: "objs s = objs s0" "m_tasks s = m_tasks s0" "m_tasksToDelete s = m_tasksToDelete s0"
    "freed s = freed s0" "sent s = sent s0"
    and sig: "\<forall>k. k \<in> set (signals s0) \<longrightarrow> k \<in> set (signals s) \<or> sender = Some k"
  shows "tasks_ok (cleanFinishedTasks sender s)"
proof -
  let ?r = "\<lambda>i. isRunning (objs s i)" and ?s = "cleanFinishedTasks sender s"
  have held: "held s = held s0" "getAllTasks s = getAllTasks s0" by (simp_all add: held_def getAllTasks_def s)
  have tab: "table_ok s" using assms(1) by (simp add: tasks_ok_def table_ok_def s)
  obtain now1 del where c: "clean_sender sender s = (now1, del, filter (\<lambda>(u, k). k \<notin> set now1) (m_tasks s))"
    and now1: "\<forall>i \<in> set now1. \<not> ?r i \<and> i \<in> set (getAllTasks s)"
    and del: "set (m_tasksToDelete s) \<subseteq> set del" "set del \<subseteq> held s"
    and snd: "\<forall>i. sender = Some i \<longrightarrow> i \<notin> set (getAllTasks s) \<or> i \<in> set now1 \<or> i \<in> set del"
    using clean_sender_form [OF tab] by metis
  define keep where "keep = filter ?r del"
  define now where "now = now1 @ filter (\<lambda>i. \<not> ?r i) del"
  define ts where "ts = filter (\<lambda>(u, k). k \<notin> set now) (m_tasks s)"
  have "filter (\<lambda>(u, k). \<forall>i \<in> set del. ?r i \<or> m_JobUuid (objs s i) \<noteq> u) (filter (\<lambda>(u, k). k \<notin> set now1) (m_tasks s)) = ts"
  proof -
    have key: "k = i" if "(m_JobUuid (objs s i), k) \<in> set (m_tasks s)" for k i
      using tab that by (auto simp: table_ok_def inj_def)
    have key': "m_JobUuid (objs s k) = u" if "(u, k) \<in> set (m_tasks s)" for u k
      using tab that by (auto simp: table_ok_def)
    show ?thesis by (auto simp: ts_def now_def intro!: filter_cong dest: key key')
  qed
  then have form: "?s = s\<lparr>m_tasks := ts, m_tasksToDelete := keep,
      timers := (if keep \<noteq> [] then Suc (timers s) else timers s), freed := freed s @ now\<rparr>"
    by (simp add: cleanFinishedTasks_def c clean_loop_form keep_def now_def)
  have f: "objs ?s = objs s0" "freed ?s = freed s0 @ now" "signals ?s = signals s" "m_tasksToDelete ?s = keep"
    "m_tasks ?s = ts" "external_edges ?s = external_edges s0" "externals ?s = externals s0" "answers k ?s = answers k s0" for k
    using s by (simp_all add: form external_edges_def externals_def answers_def)
  have g: "set (getAllTasks ?s) = set (getAllTasks s0) - set now"
    by (force simp: getAllTasks_def f ts_def s)
  have now: "\<forall>i \<in> set now. \<not> isRunning (objs s0 i) \<and> i \<in> held s0"
    using now1 del(2) by (auto simp: now_def s held held_def)
  have h: "held ?s = held s0 - set now"
  proof
    show "held ?s \<subseteq> held s0 - set now"
      using now del(2) by (auto simp: held_def [of ?s] g f keep_def s held) (auto simp: held_def)
    show "held s0 - set now \<subseteq> held ?s"
      using del(1) by (auto simp: held_def g f keep_def now_def s)
  qed
  have "table_ok ?s"
    using assms(1) by (auto simp: ok_defs f ts_def s distinct_map_filter)
  moreover have "running_ok ?s" using assms(1) now by (auto simp: ok_defs f h)
  moreover have "externals_ok ?s" "answers_ok ?s" using assms(1) by (simp_all add: ok_defs f)
  moreover have "pending_ok ?s"
  proof -
    have "k \<in> set (signals s) \<or> k \<in> set keep" if "k \<in> set (getAllTasks s0)" "k \<notin> set now" "ended (objs s0 k)" for k
    proof -
      have "k \<in> set (signals s0) \<or> k \<in> set (m_tasksToDelete s0)" using assms(1) that by (auto simp: ok_defs)
      with sig snd del that show ?thesis by (auto simp: keep_def now_def held s)
    qed
    then show ?thesis by (auto simp: pending_ok_def f g) (simp add: form)
  qed
  ultimately show ?thesis by (simp add: tasks_ok_def)
qed

text \<open>A cancellation reaches the end of the chain of external tasks.\<close>

lemma support_cancel_edges: "external_edges (support_cancelOperation i caller s) = external_edges s"
  using same_shape_support_cancel [of s i caller] by (simp add: same_shape_def external_edges_def)

lemma cancel_ends:
  assumes "externals_ok s" shows "\<exists>s'. cancelOperation i caller s = Some s'"
proof -
  have "wf ((external_edges s)\<inverse>)"
    using assms by (intro finite_acyclic_wf_converse) (simp_all add: externals_ok_def)
  then have "external_edges t = external_edges s \<longrightarrow> (\<exists>s'. cancelOperation i caller t = Some s')" for t
  proof (induction i arbitrary: t rule: wf_induct_rule)
    case (less i)
    let ?t = "support_cancelOperation i caller t"
    show ?case
    proof (cases "m_externalTask (objs ?t i)")
      case None
      then show ?thesis by (subst cancelOperation.simps) (simp add: Let_def)
    next
      case (Some j)
      have "external_edges t = external_edges s \<Longrightarrow> (j, i) \<in> (external_edges s)\<inverse>"
        using Some support_cancel_edges [of i caller t] by (auto simp: external_edges_def)
      with less support_cancel_edges [of i caller t] Some show ?thesis
        by (subst cancelOperation.simps) (auto simp: Let_def)
    qed
  qed
  then show ?thesis by blast
qed

lemma tasks_ok_init:
  assumes "inj (\<lambda>i. m_JobUuid (ob i))" "\<forall>i. thread (ob i) = Idle \<and> m_externalTask (ob i) = None"
  shows "tasks_ok (task_init ob)"
  using assms by (simp add: ok_defs task_init_def isRunning_def held_def getAllTasks_def externals_def
      external_edges_def ended_def answers_def acyclic_def)

lemma tasks_ok_reachable: "task_reachable s \<Longrightarrow> tasks_ok s"
proof (induction rule: task_reachable.induct)
  case (signal s i)
  show ?case by (rule tasks_ok_clean [OF signal.IH]) (auto dest: in_set_remove1 [THEN iffD2, rotated])
next
  case (timer s)
  show ?case by (rule tasks_ok_clean [OF timer.IH]) auto
qed (auto intro: tasks_ok_init tasks_ok_register tasks_ok_start tasks_ok_external_begin tasks_ok_external_end
      tasks_ok_finish tasks_ok_thread_end tasks_ok_unregister tasks_ok_same_shape [OF same_shape_cancel]
      tasks_ok_same_shape [OF same_shape_fields(1)] tasks_ok_same_shape [OF same_shape_fields(2)]
      tasks_ok_same_shape [OF same_shape_fields(5)])


section \<open>Facts about tasks\<close>

text \<open>The answer goes to the client the task belongs to at its end, for the request it has then.\<close>

definition run_result :: "bool \<Rightarrow> outcome \<Rightarrow> outcome \<Rightarrow> prl_result" where
  "run_result cancelled prepared body =
     (let end_with = (\<lambda>r. if prl_failed r \<and> cancelled then PRL_ERR_OPERATION_WAS_CANCELED else r) in
      case prepared of
        Threw \<Rightarrow> PRL_ERR_UNEXPECTED
      | Returned r \<Rightarrow> if prl_failed r then end_with r
          else (case body of Threw \<Rightarrow> PRL_ERR_UNEXPECTED | Returned r' \<Rightarrow> end_with r'))"

lemma finish_run_answer:
  "sent (finish_run i prepared body s) = sent s @ [Answer i (m_pUser (objs s i)) (m_requestPkg (objs s i))
     (run_result (m_bOperationCancelled (objs s i)) prepared body)]"
  by (simp add: finish_run_def run_result_def default_response_def finalizeTask_def setLastErrorCode_def
      setTaskCompleted_def answer_def send_def on_task_def Let_def split: outcome.split)

text \<open>A cancelled task is not started, and a session takes a task over with its kind of request.\<close>

lemma cancelled_not_started: "m_bOperationCancelled (objs s i) \<Longrightarrow> start i s = s"
  by (simp add: start_def)

lemma reassigned_task:
  "m_pUser (reassign c p t) = c" "header_uuid (m_requestPkg (reassign c p t)) = header_uuid p"
  "header_type (m_requestPkg (reassign c p t)) = header_type (m_requestPkg t)"
  "getActualClient (reassign c p t) = getActualClient t"
  by (simp_all add: reassign_def parseFlags_def Let_def getActualClient_def split: option.split)

text \<open>
  A task that comes when the table is taken down is cancelled, and its client hears that its
  request succeeded.  A cancellation of a task that waits for an external task is answered twice.
\<close>

lemma late_task_hears_success:
  assumes "m_bDeinited s" "m_externalTask (objs s i) = None" "\<not> m_bTaskCompleted (objs s i)"
  shows "\<exists>s'. schedule i s = Some (Some i, s') \<and> thread (objs s' i) = thread (objs s i) \<and>
    sent s' = sent s @ [Reply (m_pUser (objs s i)) (m_requestPkg (objs s i)) PRL_ERR_SUCCESS]"
  using assms by (simp add: schedule_def registerTask_def cancelOperation.simps [of i] support_cancelOperation_def
      Let_def start_def send_def on_task_def)

lemma cancel_with_external_replies_twice:
  assumes "m_externalTask (objs s i) = Some j" "m_externalTask (objs s j) = None" "i \<noteq> j"
    "\<not> m_bTaskCompleted (objs s i)" "\<not> m_bTaskCompleted (objs s j)"
  shows "map_option sent (cancelOperation i (Some (u, p)) s) =
    Some (sent s @ [Reply u p PRL_ERR_SUCCESS, Reply u p PRL_ERR_SUCCESS])"
  using assms by (simp add: cancelOperation.simps [of i] cancelOperation.simps [of j] support_cancelOperation_def
      Let_def send_def on_task_def)

text \<open>\<^verbatim>\<open>deinit\<close> sleeps 35 times at most, and what the table held does not run afterwards.\<close>

lemma deinit_sleeps_bound: "deinit_sleeps (200 * int n) runs k \<le> k + n"
proof (induction n arbitrary: k)
  case (Suc n)
  have "200 * int (Suc n) - 200 = 200 * int n" by simp
  with Suc.IH [of "Suc k"] show ?case by (subst deinit_sleeps.simps) (simp del: of_nat_Suc)
qed (simp add: deinit_sleeps.simps)

lemma deinit_sleeps_35: "deinit_sleeps TASK_TERMINATE_TIMEOUT runs 0 \<le> 35"
  using deinit_sleeps_bound [of 35 runs 0] by (simp add: TASK_TERMINATE_TIMEOUT_def)

lemma deinit_end_stops: "i \<in> set (getAllTasks s) \<Longrightarrow> \<not> isRunning (objs (deinit_end s) i)"
  by (simp add: deinit_end_def isRunning_def Let_def)

text \<open>The flag of a kind of tasks: a task that unlocks twice frees the flag another one holds.\<close>

lemma lock_excludes:
  "m_pbIsRunning (objs s i) = Some f \<Longrightarrow> m_pbIsRunning (objs s j) = Some f \<Longrightarrow> fst (lockToExecute i s) \<Longrightarrow>
   \<not> fst (lockToExecute j (snd (lockToExecute i s)))"
  by (auto simp: lockToExecute_def on_task_def split: if_splits)

lemma second_unlock_frees_other:
  assumes "m_pbIsRunning (objs s i) = Some f" "m_pbIsRunning (objs s j) = Some f" "i \<noteq> j" "\<not> static_flags s f"
  defines "s1 \<equiv> unlockToExecute i (snd (lockToExecute i s))"
  defines "s2 \<equiv> snd (lockToExecute j s1)"
  shows "static_flags s2 f \<and> m_bExlusiveWasLocked (objs s2 j) \<and> \<not> static_flags (unlockToExecute i s2) f"
  using assms by (simp add: lockToExecute_def unlockToExecute_def on_task_def)

text \<open>The test for the home of a VM compares text: a sibling with a longer name counts as inside.\<close>

lemma sibling_is_inside:
  "isFileInsideVmHome (\<lambda>h. ''/vz/vm'') ''/vz/vm-other/disk'' ''/vz/vm/config.pvs''"
  by (simp add: isFileInsideVmHome_def)

text \<open>With equal uuids, the end of one task drops another one from the table while it runs.\<close>

lemma equal_uuids_drop_running_task:
  fixes t :: task
  defines "s \<equiv> (task_init (\<lambda>i. t\<lparr>thread := (if i = 0 then Finished else Running)\<rparr>))
    \<lparr>m_tasks := [(m_JobUuid t, 1)], m_tasksToDelete := [0]\<rparr>"
  shows "isRunning (objs s 1) \<and> 1 \<in> held s \<and> 1 \<notin> held (cleanFinishedTasks None s)"
  by (simp add: s_def task_init_def cleanFinishedTasks_def clean_sender_def held_def getAllTasks_def isRunning_def)


section \<open>Properties\<close>

definition uuid_no :: "nat \<Rightarrow> uuid" where "uuid_no n = replicate n CHR ''u''"

definition example_tasks :: "nat \<Rightarrow> task" where
  "example_tasks i = new_task (uuid_no i) \<lparr>client_ptr = 1, client_handle = ''h'', prev_session = []\<rparr>
     \<lparr>header_uuid = ''p'', header_type = 7, command_flags = []\<rparr> False None"

lemma example_tasks_reachable: "task_reachable (task_init example_tasks)"
proof (rule task_reachable.init)
  have "m_JobUuid (example_tasks i) = uuid_no i" for i
    by (simp add: example_tasks_def new_task_def parseFlags_def Let_def)
  moreover have "inj uuid_no" by (rule injI) (metis length_replicate uuid_no_def)
  ultimately show "inj (\<lambda>i. m_JobUuid (example_tasks i))" by (simp add: inj_def)
  show "\<forall>i. thread (example_tasks i) = Idle \<and> m_externalTask (example_tasks i) = None"
    by (simp add: example_tasks_def new_task_def parseFlags_def Let_def)
qed



end
