(* ===== verification/ClientSessions.thy ===== *)
theory ClientSessions
  imports TaskTable ExclusiveOps AccessRights
begin

text \<open>
  The sessions of clients (\<^verbatim>\<open>CDspClientManager.cpp\<close>): how a connection becomes an authorized
  session, which packages are handed on, and what ends with a session.  With them the commands that
  work on the tasks of a session: cancellation and take-over (\<^verbatim>\<open>CDspShellHelper.cpp\<close>),
  cancellation by an administrator (\<^verbatim>\<open>DspMonitor.cpp\<close>) and the log-off (\<^verbatim>\<open>CDspUserHelper.cpp\<close>).

  What other parts decide about one package (the password check, the keys, the limits) is the
  record \<open>auth_env\<close>.  Logging in takes several critical sections; other threads run between the
  check at its begin and its end, so these are operations of their own.  \<open>auth_log\<close> records who was
  authenticated and which session uuids were presented.
\<close>

section \<open>Data\<close>

datatype command = UserLogin | UserEasyLoginLocal | AllHostUsers | Command dsp_cmd

record login_cmd =
  login_valid :: bool
  login_rsa_keys :: bool
  login_prev_session :: qstring

record auth_env =
  server_stopping :: bool
  init_completed :: bool
  first_phase :: bool
  trusted_handle :: bool
  max_logon_actions :: int
  user_login :: "client option \<times> bool"
  local_login :: "client option"
  key_authorized :: bool
  key_client :: client
  preferences_filled :: bool
  encrypted_session :: "prl_result + qstring"
  handled_by_vz_helper :: bool
  logic_guard :: prl_result

datatype auth_event = Authenticated client | KeyAuthorized client | Presented qstring

record client_manager =
  m_clients :: "(qstring \<times> client) list"
  in_progress :: "nat set"
  m_preAuthorizedSessions :: "qstring set"
  m_setLogonClients :: "qstring set"
  auth_log :: "auth_event list"

datatype out =
    Respond qstring prl_result
  | LoginResponse client
  | KeyResponse qstring qstring
  | HostUsers qstring
  | ForceCheckHwChanges
  | Dispatch qstring client command
  | ToVzHelper qstring client command
  | ToUserHelper

definition client_init :: client_manager where
  "client_init = \<lparr>m_clients = [], in_progress = {}, m_preAuthorizedSessions = {}, m_setLogonClients = {},
     auth_log = []\<rparr>"

definition getUserSession :: "qstring \<Rightarrow> client_manager \<Rightarrow> client option" where
  "getUserSession h s = map_of (m_clients s) h"

text \<open>\<^verbatim>\<open>m_clients.contains(h) && !m_clients.value(h)->isAuthorizationInProgress()\<close>\<close>

definition cliExists :: "qstring \<Rightarrow> client_manager \<Rightarrow> bool" where
  "cliExists h s \<longleftrightarrow>
     (case getUserSession h s of None \<Rightarrow> False | Some c \<Rightarrow> client_ptr c \<notin> in_progress s)"

definition isPreAuthorized :: "qstring \<Rightarrow> client_manager \<Rightarrow> bool" where
  "isPreAuthorized h s \<longleftrightarrow> h \<in> m_preAuthorizedSessions s"


section \<open>Logging in\<close>

definition preAuthChecks :: "auth_env \<Rightarrow> qstring \<Rightarrow> client_manager \<Rightarrow> prl_result" where
  "preAuthChecks E h s =
     (if server_stopping E then PRL_ERR_DISP_SHUTDOWN_IN_PROCESS
      else if cliExists h s then PRL_ERR_USER_IS_ALREADY_LOGGED
      else PRL_ERR_SUCCESS)"

text \<open>The guard that bounds the logins under way.  Its destructor runs whether it succeeded or not.\<close>

definition guard_capture :: "auth_env \<Rightarrow> qstring \<Rightarrow> client_manager \<Rightarrow> bool \<times> client_manager" where
  "guard_capture E h s =
     (if trusted_handle E then (True, s)
      else if max_logon_actions E \<le> int (card (m_setLogonClients s)) then (False, s)
      else (True, s\<lparr>m_setLogonClients := insert h (m_setLogonClients s)\<rparr>))"

definition guard_release :: "qstring \<Rightarrow> client_manager \<Rightarrow> client_manager" where
  "guard_release h s = s\<lparr>m_setLogonClients := m_setLogonClients s - {h}\<rparr>"

definition enter_guard :: "auth_env \<Rightarrow> qstring \<Rightarrow> client_manager \<Rightarrow> out list \<times> bool \<times> client_manager" where
  "enter_guard E h s =
     (case guard_capture E h s of (ok, s1) \<Rightarrow>
        if ok then ([], True, s1)
        else ([Respond h PRL_ERR_DISP_LOGON_ACTIONS_REACHED_UP_LIMIT], False, guard_release h s1))"

definition logged :: "auth_event \<Rightarrow> client_manager \<Rightarrow> client_manager" where
  "logged e s = s\<lparr>auth_log := auth_log s @ [e]\<rparr>"

text \<open>The critical section in which a session is entered.\<close>

definition enter_session :: "auth_env \<Rightarrow> qstring \<Rightarrow> client \<Rightarrow> client_manager \<Rightarrow> out list \<times> client_manager" where
  "enter_session E h c s =
     ((if m_clients s = [] \<and> first_phase E then [ForceCheckHwChanges] else []),
      s\<lparr>m_clients := AList.update h c (m_clients s)\<rparr>)"

definition erase_preauthorized :: "qstring \<Rightarrow> client_manager \<Rightarrow> client_manager" where
  "erase_preauthorized h s = s\<lparr>m_preAuthorizedSessions := m_preAuthorizedSessions s - {h}\<rparr>"

definition processAuthorize_begin ::
  "auth_env \<Rightarrow> qstring \<Rightarrow> login_cmd \<Rightarrow> client_manager \<Rightarrow> out list \<times> bool \<times> client_manager" where
  "processAuthorize_begin E h cmd s =
     (if \<not> login_valid cmd then ([Respond h PRL_ERR_FAILURE], False, s)
      else if preAuthChecks E h s \<noteq> PRL_ERR_SUCCESS then ([Respond h (preAuthChecks E h s)], False, s)
      else enter_guard E h s)"

definition processAuthorize_end ::
  "auth_env \<Rightarrow> qstring \<Rightarrow> login_cmd \<Rightarrow> client_manager \<Rightarrow> out list \<times> client_manager" where
  "processAuthorize_end E h cmd s =
     (let prev = login_prev_session cmd;
          restored = (if prev \<noteq> [] then getUserSession prev s else None);
          s1 = (case restored of
                  Some c \<Rightarrow> logged (Presented prev) (s\<lparr>in_progress := in_progress s - {client_ptr c}\<rparr>)
                | None \<Rightarrow> (case fst (user_login E) of None \<Rightarrow> s | Some c \<Rightarrow> logged (Authenticated c) s));
          cl = (case restored of Some c \<Rightarrow> Some c | None \<Rightarrow> fst (user_login E));
          r = (case cl of
                 Some c \<Rightarrow> (case enter_session E h c s1 of (o1, s2) \<Rightarrow>
                   (o1 @ [LoginResponse c], erase_preauthorized h s2))
               | None \<Rightarrow>
                   if snd (user_login E)
                   then ([Respond h PRL_ERR_SUCCESS],
                         s1\<lparr>m_preAuthorizedSessions := insert h (m_preAuthorizedSessions s1)\<rparr>)
                   else ([ToUserHelper], s1))
      in (fst r, guard_release h (snd r)))"

definition processLocal_begin ::
  "auth_env \<Rightarrow> qstring \<Rightarrow> client_manager \<Rightarrow> out list \<times> bool \<times> client_manager" where
  "processLocal_begin E h s =
     (if cliExists h s then ([Respond h PRL_ERR_USER_IS_ALREADY_LOGGED], False, s)
      else enter_guard E h s)"

definition processLocal_end :: "auth_env \<Rightarrow> qstring \<Rightarrow> client_manager \<Rightarrow> out list \<times> client_manager" where
  "processLocal_end E h s =
     (let r = (case local_login E of
                 Some c \<Rightarrow> (case enter_session E h c (logged (Authenticated c) s) of (o1, s2) \<Rightarrow>
                   (o1 @ [LoginResponse c], s2))
               | None \<Rightarrow> ([ToUserHelper], s))
      in (fst r, guard_release h (snd r)))"

definition processPubKey_begin ::
  "auth_env \<Rightarrow> qstring \<Rightarrow> client_manager \<Rightarrow> out list \<times> bool \<times> client_manager" where
  "processPubKey_begin E h s =
     (if preAuthChecks E h s \<noteq> PRL_ERR_SUCCESS then ([Respond h (preAuthChecks E h s)], False, s)
      else enter_guard E h s)"

definition processPubKey_end ::
  "auth_env \<Rightarrow> qstring \<Rightarrow> login_cmd \<Rightarrow> client_manager \<Rightarrow> out list \<times> client_manager" where
  "processPubKey_end E h cmd s =
     (let r = (if \<not> login_valid cmd then ([Respond h PRL_ERR_FAILURE], s)
               else if \<not> key_authorized E then ([Respond h PRL_ERR_PUBLIC_KEY_NOT_AUTHORIZED], s)
               else if \<not> preferences_filled E then ([ToUserHelper], s)
               else let c = key_client E in
                 (case enter_session E h c
                         (logged (KeyAuthorized c) (s\<lparr>in_progress := insert (client_ptr c) (in_progress s)\<rparr>)) of
                    (o1, s2) \<Rightarrow>
                      (o1 @ [case encrypted_session E of Inl e \<Rightarrow> Respond h e | Inr x \<Rightarrow> KeyResponse h x],
                       erase_preauthorized h s2)))
      in (fst r, guard_release h (snd r)))"


section \<open>Packages\<close>

text \<open>The begin of \<^verbatim>\<open>handleToDispatcherPackage\<close>, up to the operation a package is for.\<close>

definition handleToDispatcherPackage :: "auth_env \<Rightarrow> qstring \<Rightarrow> command \<Rightarrow> client_manager \<Rightarrow> out list" where
  "handleToDispatcherPackage E h cmd s =
     (if \<not> init_completed E then [Respond h PRL_ERR_TIMEOUT]
      else if cmd = UserLogin \<or> cmd = UserEasyLoginLocal then []
      else if \<not> cliExists h s
      then if isPreAuthorized h s \<and> cmd = AllHostUsers then [HostUsers h]
           else [Respond h PRL_ERR_USER_OPERATION_NOT_AUTHORISED]
      else (case getUserSession h s of
              None \<Rightarrow> []
            | Some c \<Rightarrow>
                if handled_by_vz_helper E then [ToVzHelper h c cmd]
                else if prl_failed (logic_guard E) then [Respond (client_handle c) (logic_guard E)]
                else [Dispatch h c cmd]))"


section \<open>The end of a session\<close>

fun cancel_flagged :: "client \<Rightarrow> package \<Rightarrow> nat list \<Rightarrow> task_table \<Rightarrow> task_table option" where
  "cancel_flagged u p [] t = Some t"
| "cancel_flagged u p (i # is) t =
     (if shouldBeCanceled_OnClientDisconnect (objs t i)
      then Option.bind (cancelOperation i (Some (u, p)) t) (cancel_flagged u p is)
      else cancel_flagged u p is t)"

definition handleClientDisconnected ::
  "bool \<Rightarrow> package \<Rightarrow> qstring \<Rightarrow> client_manager \<times> task_table \<times> ops_table \<Rightarrow>
     (client_manager \<times> task_table \<times> ops_table) option" where
  "handleClientDisconnected stopping p h =
     (\<lambda>(s, t, l).
        let user = getUserSession h s;
            s1 = s\<lparr>m_clients := AList.delete h (m_clients s),
                   m_preAuthorizedSessions := m_preAuthorizedSessions s - {h}\<rparr>
        in if stopping then Some (s1, t, l)
           else map_option (\<lambda>t'. (s1, t', cleanupSessionVmLocks h l))
                  (case user of
                     None \<Rightarrow> Some t
                   | Some u \<Rightarrow> cancel_flagged u p (getTaskListBySession h t) t))"

text \<open>The log-off gives the locks back and closes the connection the session began with.\<close>

definition processUserLogoff :: "client \<Rightarrow> ops_table \<Rightarrow> out list \<times> qstring \<times> ops_table" where
  "processUserLogoff user l =
     ([Respond (client_handle user) PRL_ERR_SUCCESS], client_handle user, cleanupSessionVmLocks (client_handle user) l)"


section \<open>Commands on tasks\<close>

fun cancel_own :: "client \<Rightarrow> package \<Rightarrow> nat list \<Rightarrow> task_table \<Rightarrow> (nat \<times> task_table) option" where
  "cancel_own u p [] t = Some (0, t)"
| "cancel_own u p (i # is) t =
     (if client_ptr (m_pUser (objs t i)) = client_ptr u
      then Option.bind (cancelOperation i (Some (u, p)) t)
             (\<lambda>t1. map_option (\<lambda>(n, t2). (Suc n, t2)) (cancel_own u p is t1))
      else cancel_own u p is t)"

text \<open>\<open>request\<close> is the uuid in the command, \<open>None\<close> when the command is not valid.\<close>

definition shell_cancelOperation :: "client \<Rightarrow> package \<Rightarrow> uuid option \<Rightarrow> task_table \<Rightarrow> task_table option" where
  "shell_cancelOperation user p request t =
     (case request of
        None \<Rightarrow> Some (send (Reply user p PRL_ERR_UNRECOGNIZED_REQUEST) t)
      | Some u \<Rightarrow>
          let tasks = getTaskListByPacketUuid u t in
          if tasks = [] then Some (send (Reply user p PRL_ERR_TASK_NOT_FOUND) t)
          else map_option (\<lambda>(n, t1). if n = 0 then send (Reply user p PRL_ERR_ACCESS_DENIED) t1 else t1)
                 (cancel_own user p tasks t))"

definition attachToLostTask :: "client \<Rightarrow> package \<Rightarrow> uuid option \<Rightarrow> task_table \<Rightarrow> task_table" where
  "attachToLostTask user p taskUuid t =
     (case taskUuid of
        None \<Rightarrow> send (Reply user p PRL_ERR_FAILURE) t
      | Some u \<Rightarrow>
          (case findTaskByUuid u t of
             None \<Rightarrow> send (Reply user p PRL_ERR_TASK_NOT_FOUND) t
           | Some i \<Rightarrow>
               if client_handle (m_pUser (objs t i)) \<noteq> prev_session user
               then send (Reply user p PRL_ERR_ATTACH_TO_TASK_BAD_SESSION) t
               else send (Reply user p PRL_ERR_SUCCESS) (reassignTask i user p t)))"

definition ForceCancelCommandOfUser ::
  "bool \<Rightarrow> client \<Rightarrow> package \<Rightarrow> uuid \<Rightarrow> task_table \<Rightarrow> task_table option" where
  "ForceCancelCommandOfUser permitted user p taskUuid t =
     (if \<not> permitted then Some (send (Reply user p PRL_ERR_ACCESS_DENIED) t)
      else (case findTaskByUuid taskUuid t of
              None \<Rightarrow> Some (send (Reply user p PRL_ERR_TASK_NOT_FOUND) t)
            | Some i \<Rightarrow>
                map_option (\<lambda>t1. send (Reply user p PRL_ERR_SUCCESS)
                    (send (Reply (m_pUser (objs t1 i)) (m_requestPkg (objs t1 i)) PET_DSP_EVT_SMC_CANCEL_USER_COMMAND) t1))
                  (cancelOperation i (Some (user, p)) t)))"


section \<open>Reachable states\<close>

definition known_clients :: "client_manager \<Rightarrow> client set" where
  "known_clients s = {c. Authenticated c \<in> set (auth_log s) \<or> KeyAuthorized c \<in> set (auth_log s)}"

text \<open>The objects that a login makes are new, and carry the handle of the connection.\<close>

definition new_client :: "qstring \<Rightarrow> client \<Rightarrow> client_manager \<Rightarrow> bool" where
  "new_client h c s \<longleftrightarrow> client_handle c = h \<and> client_ptr c \<notin> client_ptr ` known_clients s"

inductive auth_reachable :: "client_manager \<Rightarrow> bool" where
  init: "auth_reachable client_init"
| authorize_begin: "auth_reachable s \<Longrightarrow> auth_reachable (snd (snd (processAuthorize_begin E h cmd s)))"
| local_begin: "auth_reachable s \<Longrightarrow> auth_reachable (snd (snd (processLocal_begin E h s)))"
| pubkey_begin: "auth_reachable s \<Longrightarrow> auth_reachable (snd (snd (processPubKey_begin E h s)))"
| authorize_end: "auth_reachable s \<Longrightarrow> pred_option (\<lambda>c. new_client h c s) (fst (user_login E)) \<Longrightarrow>
    auth_reachable (snd (processAuthorize_end E h cmd s))"
| local_end: "auth_reachable s \<Longrightarrow> pred_option (\<lambda>c. new_client h c s) (local_login E) \<Longrightarrow>
    auth_reachable (snd (processLocal_end E h s))"
| pubkey_end: "auth_reachable s \<Longrightarrow> new_client h (key_client E) s \<Longrightarrow>
    auth_reachable (snd (processPubKey_end E h cmd s))"
| disconnect: "auth_reachable s \<Longrightarrow> handleClientDisconnected b p h (s, t, l) = Some (s', t', l') \<Longrightarrow> auth_reachable s'"


section \<open>Sessions are authorized\<close>

definition proved :: "client_manager \<Rightarrow> client \<Rightarrow> bool" where
  "proved s c \<longleftrightarrow> Authenticated c \<in> set (auth_log s) \<or>
     KeyAuthorized c \<in> set (auth_log s) \<and> Presented (client_handle c) \<in> set (auth_log s)"

definition authz_ok :: "client_manager \<Rightarrow> bool" where
  "authz_ok s \<longleftrightarrow> inj_on client_ptr (known_clients s) \<and>
     (\<forall>(k, c) \<in> set (m_clients s). proved s c \<or>
        KeyAuthorized c \<in> set (auth_log s) \<and> client_ptr c \<in> in_progress s \<and> k = client_handle c)"

lemma set_AList_update: "set (AList.update k v al) \<subseteq> insert (k, v) (set al)"
  by (induction al) auto

lemma authz_ok_fields:
  assumes "authz_ok s" "set (m_clients s') \<subseteq> set (m_clients s)" "in_progress s' = in_progress s" "auth_log s' = auth_log s"
  shows "authz_ok s'"
  using assms by (auto simp: authz_ok_def proved_def known_clients_def)

lemma authz_ok_guard [intro]:
  "authz_ok s \<Longrightarrow> authz_ok (guard_release h s)"
  "authz_ok s \<Longrightarrow> authz_ok (snd (snd (enter_guard E h s)))"
  "authz_ok s \<Longrightarrow> authz_ok (erase_preauthorized h s)"
  by (auto simp: guard_release_def enter_guard_def guard_capture_def erase_preauthorized_def
      elim!: authz_ok_fields split: prod.splits)

lemma authz_ok_enter:
  assumes "authz_ok s" "proved s c \<or> KeyAuthorized c \<in> set (auth_log s) \<and> client_ptr c \<in> in_progress s \<and> h = client_handle c"
  shows "authz_ok (snd (enter_session E h c s))"
  using assms set_AList_update [of h c "m_clients s"]
  by (fastforce simp: enter_session_def authz_ok_def proved_def known_clients_def)

lemma known_logged:
  "known_clients (logged (Authenticated c) s) = insert c (known_clients s)"
  "known_clients (logged (KeyAuthorized c) s) = insert c (known_clients s)"
  "known_clients (logged (Presented k) s) = known_clients s"
  "known_clients (s\<lparr>in_progress := P\<rparr>) = known_clients s"
  by (auto simp: known_clients_def logged_def)

lemma proved_logged: "proved s c \<Longrightarrow> proved (logged e s) c" "proved (s\<lparr>in_progress := P\<rparr>) c = proved s c"
  by (auto simp: proved_def logged_def)

lemma authz_ok_authenticated:
  assumes "authz_ok s" "new_client h c s" shows "authz_ok (logged (Authenticated c) s)" "proved (logged (Authenticated c) s) c"
proof -
  show "authz_ok (logged (Authenticated c) s)"
    using assms by (auto simp: authz_ok_def known_logged new_client_def inj_on_insert)
      (auto simp: proved_def logged_def)
  show "proved (logged (Authenticated c) s) c" by (simp add: proved_def logged_def)
qed

lemma authz_ok_key:
  assumes "authz_ok s" "new_client h c s"
  defines "s' \<equiv> logged (KeyAuthorized c) (s\<lparr>in_progress := insert (client_ptr c) (in_progress s)\<rparr>)"
  shows "authz_ok s'" "KeyAuthorized c \<in> set (auth_log s') \<and> client_ptr c \<in> in_progress s' \<and> h = client_handle c"
proof -
  show "authz_ok s'"
    using assms(1,2) by (auto simp: s'_def authz_ok_def known_logged new_client_def inj_on_insert)
      (auto simp: proved_def logged_def)
  show "KeyAuthorized c \<in> set (auth_log s') \<and> client_ptr c \<in> in_progress s' \<and> h = client_handle c"
    using assms(2) by (simp add: s'_def logged_def new_client_def)
qed

text \<open>Whoever presents the uuid of a session gets it; its client is proved from then on.\<close>

lemma authz_ok_restored:
  assumes ok: "authz_ok s" and c: "getUserSession k s = Some c"
  defines "s' \<equiv> logged (Presented k) (s\<lparr>in_progress := in_progress s - {client_ptr c}\<rparr>)"
  shows "authz_ok s'" "proved s' c"
proof -
  have m: "(k, c) \<in> set (m_clients s)" using c by (simp add: getUserSession_def map_of_SomeD)
  with ok have k: "proved s c \<or> KeyAuthorized c \<in> set (auth_log s) \<and> k = client_handle c"
    by (auto simp: authz_ok_def)
  then show p: "proved s' c" by (auto simp: s'_def proved_def logged_def)
  have "proved s' d \<or> KeyAuthorized d \<in> set (auth_log s') \<and> client_ptr d \<in> in_progress s' \<and> k' = client_handle d"
    if "(k', d) \<in> set (m_clients s)" for k' d
  proof (cases "client_ptr d = client_ptr c")
    case True
    have "d \<in> known_clients s" "c \<in> known_clients s"
      using ok that m by (auto simp: authz_ok_def known_clients_def proved_def)
    with ok True have "d = c" by (auto simp: authz_ok_def dest: inj_onD)
    with p show ?thesis by simp
  next
    case False
    with ok that show ?thesis by (auto simp: authz_ok_def s'_def logged_def proved_def)
  qed
  moreover have "known_clients s' = known_clients s" "m_clients s' = m_clients s"
    by (simp_all add: s'_def known_logged) (simp add: logged_def)
  ultimately show "authz_ok s'" using ok by (auto simp: authz_ok_def)
qed

lemma authz_ok_authorize:
  assumes "authz_ok s" "pred_option (\<lambda>c. new_client h c s) (fst (user_login E))"
  shows "authz_ok (snd (processAuthorize_end E h cmd s))"
proof (cases "if login_prev_session cmd \<noteq> [] then getUserSession (login_prev_session cmd) s else None")
  case (Some c)
  then have "getUserSession (login_prev_session cmd) s = Some c" by (simp split: if_splits)
  from authz_ok_restored [OF assms(1) this] Some show ?thesis
    by (auto simp: processAuthorize_end_def Let_def case_prod_beta intro!: authz_ok_enter)
next
  case none: None
  show ?thesis
  proof (cases "fst (user_login E)")
    case None
    have "authz_ok (s\<lparr>m_preAuthorizedSessions := P\<rparr>)" for P using assms(1) by (rule authz_ok_fields) auto
    with none None assms(1) show ?thesis by (auto simp: processAuthorize_end_def Let_def)
  next
    case (Some c)
    with assms have "new_client h c s" by simp
    from authz_ok_authenticated [OF assms(1) this] none Some show ?thesis
      by (auto simp: processAuthorize_end_def Let_def case_prod_beta intro!: authz_ok_enter)
  qed
qed

lemma authz_ok_local:
  assumes "authz_ok s" "pred_option (\<lambda>c. new_client h c s) (local_login E)"
  shows "authz_ok (snd (processLocal_end E h s))"
proof (cases "local_login E")
  case None
  with assms(1) show ?thesis by (auto simp: processLocal_end_def Let_def)
next
  case (Some c)
  with assms have "new_client h c s" by simp
  from authz_ok_authenticated [OF assms(1) this] Some show ?thesis
    by (auto simp: processLocal_end_def Let_def case_prod_beta intro!: authz_ok_enter)
qed

lemma authz_ok_pubkey:
  assumes "authz_ok s" "new_client h (key_client E) s"
  shows "authz_ok (snd (processPubKey_end E h cmd s))"
  using authz_ok_key [OF assms] assms(1)
  by (auto simp: processPubKey_end_def Let_def case_prod_beta intro!: authz_ok_enter)

lemma authz_ok_reachable: "auth_reachable s \<Longrightarrow> authz_ok s"
proof (induction rule: auth_reachable.induct)
  case init
  show ?case by (simp add: client_init_def authz_ok_def known_clients_def)
next
  case (disconnect s b p h t l s' t' l')
  then have "set (m_clients s') \<subseteq> set (m_clients s)" "in_progress s' = in_progress s" "auth_log s' = auth_log s"
    by (auto simp: handleClientDisconnected_def Let_def AList.delete_eq split: if_splits)
  with disconnect.IH show ?case by (rule authz_ok_fields)
qed (auto simp: processAuthorize_begin_def processLocal_begin_def processPubKey_begin_def
    intro: authz_ok_authorize authz_ok_local authz_ok_pubkey)


section \<open>What ends with a session\<close>

lemma find_filter_keeps: "find P xs = Some x \<Longrightarrow> Q x \<Longrightarrow> find P (filter Q xs) = Some x"
  by (induction xs) (auto split: if_splits)

lemma lock_holder_cleanup:
  assumes "ops_ok l"
  shows "lock_holder k (cleanupSessionVmLocks h l) = (if lock_holder k l = h then [] else lock_holder k l)"
proof (cases "map_of (m_opHash l) k")
  case None
  with assms show ?thesis by (simp add: lock_holder_alt map_of_cleanupSessionVmLocks purge_locks_def)
next
  case (Some g)
  let ?P = "\<lambda>u. getCommand u = DspCmdVmLock" and ?us = "filter (\<lambda>u. \<not> is_lock_of h u) (m_store g)"
  have new: "lock_holder k (cleanupSessionVmLocks h l) = (case find ?P ?us of None \<Rightarrow> [] | Some u \<Rightarrow> getSession u)"
    using assms Some by (auto simp: lock_holder_alt map_of_cleanupSessionVmLocks purge_locks_def Let_def)
  show ?thesis
  proof (cases "find ?P (m_store g)")
    case None
    then have "find ?P ?us = None" by (auto simp: find_None_iff)
    with new Some None show ?thesis by (simp add: lock_holder_alt)
  next
    case f: (Some u)
    then have u: "u \<in> set (m_store g)" "?P u" by (auto dest: find_Some_in)
    have holder: "lock_holder k l = getSession u" using Some f by (simp add: lock_holder_alt)
    show ?thesis
    proof (cases "getSession u = h")
      case True
      have "\<not> ?P w" if "w \<in> set ?us" for w
      proof
        assume w: "?P w"
        have "is_lock_of (getSession w) w" using w by (simp add: is_lock_of_def)
        with that have "lock_holder k l = getSession w" using lock_holder_unique [OF assms Some, of w] by simp
        with that w holder True show False by (simp add: is_lock_of_def)
      qed
      then have "find ?P ?us = None" by (auto simp: find_None_iff)
      with new holder True show ?thesis by simp
    next
      case False
      then have "find ?P ?us = Some u" using find_filter_keeps [OF f] by (simp add: is_lock_of_def)
      with new holder False show ?thesis by simp
    qed
  qed
qed

text \<open>What a cancellation changes: the task and the chain of external tasks it waits for.\<close>

definition cancelled :: "task_table \<Rightarrow> nat \<Rightarrow> bool" where
  "cancelled t i \<longleftrightarrow> m_bOperationCancelled (objs t i)"

lemma cancelled_support:
  "cancelled (support_cancelOperation i caller t) k \<longleftrightarrow> k = i \<or> cancelled t k"
  "m_uiRequestFlags (objs (support_cancelOperation i caller t) k) = m_uiRequestFlags (objs t k)"
  by (auto simp: cancelled_def support_cancelOperation_def Let_def frame_simps split: option.split)

lemma external_chain:
  assumes "m_externalTask (objs t i) = e"
  shows "(i, k) \<in> (external_edges t)\<^sup>* \<longleftrightarrow> k = i \<or> (\<exists>j. e = Some j \<and> (j, k) \<in> (external_edges t)\<^sup>*)"
proof
  assume "(i, k) \<in> (external_edges t)\<^sup>*"
  then show "k = i \<or> (\<exists>j. e = Some j \<and> (j, k) \<in> (external_edges t)\<^sup>*)"
    using assms by (auto simp: external_edges_def elim: converse_rtranclE)
next
  assume "k = i \<or> (\<exists>j. e = Some j \<and> (j, k) \<in> (external_edges t)\<^sup>*)"
  moreover have "e = Some j \<Longrightarrow> (i, j) \<in> external_edges t" for j using assms by (simp add: external_edges_def)
  ultimately show "(i, k) \<in> (external_edges t)\<^sup>*" by (auto intro: converse_rtrancl_into_rtrancl)
qed

lemma cancelled_cancelOperation:
  assumes "cancelOperation i caller t = Some t'"
  shows "\<forall>k. (cancelled t' k \<longleftrightarrow> cancelled t k \<or> (i, k) \<in> (external_edges t)\<^sup>*) \<and>
    m_uiRequestFlags (objs t' k) = m_uiRequestFlags (objs t k)"
proof (rule cancelOperation.raw_induct
    [where P = "\<lambda>i caller t t'. \<forall>k. (cancelled t' k \<longleftrightarrow> cancelled t k \<or> (i, k) \<in> (external_edges t)\<^sup>*) \<and>
       m_uiRequestFlags (objs t' k) = m_uiRequestFlags (objs t k)", OF _ assms])
  fix f i caller t t'
  assume IH: "\<And>i caller t t'. f i caller t = Some t' \<Longrightarrow>
      \<forall>k. (cancelled t' k \<longleftrightarrow> cancelled t k \<or> (i, k) \<in> (external_edges t)\<^sup>*) \<and>
        m_uiRequestFlags (objs t' k) = m_uiRequestFlags (objs t k)"
    and step: "(let s1 = support_cancelOperation i caller t
      in case m_externalTask (objs s1 i) of None \<Rightarrow> Some s1 | Some j \<Rightarrow> f j caller s1) = Some t'"
  let ?s1 = "support_cancelOperation i caller t"
  have e: "m_externalTask (objs ?s1 i) = m_externalTask (objs t i)"
    using same_shape_support_cancel [of t i caller] by (simp add: same_shape_def)
  show "\<forall>k. (cancelled t' k \<longleftrightarrow> cancelled t k \<or> (i, k) \<in> (external_edges t)\<^sup>*) \<and>
      m_uiRequestFlags (objs t' k) = m_uiRequestFlags (objs t k)"
  proof (cases "m_externalTask (objs t i)")
    case None
    with step e have "t' = ?s1" by (simp add: Let_def)
    with external_chain [OF None] show ?thesis by (auto simp: cancelled_support)
  next
    case (Some j)
    with step e have "f j caller ?s1 = Some t'" by (simp add: Let_def)
    from IH [OF this] external_chain [OF Some] show ?thesis
      by (auto simp: cancelled_support support_cancel_edges)
  qed
qed

definition flagged :: "task_table \<Rightarrow> nat \<Rightarrow> bool" where
  "flagged t i \<longleftrightarrow> shouldBeCanceled_OnClientDisconnect (objs t i)"

lemma cancel_flagged_result:
  assumes "task_reachable t"
  shows "\<exists>t'. cancel_flagged u p is t = Some t' \<and> task_reachable t' \<and>
    (\<forall>k. cancelled t' k \<longleftrightarrow> cancelled t k \<or> (\<exists>i \<in> set is. flagged t i \<and> (i, k) \<in> (external_edges t)\<^sup>*))"
  using assms
proof (induction "is" arbitrary: t)
  case (Cons i "is")
  show ?case
  proof (cases "flagged t i")
    case False
    then have "cancel_flagged u p (i # is) t = cancel_flagged u p is t" by (simp add: flagged_def)
    moreover have "(\<exists>j \<in> set (i # is). flagged t j \<and> (j, k) \<in> (external_edges t)\<^sup>*) \<longleftrightarrow>
        (\<exists>j \<in> set is. flagged t j \<and> (j, k) \<in> (external_edges t)\<^sup>*)" for k using False by auto
    ultimately show ?thesis using Cons.IH [OF Cons.prems] by simp
  next
    case True
    obtain t1 where c: "cancelOperation i (Some (u, p)) t = Some t1"
      using cancel_ends tasks_ok_reachable [OF Cons.prems] unfolding tasks_ok_def by blast
    have r: "task_reachable t1" using Cons.prems c by (rule task_reachable.cancel)
    have e: "external_edges t1 = external_edges t"
      using same_shape_cancel [OF c] by (simp add: same_shape_def external_edges_def)
    have fl: "flagged t1 k = flagged t k" "cancelled t1 k \<longleftrightarrow> cancelled t k \<or> (i, k) \<in> (external_edges t)\<^sup>*" for k
      using cancelled_cancelOperation [OF c] by (simp_all add: flagged_def shouldBeCanceled_OnClientDisconnect_def)
    obtain t' where t': "cancel_flagged u p is t1 = Some t'" "task_reachable t'"
      "\<forall>k. cancelled t' k \<longleftrightarrow> cancelled t1 k \<or> (\<exists>j \<in> set is. flagged t1 j \<and> (j, k) \<in> (external_edges t1)\<^sup>*)"
      using Cons.IH [OF r] by blast
    have "cancel_flagged u p (i # is) t = Some t'" using True c t'(1) by (simp add: flagged_def)
    moreover have "cancelled t' k \<longleftrightarrow> cancelled t k \<or>
        (\<exists>j \<in> set (i # is). flagged t j \<and> (j, k) \<in> (external_edges t)\<^sup>*)" for k
      using t'(3) True by (auto simp: fl e)
    ultimately show ?thesis using t'(2) by blast
  qed
qed simp


section \<open>Facts about logins and commands\<close>

text \<open>
  A login that presents the uuid of any session takes this session over, whatever the password
  check would have said; what the connection is answered is sent to the handle the session began
  with.
\<close>

lemma session_taken_by_its_uuid:
  assumes "getUserSession k s = Some c" "k \<noteq> []" "login_prev_session cmd = k"
  shows "getUserSession h (snd (processAuthorize_end E h cmd s)) = Some c"
    "LoginResponse c \<in> set (fst (processAuthorize_end E h cmd s))"
  using assms by (simp_all add: processAuthorize_end_def Let_def case_prod_beta enter_session_def getUserSession_def
      erase_preauthorized_def guard_release_def update_conv)

text \<open>A login refused by the limit gives back the slot that another login of its connection holds.\<close>

lemma refused_login_frees_slot:
  assumes "\<not> trusted_handle E" "max_logon_actions E \<le> int (card (m_setLogonClients s))"
  shows "enter_guard E h s = ([Respond h PRL_ERR_DISP_LOGON_ACTIONS_REACHED_UP_LIMIT], False,
    s\<lparr>m_setLogonClients := m_setLogonClients s - {h}\<rparr>)"
  using assms by (simp add: enter_guard_def guard_capture_def guard_release_def)

text \<open>A cancellation by an administrator is answered twice.\<close>

lemma forced_cancel_replies_twice:
  assumes "findTaskByUuid u t = Some i" "m_externalTask (objs t i) = None" "\<not> m_bTaskCompleted (objs t i)"
  shows "map_option sent (ForceCancelCommandOfUser True user p u t) =
    Some (sent t @ [Reply user p PRL_ERR_SUCCESS,
      Reply (m_pUser (objs t i)) (m_requestPkg (objs t i)) PET_DSP_EVT_SMC_CANCEL_USER_COMMAND, Reply user p PRL_ERR_SUCCESS])"
  using assms by (simp add: ForceCancelCommandOfUser_def cancelOperation.simps [of i] support_cancelOperation_def
      Let_def send_def on_task_def)

text \<open>A task is taken over only by a session that follows the one it belongs to.\<close>

lemma attach_needs_previous_session:
  assumes "findTaskByUuid u t = Some i"
  shows "m_pUser (objs (attachToLostTask user p (Some u) t) i) =
    (if client_handle (m_pUser (objs t i)) = prev_session user then user else m_pUser (objs t i))"
  using assms by (simp add: attachToLostTask_def reassignTask_def frame_simps reassigned_task)


section \<open>Properties\<close>

definition example_login :: "client \<Rightarrow> auth_env" where
  "example_login c = \<lparr>server_stopping = False, init_completed = True, first_phase = True, trusted_handle = False,
     max_logon_actions = 10, user_login = (Some c, False), local_login = None, key_authorized = False,
     key_client = c, preferences_filled = True, encrypted_session = Inr [], handled_by_vz_helper = False, logic_guard = PRL_ERR_SUCCESS\<rparr>"

definition alice :: client where "alice = \<lparr>client_ptr = 1, client_handle = ''a'', prev_session = []\<rparr>"

definition alice_in :: client_manager where
  "alice_in = snd (processAuthorize_end (example_login alice) ''a''
     \<lparr>login_valid = True, login_rsa_keys = False, login_prev_session = []\<rparr> client_init)"

lemma alice_in: "auth_reachable alice_in" "getUserSession ''a'' alice_in = Some alice" "in_progress alice_in = {}"
proof -
  show "auth_reachable alice_in"
    unfolding alice_in_def
    by (rule auth_reachable.authorize_end [OF auth_reachable.init])
      (simp add: example_login_def alice_def new_client_def known_clients_def client_init_def)
  show "getUserSession ''a'' alice_in = Some alice" "in_progress alice_in = {}"
    by (simp_all add: alice_in_def processAuthorize_end_def example_login_def getUserSession_def client_init_def
        enter_session_def logged_def erase_preauthorized_def guard_release_def Let_def)
qed

text \<open>C26. A command is handed on, to a VM operation or to the helper for containers, only for a connection with a session whose client was authenticated by
  password or as a local user, or whose key was authorized and whose session uuid, which it got
  encrypted with that key, somebody presented.\<close>

theorem commands_are_authorized:
  assumes "auth_reachable s" "e = Dispatch h c cmd \<or> e = ToVzHelper h c cmd"
    "e \<in> set (handleToDispatcherPackage E h' cmd s)"
  shows "h = h' \<and> getUserSession h s = Some c \<and> init_completed E \<and>
    (Authenticated c \<in> set (auth_log s) \<or>
     KeyAuthorized c \<in> set (auth_log s) \<and> Presented (client_handle c) \<in> set (auth_log s))"
proof -
  have d: "h = h'" "getUserSession h s = Some c" "cliExists h s" "init_completed E"
    using assms(2,3) by (auto simp: handleToDispatcherPackage_def split: if_splits option.splits)
  then have "(h, c) \<in> set (m_clients s)" "client_ptr c \<notin> in_progress s"
    by (auto simp: getUserSession_def cliExists_def dest: map_of_SomeD)
  with authz_ok_reachable [OF assms(1)] have "proved s c" by (auto simp: authz_ok_def)
  with d show ?thesis by (simp add: proved_def)
qed

lemma commands_are_authorized_witness:
  "Authenticated alice \<in> set (auth_log alice_in) \<or> Presented ''a'' \<in> set (auth_log alice_in)"
proof -
  have "Dispatch ''a'' alice AllHostUsers \<in> set (handleToDispatcherPackage (example_login alice) ''a'' AllHostUsers alice_in)"
    using alice_in by (simp add: handleToDispatcherPackage_def cliExists_def example_login_def)
  from commands_are_authorized [OF alice_in(1) disjI1 [OF refl] this] show ?thesis by (auto simp: alice_def)
qed



end
