(* ===== verification/ValidationCodes.thy ===== *)
theory ValidationCodes
  imports PrlResult
begin

text \<open>
  The result codes that the validation of a configuration names.  \<open>VResult\<close> stands for the general
  codes.  The enumeration is declared in an SDK header that is not part of the repository; only the
  distinctness of its members is used.
\<close>

datatype (plugins only: size) vcode =
    PRL_ERR_CANT_START_VM_SINCE_NO_VTD_DRIVER
  | PRL_ERR_CANT_START_VM_SINCE_VTD_DEVICE_ALREADY_USED | PRL_ERR_INVALID_MEMORY_GUARANTEE
  | PRL_ERR_REMOTE_DISPLAY_WRONG_PORT_NUMBER | PRL_ERR_UNIMPLEMENTED
  | PRL_ERR_UNSUPPORTED_DEVICE_TYPE | PRL_ERR_VMCONF_BOOTCAMP_HARD_DISK_SMART_GUARD_NOT_ALLOW
  | PRL_ERR_VMCONF_BOOT_OPTION_DEVICE_NOT_EXISTS | PRL_ERR_VMCONF_BOOT_OPTION_DUPLICATE_DEVICE
  | PRL_ERR_VMCONF_BOOT_OPTION_INVALID_DEVICE_TYPE
  | PRL_ERR_VMCONF_CD_DVD_ROM_DUPLICATE_SYS_NAME | PRL_ERR_VMCONF_CD_DVD_ROM_IMAGE_IS_NOT_EXIST
  | PRL_ERR_VMCONF_CD_DVD_ROM_SET_SATA_FOR_OLD_CHIPSET
  | PRL_ERR_VMCONF_CD_DVD_ROM_SET_SATA_FOR_UNSUPPORTED_OS
  | PRL_ERR_VMCONF_CD_DVD_ROM_URL_FORMAT_SYS_NAME | PRL_ERR_VMCONF_CPULIMIT_NOT_SUPPORTED
  | PRL_ERR_VMCONF_CPUUNITS_NOT_SUPPORTED | PRL_ERR_VMCONF_CPU_COUNT_MORE_HOST_CPU_COUNT
  | PRL_ERR_VMCONF_CPU_COUNT_MORE_MAX_CPU_COUNT | PRL_ERR_VMCONF_CPU_MASK_INVALID
  | PRL_ERR_VMCONF_CPU_MASK_INVALID_CPU_NUM | PRL_ERR_VMCONF_CPU_NODE_MASK_INVALID
  | PRL_ERR_VMCONF_CPU_ZERO_COUNT | PRL_ERR_VMCONF_DESKTOP_MODE_REMOTE_DEVICES
  | PRL_ERR_VMCONF_DUPLICATE_IP_ADDRESS | PRL_ERR_VMCONF_EFI_UNSUPPORTED_GUEST
  | PRL_ERR_VMCONF_FLOPPY_DISK_IMAGE_IS_NOT_EXIST
  | PRL_ERR_VMCONF_FLOPPY_DISK_IS_NOT_ACCESSIBLE
  | PRL_ERR_VMCONF_FLOPPY_DISK_SYS_NAME_HAS_INVALID_SYMBOL
  | PRL_ERR_VMCONF_FLOPPY_DISK_SYS_NAME_IS_EMPTY
  | PRL_ERR_VMCONF_FLOPPY_DISK_URL_FORMAT_SYS_NAME
  | PRL_ERR_VMCONF_GENERIC_PCI_DEVICE_DUPLICATE_IN_ANOTHER_VM
  | PRL_ERR_VMCONF_GENERIC_PCI_DEVICE_NOT_CONNECTED
  | PRL_ERR_VMCONF_GENERIC_PCI_DEVICE_NOT_FOUND | PRL_ERR_VMCONF_GENERIC_PCI_DUPLICATE_SYS_NAME
  | PRL_ERR_VMCONF_GENERIC_PCI_VIDEO_WRONG_COUNT | PRL_ERR_VMCONF_GENERIC_PCI_WRONG_DEVICE
  | PRL_ERR_VMCONF_HARD_DISK_DUPLICATE_SYS_NAME | PRL_ERR_VMCONF_HARD_DISK_IMAGE_IS_NOT_EXIST
  | PRL_ERR_VMCONF_HARD_DISK_IMAGE_IS_NOT_VALID | PRL_ERR_VMCONF_HARD_DISK_SERIAL_IS_NOT_VALID
  | PRL_ERR_VMCONF_HARD_DISK_SET_SATA_FOR_OLD_CHIPSET
  | PRL_ERR_VMCONF_HARD_DISK_SET_SATA_FOR_UNSUPPORTED_OS
  | PRL_ERR_VMCONF_HARD_DISK_SYS_NAME_HAS_INVALID_SYMBOL
  | PRL_ERR_VMCONF_HARD_DISK_SYS_NAME_IS_EMPTY
  | PRL_ERR_VMCONF_HARD_DISK_UNABLE_DELETE_DISK_WITH_SNAPSHOTS
  | PRL_ERR_VMCONF_HARD_DISK_URL_FORMAT_SYS_NAME
  | PRL_ERR_VMCONF_IDE_DEVICES_COUNT_OUT_OF_RANGE
  | PRL_ERR_VMCONF_IDE_DEVICES_DUPLICATE_STACK_INDEX
  | PRL_ERR_VMCONF_INCOMPAT_HARD_DISK_SMART_GUARD_NOT_ALLOW
  | PRL_ERR_VMCONF_INVALID_DEVICE_MAIN_INDEX | PRL_ERR_VMCONF_IOLIMIT_NOT_SUPPORTED
  | PRL_ERR_VMCONF_IOPRIO_NOT_SUPPORTED | PRL_ERR_VMCONF_IOPSLIMIT_NOT_SUPPORTED
  | PRL_ERR_VMCONF_MAIN_MEMORY_MAX_BALLOON_SIZE_MORE_100_PERCENT
  | PRL_ERR_VMCONF_MAIN_MEMORY_MQ_INVALID_RANGE
  | PRL_ERR_VMCONF_MAIN_MEMORY_MQ_MIN_LESS_VMM_OVERHEAD_VALUE
  | PRL_ERR_VMCONF_MAIN_MEMORY_MQ_MIN_OUT_OF_RANGE
  | PRL_ERR_VMCONF_MAIN_MEMORY_MQ_PRIOR_OUT_OF_RANGE | PRL_ERR_VMCONF_MAIN_MEMORY_MQ_PRIOR_ZERO
  | PRL_ERR_VMCONF_MAIN_MEMORY_NOT_4_RATIO_SIZE | PRL_ERR_VMCONF_MAIN_MEMORY_OUT_OF_RANGE
  | PRL_ERR_VMCONF_MAIN_MEMORY_SIZE_NOT_EAQUAL_RECOMMENDED
  | PRL_ERR_VMCONF_MAIN_MEMORY_ZERO_SIZE | PRL_ERR_VMCONF_NETWORK_ADAPTER_BROADCAST_IP_ADDRESS
  | PRL_ERR_VMCONF_NETWORK_ADAPTER_DUPLICATE_IP_ADDRESS
  | PRL_ERR_VMCONF_NETWORK_ADAPTER_DUPLICATE_MAC_ADDRESS
  | PRL_ERR_VMCONF_NETWORK_ADAPTER_GATEWAY_NOT_IN_SUBNET
  | PRL_ERR_VMCONF_NETWORK_ADAPTER_INVALID_DNS_IP_ADDRESS
  | PRL_ERR_VMCONF_NETWORK_ADAPTER_INVALID_GATEWAY_IP_ADDRESS
  | PRL_ERR_VMCONF_NETWORK_ADAPTER_INVALID_IP_ADDRESS
  | PRL_ERR_VMCONF_NETWORK_ADAPTER_INVALID_MAC_ADDRESS
  | PRL_ERR_VMCONF_NETWORK_ADAPTER_INVALID_SEARCH_DOMAIN_NAME
  | PRL_ERR_VMCONF_NETWORK_ADAPTER_MULTICAST_IP_ADDRESS
  | PRL_ERR_VMCONF_NETWORK_ADAPTER_ROUTED_NO_STATIC_ADDRESS
  | PRL_ERR_VMCONF_NETWORK_INCONSISTENT_FILTERS | PRL_ERR_VMCONF_NETWORK_INVALID_IP_ADDRESS
  | PRL_ERR_VMCONF_NETWORK_INVALID_PORT_NUMBER | PRL_ERR_VMCONF_NETWORK_PORT_NOT_USED
  | PRL_ERR_VMCONF_NETWORK_UNSUPPORTED_PROTOCOL
  | PRL_ERR_VMCONF_NO_CONFIGURED_TOTALRATE_FOR_NETWORK_CLASS
  | PRL_ERR_VMCONF_NUMANODES_CPU_HOTPLUG | PRL_ERR_VMCONF_NUMANODES_INCONSISTENT_WITH_CPU
  | PRL_ERR_VMCONF_NUMANODES_MEMORY_HOTPLUG | PRL_ERR_VMCONF_NUMANODES_NUMBER_NOT_SUPPORTED
  | PRL_ERR_VMCONF_REMOTE_DISPLAY_EMPTY_PASSWORD
  | PRL_ERR_VMCONF_REMOTE_DISPLAY_INVALID_HOST_IP_ADDRESS
  | PRL_ERR_VMCONF_REMOTE_DISPLAY_PASSWORD_TOO_LONG
  | PRL_ERR_VMCONF_SATA_DEVICES_COUNT_OUT_OF_RANGE
  | PRL_ERR_VMCONF_SATA_DEVICES_DUPLICATE_STACK_INDEX
  | PRL_ERR_VMCONF_SCSI_DEVICES_COUNT_OUT_OF_RANGE
  | PRL_ERR_VMCONF_SCSI_DEVICES_DUPLICATE_STACK_INDEX
  | PRL_ERR_VMCONF_SCSI_HYPERV_LINUX_NOT_SUPPORTED
  | PRL_ERR_VMCONF_SERIAL_PORT_IMAGE_IS_NOT_EXIST
  | PRL_ERR_VMCONF_SERIAL_PORT_SYS_NAME_HAS_INVALID_SYMBOL
  | PRL_ERR_VMCONF_SERIAL_PORT_SYS_NAME_IS_EMPTY
  | PRL_ERR_VMCONF_SERIAL_PORT_URL_FORMAT_SYS_NAME
  | PRL_ERR_VMCONF_SHARED_FOLDERS_DUPLICATE_FOLDER_NAME
  | PRL_ERR_VMCONF_SHARED_FOLDERS_DUPLICATE_FOLDER_PATH
  | PRL_ERR_VMCONF_SHARED_FOLDERS_EMPTY_FOLDER_NAME
  | PRL_ERR_VMCONF_SHARED_FOLDERS_INVALID_FOLDER_PATH | PRL_ERR_VMCONF_UNKNOWN_OS_TYPE
  | PRL_ERR_VMCONF_UNKNOWN_OS_VERSION | PRL_ERR_VMCONF_VALIDATION_FAILED
  | PRL_ERR_VMCONF_VIDEO_MEMORY_OUT_OF_RANGE | PRL_ERR_VMCONF_VIDEO_NOT_ENABLED
  | PRL_ERR_VMCONF_VIRTIO_BLOCK_DEVICES_DUPLICATE_STACK_INDEX
  | PRL_ERR_VMCONF_VM_NAME_HAS_INVALID_SYMBOL | PRL_ERR_VMCONF_VM_NAME_IS_EMPTY
  | PRL_ERR_VMCONF_VM_NAME_IS_TOO_LONG | PRL_WARN_NESTED_VIRT_NOT_ENABLED | VResult prl_result

end
