(* ===== verification/VmConfig.thy ===== *)
theory VmConfig
  imports Prelude ValidationCodes "HOL-Library.Word"
begin

text \<open>
  The configuration of a VM as \<^verbatim>\<open>CVmValidateConfig.cpp\<close> reads it.  The classes are generated in
  the SDK, outside the repository: each is a record with the fields the code reads.  Lists of
  devices have no null entries, as the parser of the SDK makes them.

  Every element of a configuration has an identifier, \<^verbatim>\<open>getFullItemId()\<close>, and every field of it one,
  \<^verbatim>\<open>getX_id()\<close>; validation uses them to tell which errors belong to a change.  The elements that
  occur once are identified by their class.
\<close>

type_synonym uint = "32 word"

datatype device_state = DeviceDisabled | DeviceEnabled
datatype connection = DeviceDisconnected | DeviceConnected

text \<open>The members of the enumerations that the code names; a number stands for the others.\<close>

datatype emulated_type =
    RealFloppyDisk | FloppyDiskImage | RealCdRom | CdRomImage | HardDiskImage | SerialOutputFile
  | PDT_USE_DIRECT_ASSIGN | PNA_ROUTED | OtherEmulatedType nat

datatype interface_type =
    PMS_IDE_DEVICE | PMS_SCSI_DEVICE | PMS_SATA_DEVICE | PMS_VIRTIO_BLOCK_DEVICE | OtherInterface nat

datatype device_type =
    PDE_FLOPPY_DISK | PDE_OPTICAL_DISK | PDE_HARD_DISK | PDE_GENERIC_NETWORK_ADAPTER | PDE_USB_DEVICE
  | PDE_SERIAL_PORT | PDE_PARALLEL_PORT | PDE_SOUND_DEVICE | PDE_GENERIC_SCSI_DEVICE
  | PDE_GENERIC_PCI_DEVICE | PDE_PCI_VIDEO_ADAPTER | OtherDevice nat

datatype guest_type =
    PVS_GUEST_TYPE_MACOS | PVS_GUEST_TYPE_WINDOWS | PVS_GUEST_TYPE_LINUX | PVS_GUEST_TYPE_FREEBSD
  | PVS_GUEST_TYPE_OS2 | PVS_GUEST_TYPE_MSDOS | PVS_GUEST_TYPE_NETWARE | PVS_GUEST_TYPE_SOLARIS
  | PVS_GUEST_TYPE_CHROMEOS | PVS_GUEST_TYPE_ANDROID | PVS_GUEST_TYPE_OTHER | OtherGuestType nat

datatype pci_class = PGD_PCI_NETWORK | PGD_PCI_DISPLAY | PGD_PCI_SOUND | PGD_PCI_OTHER | OtherPciClass nat

datatype guarantee_type = PRL_MEMGUARANTEE_AUTO | PRL_MEMGUARANTEE_PERCENTS
datatype display_mode = PRD_DISABLED | PRD_MANUAL | PRD_AUTO
datatype vm_type = PVT_VM | PVT_CT


section \<open>Devices\<close>

record vm_device =
  full_id :: qstring
  item_id :: int
  dev_index :: uint
  enabled :: device_state
  connected :: connection
  emulated_type :: emulated_type
  system_name :: qstring
  friendly_name :: qstring
  remote :: bool
  device_type :: device_type

record mass_device = vm_device +
  interface_type :: interface_type
  stack_index :: uint
  hyper_v_scsi :: bool

text \<open>\<open>backup_url\<close> tells that the storage URL is valid and has the scheme \<^verbatim>\<open>backup\<close>.\<close>

record hard_disk = mass_device +
  expanding :: bool
  serial_number :: qstring
  backup_url :: bool

record firewall_rule =
  rule_id :: qstring
  protocol :: qstring
  local_address :: qstring
  remote_address :: qstring
  local_port :: uint
  remote_port :: uint

record pkt_filter =
  filter_id :: qstring
  filter_ref :: qstring
  prevent_ip_spoof :: bool
  prevent_mac_spoof :: bool
  prevent_promisc :: bool

record network_adapter = vm_device +
  hyper_v_adapter :: bool
  mac_address :: qstring
  static_address :: bool
  auto_apply :: bool
  configure_with_dhcp :: bool
  configure_with_dhcp_v6 :: bool
  default_gateway :: qstring
  net_addresses :: "qstring list"
  dns_addresses :: "qstring list"
  search_domains :: "qstring list"
  packet_filter :: pkt_filter
  incoming_rules :: "firewall_rule list"
  outgoing_rules :: "firewall_rule list"


section \<open>Hardware and settings\<close>

record cpu =
  cpu_number :: uint
  sockets :: uint
  cpu_units :: uint
  cpu_limit :: uint
  cpu_limit_type :: uint
  cpu_limit_value :: uint
  cpu_mask :: qstring
  node_mask :: qstring
  virtualized_hv :: bool
  cpu_hotplug :: bool
  numa_nodes :: uint

record memory =
  ram_size :: uint
  mem_guarantee_type :: guarantee_type
  mem_guarantee :: uint
  memory_hotplug :: bool

record video =
  video_enabled :: bool
  video_memory :: uint

record hardware =
  hw_cpu :: cpu
  hw_memory :: memory
  hw_video :: video
  chipset_type :: uint
  m_lstFloppyDisks :: "vm_device list"
  m_lstOpticalDisks :: "mass_device list"
  m_lstHardDisks :: "hard_disk list"
  m_lstNetworkAdapters :: "network_adapter list"
  m_lstUsbDevices :: "vm_device list"
  m_lstSerialPorts :: "vm_device list"
  m_lstParallelPorts :: "vm_device list"
  m_lstSoundDevices :: "vm_device list"
  m_lstGenericScsiDevices :: "mass_device list"
  m_lstGenericPciDevices :: "vm_device list"
  m_lstPciVideoAdapters :: "vm_device list"

record boot_device =
  boot_id :: qstring
  boot_type :: device_type
  boot_index :: uint

record remote_display =
  display_mode :: display_mode
  port_number :: uint
  host_name :: qstring
  password :: qstring

record shared_folder =
  folder_id :: qstring
  folder_enabled :: bool
  folder_name :: qstring
  folder_path :: qstring

record network_rate =
  rate_id :: qstring
  rate_item_id :: int
  rate_class :: uint

record settings =
  is_template :: bool
  os_type :: guest_type
  os_version :: uint
  undo_disks_disabled :: bool
  io_priority :: uint
  efi_enabled :: bool
  m_lstBootDevice :: "boot_device list"
  display :: remote_display
  user_folders_enabled :: bool
  m_lstSharedFolders :: "shared_folder list"
  m_lstNetworkRates :: "network_rate list"

record vm_config =
  vm_name :: qstring
  vm_uuid :: uuid
  vm_type :: vm_type
  hw_list :: hardware
  vm_settings :: settings


section \<open>The lists of devices by type\<close>

text \<open>
  \<^verbatim>\<open>m_aDeviceLists\<close> of the SDK: a type of devices gives its list, or none.  A device seen through
  this list is a plain device, and if its class is one of mass storage it has an interface.
\<close>

definition plain :: "'a vm_device_scheme \<Rightarrow> vm_device \<times> interface_type option" where
  "plain d = (vm_device.truncate d, None)"

definition mass :: "'a mass_device_scheme \<Rightarrow> vm_device \<times> interface_type option" where
  "mass d = (vm_device.truncate d, Some (interface_type d))"

fun m_aDeviceLists :: "hardware \<Rightarrow> device_type \<Rightarrow> (vm_device \<times> interface_type option) list option" where
  "m_aDeviceLists h PDE_FLOPPY_DISK = Some (map plain (m_lstFloppyDisks h))"
| "m_aDeviceLists h PDE_OPTICAL_DISK = Some (map mass (m_lstOpticalDisks h))"
| "m_aDeviceLists h PDE_HARD_DISK = Some (map mass (m_lstHardDisks h))"
| "m_aDeviceLists h PDE_GENERIC_NETWORK_ADAPTER = Some (map plain (m_lstNetworkAdapters h))"
| "m_aDeviceLists h PDE_USB_DEVICE = Some (map plain (m_lstUsbDevices h))"
| "m_aDeviceLists h PDE_SERIAL_PORT = Some (map plain (m_lstSerialPorts h))"
| "m_aDeviceLists h PDE_PARALLEL_PORT = Some (map plain (m_lstParallelPorts h))"
| "m_aDeviceLists h PDE_SOUND_DEVICE = Some (map plain (m_lstSoundDevices h))"
| "m_aDeviceLists h PDE_GENERIC_SCSI_DEVICE = Some (map mass (m_lstGenericScsiDevices h))"
| "m_aDeviceLists h PDE_GENERIC_PCI_DEVICE = Some (map plain (m_lstGenericPciDevices h))"
| "m_aDeviceLists h PDE_PCI_VIDEO_ADAPTER = Some (map plain (m_lstPciVideoAdapters h))"
| "m_aDeviceLists h (OtherDevice n) = None"

text \<open>The types that have a list; the order of the enumeration only orders the errors.\<close>

definition listed_types :: "device_type list" where
  "listed_types = [PDE_FLOPPY_DISK, PDE_OPTICAL_DISK, PDE_HARD_DISK, PDE_GENERIC_NETWORK_ADAPTER, PDE_USB_DEVICE,
     PDE_SERIAL_PORT, PDE_PARALLEL_PORT, PDE_SOUND_DEVICE, PDE_GENERIC_SCSI_DEVICE, PDE_GENERIC_PCI_DEVICE,
     PDE_PCI_VIDEO_ADAPTER]"

lemma listed_types: "t \<in> set listed_types \<longleftrightarrow> m_aDeviceLists h t \<noteq> None"
  by (cases t) (simp_all add: listed_types_def)

lemma plain_fields [simp]:
  "dev_index (fst (plain d)) = dev_index d" "full_id (fst (plain d)) = full_id d" "snd (plain d) = None"
  by (simp_all add: plain_def vm_device.truncate_def)

lemma mass_fields [simp]:
  "dev_index (fst (mass d)) = dev_index d" "full_id (fst (mass d)) = full_id d" "snd (mass d) = Some (interface_type d)"
  by (simp_all add: mass_def vm_device.truncate_def)

end
