(* ===== verification/ConfigChecks.thy ===== *)
theory ConfigChecks
  imports VmConfig
begin

text \<open>
  The checks of \<^verbatim>\<open>CVmValidateConfig.cpp\<close> on single parts of a configuration: names, system and
  boot options, the remote display, shared folders, processors, memory.

  A check only writes: it appends a code to \<^verbatim>\<open>m_lstResults\<close>, or inserts what belongs to the last
  code into a map under the number of codes so far.  So a check is the list of these writes, its
  \<open>entry\<close>s, and \<open>record_entry\<close> says what a write does.  The theory \<open>VmValidation\<close> runs them.

  What the code asks of the host, the SDK and Qt is the record \<open>validation_env\<close>.
\<close>

section \<open>Results\<close>

datatype entry =
    Error vcode
  | Params "qstring list"
  | DevInfo uint int
  | PciClass pci_class
  | ADD_FID "qstring set"

record validation =
  m_lstResults :: "vcode list"
  m_mapParameters :: "nat \<Rightarrow> qstring list option"
  m_mapDevInfo :: "nat \<Rightarrow> (uint \<times> int) option"
  m_mapPciDevClasses :: "nat \<Rightarrow> pci_class option"
  m_mapFullItemIds :: "nat \<Rightarrow> qstring set option"

fun record_entry :: "entry \<Rightarrow> 'a validation_scheme \<Rightarrow> 'a validation_scheme" where
  "record_entry (Error e) v = v\<lparr>m_lstResults := m_lstResults v @ [e]\<rparr>"
| "record_entry (Params ps) v = v\<lparr>m_mapParameters := (m_mapParameters v)(length (m_lstResults v) \<mapsto> ps)\<rparr>"
| "record_entry (DevInfo i k) v = v\<lparr>m_mapDevInfo := (m_mapDevInfo v)(length (m_lstResults v) \<mapsto> (i, k))\<rparr>"
| "record_entry (PciClass c) v = v\<lparr>m_mapPciDevClasses := (m_mapPciDevClasses v)(length (m_lstResults v) \<mapsto> c)\<rparr>"
| "record_entry (ADD_FID ids) v = v\<lparr>m_mapFullItemIds := (m_mapFullItemIds v)(length (m_lstResults v) \<mapsto> ids)\<rparr>"

text \<open>The code appended when a condition holds, with what is inserted for it.\<close>

definition report :: "bool \<Rightarrow> vcode \<Rightarrow> entry list \<Rightarrow> entry list" where
  "report b e es = (if b then Error e # es else [])"

definition codes :: "entry list \<Rightarrow> vcode set" where
  "codes es = {e. Error e \<in> set es}"

lemma codes_simps [simp]:
  "codes [] = {}" "codes (es @ fs) = codes es \<union> codes fs" "codes (Error e # es) = insert e (codes es)"
  "codes (Params ps # es) = codes es" "codes (DevInfo i k # es) = codes es" "codes (PciClass c # es) = codes es"
  "codes (ADD_FID ids # es) = codes es" "codes (concat ess) = (\<Union>es \<in> set ess. codes es)"
  "codes (if b then es else fs) = (if b then codes es else codes fs)"
  by (auto simp: codes_def)

lemma codes_report [simp]: "codes (report b e es) = (if b then insert e (codes es) else {})"
  by (simp add: report_def)


section \<open>The environment\<close>

record pci_host_device =
  pci_device_id :: qstring
  pci_name :: qstring
  pci_type :: pci_class

record host_hardware =
  host_cpus :: uint
  host_has_floppy :: bool
  host_pci :: "pci_host_device list"

datatype vm_run_state = VMS_STOPPED | VMS_SUSPENDED | OtherRunState nat

record listed_vm =
  listed_uuid :: uuid
  listed_config :: "vm_config option"
  listed_state :: vm_run_state

record validation_env =
  field :: "qstring \<Rightarrow> string \<Rightarrow> qstring"
  max_pass_len :: nat
  max_cpu_count :: uint
  vm_min_mem :: uint
  vm_min_video_mem :: uint
  vm_max_video_mem :: uint
  max_ide :: nat
  max_sata :: nat
  max_scsi :: nat
  max_device_index :: uint
  valid_os_version :: "guest_type \<Rightarrow> uint \<Rightarrow> bool"
  win_2008 :: uint
  hyperv_supported :: "uint \<Rightarrow> bool"
  min_recommended_memory :: "uint \<Rightarrow> uint"
  sata_for_chipset :: "uint \<Rightarrow> bool"
  sata_for_os :: "guest_type \<Rightarrow> uint \<Rightarrow> bool"
  invalid_path_symbols :: "char set"
  dir_exists :: "qstring \<Rightarrow> bool"
  file_exists :: "qstring \<Rightarrow> bool"
  is_remote_path :: "qstring \<Rightarrow> bool"
  qcow2_valid :: "qstring \<Rightarrow> bool"
  serial_valid :: "qstring \<Rightarrow> bool"
  is_address :: "qstring \<Rightarrow> bool"
  is_subnet :: "qstring \<Rightarrow> bool"
  parse_ip :: "qstring \<Rightarrow> qstring option"
  parse_ip_mask :: "qstring \<Rightarrow> (qstring \<times> qstring) option"
  host_address :: "qstring \<Rightarrow> nat"
  to_ipv4 :: "nat \<Rightarrow> uint"
  address_text :: "nat \<Rightarrow> qstring"
  hash_order :: "nat set \<Rightarrow> nat list"
  mac_valid :: "qstring \<Rightarrow> bool"
  find_adapter :: "network_adapter \<Rightarrow> network_adapter list \<Rightarrow> network_adapter option"
  to_lower :: "qstring \<Rightarrow> qstring"
  to_upper :: "qstring \<Rightarrow> qstring"
  parse_cpu_mask :: "qstring \<Rightarrow> uint \<Rightarrow> uint option"
  parse_node_mask :: "qstring \<Rightarrow> bool"
  nested_parameter :: "qstring \<Rightarrow> qstring option"
  server_mode :: bool
  vz_running :: int
  host_info :: "host_hardware option"
  max_vcpu :: uint
  max_vm_memory :: uint
  recommended_max_memory :: uint
  min_port :: uint
  shaping_classes :: "uint list"
  listed_vms :: "listed_vm list"
  other_ves :: "vm_config list"
  old_config :: "prl_result + vm_config"
  diff_documents :: "vm_config \<Rightarrow> vm_config \<Rightarrow> qstring set"

text \<open>\<^verbatim>\<open>QString::number\<close>\<close>

fun number :: "nat \<Rightarrow> qstring" where
  "number n = (if n < 10 then [char_of (48 + n)] else number (n div 10) @ [char_of (48 + n mod 10)])"

declare number.simps [simp del]

definition unumber :: "uint \<Rightarrow> qstring" where "unumber w = number (unat w)"

definition device_number :: "'a vm_device_scheme \<Rightarrow> qstring" where
  "device_number d = unumber (dev_index d + 1)"

definition dev_info :: "'a vm_device_scheme \<Rightarrow> entry" where
  "dev_info d = DevInfo (dev_index d) (item_id d)"

definition starts_with :: "string \<Rightarrow> string \<Rightarrow> bool" where
  "starts_with p s \<longleftrightarrow> take (length p) s = p"

lemma codes_dev_info [simp]: "codes (dev_info d # es) = codes es"
  by (simp add: dev_info_def)


section \<open>General parameters\<close>

text \<open>
  The table of \<^verbatim>\<open>Traits\<close>: for each kind of problem its test with the parameters it gives, the
  fields it is about, and its code.
\<close>

datatype problem = VmNameEmpty | VmNameInvalidSymbols | VmNameLength | MemGuarateeValue | RemoteDesktopPassword

definition problem_types :: "problem list" where
  "problem_types = [VmNameEmpty, VmNameInvalidSymbols, VmNameLength, MemGuarateeValue, RemoteDesktopPassword]"

text \<open>In the class of the regular expression \<^verbatim>\<open>\/\<close> is a quoted slash; a backslash is not in it.\<close>

definition name_symbols :: "char set" where
  "name_symbols = set ''/:*?\"<>|%''"

fun traits_check :: "validation_env \<Rightarrow> vm_config \<Rightarrow> problem \<Rightarrow> qstring list option" where
  "traits_check E c VmNameEmpty = (if vm_name c \<noteq> [] then None else Some [])"
| "traits_check E c VmNameInvalidSymbols =
     (if \<not> (\<exists>x \<in> set (vm_name c). x \<in> name_symbols) then None else Some [vm_name c])"
| "traits_check E c VmNameLength = (if length (vm_name c) \<le> 40 then None else Some [number 40])"
| "traits_check E c MemGuarateeValue =
     (case mem_guarantee_type (hw_memory (hw_list c)) of
        PRL_MEMGUARANTEE_PERCENTS \<Rightarrow> if 100 < mem_guarantee (hw_memory (hw_list c)) then Some [] else None
      | PRL_MEMGUARANTEE_AUTO \<Rightarrow> None)"
| "traits_check E c RemoteDesktopPassword =
     (if length (password (display (vm_settings c))) \<le> max_pass_len E then None else Some [number (max_pass_len E)])"

fun traits_getIds :: "validation_env \<Rightarrow> problem \<Rightarrow> qstring set" where
  "traits_getIds E VmNameEmpty = {field E ''CVmIdentification'' ''VmName''}"
| "traits_getIds E VmNameInvalidSymbols = {field E ''CVmIdentification'' ''VmName''}"
| "traits_getIds E VmNameLength = {field E ''CVmIdentification'' ''VmName''}"
| "traits_getIds E MemGuarateeValue = {field E ''CVmMemory'' ''MemGuarantee''}"
| "traits_getIds E RemoteDesktopPassword = {field E ''CVmRemoteDisplay'' ''Password''}"

fun traits_getError :: "problem \<Rightarrow> vcode" where
  "traits_getError VmNameEmpty = PRL_ERR_VMCONF_VM_NAME_IS_EMPTY"
| "traits_getError VmNameInvalidSymbols = PRL_ERR_VMCONF_VM_NAME_HAS_INVALID_SYMBOL"
| "traits_getError VmNameLength = PRL_ERR_VMCONF_VM_NAME_IS_TOO_LONG"
| "traits_getError MemGuarateeValue = PRL_ERR_INVALID_MEMORY_GUARANTEE"
| "traits_getError RemoteDesktopPassword = PRL_ERR_VMCONF_REMOTE_DISPLAY_PASSWORD_TOO_LONG"

definition sink :: "validation_env \<Rightarrow> vm_config \<Rightarrow> problem \<Rightarrow> entry list" where
  "sink E c p =
     (case traits_check E c p of
        None \<Rightarrow> []
      | Some ps \<Rightarrow> [Error (traits_getError p), ADD_FID (traits_getIds E p), Params ps])"

text \<open>
  The fields of the system are inserted after the switch in any case, under the number of the codes
  so far.
\<close>

definition check_os :: "validation_env \<Rightarrow> vm_config \<Rightarrow> entry list" where
  "check_os E c =
     (let t = os_type (vm_settings c); ver = os_version (vm_settings c)
      in (case t of
            OtherGuestType n \<Rightarrow> [Error PRL_ERR_VMCONF_UNKNOWN_OS_TYPE]
          | _ \<Rightarrow> report (\<not> valid_os_version E t ver) PRL_ERR_VMCONF_UNKNOWN_OS_VERSION [])
         @ [ADD_FID {field E ''CVmCommonOptions'' ''OsType'', field E ''CVmCommonOptions'' ''OsVersion''}])"

fun pci_video_ids :: "validation_env \<Rightarrow> vm_device list \<Rightarrow> bool \<times> qstring set" where
  "pci_video_ids E [] = (True, {})"
| "pci_video_ids E (a # as) =
     (if enabled a = DeviceEnabled then (False, {})
      else case pci_video_ids E as of (none, ids) \<Rightarrow> (none, {full_id a, field E (full_id a) ''Enabled''} \<union> ids))"

definition check_video_present :: "validation_env \<Rightarrow> vm_config \<Rightarrow> vm_config option \<Rightarrow> entry list" where
  "check_video_present E c old =
     (if video_enabled (hw_video (hw_list c)) then []
      else case pci_video_ids E (m_lstPciVideoAdapters (hw_list c)) of (none, ids) \<Rightarrow>
        report none PRL_ERR_VMCONF_VIDEO_NOT_ENABLED
          [ADD_FID ({field E ''CVmVideo'' ''Enabled''} \<union> ids \<union>
             (case old of None \<Rightarrow> {} | Some o' \<Rightarrow> full_id ` set (m_lstPciVideoAdapters (hw_list o'))))])"

definition check_vz_only :: "validation_env \<Rightarrow> vm_config \<Rightarrow> vm_config option \<Rightarrow> entry list" where
  "check_vz_only E c old =
     (case old of
        None \<Rightarrow> []
      | Some o' \<Rightarrow>
          if vz_running E \<noteq> 0 then []
          else let p = hw_cpu (hw_list c); q = hw_cpu (hw_list o') in
            report (cpu_units p \<noteq> cpu_units q) PRL_ERR_VMCONF_CPUUNITS_NOT_SUPPORTED
              [ADD_FID {field E ''CVmCpu'' ''CpuUnits''}]
            @ report (cpu_limit p \<noteq> cpu_limit q \<or> cpu_limit_type p \<noteq> cpu_limit_type q \<or>
                cpu_limit_value p \<noteq> cpu_limit_value q) PRL_ERR_VMCONF_CPULIMIT_NOT_SUPPORTED
              [ADD_FID {field E ''CVmCpu'' ''CpuLimit'', field E ''CVmCpu'' ''CpuLimitType'',
                 field E ''CVmCpu'' ''CpuLimitValue''}]
            @ report (io_priority (vm_settings c) \<noteq> io_priority (vm_settings o')) PRL_ERR_VMCONF_IOPRIO_NOT_SUPPORTED
              [ADD_FID {field E ''CVmRunTimeOptions'' ''IoPriority''}])"

definition CheckGeneralParameters :: "validation_env \<Rightarrow> vm_config \<Rightarrow> vm_config option \<Rightarrow> entry list" where
  "CheckGeneralParameters E c old =
     concat (map (sink E c) problem_types)
     @ check_os E c
     @ report (\<not> undo_disks_disabled (vm_settings c)) PRL_ERR_UNIMPLEMENTED []
     @ check_video_present E c old
     @ check_vz_only E c old"


section \<open>Boot options\<close>

definition bootable :: "device_type \<Rightarrow> bool" where
  "bootable t \<longleftrightarrow> t \<in> {PDE_FLOPPY_DISK, PDE_HARD_DISK, PDE_OPTICAL_DISK, PDE_GENERIC_NETWORK_ADAPTER, PDE_USB_DEVICE}"

text \<open>The search for the device; the fields of the devices it passes by.\<close>

fun find_boot_device :: "validation_env \<Rightarrow> uint \<Rightarrow> vm_device list \<Rightarrow> bool \<times> qstring set" where
  "find_boot_device E n [] = (False, {})"
| "find_boot_device E n (d # ds) =
     (if n = dev_index d then (True, {})
      else case find_boot_device E n ds of (ex, ids) \<Rightarrow> (ex, {full_id d, field E (full_id d) ''Index''} \<union> ids))"

definition devices_of :: "hardware \<Rightarrow> device_type \<Rightarrow> vm_device list" where
  "devices_of h t = (case m_aDeviceLists h t of None \<Rightarrow> [] | Some ds \<Rightarrow> map fst ds)"

definition check_boot_device :: "validation_env \<Rightarrow> vm_config \<Rightarrow> vm_config option \<Rightarrow> boot_device \<Rightarrow> entry list" where
  "check_boot_device E c old b =
     (if bootable (boot_type b)
      then case find_boot_device E (boot_index b) (devices_of (hw_list c) (boot_type b)) of (ex, ids) \<Rightarrow>
        report (\<not> ex) PRL_ERR_VMCONF_BOOT_OPTION_DEVICE_NOT_EXISTS
          [ADD_FID ({boot_id b, field E (boot_id b) ''Index''} \<union> ids \<union>
             (case old of None \<Rightarrow> {} | Some o' \<Rightarrow> full_id ` set (devices_of (hw_list o') (boot_type b))))]
      else [Error PRL_ERR_VMCONF_BOOT_OPTION_INVALID_DEVICE_TYPE, ADD_FID {field E (boot_id b) ''Type''}])"

fun check_boot_devices ::
  "validation_env \<Rightarrow> vm_config \<Rightarrow> vm_config option \<Rightarrow> (device_type \<times> uint) list \<Rightarrow> boot_device list \<Rightarrow> entry list" where
  "check_boot_devices E c old seen [] = []"
| "check_boot_devices E c old seen (b # bs) =
     check_boot_device E c old b
     @ report ((boot_type b, boot_index b) \<in> set seen) PRL_ERR_VMCONF_BOOT_OPTION_DUPLICATE_DEVICE
         [ADD_FID {field E (boot_id b) ''Index'', field E (boot_id b) ''Type''}]
     @ check_boot_devices E c old ((boot_type b, boot_index b) # seen) bs"

definition CheckBootOption :: "validation_env \<Rightarrow> vm_config \<Rightarrow> vm_config option \<Rightarrow> entry list" where
  "CheckBootOption E c old =
     check_boot_devices E c old [] (m_lstBootDevice (vm_settings c))
     @ report (os_type (vm_settings c) = PVS_GUEST_TYPE_WINDOWS \<and> os_version (vm_settings c) < win_2008 E \<and>
         efi_enabled (vm_settings c)) PRL_ERR_VMCONF_EFI_UNSUPPORTED_GUEST []"


section \<open>Remote display and shared folders\<close>

definition CheckRemoteDisplay :: "validation_env \<Rightarrow> vm_config \<Rightarrow> entry list" where
  "CheckRemoteDisplay E c =
     (let r = display (vm_settings c); f = field E ''CVmRemoteDisplay''
      in if display_mode r = PRD_DISABLED then []
         else report (display_mode r = PRD_MANUAL \<and> (port_number r < min_port E \<or> 65535 < port_number r))
                PRL_ERR_REMOTE_DISPLAY_WRONG_PORT_NUMBER
                [Params [unumber (min_port E), number 65535], ADD_FID {f ''Mode'', f ''PortNumber''}]
            @ report (\<not> is_address E (host_name r)) PRL_ERR_VMCONF_REMOTE_DISPLAY_INVALID_HOST_IP_ADDRESS
                [ADD_FID {f ''Mode'', f ''HostName''}]
            @ report (password r = []) PRL_ERR_VMCONF_REMOTE_DISPLAY_EMPTY_PASSWORD
                [ADD_FID {f ''Mode'', f ''Password''}])"

fun check_folders ::
  "validation_env \<Rightarrow> qstring set \<Rightarrow> qstring set \<Rightarrow> shared_folder list \<Rightarrow> entry list" where
  "check_folders E names paths [] = []"
| "check_folders E names paths (x # xs) =
     (if \<not> folder_enabled x then check_folders E names paths xs
      else
        let ids = {field E ''CVmHostSharing'' ''UserDefinedFoldersEnabled'', folder_id x, field E (folder_id x) ''Enabled''};
            name = to_lower E (folder_name x); path = folder_path x
        in (if name = []
            then [Error PRL_ERR_VMCONF_SHARED_FOLDERS_EMPTY_FOLDER_NAME, ADD_FID ({field E (folder_id x) ''Name''} \<union> ids)]
            else report (name \<in> names) PRL_ERR_VMCONF_SHARED_FOLDERS_DUPLICATE_FOLDER_NAME
                   [ADD_FID ({field E (folder_id x) ''Name''} \<union> ids)])
           @ report (\<not> dir_exists E path) PRL_ERR_VMCONF_SHARED_FOLDERS_INVALID_FOLDER_PATH
               [Params [name, path], ADD_FID ({field E (folder_id x) ''Path''} \<union> ids)]
           @ report (path \<in> paths) PRL_ERR_VMCONF_SHARED_FOLDERS_DUPLICATE_FOLDER_PATH
               [ADD_FID ({field E (folder_id x) ''Path''} \<union> ids)]
           @ check_folders E (insert name names) (insert path paths) xs)"

definition CheckSharedFolders :: "validation_env \<Rightarrow> vm_config \<Rightarrow> entry list" where
  "CheckSharedFolders E c =
     (if \<not> user_folders_enabled (vm_settings c) then []
      else check_folders E {} {} (m_lstSharedFolders (vm_settings c)))"


section \<open>Processors\<close>

definition CheckNumaNodes :: "validation_env \<Rightarrow> vm_config \<Rightarrow> entry list" where
  "CheckNumaNodes E c =
     (let p = hw_cpu (hw_list c); n = numa_nodes p; f = field E ''CVmCpu''
      in if n < 2 then []
         else report (cpu_hotplug p) PRL_ERR_VMCONF_NUMANODES_CPU_HOTPLUG
                [ADD_FID {f ''NumaNodes'', f ''EnableHotplug''}]
            @ report (memory_hotplug (hw_memory (hw_list c))) PRL_ERR_VMCONF_NUMANODES_MEMORY_HOTPLUG
                [ADD_FID {f ''NumaNodes'', field E ''CVmMemory'' ''EnableHotplug''}]
            @ report (and n (n - 1) \<noteq> 0) PRL_ERR_VMCONF_NUMANODES_NUMBER_NOT_SUPPORTED
                [Params [unumber n], ADD_FID {f ''NumaNodes''}]
            @ report (sockets p mod n \<noteq> 0) PRL_ERR_VMCONF_NUMANODES_INCONSISTENT_WITH_CPU
                [Params [unumber (sockets p), unumber n],
                 ADD_FID {f ''Number'', f ''Sockets'', f ''NumaNodes''}])"

text \<open>The parameter file of the first of the two modules that has one.\<close>

definition IsNestedVirtEnabled :: "validation_env \<Rightarrow> bool" where
  "IsNestedVirtEnabled E =
     (let content = (case nested_parameter E ''intel'' of
                       Some s \<Rightarrow> s
                     | None \<Rightarrow> (case nested_parameter E ''amd'' of Some s \<Rightarrow> s | None \<Rightarrow> []))
      in starts_with ''Y'' content \<or> starts_with ''y'' content \<or> starts_with ''1'' content)"

definition maxAllowedCpuCount :: "validation_env \<Rightarrow> host_hardware \<Rightarrow> uint" where
  "maxAllowedCpuCount E h = min (host_cpus h) (if 0 < max_vcpu E then max_vcpu E else max_cpu_count E)"

text \<open>The product of cores and sockets is one of unsigned integers.\<close>

definition vmCores :: "cpu \<Rightarrow> uint" where
  "vmCores p = cpu_number p * sockets p"

definition check_cpu_host :: "validation_env \<Rightarrow> cpu \<Rightarrow> host_hardware \<Rightarrow> entry list" where
  "check_cpu_host E p h =
     (let f = field E ''CVmCpu''; cpus = host_cpus h
      in report (maxAllowedCpuCount E h < vmCores p) PRL_ERR_VMCONF_CPU_COUNT_MORE_MAX_CPU_COUNT
           [Params [unumber (maxAllowedCpuCount E h)], ADD_FID {f ''Number'', f ''Sockets''}]
         @ report (cpus < vmCores p) PRL_ERR_VMCONF_CPU_COUNT_MORE_HOST_CPU_COUNT [ADD_FID {f ''Number'', f ''Sockets''}]
         @ (if cpu_mask p \<noteq> [] \<and> server_mode E
            then (case parse_cpu_mask E (cpu_mask p) cpus of
                    None \<Rightarrow> [Error PRL_ERR_VMCONF_CPU_MASK_INVALID, ADD_FID {f ''CpuMask''}]
                  | Some nBits \<Rightarrow>
                      report (vmCores p < cpus \<and> nBits < sockets p) PRL_ERR_VMCONF_CPU_MASK_INVALID_CPU_NUM
                        [Params [unumber nBits], ADD_FID {f ''CpuMask'', f ''Sockets''}])
            else [])
         @ report (node_mask p \<noteq> [] \<and> \<not> parse_node_mask E (node_mask p)) PRL_ERR_VMCONF_CPU_NODE_MASK_INVALID
             [ADD_FID {f ''NodeMask''}])"

text \<open>Without information on the host the check ends early.\<close>

definition CheckCpu :: "validation_env \<Rightarrow> vm_config \<Rightarrow> entry list" where
  "CheckCpu E c =
     (let p = hw_cpu (hw_list c); f = field E ''CVmCpu'';
          rest = report (virtualized_hv p \<and> \<not> IsNestedVirtEnabled E) PRL_WARN_NESTED_VIRT_NOT_ENABLED
                   [ADD_FID {f ''VirtualizedHV''}] @ CheckNumaNodes E c
      in if cpu_number p = 0 then [Error PRL_ERR_VMCONF_CPU_ZERO_COUNT, ADD_FID {f ''Number''}] @ rest
         else if sockets p = 0 then [Error PRL_ERR_VMCONF_CPU_ZERO_COUNT, ADD_FID {f ''Sockets''}] @ rest
         else if \<not> is_template (vm_settings c)
         then (case host_info E of None \<Rightarrow> [] | Some h \<Rightarrow> check_cpu_host E p h @ rest)
         else rest)"


section \<open>Memory\<close>

definition CheckMainMemory :: "validation_env \<Rightarrow> vm_config \<Rightarrow> entry list" where
  "CheckMainMemory E c =
     (let n = ram_size (hw_memory (hw_list c)); ids = ADD_FID {field E ''CVmMemory'' ''RamSize''};
          lo = min_recommended_memory E (os_version (vm_settings c)); hi = recommended_max_memory E
      in if n = 0 then [Error PRL_ERR_VMCONF_MAIN_MEMORY_ZERO_SIZE, ids]
         else if n < vm_min_mem E \<or> max_vm_memory E < n
         then [Error PRL_ERR_VMCONF_MAIN_MEMORY_OUT_OF_RANGE,
               Params [unumber (vm_min_mem E), unumber (max_vm_memory E)], ids]
         else if and n 3 \<noteq> 0 then [Error PRL_ERR_VMCONF_MAIN_MEMORY_NOT_4_RATIO_SIZE, ids]
         else report (n < lo \<or> hi < n) PRL_ERR_VMCONF_MAIN_MEMORY_SIZE_NOT_EAQUAL_RECOMMENDED
                [Params [unumber n, unumber lo, unumber hi], ids])"

definition CheckVideoMemory :: "validation_env \<Rightarrow> vm_config \<Rightarrow> entry list" where
  "CheckVideoMemory E c =
     (let n = video_memory (hw_video (hw_list c))
      in report (\<not> (vm_min_video_mem E \<le> n \<and> n \<le> vm_max_video_mem E)) PRL_ERR_VMCONF_VIDEO_MEMORY_OUT_OF_RANGE
           [Params [unumber (vm_min_video_mem E), unumber (vm_max_video_mem E)],
            ADD_FID {field E ''CVmVideo'' ''MemorySize''}])"

end
