(* ===== verification/DeviceChecks.thy ===== *)
theory DeviceChecks
  imports ConfigChecks
begin

text \<open>
  The checks of \<^verbatim>\<open>CVmValidateConfig.cpp\<close> on devices: drives, disks, network adapters with their
  firewall rules and addresses, ports, passed-through PCI devices, the indexes of all devices.
\<close>

section \<open>System names\<close>

definition g_UrlSchemeList :: "qstring list" where
  "g_UrlSchemeList = [''ftp://'', ''http://'', ''https://'', ''smb://'', ''nfs://'']"

definition IsUrlFormatSysName :: "qstring \<Rightarrow> bool" where
  "IsUrlFormatSysName s \<longleftrightarrow> (\<exists>p \<in> set g_UrlSchemeList. starts_with p s)"

definition slash :: "char \<Rightarrow> bool" where
  "slash x \<longleftrightarrow> x = CHR ''/'' \<or> x = CHR 0x5C"

text \<open>The loop runs backwards from the end of the name to the last separator of either kind.\<close>

definition HasSysNameInvalidSymbol :: "validation_env \<Rightarrow> qstring \<Rightarrow> bool" where
  "HasSysNameInvalidSymbol E s \<longleftrightarrow>
     (\<exists>x \<in> set (takeWhile (\<lambda>x. \<not> slash x) (rev s)). x \<in> invalid_path_symbols E)"

definition GetFileNameFromInvalidPath :: "qstring \<Rightarrow> qstring" where
  "GetFileNameFromInvalidPath s = rev (takeWhile (\<lambda>x. x \<noteq> CHR ''/'') (rev s))"

definition in_use :: "'a vm_device_scheme \<Rightarrow> bool" where
  "in_use d \<longleftrightarrow> enabled d = DeviceEnabled \<and> connected d = DeviceConnected"


section \<open>Drives\<close>

definition check_floppy :: "validation_env \<Rightarrow> vm_device \<Rightarrow> entry list" where
  "check_floppy E d =
     (let f = field E (full_id d); s = system_name d; ids = {full_id d, f ''Enabled'', f ''Connected''}
      in if \<not> in_use d then []
         else if s = [] then [Error PRL_ERR_VMCONF_FLOPPY_DISK_SYS_NAME_IS_EMPTY, ADD_FID ({f ''SystemName''} \<union> ids)]
         else if emulated_type d = FloppyDiskImage
         then let ids2 = ids \<union> {f ''EmulatedType'', f ''SystemName''} in
           if IsUrlFormatSysName s
           then [Error PRL_ERR_VMCONF_FLOPPY_DISK_URL_FORMAT_SYS_NAME, Params [s], ADD_FID ids2]
           else if HasSysNameInvalidSymbol E s
           then [Error PRL_ERR_VMCONF_FLOPPY_DISK_SYS_NAME_HAS_INVALID_SYMBOL,
                 Params [GetFileNameFromInvalidPath s], ADD_FID ids2]
           else report (\<not> remote d \<and> \<not> is_remote_path E s \<and> \<not> file_exists E s)
                  PRL_ERR_VMCONF_FLOPPY_DISK_IMAGE_IS_NOT_EXIST
                  [Params [s], ADD_FID ({f ''Remote''} \<union> ids2)]
         else if emulated_type d = RealFloppyDisk
         then (case host_info E of
                 None \<Rightarrow> []
               | Some h \<Rightarrow> report (\<not> host_has_floppy h) PRL_ERR_VMCONF_FLOPPY_DISK_IS_NOT_ACCESSIBLE
                   [ADD_FID (ids \<union> {f ''EmulatedType''})])
         else [])"

definition CheckFloppyDisk :: "validation_env \<Rightarrow> vm_config \<Rightarrow> entry list" where
  "CheckFloppyDisk E c = (case m_lstFloppyDisks (hw_list c) of [] \<Rightarrow> [] | d # ds \<Rightarrow> check_floppy E d)"

text \<open>SATA devices on an old chipset or for a system that does not support them.\<close>

definition check_sata ::
  "validation_env \<Rightarrow> vm_config \<Rightarrow> vcode \<Rightarrow> vcode \<Rightarrow> qstring set \<Rightarrow> 'a mass_device_scheme \<Rightarrow> entry list" where
  "check_sata E c old_chipset unsupported_os ids d =
     (let f = field E (full_id d)
      in report (interface_type d = PMS_SATA_DEVICE \<and> \<not> sata_for_chipset E (chipset_type (hw_list c))) old_chipset
           [Params [device_number d], dev_info d,
            ADD_FID ({f ''InterfaceType'', field E ''Chipset'' ''Type''} \<union> ids)]
         @ report (interface_type d = PMS_SATA_DEVICE \<and>
             \<not> sata_for_os E (os_type (vm_settings c)) (os_version (vm_settings c))) unsupported_os
           [Params [device_number d], dev_info d,
            ADD_FID ({f ''InterfaceType'', field E ''CVmCommonOptions'' ''OsType'',
              field E ''CVmCommonOptions'' ''OsVersion''} \<union> ids)])"

text \<open>One optical disk, with the real drives seen so far.\<close>

definition check_optical ::
  "validation_env \<Rightarrow> vm_config \<Rightarrow> qstring list \<Rightarrow> mass_device \<Rightarrow> entry list \<times> qstring list" where
  "check_optical E c seen d =
     (let f = field E (full_id d); s = system_name d; image = (emulated_type d = CdRomImage);
          real = (emulated_type d = RealCdRom);
          ids = {full_id d, f ''Enabled'', f ''Connected''}; ids2 = ids \<union> {f ''SystemName''};
          sata = check_sata E c PRL_ERR_VMCONF_CD_DVD_ROM_SET_SATA_FOR_OLD_CHIPSET
                   PRL_ERR_VMCONF_CD_DVD_ROM_SET_SATA_FOR_UNSUPPORTED_OS ids d
      in if \<not> in_use d then ([], seen)
         else if s = [] then (sata, seen)
         else if IsUrlFormatSysName s \<and> image
         then (sata @ [Error PRL_ERR_VMCONF_CD_DVD_ROM_URL_FORMAT_SYS_NAME, Params [s, device_number d], dev_info d,
                       ADD_FID ({f ''EmulatedType''} \<union> ids2)], seen)
         else if s \<in> set seen \<and> real
         then (sata @ [Error PRL_ERR_VMCONF_CD_DVD_ROM_DUPLICATE_SYS_NAME, Params [device_number d], dev_info d,
                       ADD_FID ({f ''EmulatedType''} \<union> ids2)], seen)
         else (sata @ report (image \<and> \<not> file_exists E s \<and> \<not> remote d \<and> \<not> is_remote_path E s)
                 PRL_ERR_VMCONF_CD_DVD_ROM_IMAGE_IS_NOT_EXIST
                 [Params [s, device_number d], dev_info d, ADD_FID ({f ''EmulatedType'', f ''Remote''} \<union> ids2)],
               if real then seen @ [s] else seen))"

fun check_opticals :: "validation_env \<Rightarrow> vm_config \<Rightarrow> qstring list \<Rightarrow> mass_device list \<Rightarrow> entry list" where
  "check_opticals E c seen [] = []"
| "check_opticals E c seen (d # ds) =
     (case check_optical E c seen d of (es, seen') \<Rightarrow> es @ check_opticals E c seen' ds)"

definition CheckCdDvdRom :: "validation_env \<Rightarrow> vm_config \<Rightarrow> entry list" where
  "CheckCdDvdRom E c = check_opticals E c [] (m_lstOpticalDisks (hw_list c))"

text \<open>
  One hard disk, with the names seen so far and their indexes.  The partitions of the host that the
  code collects first are not used, and the check of a removed disk's snapshots is empty.
\<close>

definition check_image :: "validation_env \<Rightarrow> qstring set \<Rightarrow> hard_disk \<Rightarrow> entry list" where
  "check_image E ids d =
     (let f = field E (full_id d); s = system_name d
      in if emulated_type d = HardDiskImage \<and> \<not> remote d \<and> \<not> is_remote_path E s
         then if \<not> file_exists E s
              then [Error PRL_ERR_VMCONF_HARD_DISK_IMAGE_IS_NOT_EXIST, Params [s, device_number d], dev_info d,
                    ADD_FID ({f ''SystemName'', f ''EmulatedType'', f ''Remote''} \<union> ids)]
              else report (expanding d \<and> \<not> qcow2_valid E s) PRL_ERR_VMCONF_HARD_DISK_IMAGE_IS_NOT_VALID
                     [dev_info d, ADD_FID ({f ''SystemName'', f ''EmulatedType'', f ''Remote''} \<union> ids)]
         else [])"

definition check_disk_name ::
  "validation_env \<Rightarrow> (qstring \<times> uint) list \<Rightarrow> qstring set \<Rightarrow> hard_disk \<Rightarrow> entry list \<times> (qstring \<times> uint) list" where
  "check_disk_name E seen ids d =
     (let f = field E (full_id d); s = system_name d; image = (emulated_type d = HardDiskImage)
      in if s = []
         then ([Error PRL_ERR_VMCONF_HARD_DISK_SYS_NAME_IS_EMPTY, Params [device_number d], dev_info d,
                ADD_FID ({f ''SystemName''} \<union> ids)], seen)
         else if IsUrlFormatSysName s \<and> image
         then ([Error PRL_ERR_VMCONF_HARD_DISK_URL_FORMAT_SYS_NAME, Params [s, device_number d], dev_info d,
                ADD_FID ({f ''SystemName'', f ''EmulatedType''} \<union> ids)], seen)
         else if HasSysNameInvalidSymbol E s \<and> image
         then ([Error PRL_ERR_VMCONF_HARD_DISK_SYS_NAME_HAS_INVALID_SYMBOL, Params [GetFileNameFromInvalidPath s],
                dev_info d, ADD_FID ({f ''SystemName'', f ''EmulatedType''} \<union> ids)], seen)
         else (case map_of seen s of
                 Some k \<Rightarrow> ([Error PRL_ERR_VMCONF_HARD_DISK_DUPLICATE_SYS_NAME, Params [unumber k], dev_info d,
                            ADD_FID ({f ''SystemName''} \<union> ids)], seen)
               | None \<Rightarrow> (check_image E ids d, (s, dev_index d) # seen)))"

definition check_hard_disk ::
  "validation_env \<Rightarrow> vm_config \<Rightarrow> (qstring \<times> uint) list \<Rightarrow> hard_disk \<Rightarrow> entry list \<times> (qstring \<times> uint) list" where
  "check_hard_disk E c seen d =
     (let f = field E (full_id d); ids = {full_id d, f ''Enabled''}
      in if enabled d \<noteq> DeviceEnabled then ([], seen)
         else case check_disk_name E seen ids d of (es, seen') \<Rightarrow>
           (check_sata E c PRL_ERR_VMCONF_HARD_DISK_SET_SATA_FOR_OLD_CHIPSET
              PRL_ERR_VMCONF_HARD_DISK_SET_SATA_FOR_UNSUPPORTED_OS ids d
            @ es
            @ report (\<not> serial_valid E (serial_number d)) PRL_ERR_VMCONF_HARD_DISK_SERIAL_IS_NOT_VALID
                [Params [serial_number d, device_number d], dev_info d, ADD_FID ({f ''SerialNumber''} \<union> ids)],
            seen'))"

fun check_hard_disks ::
  "validation_env \<Rightarrow> vm_config \<Rightarrow> (qstring \<times> uint) list \<Rightarrow> hard_disk list \<Rightarrow> entry list" where
  "check_hard_disks E c seen [] = []"
| "check_hard_disks E c seen (d # ds) =
     (case check_hard_disk E c seen d of (es, seen') \<Rightarrow> es @ check_hard_disks E c seen' ds)"

definition CheckHardDisk :: "validation_env \<Rightarrow> vm_config \<Rightarrow> entry list" where
  "CheckHardDisk E c = check_hard_disks E c [] (m_lstHardDisks (hw_list c))"


section \<open>Ports and sound\<close>

definition check_serial :: "validation_env \<Rightarrow> vm_device \<Rightarrow> entry list" where
  "check_serial E d =
     (let f = field E (full_id d); s = system_name d; file = (emulated_type d = SerialOutputFile);
          ids = {full_id d, f ''Enabled'', f ''Connected'', f ''SystemName''}; ids2 = ids \<union> {f ''EmulatedType''}
      in if \<not> in_use d then []
         else if s = []
         then [Error PRL_ERR_VMCONF_SERIAL_PORT_SYS_NAME_IS_EMPTY, Params [device_number d], dev_info d, ADD_FID ids]
         else if IsUrlFormatSysName s \<and> file
         then [Error PRL_ERR_VMCONF_SERIAL_PORT_URL_FORMAT_SYS_NAME, Params [s, device_number d], dev_info d,
               ADD_FID ids2]
         else if HasSysNameInvalidSymbol E s \<and> file
         then [Error PRL_ERR_VMCONF_SERIAL_PORT_SYS_NAME_HAS_INVALID_SYMBOL,
               Params [GetFileNameFromInvalidPath s], dev_info d, ADD_FID ids2]
         else report (file \<and> \<not> file_exists E s \<and> \<not> remote d \<and> \<not> is_remote_path E s)
                PRL_ERR_VMCONF_SERIAL_PORT_IMAGE_IS_NOT_EXIST [dev_info d, ADD_FID ({f ''Remote''} \<union> ids2)])"

definition CheckSerialPort :: "validation_env \<Rightarrow> vm_config \<Rightarrow> entry list" where
  "CheckSerialPort E c = concat (map (check_serial E) (m_lstSerialPorts (hw_list c)))"

definition CheckParallelPort :: "vm_config \<Rightarrow> entry list" where
  "CheckParallelPort c = report (m_lstParallelPorts (hw_list c) \<noteq> []) PRL_ERR_UNSUPPORTED_DEVICE_TYPE []"

definition CheckSound :: "vm_config \<Rightarrow> entry list" where
  "CheckSound c = report (m_lstSoundDevices (hw_list c) \<noteq> []) PRL_ERR_UNSUPPORTED_DEVICE_TYPE []"


section \<open>Network adapters\<close>

text \<open>The firewall rules of an adapter.  A wrong port is recorded with the field of the address.\<close>

definition pushError :: "validation_env \<Rightarrow> network_adapter \<Rightarrow> bool \<Rightarrow> vcode \<Rightarrow> qstring \<Rightarrow> entry list" where
  "pushError E a b err i =
     report b err
       [dev_info a, ADD_FID {i, full_id a, field E (full_id a) ''Enabled'', field E (full_id a) ''EmulatedType''}]"

definition parsed_address :: "validation_env \<Rightarrow> qstring \<Rightarrow> bool" where
  "parsed_address E s \<longleftrightarrow> (if CHR ''/'' \<in> set s then is_subnet E s else is_address E s)"

definition check_rule :: "validation_env \<Rightarrow> network_adapter \<Rightarrow> firewall_rule \<Rightarrow> entry list" where
  "check_rule E a r =
     (let f = field E (rule_id r); proto = to_lower E (protocol r); port_proto = (proto \<in> {''tcp'', ''udp''})
      in pushError E a (proto \<notin> {[], ''tcp'', ''udp'', ''icmp''}) PRL_ERR_VMCONF_NETWORK_UNSUPPORTED_PROTOCOL
           (f ''Protocol'')
         @ pushError E a (65535 < local_port r) PRL_ERR_VMCONF_NETWORK_INVALID_PORT_NUMBER (f ''LocalNetAddress'')
         @ pushError E a (65535 < remote_port r) PRL_ERR_VMCONF_NETWORK_INVALID_PORT_NUMBER (f ''RemoteNetAddress'')
         @ pushError E a (local_address r \<noteq> [] \<and> \<not> parsed_address E (local_address r))
             PRL_ERR_VMCONF_NETWORK_INVALID_IP_ADDRESS (f ''LocalNetAddress'')
         @ pushError E a (remote_address r \<noteq> [] \<and> \<not> parsed_address E (remote_address r))
             PRL_ERR_VMCONF_NETWORK_INVALID_IP_ADDRESS (f ''RemoteNetAddress'')
         @ pushError E a (local_port r \<noteq> 0 \<and> \<not> port_proto) PRL_ERR_VMCONF_NETWORK_PORT_NOT_USED (f ''LocalPort'')
         @ pushError E a (remote_port r \<noteq> 0 \<and> \<not> port_proto) PRL_ERR_VMCONF_NETWORK_PORT_NOT_USED (f ''RemotePort''))"

definition CheckFirewall :: "validation_env \<Rightarrow> network_adapter \<Rightarrow> entry list" where
  "CheckFirewall E a = concat (map (check_rule E a) (incoming_rules a @ outgoing_rules a))"

text \<open>The MAC addresses of all VMs, in capitals, each with its VM.\<close>

definition extractMacAddressesFromVMConfiguration :: "validation_env \<Rightarrow> vm_config \<Rightarrow> qstring set" where
  "extractMacAddressesFromVMConfiguration E c =
     (\<lambda>a. to_upper E (mac_address a)) ` {a \<in> set (m_lstNetworkAdapters (hw_list c)). mac_address a \<noteq> []}"

definition extractAllVmMacAddresses :: "validation_env \<Rightarrow> (qstring \<times> uuid) set" where
  "extractAllVmMacAddresses E =
     (\<Union>v \<in> set (listed_vms E).
        case listed_config v of
          None \<Rightarrow> {}
        | Some c \<Rightarrow> (\<lambda>m. (m, listed_uuid v)) ` extractMacAddressesFromVMConfiguration E c)"

definition check_mac ::
  "validation_env \<Rightarrow> vm_config \<Rightarrow> qstring list \<Rightarrow> qstring set \<Rightarrow> network_adapter \<Rightarrow> entry list" where
  "check_mac E c macs ids a =
     (let m = extractAllVmMacAddresses E; x = mac_address a; mid = field E (full_id a) ''MacAddress''
      in report (\<not> mac_valid E x) PRL_ERR_VMCONF_NETWORK_ADAPTER_INVALID_MAC_ADDRESS
           [Params [device_number a], dev_info a, ADD_FID ({mid} \<union> ids)]
         @ report (x \<in> set macs \<or> \<not> static_address a \<and> x \<in> fst ` m \<and> (x, vm_uuid c) \<notin> m)
             PRL_ERR_VMCONF_NETWORK_ADAPTER_DUPLICATE_MAC_ADDRESS [dev_info a, ADD_FID ({mid} \<union> ids)])"

text \<open>
  The addresses of an adapter, with the addresses seen so far and whether the gateway is in the
  subnet of one of them.
\<close>

definition address_class :: "uint \<Rightarrow> uint \<Rightarrow> vcode option" where
  "address_class ip netmask =
     (if 0xE0000000 \<le> ip \<and> ip \<le> 0xEFFFFFFF then Some PRL_ERR_VMCONF_NETWORK_ADAPTER_MULTICAST_IP_ADDRESS
      else if and ip (not netmask) = not netmask then Some PRL_ERR_VMCONF_NETWORK_ADAPTER_BROADCAST_IP_ADDRESS
      else None)"

fun check_addresses ::
  "validation_env \<Rightarrow> qstring \<Rightarrow> qstring set \<Rightarrow> network_adapter \<Rightarrow> nat list \<Rightarrow> bool \<Rightarrow> qstring list \<Rightarrow>
     entry list \<times> nat list \<times> bool" where
  "check_addresses E gw ids a seen inside [] = ([], seen, inside)"
| "check_addresses E gw ids a seen inside (x # xs) =
     (case parse_ip_mask E x of
        None \<Rightarrow>
          (case check_addresses E gw ids a seen inside xs of (es, r) \<Rightarrow>
            ([Error PRL_ERR_VMCONF_NETWORK_ADAPTER_INVALID_IP_ADDRESS, Params [x, device_number a], dev_info a,
              ADD_FID ids] @ es, r))
      | Some (ip, netmask) \<Rightarrow>
          let h = host_address E ip; uiIP = to_ipv4 E h; uiMask = to_ipv4 E (host_address E netmask);
              inside' = (inside \<or> gw \<noteq> [] \<and> and (to_ipv4 E (host_address E gw)) uiMask = and uiIP uiMask)
          in case check_addresses E gw ids a (if h \<in> set seen then seen else seen @ [h]) inside' xs of (es, r) \<Rightarrow>
            ((case address_class uiIP uiMask of
                None \<Rightarrow> []
              | Some e \<Rightarrow> [Error e, Params [x, device_number a], dev_info a, ADD_FID ids])
             @ report (h \<in> set seen) PRL_ERR_VMCONF_NETWORK_ADAPTER_DUPLICATE_IP_ADDRESS [dev_info a, ADD_FID ids]
             @ es, r))"

text \<open>A gateway that cannot be parsed counts as none in the test for the subnet.\<close>

definition check_static ::
  "validation_env \<Rightarrow> qstring set \<Rightarrow> nat list \<Rightarrow> network_adapter \<Rightarrow> entry list \<times> nat list" where
  "check_static E ids seen a =
     (let f = field E (full_id a); base = {f ''AutoApply'', f ''ConfigureWithDhcp''} \<union> ids;
          gw = (if default_gateway a = [] then [] else case parse_ip E (default_gateway a) of None \<Rightarrow> [] | Some g \<Rightarrow> g)
      in case check_addresses E gw ({f ''NetAddresses''} \<union> base) a seen False (net_addresses a) of (es, seen', inside) \<Rightarrow>
        (report (default_gateway a \<noteq> [] \<and> parse_ip E (default_gateway a) = None)
           PRL_ERR_VMCONF_NETWORK_ADAPTER_INVALID_GATEWAY_IP_ADDRESS
           [Params [default_gateway a, device_number a], dev_info a, ADD_FID ({f ''DefaultGateway''} \<union> base)]
         @ es
         @ report (emulated_type a \<noteq> PNA_ROUTED \<and> gw \<noteq> [] \<and> \<not> inside \<and> net_addresses a \<noteq> [])
             PRL_ERR_VMCONF_NETWORK_ADAPTER_GATEWAY_NOT_IN_SUBNET
             [Params [gw, device_number a], dev_info a, ADD_FID ({f ''NetAddresses'', f ''DefaultGateway''} \<union> base)],
         seen'))"

text \<open>
  The regular expression for search domains: parts between dots, each a letter followed by letters,
  digits and dashes, the last of them no dash; only the first part may be empty.
\<close>

definition letter :: "char \<Rightarrow> bool" where
  "letter x \<longleftrightarrow> (let n = of_char x :: nat in (97 \<le> n \<and> n \<le> 122) \<or> (65 \<le> n \<and> n \<le> 90))"

definition alnum :: "char \<Rightarrow> bool" where
  "alnum x \<longleftrightarrow> letter x \<or> (let n = of_char x :: nat in 48 \<le> n \<and> n \<le> 57)"

definition label :: "string \<Rightarrow> bool" where
  "label s \<longleftrightarrow> s \<noteq> [] \<and> letter (hd s) \<and> alnum (last s) \<and> (\<forall>x \<in> set s. alnum x \<or> x = CHR ''-'')"

definition search_domain :: "qstring \<Rightarrow> bool" where
  "search_domain s \<longleftrightarrow>
     (case split_on CHR ''.'' s of [] \<Rightarrow> True | p # ps \<Rightarrow> (p = [] \<or> label p) \<and> (\<forall>q \<in> set ps. label q))"

definition check_dns :: "validation_env \<Rightarrow> qstring set \<Rightarrow> network_adapter \<Rightarrow> entry list" where
  "check_dns E ids a =
     (let f = field E (full_id a)
      in concat (map (\<lambda>x. report (parse_ip E x = None) PRL_ERR_VMCONF_NETWORK_ADAPTER_INVALID_DNS_IP_ADDRESS
           [Params [x, device_number a], dev_info a, ADD_FID ({f ''AutoApply'', f ''DnsIPAddresses''} \<union> ids)])
         (dns_addresses a))
       @ concat (map (\<lambda>x. report (\<not> search_domain x) PRL_ERR_VMCONF_NETWORK_ADAPTER_INVALID_SEARCH_DOMAIN_NAME
           [Params [x, device_number a], dev_info a, ADD_FID ({f ''AutoApply'', f ''SearchDomains''} \<union> ids)])
         (search_domains a)))"

definition check_routed :: "validation_env \<Rightarrow> vm_config option \<Rightarrow> network_adapter \<Rightarrow> entry list" where
  "check_routed E old a =
     (let f = field E (full_id a);
          old_a = (case old of None \<Rightarrow> None | Some o' \<Rightarrow> find_adapter E a (m_lstNetworkAdapters (hw_list o')));
          no_old = (case old_a of None \<Rightarrow> True | Some b \<Rightarrow> net_addresses b = [])
      in report (emulated_type a = PNA_ROUTED \<and>
           (configure_with_dhcp a \<or> configure_with_dhcp_v6 a \<or> net_addresses a = [] \<and> no_old))
           PRL_ERR_VMCONF_NETWORK_ADAPTER_ROUTED_NO_STATIC_ADDRESS
           [Params [device_number a], dev_info a, ADD_FID {f ''EmulatedType'', f ''NetAddresses''}])"

text \<open>One adapter that is in use; \<open>macs\<close> and \<open>seen\<close> are the addresses of the ones before.\<close>

definition filters_conflict :: "pkt_filter \<Rightarrow> bool" where
  "filters_conflict p \<longleftrightarrow> filter_ref p \<noteq> [] \<and> (prevent_ip_spoof p \<or> prevent_mac_spoof p \<or> prevent_promisc p)"

definition check_adapter ::
  "validation_env \<Rightarrow> vm_config \<Rightarrow> vm_config option \<Rightarrow> qstring list \<Rightarrow> nat list \<Rightarrow> network_adapter \<Rightarrow>
     entry list \<times> qstring list \<times> nat list" where
  "check_adapter E c old macs seen a =
     (let f = field E (full_id a); ids = {full_id a, f ''Enabled'', f ''EmulatedType''};
          p = packet_filter a; pf = field E (filter_id p)
      in if hyper_v_adapter a \<and> \<not> hyperv_supported E (os_version (vm_settings c))
         then ([Error PRL_ERR_VMCONF_SCSI_HYPERV_LINUX_NOT_SUPPORTED, dev_info a], macs, seen)
         else case (if auto_apply a \<and> \<not> configure_with_dhcp a then check_static E ids seen a else ([], seen)) of
           (static, seen') \<Rightarrow>
             (report (filters_conflict p) PRL_ERR_VMCONF_NETWORK_INCONSISTENT_FILTERS
                [dev_info a, ADD_FID ({pf ''FilterRef'', pf ''PreventIpSpoof'', pf ''PreventMacSpoof'',
                   pf ''PreventPromisc''} \<union> ids)]
              @ CheckFirewall E a
              @ check_mac E c macs ids a
              @ static
              @ (if auto_apply a then check_dns E ids a else [])
              @ check_routed E old a,
              macs @ [mac_address a], seen'))"

definition adapter_in_use :: "network_adapter \<Rightarrow> bool" where
  "adapter_in_use a \<longleftrightarrow> enabled a = DeviceEnabled \<and> emulated_type a \<noteq> PDT_USE_DIRECT_ASSIGN"

fun check_adapters ::
  "validation_env \<Rightarrow> vm_config \<Rightarrow> vm_config option \<Rightarrow> qstring list \<Rightarrow> nat list \<Rightarrow> network_adapter list \<Rightarrow>
     entry list" where
  "check_adapters E c old macs seen [] = []"
| "check_adapters E c old macs seen (a # as) =
     (if \<not> adapter_in_use a then check_adapters E c old macs seen as
      else case check_adapter E c old macs seen a of (es, macs', seen') \<Rightarrow>
        es @ check_adapters E c old macs' seen' as)"

text \<open>Addresses that other VMs and containers have, too.\<close>

definition adapter_addresses :: "validation_env \<Rightarrow> network_adapter \<Rightarrow> nat set" where
  "adapter_addresses E a =
     (if auto_apply a then set (map (host_address E) (List.map_filter (parse_ip E) (net_addresses a))) else {})"

definition extractIPAddressesFromVMConfiguration :: "validation_env \<Rightarrow> vm_config \<Rightarrow> nat set" where
  "extractIPAddressesFromVMConfiguration E c = (\<Union>a \<in> set (m_lstNetworkAdapters (hw_list c)). adapter_addresses E a)"

definition checkIPAddressDuplicates :: "validation_env \<Rightarrow> vm_config \<Rightarrow> vm_config list \<Rightarrow> nat set" where
  "checkIPAddressDuplicates E c vms =
     (\<Union>v \<in> set (filter (\<lambda>v. vm_uuid v \<noteq> vm_uuid c) vms).
        extractIPAddressesFromVMConfiguration E v \<inter> extractIPAddressesFromVMConfiguration E c)"

definition CheckIPDuplicates :: "validation_env \<Rightarrow> vm_config \<Rightarrow> qstring set \<Rightarrow> entry list" where
  "CheckIPDuplicates E c ids =
     (let dup = checkIPAddressDuplicates E c (other_ves E)
      in report (dup \<noteq> {}) PRL_ERR_VMCONF_DUPLICATE_IP_ADDRESS
           [Params [concat (map (\<lambda>h. address_text E h @ '' '') (hash_order E dup))], ADD_FID ids])"

definition adapter_ids :: "validation_env \<Rightarrow> network_adapter list \<Rightarrow> qstring set" where
  "adapter_ids E as = (\<Union>a \<in> set as. {full_id a, field E (full_id a) ''NetAddresses''})"

definition CheckNetworkAdapter :: "validation_env \<Rightarrow> vm_config \<Rightarrow> vm_config option \<Rightarrow> entry list" where
  "CheckNetworkAdapter E c old =
     (let as = m_lstNetworkAdapters (hw_list c)
      in if is_template (vm_settings c) \<or> as = [] then []
         else check_adapters E c old [] [] as @ CheckIPDuplicates E c (adapter_ids E as))"

definition CheckNetworkShapingRates :: "validation_env \<Rightarrow> vm_config \<Rightarrow> entry list" where
  "CheckNetworkShapingRates E c =
     (if vz_running E \<noteq> 1 \<or> is_template (vm_settings c) then []
      else concat (map (\<lambda>r. report (rate_class r \<notin> set (shaping_classes E))
             PRL_ERR_VMCONF_NO_CONFIGURED_TOTALRATE_FOR_NETWORK_CLASS
             [DevInfo (rate_class r) (rate_item_id r), ADD_FID {rate_id r, field E (rate_id r) ''ClassId''}])
           (m_lstNetworkRates (vm_settings c))))"


section \<open>Mass storage\<close>

definition validate_scsi :: "validation_env \<Rightarrow> uint \<Rightarrow> 'a mass_device_scheme list \<Rightarrow> entry list" where
  "validate_scsi E ver ds =
     concat (map (\<lambda>d. report (hyper_v_scsi d \<and> \<not> hyperv_supported E ver) PRL_ERR_VMCONF_SCSI_HYPERV_LINUX_NOT_SUPPORTED
       [dev_info d, ADD_FID {full_id d, field E (full_id d) ''Enabled'', field E (full_id d) ''InterfaceType'',
          field E (full_id d) ''StackIndex''}]) ds)"

definition ValidateScsi :: "validation_env \<Rightarrow> vm_config \<Rightarrow> entry list" where
  "ValidateScsi E c =
     (let ver = os_version (vm_settings c); h = hw_list c
      in validate_scsi E ver (m_lstOpticalDisks h) @ validate_scsi E ver (m_lstHardDisks h)
         @ validate_scsi E ver (m_lstGenericScsiDevices h))"

definition ErrorDup :: "interface_type \<Rightarrow> vcode" where
  "ErrorDup t =
     (if t = PMS_SCSI_DEVICE then PRL_ERR_VMCONF_SCSI_DEVICES_DUPLICATE_STACK_INDEX
      else if t = PMS_SATA_DEVICE then PRL_ERR_VMCONF_SATA_DEVICES_DUPLICATE_STACK_INDEX
      else if t = PMS_VIRTIO_BLOCK_DEVICE then PRL_ERR_VMCONF_VIRTIO_BLOCK_DEVICES_DUPLICATE_STACK_INDEX
      else PRL_ERR_VMCONF_IDE_DEVICES_DUPLICATE_STACK_INDEX)"

text \<open>
  The devices of an interface in the order of the three loops; a hard disk has to be connected, an
  optical disk and a SCSI device only enabled.
\<close>

definition on_interface :: "interface_type \<Rightarrow> 'a mass_device_scheme \<Rightarrow> bool" where
  "on_interface t d \<longleftrightarrow> enabled d = DeviceEnabled \<and> interface_type d = t"

definition interface_devices :: "vm_config \<Rightarrow> interface_type \<Rightarrow> mass_device list" where
  "interface_devices c t =
     map mass_device.truncate
       (filter (\<lambda>d. on_interface t d \<and> connected d = DeviceConnected) (m_lstHardDisks (hw_list c)))
     @ filter (on_interface t) (m_lstOpticalDisks (hw_list c))
     @ (if t = PMS_SCSI_DEVICE then filter (on_interface t) (m_lstGenericScsiDevices (hw_list c)) else [])"

fun check_stack :: "validation_env \<Rightarrow> vcode \<Rightarrow> uint list \<Rightarrow> mass_device list \<Rightarrow> entry list" where
  "check_stack E err seen [] = []"
| "check_stack E err seen (d # ds) =
     report (stack_index d \<in> set seen) err
       [dev_info d, ADD_FID {full_id d, field E (full_id d) ''Enabled'', field E (full_id d) ''InterfaceType'',
          field E (full_id d) ''StackIndex''}]
     @ check_stack E err (seen @ [stack_index d]) ds"

definition count_limit :: "validation_env \<Rightarrow> interface_type \<Rightarrow> (vcode \<times> nat) option" where
  "count_limit E t =
     (if t = PMS_IDE_DEVICE then Some (PRL_ERR_VMCONF_IDE_DEVICES_COUNT_OUT_OF_RANGE, max_ide E)
      else if t = PMS_SATA_DEVICE then Some (PRL_ERR_VMCONF_SATA_DEVICES_COUNT_OUT_OF_RANGE, max_sata E)
      else if t = PMS_SCSI_DEVICE then Some (PRL_ERR_VMCONF_SCSI_DEVICES_COUNT_OUT_OF_RANGE, max_scsi E)
      else None)"

definition old_mass_ids :: "vm_config option \<Rightarrow> interface_type \<Rightarrow> qstring set" where
  "old_mass_ids old t =
     (case old of
        None \<Rightarrow> {}
      | Some o' \<Rightarrow> full_id ` set (m_lstHardDisks (hw_list o')) \<union> full_id ` set (m_lstOpticalDisks (hw_list o')) \<union>
          (if t = PMS_SCSI_DEVICE then full_id ` set (m_lstGenericScsiDevices (hw_list o')) else {}))"

definition CheckMassStorageDevices ::
  "validation_env \<Rightarrow> vm_config \<Rightarrow> vm_config option \<Rightarrow> interface_type \<Rightarrow> entry list" where
  "CheckMassStorageDevices E c old t =
     (let ds = interface_devices c t
      in check_stack E (ErrorDup t) [] ds
         @ (case count_limit E t of
              None \<Rightarrow> []
            | Some (err, n) \<Rightarrow>
                report (n < length ds) err [Params [number n], ADD_FID (full_id ` set ds \<union> old_mass_ids old t)]))"


section \<open>Passed-through PCI devices\<close>

definition GetPCIDeviceSysNameMainPart :: "qstring \<Rightarrow> qstring" where
  "GetPCIDeviceSysNameMainPart s =
     (case split_on CHR '':'' s of
        a # b # d # rest \<Rightarrow> a @ '':'' @ b @ '':'' @ d
      | _ \<Rightarrow> s)"

text \<open>The first two parts of the names count when devices of VMs are compared.\<close>

definition equal_sys_names :: "device_type \<Rightarrow> qstring \<Rightarrow> qstring \<Rightarrow> bool" where
  "equal_sys_names t s s' \<longleftrightarrow>
     (if t \<in> {PDE_GENERIC_PCI_DEVICE, PDE_GENERIC_NETWORK_ADAPTER, PDE_PCI_VIDEO_ADAPTER}
      then (case (split_on CHR '':'' s, split_on CHR '':'' s') of
              (a # b # r, a' # b' # r') \<Rightarrow> a = a' \<and> b = b'
            | _ \<Rightarrow> False)
      else s = s')"

definition uses_device :: "device_type \<Rightarrow> qstring \<Rightarrow> vm_config \<Rightarrow> bool" where
  "uses_device t s c \<longleftrightarrow>
     (\<exists>d \<in> set (devices_of (hw_list c) t). enabled d \<noteq> DeviceDisabled \<and>
        \<not> (t = PDE_GENERIC_NETWORK_ADAPTER \<and> emulated_type d \<noteq> PDT_USE_DIRECT_ASSIGN) \<and>
        equal_sys_names t (system_name d) s)"

text \<open>Whether a device is in another VM, and whether a VM that has it is running; the first such ends the search.\<close>

fun find_in_vms :: "device_type \<Rightarrow> qstring \<Rightarrow> uuid \<Rightarrow> listed_vm list \<Rightarrow> bool \<times> bool" where
  "find_in_vms t s skip [] = (False, False)"
| "find_in_vms t s skip (v # vs) =
     (if listed_uuid v \<noteq> skip \<and> (case listed_config v of None \<Rightarrow> False | Some c \<Rightarrow> uses_device t s c)
      then if listed_state v \<noteq> VMS_STOPPED \<and> listed_state v \<noteq> VMS_SUSPENDED then (True, True)
           else (True, snd (find_in_vms t s skip vs))
      else find_in_vms t s skip vs)"

definition IsDeviceInAnotherVm :: "validation_env \<Rightarrow> device_type \<Rightarrow> qstring \<Rightarrow> uuid \<Rightarrow> bool \<times> bool" where
  "IsDeviceInAnotherVm E t s skip = find_in_vms t s skip (listed_vms E)"

text \<open>A later device of the host with the same name replaces an earlier one in the maps.\<close>

definition host_pci_device :: "host_hardware \<Rightarrow> qstring \<Rightarrow> pci_host_device option" where
  "host_pci_device h s = map_of (rev (map (\<lambda>d. (GetPCIDeviceSysNameMainPart (pci_device_id d), d)) (host_pci h))) s"

definition mapCfgTypeToHwType :: "device_type \<Rightarrow> pci_class" where
  "mapCfgTypeToHwType t =
     (if t = PDE_GENERIC_NETWORK_ADAPTER then PGD_PCI_NETWORK
      else if t = PDE_PCI_VIDEO_ADAPTER then PGD_PCI_DISPLAY
      else if t = PDE_GENERIC_PCI_DEVICE then PGD_PCI_OTHER
      else OtherPciClass 0)"

definition pci_class_of :: "pci_host_device option \<Rightarrow> pci_class" where
  "pci_class_of k = (case k of None \<Rightarrow> OtherPciClass 0 | Some x \<Rightarrow> pci_type x)"

definition pci_name_of :: "pci_host_device option \<Rightarrow> qstring" where
  "pci_name_of k = (case k of None \<Rightarrow> [] | Some x \<Rightarrow> pci_name x)"

definition check_pci ::
  "validation_env \<Rightarrow> vm_config \<Rightarrow> host_hardware \<Rightarrow> qstring set \<Rightarrow> vm_device \<Rightarrow> entry list" where
  "check_pci E c h seen d =
     (let f = field E (full_id d); s = GetPCIDeviceSysNameMainPart (system_name d); k = host_pci_device h s;
          ids = ADD_FID {full_id d, f ''Enabled'', f ''SystemName''};
          tail = (\<lambda>ps cl. [Params ps, dev_info d, PciClass cl, ids])
      in (if k \<noteq> None
          then report (pci_class_of k \<noteq> PGD_PCI_SOUND \<and> pci_class_of k \<noteq> PGD_PCI_OTHER)
                 PRL_ERR_VMCONF_GENERIC_PCI_WRONG_DEVICE (tail [s, pci_name_of k] (pci_class_of k))
          else Error PRL_ERR_VMCONF_GENERIC_PCI_DEVICE_NOT_FOUND
                 # tail [friendly_name d] (mapCfgTypeToHwType (device_type d)))
         @ report (s \<in> seen) PRL_ERR_VMCONF_GENERIC_PCI_DUPLICATE_SYS_NAME (tail [s, pci_name_of k] (pci_class_of k))
         @ (case IsDeviceInAnotherVm E (device_type d) s (vm_uuid c) of (other, running) \<Rightarrow>
              report other PRL_ERR_VMCONF_GENERIC_PCI_DEVICE_DUPLICATE_IN_ANOTHER_VM
                (tail [s, pci_name_of k, if k \<noteq> None \<and> running then ''1'' else ''0''] (pci_class_of k))))"

fun check_pcis ::
  "validation_env \<Rightarrow> vm_config \<Rightarrow> host_hardware \<Rightarrow> qstring set \<Rightarrow> vm_device list \<Rightarrow> entry list" where
  "check_pcis E c h seen [] = []"
| "check_pcis E c h seen (d # ds) =
     (if enabled d \<noteq> DeviceEnabled then check_pcis E c h seen ds
      else check_pci E c h seen d
        @ check_pcis E c h (insert (GetPCIDeviceSysNameMainPart (system_name d)) seen) ds)"

definition CheckGenericPci :: "validation_env \<Rightarrow> vm_config \<Rightarrow> entry list" where
  "CheckGenericPci E c =
     (case host_info E of None \<Rightarrow> [] | Some h \<Rightarrow> check_pcis E c h {} (m_lstGenericPciDevices (hw_list c)))"


section \<open>Indexes\<close>

datatype config_section =
    PVC_VALIDATE_CHANGES_ONLY | PVC_ALL | PVC_GENERAL_PARAMETERS | PVC_BOOT_OPTION | PVC_REMOTE_DISPLAY
  | PVC_SHARED_FOLDERS | PVC_CPU | PVC_MAIN_MEMORY | PVC_VIDEO_MEMORY | PVC_FLOPPY_DISK | PVC_CD_DVD_ROM
  | PVC_HARD_DISK | PVC_NETWORK_ADAPTER | PVC_SOUND | PVC_SERIAL_PORT | PVC_PARALLEL_PORT | PVC_IDE_DEVICES
  | PVC_SCSI_DEVICES | PVC_SATA_DEVICES | PVC_GENERIC_PCI

text \<open>Devices of other interfaces are passed over in the sections for one interface.\<close>

definition passed_over :: "config_section \<Rightarrow> interface_type option \<Rightarrow> bool" where
  "passed_over sec i \<longleftrightarrow>
     i = Some PMS_IDE_DEVICE \<and> sec \<in> {PVC_SCSI_DEVICES, PVC_SATA_DEVICES} \<or>
     i = Some PMS_SCSI_DEVICE \<and> sec \<in> {PVC_IDE_DEVICES, PVC_SATA_DEVICES} \<or>
     i = Some PMS_SATA_DEVICE \<and> sec \<in> {PVC_IDE_DEVICES, PVC_SCSI_DEVICES}"

fun check_indexes ::
  "validation_env \<Rightarrow> config_section \<Rightarrow> uint set \<Rightarrow> (vm_device \<times> interface_type option) list \<Rightarrow> entry list" where
  "check_indexes E sec seen [] = []"
| "check_indexes E sec seen ((d, i) # ds) =
     (if max_device_index E < dev_index d
      then [Error PRL_ERR_VMCONF_INVALID_DEVICE_MAIN_INDEX, dev_info d] @ check_indexes E sec seen ds
      else if passed_over sec i then check_indexes E sec seen ds
      else if dev_index d \<notin> seen then check_indexes E sec (insert (dev_index d) seen) ds
      else [Error PRL_ERR_VMCONF_INVALID_DEVICE_MAIN_INDEX, dev_info d,
            ADD_FID {full_id d, field E (full_id d) ''Index''}] @ check_indexes E sec seen ds)"

text \<open>The types of devices a section is about; \<open>None\<close> stands for \<^verbatim>\<open>PDE_MAX\<close>, all of them.\<close>

definition CheckDeviceIndexes ::
  "validation_env \<Rightarrow> vm_config \<Rightarrow> device_type set option \<Rightarrow> config_section \<Rightarrow> entry list" where
  "CheckDeviceIndexes E c types sec =
     concat (map (\<lambda>t.
       if types = None \<or> (\<exists>ts. types = Some ts \<and> t \<in> ts)
       then (case m_aDeviceLists (hw_list c) t of None \<Rightarrow> [] | Some ds \<Rightarrow> check_indexes E sec {} ds)
       else []) listed_types)"

fun CommonDevicesCheck :: "validation_env \<Rightarrow> vm_config \<Rightarrow> config_section \<Rightarrow> entry list" where
  "CommonDevicesCheck E c PVC_FLOPPY_DISK = CheckDeviceIndexes E c (Some {PDE_FLOPPY_DISK}) PVC_FLOPPY_DISK"
| "CommonDevicesCheck E c PVC_CD_DVD_ROM = CheckDeviceIndexes E c (Some {PDE_OPTICAL_DISK}) PVC_CD_DVD_ROM"
| "CommonDevicesCheck E c PVC_HARD_DISK = CheckDeviceIndexes E c (Some {PDE_HARD_DISK}) PVC_HARD_DISK"
| "CommonDevicesCheck E c PVC_NETWORK_ADAPTER =
     CheckDeviceIndexes E c (Some {PDE_GENERIC_NETWORK_ADAPTER}) PVC_NETWORK_ADAPTER"
| "CommonDevicesCheck E c PVC_SOUND = CheckDeviceIndexes E c (Some {PDE_SOUND_DEVICE}) PVC_SOUND"
| "CommonDevicesCheck E c PVC_SERIAL_PORT = CheckDeviceIndexes E c (Some {PDE_SERIAL_PORT}) PVC_SERIAL_PORT"
| "CommonDevicesCheck E c PVC_PARALLEL_PORT = CheckDeviceIndexes E c (Some {PDE_PARALLEL_PORT}) PVC_PARALLEL_PORT"
| "CommonDevicesCheck E c PVC_IDE_DEVICES =
     CheckDeviceIndexes E c (Some {PDE_HARD_DISK, PDE_OPTICAL_DISK}) PVC_IDE_DEVICES"
| "CommonDevicesCheck E c PVC_SCSI_DEVICES =
     CheckDeviceIndexes E c (Some {PDE_HARD_DISK, PDE_OPTICAL_DISK}) PVC_SCSI_DEVICES"
| "CommonDevicesCheck E c PVC_SATA_DEVICES =
     CheckDeviceIndexes E c (Some {PDE_HARD_DISK, PDE_OPTICAL_DISK}) PVC_SATA_DEVICES"
| "CommonDevicesCheck E c PVC_ALL = CheckDeviceIndexes E c None PVC_ALL"
| "CommonDevicesCheck E c _ = []"

end
