(* ===== verification/VmValidation.thy ===== *)
theory VmValidation
  imports DeviceChecks
begin

text \<open>
  The validation of a configuration (\<^verbatim>\<open>CVmValidateConfig\<close>): the order of the checks, the
  restriction to errors that belong to a change, the errors that forbid an operation, and what the
  configurations that pass are like.
\<close>

section \<open>Validators\<close>

record validator = validation +
  m_pVmConfig :: vm_config
  m_pVmConfigOld :: "vm_config option"
  m_bCheckOnlyChanges :: bool

definition new_validator :: "vm_config \<Rightarrow> vm_config option \<Rightarrow> validator" where
  "new_validator c old =
     \<lparr>m_lstResults = [], m_mapParameters = (\<lambda>i. None), m_mapDevInfo = (\<lambda>i. None), m_mapPciDevClasses = (\<lambda>i. None),
      m_mapFullItemIds = (\<lambda>i. None), m_pVmConfig = c, m_pVmConfigOld = old, m_bCheckOnlyChanges = False\<rparr>"

definition getOldVmConfig :: "validation_env \<Rightarrow> validator \<Rightarrow> bool \<times> validator" where
  "getOldVmConfig E v =
     (if m_pVmConfigOld v \<noteq> None then (True, v)
      else (case old_config E of
              Inl e \<Rightarrow> (False, v\<lparr>m_lstResults := m_lstResults v @ [VResult e]\<rparr>)
            | Inr c \<Rightarrow> (True, v\<lparr>m_pVmConfigOld := Some c\<rparr>)))"

text \<open>The checks of a section, in their order.\<close>

definition section_checks :: "validation_env \<Rightarrow> vm_config \<Rightarrow> vm_config option \<Rightarrow> config_section \<Rightarrow> entry list" where
  "section_checks E c old sec =
     (let on = (\<lambda>secs es. if sec = PVC_ALL \<or> sec \<in> secs then es else [])
      in CommonDevicesCheck E c sec
         @ on {PVC_GENERAL_PARAMETERS} (CheckGeneralParameters E c old)
         @ on {PVC_BOOT_OPTION} (CheckBootOption E c old)
         @ on {PVC_REMOTE_DISPLAY} (CheckRemoteDisplay E c)
         @ on {PVC_SHARED_FOLDERS} (CheckSharedFolders E c)
         @ on {PVC_CPU} (CheckCpu E c)
         @ on {PVC_MAIN_MEMORY} (CheckMainMemory E c)
         @ on {PVC_VIDEO_MEMORY} (CheckVideoMemory E c)
         @ on {PVC_FLOPPY_DISK} (CheckFloppyDisk E c)
         @ on {PVC_CD_DVD_ROM} (CheckCdDvdRom E c)
         @ on {PVC_HARD_DISK} (CheckHardDisk E c)
         @ on {PVC_NETWORK_ADAPTER} (CheckNetworkAdapter E c old)
         @ on {PVC_SOUND} (CheckSound c)
         @ on {PVC_SERIAL_PORT} (CheckSerialPort E c)
         @ on {PVC_PARALLEL_PORT} (CheckParallelPort c)
         @ on {PVC_IDE_DEVICES, PVC_CD_DVD_ROM, PVC_HARD_DISK} (CheckMassStorageDevices E c old PMS_IDE_DEVICE)
         @ on {PVC_SCSI_DEVICES, PVC_CD_DVD_ROM, PVC_HARD_DISK}
             (ValidateScsi E c @ CheckMassStorageDevices E c old PMS_SCSI_DEVICE)
         @ on {PVC_SATA_DEVICES, PVC_CD_DVD_ROM, PVC_HARD_DISK} (CheckMassStorageDevices E c old PMS_SATA_DEVICE)
         @ on {PVC_GENERIC_PCI} (CheckGenericPci E c)
         @ on {PVC_CD_DVD_ROM, PVC_HARD_DISK} (CheckMassStorageDevices E c old PMS_VIRTIO_BLOCK_DEVICE)
         @ on {PVC_NETWORK_ADAPTER} (CheckNetworkShapingRates E c))"

definition ids_of :: "'a validation_scheme \<Rightarrow> nat \<Rightarrow> qstring set" where
  "ids_of v i = (case m_mapFullItemIds v i of None \<Rightarrow> {} | Some ids \<Rightarrow> ids)"

definition leaveErrorsOnlyForChanges :: "validation_env \<Rightarrow> validator \<Rightarrow> validator" where
  "leaveErrorsOnlyForChanges E v =
     (case m_pVmConfigOld v of
        Some old \<Rightarrow>
          if \<not> m_bCheckOnlyChanges v then v
          else v\<lparr>m_lstResults := map (\<lambda>i. if ids_of v (i + 1) \<inter> diff_documents E (m_pVmConfig v) old = {}
                   then VResult PRL_ERR_SUCCESS else m_lstResults v ! i) [0..<length (m_lstResults v)]\<rparr>
      | None \<Rightarrow> v)"

definition run_checks :: "validation_env \<Rightarrow> config_section \<Rightarrow> validator \<Rightarrow> validator" where
  "run_checks E sec v =
     leaveErrorsOnlyForChanges E (fold record_entry (section_checks E (m_pVmConfig v) (m_pVmConfigOld v) sec) v)"

definition CheckVmConfig :: "validation_env \<Rightarrow> config_section \<Rightarrow> validator \<Rightarrow> validator" where
  "CheckVmConfig E sec v =
     (if sec = PVC_VALIDATE_CHANGES_ONLY
      then case getOldVmConfig E v of (ok, v1) \<Rightarrow>
        if \<not> ok then v1 else run_checks E PVC_ALL (v1\<lparr>m_bCheckOnlyChanges := True\<rparr>)
      else run_checks E sec v)"

text \<open>The validation of a container.\<close>

definition check_ct_disk :: "validation_env \<Rightarrow> hard_disk \<Rightarrow> entry list" where
  "check_ct_disk E d =
     (let f = field E (full_id d); s = system_name d
      in report (enabled d = DeviceEnabled \<and> emulated_type d = HardDiskImage \<and> \<not> backup_url d \<and> \<not> file_exists E s)
           PRL_ERR_VMCONF_HARD_DISK_IMAGE_IS_NOT_EXIST
           [Params [s, device_number d], dev_info d,
            ADD_FID ({f ''SystemName'', f ''EmulatedType'', f ''Remote''} \<union> {full_id d, f ''Enabled''})])"

definition ct_checks :: "validation_env \<Rightarrow> vm_config \<Rightarrow> config_section \<Rightarrow> entry list" where
  "ct_checks E c sec =
     (let as = m_lstNetworkAdapters (hw_list c)
      in (if (sec = PVC_ALL \<or> sec = PVC_NETWORK_ADAPTER) \<and> as \<noteq> []
          then CheckIPDuplicates E c (adapter_ids E as) else [])
         @ (if sec = PVC_ALL \<or> sec = PVC_HARD_DISK
            then concat (map (check_ct_disk E) (m_lstHardDisks (hw_list c))) else []))"

definition CheckCtConfig :: "validation_env \<Rightarrow> config_section \<Rightarrow> validator \<Rightarrow> validator" where
  "CheckCtConfig E sec v =
     (let run = (\<lambda>s v. leaveErrorsOnlyForChanges E (fold record_entry (ct_checks E (m_pVmConfig v) s) v))
      in if sec = PVC_VALIDATE_CHANGES_ONLY
         then case getOldVmConfig E v of (ok, v1) \<Rightarrow>
           if \<not> ok then v1 else run PVC_ALL (v1\<lparr>m_bCheckOnlyChanges := True\<rparr>)
         else run sec v)"


section \<open>Critical errors\<close>

datatype event_param = Message nat qstring | EvtDevIndex int | EvtDevItemId int | EvtPciType pci_class

record vm_event =
  event_code :: vcode
  event_params :: "event_param list"

definition AddParameters :: "'a validation_scheme \<Rightarrow> nat \<Rightarrow> event_param list" where
  "AddParameters v i =
     (case m_mapParameters v (i + 1) of
        None \<Rightarrow> []
      | Some ps \<Rightarrow> map (\<lambda>(k, s). Message k s) (enumerate 0 (take 3 ps)))
     @ (case m_mapDevInfo v (i + 1) of
          None \<Rightarrow> []
        | Some (k, j) \<Rightarrow> [EvtDevIndex (sint k), EvtDevItemId j])
     @ (case m_mapPciDevClasses v (i + 1) of None \<Rightarrow> [] | Some cl \<Rightarrow> [EvtPciType cl])"

definition always_critical :: "vcode list" where
  "always_critical =
     [PRL_ERR_VMCONF_CPU_ZERO_COUNT, PRL_ERR_VMCONF_CPU_COUNT_MORE_MAX_CPU_COUNT,
      PRL_ERR_VMCONF_CPU_COUNT_MORE_HOST_CPU_COUNT, PRL_ERR_VMCONF_MAIN_MEMORY_ZERO_SIZE,
      PRL_ERR_VMCONF_MAIN_MEMORY_OUT_OF_RANGE, PRL_ERR_VMCONF_MAIN_MEMORY_NOT_4_RATIO_SIZE,
      PRL_ERR_VMCONF_VIDEO_MEMORY_OUT_OF_RANGE, PRL_ERR_VMCONF_INVALID_DEVICE_MAIN_INDEX,
      PRL_ERR_VMCONF_DESKTOP_MODE_REMOTE_DEVICES, PRL_ERR_VMCONF_BOOTCAMP_HARD_DISK_SMART_GUARD_NOT_ALLOW,
      PRL_ERR_VMCONF_INCOMPAT_HARD_DISK_SMART_GUARD_NOT_ALLOW, PRL_ERR_VMCONF_VIDEO_NOT_ENABLED,
      PRL_ERR_VMCONF_GENERIC_PCI_WRONG_DEVICE, PRL_ERR_VMCONF_GENERIC_PCI_VIDEO_WRONG_COUNT,
      PRL_ERR_VMCONF_CPUUNITS_NOT_SUPPORTED, PRL_ERR_VMCONF_CPULIMIT_NOT_SUPPORTED,
      PRL_ERR_VMCONF_IOPRIO_NOT_SUPPORTED, PRL_ERR_VMCONF_IOLIMIT_NOT_SUPPORTED,
      PRL_ERR_VMCONF_IOPSLIMIT_NOT_SUPPORTED, PRL_ERR_VMCONF_MAIN_MEMORY_MAX_BALLOON_SIZE_MORE_100_PERCENT,
      PRL_ERR_VMCONF_MAIN_MEMORY_MQ_PRIOR_ZERO, PRL_ERR_VMCONF_MAIN_MEMORY_MQ_PRIOR_OUT_OF_RANGE,
      PRL_ERR_VMCONF_MAIN_MEMORY_MQ_INVALID_RANGE, PRL_ERR_VMCONF_MAIN_MEMORY_MQ_MIN_LESS_VMM_OVERHEAD_VALUE,
      PRL_ERR_VMCONF_MAIN_MEMORY_MQ_MIN_OUT_OF_RANGE, PRL_ERR_VMCONF_EFI_UNSUPPORTED_GUEST,
      PRL_ERR_REMOTE_DISPLAY_WRONG_PORT_NUMBER, PRL_ERR_VMCONF_SCSI_DEVICES_DUPLICATE_STACK_INDEX,
      PRL_ERR_VMCONF_SATA_DEVICES_DUPLICATE_STACK_INDEX, PRL_ERR_VMCONF_IDE_DEVICES_DUPLICATE_STACK_INDEX,
      PRL_ERR_VMCONF_VIRTIO_BLOCK_DEVICES_DUPLICATE_STACK_INDEX, PRL_ERR_UNSUPPORTED_DEVICE_TYPE,
      PRL_ERR_VMCONF_VM_NAME_HAS_INVALID_SYMBOL, PRL_ERR_INVALID_MEMORY_GUARANTEE,
      PRL_ERR_VMCONF_HARD_DISK_SERIAL_IS_NOT_VALID, PRL_ERR_VMCONF_NETWORK_ADAPTER_DUPLICATE_MAC_ADDRESS,
      PRL_ERR_VMCONF_GENERIC_PCI_DEVICE_DUPLICATE_IN_ANOTHER_VM, PRL_ERR_VMCONF_NETWORK_UNSUPPORTED_PROTOCOL,
      PRL_ERR_VMCONF_NETWORK_INVALID_PORT_NUMBER, PRL_ERR_VMCONF_NETWORK_INVALID_IP_ADDRESS,
      PRL_ERR_VMCONF_NETWORK_PORT_NOT_USED, PRL_ERR_VMCONF_NUMANODES_CPU_HOTPLUG,
      PRL_ERR_VMCONF_NUMANODES_MEMORY_HOTPLUG, PRL_ERR_VMCONF_NUMANODES_NUMBER_NOT_SUPPORTED,
      PRL_ERR_VMCONF_NUMANODES_INCONSISTENT_WITH_CPU, PRL_ERR_VMCONF_VM_NAME_IS_TOO_LONG]"

text \<open>\<open>allow_destroy\<close> is the flag \<^verbatim>\<open>PCVAL_ALLOW_DESTROY_HDD_BUNDLE_WITH_SNAPSHOTS\<close>.\<close>

definition critical :: "validation_env \<Rightarrow> bool \<Rightarrow> vcode \<Rightarrow> bool" where
  "critical E allow_destroy e \<longleftrightarrow> e \<in> set always_critical \<or>
     e = PRL_ERR_VMCONF_CPU_MASK_INVALID_CPU_NUM \<and> server_mode E \<or>
     e = PRL_ERR_VMCONF_HARD_DISK_UNABLE_DELETE_DISK_WITH_SNAPSHOTS \<and> \<not> allow_destroy"

definition HasCriticalErrors :: "validation_env \<Rightarrow> bool \<Rightarrow> validator \<Rightarrow> vm_event option \<times> validator" where
  "HasCriticalErrors E allow_destroy v =
     (let v1 = CheckVmConfig E PVC_ALL v
      in (map_option (\<lambda>i. \<lparr>event_code = m_lstResults v1 ! i, event_params = AddParameters v1 i\<rparr>)
            (find (\<lambda>i. critical E allow_destroy (m_lstResults v1 ! i)) [0..<length (m_lstResults v1)]), v1))"

definition HasError :: "vcode \<Rightarrow> 'a validation_scheme \<Rightarrow> bool" where
  "HasError e v \<longleftrightarrow> e \<in> set (m_lstResults v)"

definition GetParameter :: "vcode \<Rightarrow> nat \<Rightarrow> 'a validation_scheme \<Rightarrow> qstring" where
  "GetParameter e n v =
     (case find (\<lambda>i. m_lstResults v ! i = e) [0..<length (m_lstResults v)] of
        None \<Rightarrow> []
      | Some i \<Rightarrow> (case m_mapParameters v (i + 1) of
                    None \<Rightarrow> []
                  | Some ps \<Rightarrow> if length ps \<le> n then [] else ps ! n))"

text \<open>\<^verbatim>\<open>QString::toInt\<close> of a text of digits; 0 for other texts.\<close>

definition to_int :: "qstring \<Rightarrow> nat" where
  "to_int s = (if s \<noteq> [] \<and> (\<forall>x \<in> set s. 48 \<le> (of_char x :: nat) \<and> (of_char x :: nat) \<le> 57)
     then foldl (\<lambda>n x. 10 * n + (of_char x - 48)) 0 s else 0)"

definition HasCriticalErrorsForStartVm :: "validator \<Rightarrow> vm_event option" where
  "HasCriticalErrorsForStartVm v =
     (let absent = PRL_ERR_VMCONF_GENERIC_PCI_DEVICE_NOT_CONNECTED;
          dup = PRL_ERR_VMCONF_GENERIC_PCI_DEVICE_DUPLICATE_IN_ANOTHER_VM
      in if HasError absent v
         then Some \<lparr>event_code = PRL_ERR_CANT_START_VM_SINCE_NO_VTD_DRIVER, event_params = [Message 0 (GetParameter absent 1 v)]\<rparr>
         else if HasError dup v \<and> to_int (GetParameter dup 2 v) \<noteq> 0
         then Some \<lparr>event_code = PRL_ERR_CANT_START_VM_SINCE_VTD_DEVICE_ALREADY_USED,
                    event_params = [Message 0 (GetParameter dup 1 v)]\<rparr>
         else None)"

text \<open>The command that validates a section; \<open>request\<close> is the configuration in it, if it can be read.\<close>

datatype section_response = SimpleResponse vcode | ErrorsResponse vcode "vm_event list"

definition validateSectionConfig ::
  "validation_env \<Rightarrow> bool \<Rightarrow> vm_config option \<Rightarrow> config_section \<Rightarrow> section_response" where
  "validateSectionConfig E cmd_valid request sec =
     (if \<not> cmd_valid then SimpleResponse (VResult PRL_ERR_FAILURE)
      else (case request of
              None \<Rightarrow> SimpleResponse (VResult PRL_ERR_PARSE_VM_CONFIG)
            | Some c \<Rightarrow>
                let v = (if vm_type c = PVT_CT then CheckCtConfig else CheckVmConfig) E sec (new_validator c None);
                    errs = filter (\<lambda>i. m_lstResults v ! i \<noteq> VResult PRL_ERR_SUCCESS) [0..<length (m_lstResults v)]
                in if errs = [] then SimpleResponse (VResult PRL_ERR_SUCCESS)
                   else ErrorsResponse PRL_ERR_VMCONF_VALIDATION_FAILED
                     (map (\<lambda>i. \<lparr>event_code = m_lstResults v ! i, event_params = AddParameters v i\<rparr>) errs)))"

end
