(* ===== verification/AcceptedConfig.thy ===== *)
theory AcceptedConfig
  imports VmValidation
begin

text \<open>
  What it means that the validation finds no critical error: the well-formed configurations.
\<close>

section \<open>Well-formed configurations\<close>

definition name_ok :: "vm_config \<Rightarrow> bool" where
  "name_ok c \<longleftrightarrow> length (vm_name c) \<le> 40 \<and> set (vm_name c) \<inter> name_symbols = {}"

definition memory_ok :: "validation_env \<Rightarrow> memory \<Rightarrow> bool" where
  "memory_ok E m \<longleftrightarrow> 0 < ram_size m \<and> vm_min_mem E \<le> ram_size m \<and> ram_size m \<le> max_vm_memory E \<and>
     4 dvd unat (ram_size m) \<and> (mem_guarantee_type m = PRL_MEMGUARANTEE_PERCENTS \<longrightarrow> mem_guarantee m \<le> 100)"

definition video_ok :: "validation_env \<Rightarrow> hardware \<Rightarrow> bool" where
  "video_ok E h \<longleftrightarrow> vm_min_video_mem E \<le> video_memory (hw_video h) \<and> video_memory (hw_video h) \<le> vm_max_video_mem E \<and>
     (video_enabled (hw_video h) \<or> (\<exists>a \<in> set (m_lstPciVideoAdapters h). enabled a = DeviceEnabled))"

text \<open>The parameters of containers do not change where no container runs.\<close>

definition vz_unchanged :: "validation_env \<Rightarrow> vm_config \<Rightarrow> vm_config \<Rightarrow> bool" where
  "vz_unchanged E c old \<longleftrightarrow> vz_running E \<noteq> 0 \<or>
     (let p = hw_cpu (hw_list c); q = hw_cpu (hw_list old)
      in cpu_units p = cpu_units q \<and> cpu_limit p = cpu_limit q \<and> cpu_limit_type p = cpu_limit_type q \<and>
         cpu_limit_value p = cpu_limit_value q \<and> io_priority (vm_settings c) = io_priority (vm_settings old))"

definition settings_ok :: "validation_env \<Rightarrow> settings \<Rightarrow> bool" where
  "settings_ok E s \<longleftrightarrow>
     \<not> (os_type s = PVS_GUEST_TYPE_WINDOWS \<and> os_version s < win_2008 E \<and> efi_enabled s) \<and>
     (display_mode (display s) = PRD_MANUAL \<longrightarrow>
        min_port E \<le> port_number (display s) \<and> unat (port_number (display s)) \<le> 65535)"

definition numa_ok :: "vm_config \<Rightarrow> bool" where
  "numa_ok c \<longleftrightarrow>
     (let p = hw_cpu (hw_list c); n = unat (numa_nodes p)
      in n < 2 \<or> (\<not> cpu_hotplug p \<and> \<not> memory_hotplug (hw_memory (hw_list c)) \<and> (\<exists>k. n = 2 ^ k) \<and> n dvd unat (sockets p)))"

definition cpus_fit :: "validation_env \<Rightarrow> cpu \<Rightarrow> host_hardware \<Rightarrow> bool" where
  "cpus_fit E p h \<longleftrightarrow> vmCores p \<le> maxAllowedCpuCount E h \<and>
     (cpu_mask p \<noteq> [] \<and> server_mode E \<and> vmCores p < host_cpus h \<longrightarrow>
        (\<forall>n. parse_cpu_mask E (cpu_mask p) (host_cpus h) = Some n \<longrightarrow> sockets p \<le> n))"

definition cpu_ok :: "validation_env \<Rightarrow> vm_config \<Rightarrow> bool" where
  "cpu_ok E c \<longleftrightarrow>
     (let p = hw_cpu (hw_list c)
      in 0 < cpu_number p \<and> 0 < sockets p \<and>
         (if is_template (vm_settings c) then numa_ok c
          else (\<forall>h. host_info E = Some h \<longrightarrow> cpus_fit E p h \<and> numa_ok c)))"

definition rule_ok :: "validation_env \<Rightarrow> firewall_rule \<Rightarrow> bool" where
  "rule_ok E r \<longleftrightarrow>
     (let proto = to_lower E (protocol r)
      in proto \<in> {[], ''tcp'', ''udp'', ''icmp''} \<and>
         unat (local_port r) \<le> 65535 \<and> unat (remote_port r) \<le> 65535 \<and>
         (local_address r = [] \<or> parsed_address E (local_address r)) \<and>
         (remote_address r = [] \<or> parsed_address E (remote_address r)) \<and>
         (local_port r \<noteq> 0 \<or> remote_port r \<noteq> 0 \<longrightarrow> proto = ''tcp'' \<or> proto = ''udp''))"

text \<open>The adapters that are checked; a MAC that another VM has is excused when it is a static one.\<close>

definition checked_adapters :: "validation_env \<Rightarrow> vm_config \<Rightarrow> network_adapter list" where
  "checked_adapters E c =
     filter (\<lambda>a. adapter_in_use a \<and> \<not> (hyper_v_adapter a \<and> \<not> hyperv_supported E (os_version (vm_settings c))))
       (m_lstNetworkAdapters (hw_list c))"

definition mac_ok :: "validation_env \<Rightarrow> vm_config \<Rightarrow> network_adapter \<Rightarrow> bool" where
  "mac_ok E c a \<longleftrightarrow> static_address a \<or> mac_address a \<notin> fst ` extractAllVmMacAddresses E \<or>
     (mac_address a, vm_uuid c) \<in> extractAllVmMacAddresses E"

definition network_ok :: "validation_env \<Rightarrow> vm_config \<Rightarrow> bool" where
  "network_ok E c \<longleftrightarrow> is_template (vm_settings c) \<or>
     (let as = checked_adapters E c
      in distinct (map mac_address as) \<and>
         (\<forall>a \<in> set as. mac_ok E c a \<and> (\<forall>r \<in> set (incoming_rules a @ outgoing_rules a). rule_ok E r)))"

definition pci_ok :: "validation_env \<Rightarrow> vm_config \<Rightarrow> vm_device \<Rightarrow> bool" where
  "pci_ok E c d \<longleftrightarrow>
     (\<forall>h. host_info E = Some h \<longrightarrow>
        (let s = GetPCIDeviceSysNameMainPart (system_name d)
         in (\<forall>k. host_pci_device h s = Some k \<longrightarrow> pci_type k = PGD_PCI_SOUND \<or> pci_type k = PGD_PCI_OTHER) \<and>
            \<not> fst (IsDeviceInAnotherVm E (device_type d) s (vm_uuid c))))"

definition devices_ok :: "validation_env \<Rightarrow> vm_config \<Rightarrow> bool" where
  "devices_ok E c \<longleftrightarrow>
     (let h = hw_list c
      in m_lstSoundDevices h = [] \<and> m_lstParallelPorts h = [] \<and>
         (\<forall>d \<in> set (m_lstHardDisks h). enabled d = DeviceEnabled \<longrightarrow> serial_valid E (serial_number d)) \<and>
         (\<forall>d \<in> set (m_lstGenericPciDevices h). enabled d = DeviceEnabled \<longrightarrow> pci_ok E c d))"

text \<open>The indexes of the devices of each type, and the places on each interface, are distinct.\<close>

definition indexes_ok :: "validation_env \<Rightarrow> vm_config \<Rightarrow> bool" where
  "indexes_ok E c \<longleftrightarrow>
     (\<forall>t ds. m_aDeviceLists (hw_list c) t = Some ds \<longrightarrow>
        distinct (map (dev_index \<circ> fst) ds) \<and> (\<forall>d \<in> set ds. dev_index (fst d) \<le> max_device_index E)) \<and>
     (\<forall>t \<in> {PMS_IDE_DEVICE, PMS_SCSI_DEVICE, PMS_SATA_DEVICE, PMS_VIRTIO_BLOCK_DEVICE}.
        distinct (map stack_index (interface_devices c t)))"

definition well_formed :: "validation_env \<Rightarrow> vm_config \<Rightarrow> vm_config option \<Rightarrow> bool" where
  "well_formed E c old \<longleftrightarrow>
     name_ok c \<and> settings_ok E (vm_settings c) \<and> cpu_ok E c \<and> memory_ok E (hw_memory (hw_list c)) \<and>
     video_ok E (hw_list c) \<and> (\<forall>o'. old = Some o' \<longrightarrow> vz_unchanged E c o') \<and> network_ok E c \<and> devices_ok E c \<and>
     indexes_ok E c"


section \<open>Arithmetic\<close>

lemma nat_and_pred: "n \<noteq> 0 \<Longrightarrow> and n (n - 1) = 0 \<longleftrightarrow> (\<exists>k. n = 2 ^ k)" for n :: nat
proof (induction n rule: less_induct)
  case (less n)
  show ?case
  proof (cases "even n")
    case True
    then obtain m where m: "n = 2 * m" by blast
    with less.prems have "m \<noteq> 0" "m < n" by auto
    then have "and n (n - 1) = 2 * and m (m - 1)"
      by (subst and_rec) (simp add: m, cases m, simp_all)
    moreover have "(\<exists>k. n = 2 ^ k) \<longleftrightarrow> (\<exists>k. m = 2 ^ k)"
    proof
      assume "\<exists>k. n = 2 ^ k"
      then obtain k where k: "n = 2 ^ k" by blast
      with \<open>m \<noteq> 0\<close> m show "\<exists>k. m = 2 ^ k" by (cases k) auto
    next
      assume "\<exists>k. m = 2 ^ k"
      then show "\<exists>k. n = 2 ^ k" using m by (metis power_Suc)
    qed
    ultimately show ?thesis using less.IH [OF \<open>m < n\<close> \<open>m \<noteq> 0\<close>] by simp
  next
    case False
    then obtain m where m: "n = 2 * m + 1" by (auto elim: oddE)
    have "and n (n - 1) = 2 * m" by (simp add: m and_rec [of "Suc (2 * m)"])
    moreover have "(\<exists>k. n = 2 ^ k) \<longleftrightarrow> m = 0"
    proof
      assume "\<exists>k. n = 2 ^ k"
      then obtain k where "n = 2 ^ k" by blast
      with False have "k = 0" by (cases k) auto
      with \<open>n = 2 ^ k\<close> m show "m = 0" by simp
    next
      assume "m = 0"
      then show "\<exists>k. n = 2 ^ k" using m by (intro exI [of _ 0]) simp
    qed
    ultimately show ?thesis by simp
  qed
qed

lemma word_and_pred: "n \<noteq> 0 \<Longrightarrow> and n (n - 1) = 0 \<longleftrightarrow> (\<exists>k. unat n = 2 ^ k)" for n :: uint
proof -
  assume n: "n \<noteq> 0"
  then have "unat (n - 1) = unat n - 1" by (metis gr_zeroI unat_eq_zero unat_minus_one)
  then have "unat (and n (n - 1)) = and (unat n) (unat n - 1)" by (simp add: unsigned_and_eq)
  moreover have "and n (n - 1) = 0 \<longleftrightarrow> unat (and n (n - 1)) = 0" by (simp add: unat_eq_zero)
  ultimately show ?thesis using nat_and_pred [of "unat n"] n by (simp add: unat_eq_zero)
qed

lemma word_and_3: "and n 3 = 0 \<longleftrightarrow> 4 dvd unat n" for n :: uint
proof -
  have "and n 3 = take_bit 2 n" by (simp add: take_bit_eq_mask mask_eq_exp_minus_1)
  also have "unat (take_bit 2 n) = take_bit 2 (unat n)" by (rule unsigned_take_bit_eq)
  finally have "unat (and n 3) = unat n mod 4" by (simp add: take_bit_eq_mod)
  then show ?thesis by (metis dvd_eq_mod_eq_0 unat_eq_zero)
qed

lemma word_mod_0: "a mod b = 0 \<longleftrightarrow> unat b dvd unat a" for a b :: uint
  by (metis dvd_eq_mod_eq_0 unat_eq_zero unat_mod)

lemma word_port: "65535 < n \<longleftrightarrow> \<not> unat n \<le> 65535" for n :: uint
  by (simp add: word_less_nat_alt not_le)


section \<open>Checks without critical errors\<close>

text \<open>
  The mode of the host and the flag for removed disks decide on a code each; the second code is
  not produced, as disks are not looked into.
\<close>

type_synonym mode = "bool \<times> bool"

definition mild :: "mode \<Rightarrow> vcode \<Rightarrow> bool" where
  "mild b e \<longleftrightarrow> e \<notin> set always_critical \<and> \<not> (e = PRL_ERR_VMCONF_CPU_MASK_INVALID_CPU_NUM \<and> fst b) \<and>
     \<not> (e = PRL_ERR_VMCONF_HARD_DISK_UNABLE_DELETE_DISK_WITH_SNAPSHOTS \<and> \<not> snd b)"

definition clean :: "mode \<Rightarrow> entry list \<Rightarrow> bool" where
  "clean b es \<longleftrightarrow> (\<forall>e \<in> codes es. mild b e)"

lemma clean_simps [simp]:
  "clean b []" "clean b (es @ fs) \<longleftrightarrow> clean b es \<and> clean b fs" "clean b (Error e # es) \<longleftrightarrow> mild b e \<and> clean b es"
  "clean b (Params ps # es) \<longleftrightarrow> clean b es" "clean b (DevInfo i k # es) \<longleftrightarrow> clean b es"
  "clean b (PciClass c # es) \<longleftrightarrow> clean b es" "clean b (ADD_FID ids # es) \<longleftrightarrow> clean b es"
  "clean b (dev_info d # es) \<longleftrightarrow> clean b es"
  "clean b (concat ess) \<longleftrightarrow> (\<forall>es \<in> set ess. clean b es)"
  "clean b (report q e es) \<longleftrightarrow> (q \<longrightarrow> mild b e \<and> clean b es)"
  "clean b (if q then es else fs) \<longleftrightarrow> (if q then clean b es else clean b fs)"
  by (auto simp: clean_def)

lemma mild_simps [simp]:
  "\<not> mild b PRL_ERR_VMCONF_CPU_ZERO_COUNT" "\<not> mild b PRL_ERR_VMCONF_CPU_COUNT_MORE_MAX_CPU_COUNT"
  "\<not> mild b PRL_ERR_VMCONF_CPU_COUNT_MORE_HOST_CPU_COUNT" "\<not> mild b PRL_ERR_VMCONF_MAIN_MEMORY_ZERO_SIZE"
  "\<not> mild b PRL_ERR_VMCONF_MAIN_MEMORY_OUT_OF_RANGE" "\<not> mild b PRL_ERR_VMCONF_MAIN_MEMORY_NOT_4_RATIO_SIZE"
  "\<not> mild b PRL_ERR_VMCONF_VIDEO_MEMORY_OUT_OF_RANGE" "\<not> mild b PRL_ERR_VMCONF_INVALID_DEVICE_MAIN_INDEX"
  "\<not> mild b PRL_ERR_VMCONF_VIDEO_NOT_ENABLED" "\<not> mild b PRL_ERR_VMCONF_GENERIC_PCI_WRONG_DEVICE"
  "\<not> mild b PRL_ERR_VMCONF_CPUUNITS_NOT_SUPPORTED" "\<not> mild b PRL_ERR_VMCONF_CPULIMIT_NOT_SUPPORTED"
  "\<not> mild b PRL_ERR_VMCONF_IOPRIO_NOT_SUPPORTED" "\<not> mild b PRL_ERR_VMCONF_EFI_UNSUPPORTED_GUEST"
  "\<not> mild b PRL_ERR_REMOTE_DISPLAY_WRONG_PORT_NUMBER" "\<not> mild b PRL_ERR_UNSUPPORTED_DEVICE_TYPE"
  "\<not> mild b PRL_ERR_VMCONF_SCSI_DEVICES_DUPLICATE_STACK_INDEX"
  "\<not> mild b PRL_ERR_VMCONF_SATA_DEVICES_DUPLICATE_STACK_INDEX"
  "\<not> mild b PRL_ERR_VMCONF_IDE_DEVICES_DUPLICATE_STACK_INDEX"
  "\<not> mild b PRL_ERR_VMCONF_VIRTIO_BLOCK_DEVICES_DUPLICATE_STACK_INDEX"
  "\<not> mild b PRL_ERR_VMCONF_VM_NAME_HAS_INVALID_SYMBOL" "\<not> mild b PRL_ERR_INVALID_MEMORY_GUARANTEE"
  "\<not> mild b PRL_ERR_VMCONF_HARD_DISK_SERIAL_IS_NOT_VALID"
  "\<not> mild b PRL_ERR_VMCONF_NETWORK_ADAPTER_DUPLICATE_MAC_ADDRESS"
  "\<not> mild b PRL_ERR_VMCONF_GENERIC_PCI_DEVICE_DUPLICATE_IN_ANOTHER_VM"
  "\<not> mild b PRL_ERR_VMCONF_NETWORK_UNSUPPORTED_PROTOCOL" "\<not> mild b PRL_ERR_VMCONF_NETWORK_INVALID_PORT_NUMBER"
  "\<not> mild b PRL_ERR_VMCONF_NETWORK_INVALID_IP_ADDRESS" "\<not> mild b PRL_ERR_VMCONF_NETWORK_PORT_NOT_USED"
  "\<not> mild b PRL_ERR_VMCONF_NUMANODES_CPU_HOTPLUG" "\<not> mild b PRL_ERR_VMCONF_NUMANODES_MEMORY_HOTPLUG"
  "\<not> mild b PRL_ERR_VMCONF_NUMANODES_NUMBER_NOT_SUPPORTED"
  "\<not> mild b PRL_ERR_VMCONF_NUMANODES_INCONSISTENT_WITH_CPU" "\<not> mild b PRL_ERR_VMCONF_VM_NAME_IS_TOO_LONG"
  "mild b PRL_ERR_VMCONF_CPU_MASK_INVALID_CPU_NUM \<longleftrightarrow> \<not> fst b"
  by (simp_all add: mild_def always_critical_def)

lemma mild_general [simp]:
  "mild b PRL_ERR_VMCONF_VM_NAME_IS_EMPTY" "mild b PRL_ERR_VMCONF_REMOTE_DISPLAY_PASSWORD_TOO_LONG"
  "mild b PRL_ERR_VMCONF_UNKNOWN_OS_VERSION" "mild b PRL_ERR_VMCONF_UNKNOWN_OS_TYPE" "mild b PRL_ERR_UNIMPLEMENTED"
  "mild b PRL_ERR_VMCONF_BOOT_OPTION_DEVICE_NOT_EXISTS" "mild b PRL_ERR_VMCONF_BOOT_OPTION_INVALID_DEVICE_TYPE"
  "mild b PRL_ERR_VMCONF_BOOT_OPTION_DUPLICATE_DEVICE" "mild b PRL_ERR_VMCONF_REMOTE_DISPLAY_INVALID_HOST_IP_ADDRESS"
  "mild b PRL_ERR_VMCONF_REMOTE_DISPLAY_EMPTY_PASSWORD" "mild b PRL_ERR_VMCONF_SHARED_FOLDERS_EMPTY_FOLDER_NAME"
  "mild b PRL_ERR_VMCONF_SHARED_FOLDERS_DUPLICATE_FOLDER_NAME"
  "mild b PRL_ERR_VMCONF_SHARED_FOLDERS_INVALID_FOLDER_PATH"
  "mild b PRL_ERR_VMCONF_SHARED_FOLDERS_DUPLICATE_FOLDER_PATH" "mild b PRL_ERR_VMCONF_CPU_MASK_INVALID"
  "mild b PRL_ERR_VMCONF_CPU_NODE_MASK_INVALID" "mild b PRL_WARN_NESTED_VIRT_NOT_ENABLED"
  "mild b PRL_ERR_VMCONF_MAIN_MEMORY_SIZE_NOT_EAQUAL_RECOMMENDED"
  by (simp_all add: mild_def always_critical_def)

lemma mild_devices [simp]:
  "mild b PRL_ERR_VMCONF_FLOPPY_DISK_SYS_NAME_IS_EMPTY" "mild b PRL_ERR_VMCONF_FLOPPY_DISK_URL_FORMAT_SYS_NAME"
  "mild b PRL_ERR_VMCONF_FLOPPY_DISK_SYS_NAME_HAS_INVALID_SYMBOL" "mild b PRL_ERR_VMCONF_FLOPPY_DISK_IMAGE_IS_NOT_EXIST"
  "mild b PRL_ERR_VMCONF_FLOPPY_DISK_IS_NOT_ACCESSIBLE" "mild b PRL_ERR_VMCONF_CD_DVD_ROM_SET_SATA_FOR_OLD_CHIPSET"
  "mild b PRL_ERR_VMCONF_CD_DVD_ROM_SET_SATA_FOR_UNSUPPORTED_OS" "mild b PRL_ERR_VMCONF_CD_DVD_ROM_URL_FORMAT_SYS_NAME"
  "mild b PRL_ERR_VMCONF_CD_DVD_ROM_DUPLICATE_SYS_NAME" "mild b PRL_ERR_VMCONF_CD_DVD_ROM_IMAGE_IS_NOT_EXIST"
  "mild b PRL_ERR_VMCONF_HARD_DISK_IMAGE_IS_NOT_EXIST" "mild b PRL_ERR_VMCONF_HARD_DISK_IMAGE_IS_NOT_VALID"
  "mild b PRL_ERR_VMCONF_HARD_DISK_SYS_NAME_IS_EMPTY" "mild b PRL_ERR_VMCONF_HARD_DISK_URL_FORMAT_SYS_NAME"
  "mild b PRL_ERR_VMCONF_HARD_DISK_SYS_NAME_HAS_INVALID_SYMBOL" "mild b PRL_ERR_VMCONF_HARD_DISK_DUPLICATE_SYS_NAME"
  "mild b PRL_ERR_VMCONF_HARD_DISK_SET_SATA_FOR_OLD_CHIPSET"
  "mild b PRL_ERR_VMCONF_HARD_DISK_SET_SATA_FOR_UNSUPPORTED_OS" "mild b PRL_ERR_VMCONF_SERIAL_PORT_SYS_NAME_IS_EMPTY"
  "mild b PRL_ERR_VMCONF_SERIAL_PORT_URL_FORMAT_SYS_NAME" "mild b PRL_ERR_VMCONF_SERIAL_PORT_SYS_NAME_HAS_INVALID_SYMBOL"
  "mild b PRL_ERR_VMCONF_SERIAL_PORT_IMAGE_IS_NOT_EXIST" "mild b PRL_ERR_VMCONF_SCSI_HYPERV_LINUX_NOT_SUPPORTED"
  "mild b PRL_ERR_VMCONF_IDE_DEVICES_COUNT_OUT_OF_RANGE" "mild b PRL_ERR_VMCONF_SATA_DEVICES_COUNT_OUT_OF_RANGE"
  "mild b PRL_ERR_VMCONF_SCSI_DEVICES_COUNT_OUT_OF_RANGE" "mild b PRL_ERR_VMCONF_GENERIC_PCI_DEVICE_NOT_FOUND"
  "mild b PRL_ERR_VMCONF_GENERIC_PCI_DUPLICATE_SYS_NAME" "mild b PRL_ERR_VMCONF_NETWORK_INCONSISTENT_FILTERS"
  "mild b PRL_ERR_VMCONF_NETWORK_ADAPTER_INVALID_MAC_ADDRESS" "mild b PRL_ERR_VMCONF_NETWORK_ADAPTER_INVALID_IP_ADDRESS"
  "mild b PRL_ERR_VMCONF_NETWORK_ADAPTER_MULTICAST_IP_ADDRESS"
  "mild b PRL_ERR_VMCONF_NETWORK_ADAPTER_BROADCAST_IP_ADDRESS"
  "mild b PRL_ERR_VMCONF_NETWORK_ADAPTER_DUPLICATE_IP_ADDRESS"
  "mild b PRL_ERR_VMCONF_NETWORK_ADAPTER_INVALID_GATEWAY_IP_ADDRESS"
  "mild b PRL_ERR_VMCONF_NETWORK_ADAPTER_GATEWAY_NOT_IN_SUBNET"
  "mild b PRL_ERR_VMCONF_NETWORK_ADAPTER_INVALID_DNS_IP_ADDRESS"
  "mild b PRL_ERR_VMCONF_NETWORK_ADAPTER_INVALID_SEARCH_DOMAIN_NAME"
  "mild b PRL_ERR_VMCONF_NETWORK_ADAPTER_ROUTED_NO_STATIC_ADDRESS" "mild b PRL_ERR_VMCONF_DUPLICATE_IP_ADDRESS"
  "mild b PRL_ERR_VMCONF_NO_CONFIGURED_TOTALRATE_FOR_NETWORK_CLASS"
  by (simp_all add: mild_def always_critical_def)


section \<open>The checks one by one\<close>

lemma clean_name_memory:
  "clean b (concat (map (sink E c) problem_types)) \<longleftrightarrow> name_ok c \<and>
     (mem_guarantee_type (hw_memory (hw_list c)) = PRL_MEMGUARANTEE_PERCENTS \<longrightarrow> mem_guarantee (hw_memory (hw_list c)) \<le> 100)"
  by (auto simp: problem_types_def sink_def name_ok_def not_less split: guarantee_type.splits)

lemma clean_os: "clean b (check_os E c)"
  by (simp add: check_os_def Let_def split: guest_type.split)

lemma pci_video_none: "fst (pci_video_ids E as) \<longleftrightarrow> \<not> (\<exists>a \<in> set as. enabled a = DeviceEnabled)"
  by (induction as) (auto split: prod.split)

lemma clean_video_present:
  "clean b (check_video_present E c old) \<longleftrightarrow> video_enabled (hw_video (hw_list c)) \<or>
     (\<exists>a \<in> set (m_lstPciVideoAdapters (hw_list c)). enabled a = DeviceEnabled)"
  using pci_video_none [of E "m_lstPciVideoAdapters (hw_list c)"]
  by (auto simp: check_video_present_def split: prod.split)

lemma clean_vz_only: "clean b (check_vz_only E c old) \<longleftrightarrow> (\<forall>o'. old = Some o' \<longrightarrow> vz_unchanged E c o')"
  by (auto simp: check_vz_only_def vz_unchanged_def Let_def split: option.split)

lemma clean_boot:
  "clean b (CheckBootOption E c old) \<longleftrightarrow> \<not> (os_type (vm_settings c) = PVS_GUEST_TYPE_WINDOWS \<and>
     os_version (vm_settings c) < win_2008 E \<and> efi_enabled (vm_settings c))"
proof -
  have "clean b (check_boot_devices E c old seen bs)" for seen bs
    by (induction bs arbitrary: seen) (auto simp: check_boot_device_def split: prod.split)
  then show ?thesis by (auto simp: CheckBootOption_def)
qed

lemma clean_display:
  "clean b (CheckRemoteDisplay E c) \<longleftrightarrow> (display_mode (display (vm_settings c)) = PRD_MANUAL \<longrightarrow>
     min_port E \<le> port_number (display (vm_settings c)) \<and> unat (port_number (display (vm_settings c))) \<le> 65535)"
  by (auto simp: CheckRemoteDisplay_def Let_def word_port not_less)

lemma clean_folders: "clean b (CheckSharedFolders E c)"
proof -
  have "clean b (check_folders E names paths xs)" for names paths xs
    by (induction xs arbitrary: names paths) (auto simp: Let_def)
  then show ?thesis by (simp add: CheckSharedFolders_def)
qed

lemma clean_numa: "clean b (CheckNumaNodes E c) \<longleftrightarrow> numa_ok c"
proof -
  let ?n = "numa_nodes (hw_cpu (hw_list c))"
  have lt: "?n < 2 \<longleftrightarrow> unat ?n < 2" by (simp add: word_less_nat_alt)
  show ?thesis
  proof (cases "?n < 2")
    case True
    with lt show ?thesis by (simp add: CheckNumaNodes_def numa_ok_def Let_def)
  next
    case False
    then have "?n \<noteq> 0" by auto
    with False lt show ?thesis
      by (auto simp: CheckNumaNodes_def numa_ok_def Let_def word_and_pred word_mod_0)
  qed
qed

lemma clean_cpu_host: "clean (server_mode E, allow) (check_cpu_host E p h) \<longleftrightarrow> cpus_fit E p h"
proof -
  have "vmCores p \<le> maxAllowedCpuCount E h \<Longrightarrow> vmCores p \<le> host_cpus h" by (simp add: maxAllowedCpuCount_def)
  then show ?thesis
    by (auto simp: check_cpu_host_def cpus_fit_def Let_def not_less split: option.split)
qed

lemma clean_cpu: "clean (server_mode E, allow) (CheckCpu E c) \<longleftrightarrow> cpu_ok E c"
proof -
  have "0 < w \<longleftrightarrow> w \<noteq> 0" for w :: uint by (simp add: word_neq_0_conv)
  then show ?thesis
    by (auto simp: CheckCpu_def cpu_ok_def Let_def clean_cpu_host clean_numa split: option.split)
qed

lemma clean_memory:
  "clean b (CheckMainMemory E c) \<longleftrightarrow> (let n = ram_size (hw_memory (hw_list c))
     in 0 < n \<and> vm_min_mem E \<le> n \<and> n \<le> max_vm_memory E \<and> 4 dvd unat n)"
  by (auto simp: CheckMainMemory_def Let_def word_and_3 not_less word_neq_0_conv)

lemma clean_video:
  "clean b (CheckVideoMemory E c) \<longleftrightarrow> vm_min_video_mem E \<le> video_memory (hw_video (hw_list c)) \<and>
     video_memory (hw_video (hw_list c)) \<le> vm_max_video_mem E"
  by (simp add: CheckVideoMemory_def Let_def)

lemma clean_floppy: "clean b (CheckFloppyDisk E c)"
  by (simp add: CheckFloppyDisk_def check_floppy_def Let_def split: list.split option.split)

lemma clean_sata: "mild b e \<Longrightarrow> mild b e' \<Longrightarrow> clean b (check_sata E c e e' ids d)"
  by (simp add: check_sata_def Let_def)

lemma clean_optical: "clean b (CheckCdDvdRom E c)"
proof -
  have "clean b (fst (check_optical E c seen d))" for seen d
    by (simp add: check_optical_def Let_def clean_sata)
  then have "clean b (check_opticals E c seen ds)" for seen ds
    by (induction ds arbitrary: seen) (auto split: prod.split dest: spec, metis fst_conv)
  then show ?thesis by (simp add: CheckCdDvdRom_def)
qed

lemma clean_hard_disks:
  "clean b (CheckHardDisk E c) \<longleftrightarrow>
     (\<forall>d \<in> set (m_lstHardDisks (hw_list c)). enabled d = DeviceEnabled \<longrightarrow> serial_valid E (serial_number d))"
proof -
  have name: "clean b (fst (check_disk_name E seen ids d))" for seen ids d
    by (simp add: check_disk_name_def check_image_def Let_def split: option.split)
  have one: "clean b (fst (check_hard_disk E c seen d)) \<longleftrightarrow> (enabled d = DeviceEnabled \<longrightarrow> serial_valid E (serial_number d))"
    for seen d
    using name by (auto simp: check_hard_disk_def Let_def clean_sata split: prod.split) (metis fst_conv)+
  have "clean b (check_hard_disks E c seen ds) \<longleftrightarrow>
      (\<forall>d \<in> set ds. enabled d = DeviceEnabled \<longrightarrow> serial_valid E (serial_number d))" for seen ds
  proof (induction ds arbitrary: seen)
    case (Cons d ds)
    then show ?case using one [of seen d] by (cases "check_hard_disk E c seen d") auto
  qed simp
  then show ?thesis by (simp add: CheckHardDisk_def)
qed

lemma clean_serial: "clean b (CheckSerialPort E c)"
proof -
  have "clean b (check_serial E d)" for d by (simp add: check_serial_def Let_def)
  then show ?thesis by (simp add: CheckSerialPort_def)
qed

lemma clean_rule: "clean b (check_rule E a r) \<longleftrightarrow> rule_ok E r"
  by (auto simp: check_rule_def pushError_def rule_ok_def Let_def word_port)

lemma clean_firewall:
  "clean b (CheckFirewall E a) \<longleftrightarrow> (\<forall>r \<in> set (incoming_rules a @ outgoing_rules a). rule_ok E r)"
  by (auto simp: CheckFirewall_def clean_rule)

lemma clean_mac: "clean b (check_mac E c macs ids a) \<longleftrightarrow> mac_address a \<notin> set macs \<and> mac_ok E c a"
  by (auto simp: check_mac_def mac_ok_def Let_def)

lemma mild_address_class: "address_class ip m = Some e \<Longrightarrow> mild b e"
  by (auto simp: address_class_def split: if_splits)

lemma clean_addresses: "clean b (fst (check_addresses E gw ids a seen inside xs))"
proof (induction xs arbitrary: seen inside)
  case (Cons x xs)
  show ?case
    using Cons.IH by (auto simp: Let_def case_prod_beta mild_address_class split: option.split)
qed simp

lemma clean_static: "clean b (fst (check_static E ids seen a))"
proof -
  have "clean b es" if "check_addresses E gw ids' a seen False xs = (es, r)" for gw ids' xs es r
    using clean_addresses [of b E gw ids' a seen False xs] that by simp
  then show ?thesis by (auto simp: check_static_def Let_def split: prod.split)
qed

lemma clean_adapter:
  assumes "\<not> (hyper_v_adapter a \<and> \<not> hyperv_supported E (os_version (vm_settings c)))"
  shows "clean b (fst (check_adapter E c old macs seen a)) \<longleftrightarrow>
      mac_address a \<notin> set macs \<and> mac_ok E c a \<and> (\<forall>r \<in> set (incoming_rules a @ outgoing_rules a). rule_ok E r)"
    "fst (snd (check_adapter E c old macs seen a)) = macs @ [mac_address a]"
proof -
  have st: "clean b es" if "check_static E ids seen a = (es, seen')" for ids es seen'
    using clean_static [of b E ids seen a] that by simp
  have dns: "clean b (check_dns E ids a)" for ids by (simp add: check_dns_def Let_def)
  have routed: "clean b (check_routed E old a)" by (simp add: check_routed_def Let_def)
  show "clean b (fst (check_adapter E c old macs seen a)) \<longleftrightarrow>
      mac_address a \<notin> set macs \<and> mac_ok E c a \<and> (\<forall>r \<in> set (incoming_rules a @ outgoing_rules a). rule_ok E r)"
    using assms st by (auto simp: check_adapter_def Let_def clean_firewall clean_mac dns routed split: prod.splits if_splits)
  show "fst (snd (check_adapter E c old macs seen a)) = macs @ [mac_address a]"
    using assms by (auto simp: check_adapter_def Let_def split: prod.split)
qed

lemma clean_adapters:
  "clean b (check_adapters E c old macs seen as) \<longleftrightarrow>
     (let ks = filter (\<lambda>a. adapter_in_use a \<and> \<not> (hyper_v_adapter a \<and> \<not> hyperv_supported E (os_version (vm_settings c)))) as
      in distinct (map mac_address ks) \<and> set (map mac_address ks) \<inter> set macs = {} \<and>
         (\<forall>a \<in> set ks. mac_ok E c a \<and> (\<forall>r \<in> set (incoming_rules a @ outgoing_rules a). rule_ok E r)))"
proof (induction as arbitrary: macs seen)
  case (Cons a as)
  obtain es macs' seen' where c: "check_adapter E c old macs seen a = (es, macs', seen')" by (cases "check_adapter E c old macs seen a")
  show ?case
  proof (cases "adapter_in_use a \<and> hyper_v_adapter a \<and> \<not> hyperv_supported E (os_version (vm_settings c))")
    case True
    then have "clean b es \<and> macs' = macs" using c by (auto simp: check_adapter_def Let_def)
    with True Cons.IH [of macs seen'] c show ?thesis by (simp add: Let_def)
  next
    case False
    show ?thesis
    proof (cases "adapter_in_use a")
      case True
      with False clean_adapter(1) [of a E c b old macs seen] clean_adapter(2) [of a E c old macs seen] Cons.IH [of macs' seen'] c show ?thesis
        by (auto simp: Let_def)
    next
      case False
      with Cons.IH [of macs seen] show ?thesis by (simp add: Let_def)
    qed
  qed
qed simp

lemma clean_network: "clean b (CheckNetworkAdapter E c old) \<longleftrightarrow> network_ok E c"
  by (auto simp: CheckNetworkAdapter_def network_ok_def checked_adapters_def clean_adapters CheckIPDuplicates_def Let_def)

lemma clean_shaping: "clean b (CheckNetworkShapingRates E c)"
  by (simp add: CheckNetworkShapingRates_def)

lemma clean_stack:
  "\<not> mild b err \<Longrightarrow> clean b (check_stack E err seen ds) \<longleftrightarrow>
     distinct (map stack_index ds) \<and> set (map stack_index ds) \<inter> set seen = {}"
  by (induction ds arbitrary: seen) auto

lemma clean_mass_storage:
  "clean b (CheckMassStorageDevices E c old t) \<longleftrightarrow> distinct (map stack_index (interface_devices c t))"
proof -
  have "\<not> mild b (ErrorDup t)" by (simp add: ErrorDup_def)
  then show ?thesis
    by (auto simp: CheckMassStorageDevices_def Let_def clean_stack count_limit_def split: option.split)
qed

lemma clean_scsi: "clean b (ValidateScsi E c)"
proof -
  have "clean b (validate_scsi E ver ds)" for ver and ds :: "'a mass_device_scheme list" by (simp add: validate_scsi_def)
  moreover have "clean b (validate_scsi E ver ds)" for ver and ds :: "hard_disk list" by (simp add: validate_scsi_def)
  moreover have "clean b (validate_scsi E ver ds)" for ver and ds :: "mass_device list" by (simp add: validate_scsi_def)
  ultimately show ?thesis by (simp add: ValidateScsi_def Let_def)
qed

lemma clean_pci_one:
  assumes "host_info E = Some h"
  shows "clean b (check_pci E c h seen d) \<longleftrightarrow> pci_ok E c d"
  using assms by (auto simp: check_pci_def pci_ok_def Let_def pci_class_of_def split: prod.split)

lemma clean_pci:
  "clean b (CheckGenericPci E c) \<longleftrightarrow>
     (\<forall>d \<in> set (m_lstGenericPciDevices (hw_list c)). enabled d = DeviceEnabled \<longrightarrow> pci_ok E c d)"
proof (cases "host_info E")
  case None
  then show ?thesis by (simp add: CheckGenericPci_def pci_ok_def)
next
  case (Some h)
  have "clean b (check_pcis E c h seen ds) \<longleftrightarrow> (\<forall>d \<in> set ds. enabled d = DeviceEnabled \<longrightarrow> pci_ok E c d)" for seen ds
    by (induction ds arbitrary: seen) (auto simp: clean_pci_one [OF Some])
  with Some show ?thesis by (simp add: CheckGenericPci_def)
qed

lemma clean_indexes:
  "clean b (check_indexes E PVC_ALL seen ds) \<longleftrightarrow>
     distinct (map (dev_index \<circ> fst) ds) \<and> (\<forall>d \<in> set ds. dev_index (fst d) \<le> max_device_index E \<and> dev_index (fst d) \<notin> seen)"
proof (induction ds arbitrary: seen)
  case (Cons x ds)
  have "\<not> passed_over PVC_ALL i" for i by (simp add: passed_over_def)
  with Cons.IH show ?case by (cases x) (force simp: not_less)
qed simp

lemma clean_common:
  "clean b (CommonDevicesCheck E c PVC_ALL) \<longleftrightarrow>
     (\<forall>t ds. m_aDeviceLists (hw_list c) t = Some ds \<longrightarrow>
        distinct (map (dev_index \<circ> fst) ds) \<and> (\<forall>d \<in> set ds. dev_index (fst d) \<le> max_device_index E))"
proof -
  have "clean b (CommonDevicesCheck E c PVC_ALL) \<longleftrightarrow>
      (\<forall>t \<in> set listed_types. \<forall>ds. m_aDeviceLists (hw_list c) t = Some ds \<longrightarrow> clean b (check_indexes E PVC_ALL {} ds))"
    by (auto simp: CheckDeviceIndexes_def split: option.splits)
  also have "\<dots> \<longleftrightarrow> (\<forall>t ds. m_aDeviceLists (hw_list c) t = Some ds \<longrightarrow> clean b (check_indexes E PVC_ALL {} ds))"
    unfolding Ball_def listed_types [where h = "hw_list c"] by auto
  finally show ?thesis by (simp add: clean_indexes)
qed


section \<open>Running the checks\<close>

lemma m_lstResults_record: "m_lstResults (record_entry e v) = m_lstResults v @ (case e of Error c \<Rightarrow> [c] | _ \<Rightarrow> [])"
  by (cases e) simp_all

lemma set_results_fold: "set (m_lstResults (fold record_entry es v)) = set (m_lstResults v) \<union> codes es"
proof (induction es arbitrary: v)
  case (Cons e es)
  then show ?case by (cases e) auto
qed simp

lemma record_frame:
  "m_pVmConfig (record_entry e v) = m_pVmConfig v" "m_pVmConfigOld (record_entry e v) = m_pVmConfigOld v"
  "m_bCheckOnlyChanges (record_entry e v) = m_bCheckOnlyChanges v"
  by (cases e; simp)+

lemma fold_record_frame [simp]:
  "m_pVmConfig (fold record_entry es v) = m_pVmConfig v" "m_pVmConfigOld (fold record_entry es v) = m_pVmConfigOld v"
  "m_bCheckOnlyChanges (fold record_entry es v) = m_bCheckOnlyChanges v"
  by (induction es arbitrary: v) (simp_all add: record_frame)

lemma clean_section_checks:
  "clean (server_mode E, allow) (section_checks E c old PVC_ALL) \<longleftrightarrow> well_formed E c old"
proof -
  let ?m = "(server_mode E, allow)"
  have "clean ?m (CheckGeneralParameters E c old) \<longleftrightarrow> name_ok c \<and>
      (mem_guarantee_type (hw_memory (hw_list c)) = PRL_MEMGUARANTEE_PERCENTS \<longrightarrow> mem_guarantee (hw_memory (hw_list c)) \<le> 100) \<and>
      (video_enabled (hw_video (hw_list c)) \<or> (\<exists>a \<in> set (m_lstPciVideoAdapters (hw_list c)). enabled a = DeviceEnabled)) \<and>
      (\<forall>o'. old = Some o' \<longrightarrow> vz_unchanged E c o')"
    by (simp add: CheckGeneralParameters_def clean_name_memory clean_os clean_video_present clean_vz_only
        del: clean_simps(9))
  moreover have "clean ?m (CheckSound c) \<longleftrightarrow> m_lstSoundDevices (hw_list c) = []"
    "clean ?m (CheckParallelPort c) \<longleftrightarrow> m_lstParallelPorts (hw_list c) = []"
    by (simp_all add: CheckSound_def CheckParallelPort_def)
  moreover have "clean ?m (section_checks E c old PVC_ALL) \<longleftrightarrow>
      clean ?m (CommonDevicesCheck E c PVC_ALL) \<and> clean ?m (CheckGeneralParameters E c old) \<and>
      clean ?m (CheckBootOption E c old) \<and> clean ?m (CheckRemoteDisplay E c) \<and> clean ?m (CheckCpu E c) \<and>
      clean ?m (CheckMainMemory E c) \<and> clean ?m (CheckVideoMemory E c) \<and> clean ?m (CheckHardDisk E c) \<and>
      clean ?m (CheckNetworkAdapter E c old) \<and> clean ?m (CheckSound c) \<and> clean ?m (CheckParallelPort c) \<and>
      (\<forall>t \<in> {PMS_IDE_DEVICE, PMS_SCSI_DEVICE, PMS_SATA_DEVICE, PMS_VIRTIO_BLOCK_DEVICE}.
         clean ?m (CheckMassStorageDevices E c old t)) \<and> clean ?m (CheckGenericPci E c)"
    by (simp add: section_checks_def Let_def clean_folders clean_floppy clean_optical clean_serial clean_scsi
        clean_shaping conj_ac del: CommonDevicesCheck.simps)
  ultimately show ?thesis
    unfolding clean_common clean_boot clean_display clean_cpu clean_memory clean_video clean_hard_disks clean_network
      clean_mass_storage clean_pci Let_def well_formed_def settings_ok_def memory_ok_def video_ok_def devices_ok_def indexes_ok_def
    by satx
qed

lemma CheckVmConfig_all_new:
  "CheckVmConfig E PVC_ALL (new_validator c old) = fold record_entry (section_checks E c old PVC_ALL) (new_validator c old)"
  by (simp add: CheckVmConfig_def run_checks_def leaveErrorsOnlyForChanges_def new_validator_def split: option.split)

lemma accepted_clean:
  "fst (HasCriticalErrors E allow (new_validator c old)) = None \<longleftrightarrow>
     clean (server_mode E, allow) (section_checks E c old PVC_ALL)"
proof -
  let ?v = "CheckVmConfig E PVC_ALL (new_validator c old)"
  have "set (m_lstResults ?v) = codes (section_checks E c old PVC_ALL)"
    by (simp add: CheckVmConfig_all_new set_results_fold) (simp add: new_validator_def)
  moreover have "fst (HasCriticalErrors E allow (new_validator c old)) = None \<longleftrightarrow>
      (\<forall>e \<in> set (m_lstResults ?v). \<not> critical E allow e)"
    by (auto simp: HasCriticalErrors_def Let_def find_None_iff all_set_conv_all_nth)
  moreover have "\<not> critical E allow e \<longleftrightarrow> mild (server_mode E, allow) e" for e
    by (auto simp: critical_def mild_def)
  ultimately show ?thesis by (simp add: clean_def)
qed


section \<open>Facts about single checks\<close>

text \<open>
  When the validation is restricted to a change, an error is kept exactly if one of its fields is in
  the change.  The fields of the system are inserted without an error of their own, so they replace
  those of the error before.
\<close>

lemma changes_only_results:
  assumes "m_bCheckOnlyChanges v" "m_pVmConfigOld v = Some old" "i < length (m_lstResults v)"
  shows "m_lstResults (leaveErrorsOnlyForChanges E v) ! i =
    (if ids_of v (i + 1) \<inter> diff_documents E (m_pVmConfig v) old = {} then VResult PRL_ERR_SUCCESS else m_lstResults v ! i)"
  using assms by (simp add: leaveErrorsOnlyForChanges_def)

lemma os_fields_replace_those_of_the_error:
  assumes "valid_os_version E (os_type (vm_settings c)) (os_version (vm_settings c))"
    "\<forall>n. os_type (vm_settings c) \<noteq> OtherGuestType n"
  shows "ids_of (fold record_entry (sink E c p @ check_os E c) v)
      (length (m_lstResults (fold record_entry (sink E c p) v))) =
    {field E ''CVmCommonOptions'' ''OsType'', field E ''CVmCommonOptions'' ''OsVersion''}"
proof -
  have "check_os E c = [ADD_FID {field E ''CVmCommonOptions'' ''OsType'', field E ''CVmCommonOptions'' ''OsVersion''}]"
    using assms by (cases "os_type (vm_settings c)") (simp_all add: check_os_def report_def Let_def)
  then show ?thesis by (simp add: ids_of_def)
qed

text \<open>The product of cores and sockets wraps: with 65536 of each, any host has enough processors.\<close>

lemma core_product_wraps:
  "cpu_number p = 0x10000 \<Longrightarrow> sockets p = 0x10000 \<Longrightarrow> cpu_mask p = [] \<Longrightarrow> cpus_fit E p h"
proof -
  assume "cpu_number p = 0x10000" "sockets p = 0x10000" "cpu_mask p = []"
  moreover have "0x10000 * 0x10000 = (0 :: uint)" by simp
  ultimately have "vmCores p = 0" by (simp add: vmCores_def)
  then show ?thesis using \<open>cpu_mask p = []\<close> by (simp add: cpus_fit_def)
qed

text \<open>Without information on the host the NUMA nodes are not checked.\<close>

lemma no_host_no_numa_check:
  assumes "host_info E = None" "\<not> is_template (vm_settings c)" "cpu_number (hw_cpu (hw_list c)) \<noteq> 0"
    "sockets (hw_cpu (hw_list c)) \<noteq> 0"
  shows "CheckCpu E c = []"
  using assms by (simp add: CheckCpu_def Let_def)

text \<open>The addresses of all VMs are in capitals: one that is not is never found among them.\<close>

lemma small_mac_is_not_found:
  assumes "\<forall>m. to_upper E (to_upper E m) = to_upper E m" "to_upper E (mac_address a) \<noteq> mac_address a"
  shows "mac_ok E c a"
proof -
  have "to_upper E m = m" if "m \<in> fst ` extractAllVmMacAddresses E" for m
    using that assms(1)
    by (auto simp: extractAllVmMacAddresses_def extractMacAddressesFromVMConfiguration_def split: option.splits)
  then show ?thesis using assms(2) by (auto simp: mac_ok_def)
qed

text \<open>A backslash is no invalid symbol of a name.\<close>

lemma backslash_is_allowed: "vm_name c = [CHR 0x5C] \<Longrightarrow> name_ok c"
  by (simp add: name_ok_def name_symbols_def)


section \<open>Properties\<close>

text \<open>C28. A configuration is accepted, for a new VM, an edit or a start, exactly if it is well-formed: the
  name has at most 40 characters and none that is forbidden; there are processors, no more than the
  host and the limits allow (in the arithmetic of the code), and the NUMA nodes are a power of two
  that divides the sockets; the memory is a multiple of 4 within the limits; the VM has a video
  adapter; the indexes of its devices and the places on each storage interface are distinct; no
  two adapters have one MAC and the firewall rules make sense; passed-through devices are of the
  allowed classes and in no other VM; what the host does not support did not change.\<close>

theorem accepted_configurations_are_well_formed:
  "fst (HasCriticalErrors E allow_destroy (new_validator c old)) = None \<longleftrightarrow> well_formed E c old"
  by (simp add: accepted_clean clean_section_checks)

end
