(* ===== verification/SnapshotTree.thy ===== *)
theory SnapshotTree
  imports Prelude "HOL-Library.Word"
begin

text \<open>
  The tree of snapshots of a VM (\<^verbatim>\<open>Libraries/StatesStore/SavedState.cpp\<close> and
  \<^verbatim>\<open>SavedStateTree.cpp\<close>).  A pointer to a node is the path to it from the root: the
  positions in the lists of children.  Parent pointers are what these paths make of them.

  The snapshot the VM was last at is "current", and its last child is an empty node that marks
  the present state of the VM ("You are here").
\<close>


section \<open>One snapshot\<close>

datatype snapshoted_vm_state =
  SnapshotedVmPoweredOff | SnapshotedVmRunning | SnapshotedVmPaused | SnapshotedVmSuspended

record saved_state =
  m_sGuid :: qstring
  m_sName :: qstring
  m_sDateTime :: qstring
  m_sCreator :: qstring
  m_sScreenShot :: qstring
  m_sDescription :: qstring
  m_bCurrent :: bool
  m_bCurrentState :: bool
  m_iVmState :: snapshoted_vm_state
  nSize :: "64 word"
  nOsVersion :: "32 word"

text \<open>The values after \<^verbatim>\<open>CleanupStateProperties\<close>, which the constructor calls.\<close>

definition CleanupStateProperties :: saved_state where
  "CleanupStateProperties =
     \<lparr>m_sGuid = [], m_sName = [], m_sDateTime = [], m_sCreator = [], m_sScreenShot = [],
      m_sDescription = [], m_bCurrent = False, m_bCurrentState = False,
      m_iVmState = SnapshotedVmPoweredOff, nSize = 0, nOsVersion = 0\<rparr>"

definition SetCurrentState :: "bool \<Rightarrow> saved_state \<Rightarrow> saved_state" where
  "SetCurrentState b s = (if b then CleanupStateProperties else s)\<lparr>m_bCurrentState := b\<rparr>"


section \<open>The tree\<close>

datatype sst = Node (m_state: saved_state) (m_childNodes: "sst list")

type_synonym path = "nat list"

abbreviation IsCurrent :: "sst \<Rightarrow> bool" where "IsCurrent t \<equiv> m_bCurrent (m_state t)"

abbreviation IsCurrentState :: "sst \<Rightarrow> bool" where "IsCurrentState t \<equiv> m_bCurrentState (m_state t)"

definition new_node :: sst where "new_node = Node CleanupStateProperties []"

definition here_node :: sst where "here_node = Node (SetCurrentState True CleanupStateProperties) []"

text \<open>The node at a path, and the tree with the node at a path changed.\<close>

fun node_at :: "path \<Rightarrow> sst \<Rightarrow> sst option" where
  "node_at [] t = Some t"
| "node_at (i # p) (Node s cs) = (if i < length cs then node_at p (cs ! i) else None)"

fun modify :: "path \<Rightarrow> (sst \<Rightarrow> sst) \<Rightarrow> sst \<Rightarrow> sst" where
  "modify [] f t = f t"
| "modify (i # p) f (Node s cs) = Node s (cs[i := modify p f (cs ! i)])"

definition GetParent :: "path \<Rightarrow> path option" where
  "GetParent p = (if p = [] then None else Some (butlast p))"

definition GetChildCount :: "path \<Rightarrow> sst \<Rightarrow> nat" where
  "GetChildCount p root = (case node_at p root of None \<Rightarrow> 0 | Some t \<Rightarrow> length (m_childNodes t))"

text \<open>The index is an \<^verbatim>\<open>int\<close>, which may be outside of the list.\<close>

definition GetChild :: "path \<Rightarrow> sst \<Rightarrow> int \<Rightarrow> path option" where
  "GetChild p root i =
     (if i < 0 \<or> i > int (GetChildCount p root) - 1 then None else Some (p @ [nat i]))"

definition GetNextSibling :: "path \<Rightarrow> sst \<Rightarrow> path option" where
  "GetNextSibling p root =
     (case GetParent p of None \<Rightarrow> None | Some q \<Rightarrow> GetChild q root (int (last p) + 1))"

definition GetPrevSibling :: "path \<Rightarrow> sst \<Rightarrow> path option" where
  "GetPrevSibling p root =
     (case GetParent p of None \<Rightarrow> None | Some q \<Rightarrow> GetChild q root (int (last p) - 1))"

text \<open>
  The new child goes before the "You are here" node.  (On a current node without children the
  position would be -1, at which Qt inserts at the front.)
\<close>

definition AddChild :: "sst \<Rightarrow> sst \<Rightarrow> bool \<times> sst" where
  "AddChild child t =
     (if IsCurrentState t then (False, t)
      else (let cs = m_childNodes t;
                n = (if IsCurrent t \<and> \<not> IsCurrentState child then length cs - 1 else length cs)
            in (True, Node (m_state t) (take n cs @ child # drop n cs))))"

text \<open>The first node in the order of the recursive searches that satisfies a predicate.\<close>

fun find_node :: "(sst \<Rightarrow> bool) \<Rightarrow> sst \<Rightarrow> path option"
  and find_child :: "(sst \<Rightarrow> bool) \<Rightarrow> nat \<Rightarrow> sst list \<Rightarrow> path option" where
  "find_node P (Node s cs) = (if P (Node s cs) then Some [] else find_child P 0 cs)"
| "find_child P i [] = None"
| "find_child P i (c # cs) =
     (case find_node P c of Some p \<Rightarrow> Some (i # p) | None \<Rightarrow> find_child P (Suc i) cs)"

definition FindByUuid :: "qstring \<Rightarrow> sst \<Rightarrow> path option" where
  "FindByUuid g = find_node (\<lambda>t. m_sGuid (m_state t) = g)"

definition FindCurrentNode :: "sst \<Rightarrow> path option" where
  "FindCurrentNode = find_node IsCurrent"

definition FindYouAreHereNode :: "sst \<Rightarrow> path option" where
  "FindYouAreHereNode = find_node IsCurrentState"

definition drop_here :: "sst list \<Rightarrow> sst list" where
  "drop_here cs = (if cs \<noteq> [] \<and> IsCurrentState (last cs) then butlast cs else cs)"

text \<open>\<^verbatim>\<open>SetCurrent(false)\<close> on a node.\<close>

definition unset_current :: "sst \<Rightarrow> sst" where
  "unset_current t =
     (if IsCurrentState t then t
      else Node ((m_state t)\<lparr>m_bCurrent := False\<rparr>) (drop_here (m_childNodes t)))"

lemma drop_here_subset: "c \<in> set (drop_here cs) \<Longrightarrow> c \<in> set cs"
  by (auto simp: drop_here_def dest: in_set_butlastD split: if_splits)

function RecursiveClearCurrentNodes :: "sst \<Rightarrow> sst" where
  "RecursiveClearCurrentNodes (Node s cs) =
     (if m_bCurrentState s then Node s (map RecursiveClearCurrentNodes cs)
      else Node (s\<lparr>m_bCurrent := False\<rparr>) (map RecursiveClearCurrentNodes (drop_here cs)))"
  by pat_completeness auto

termination
  by (relation "measure size")
    (auto dest!: drop_here_subset simp: less_Suc_eq_le size_list_estimation')

text \<open>\<^verbatim>\<open>SetCurrent(true)\<close> clears the whole tree first.\<close>

definition mark_current :: "sst \<Rightarrow> sst" where
  "mark_current t = snd (AddChild here_node (Node ((m_state t)\<lparr>m_bCurrent := True\<rparr>) (m_childNodes t)))"

definition SetCurrent :: "bool \<Rightarrow> path \<Rightarrow> sst \<Rightarrow> sst" where
  "SetCurrent b p root =
     (case node_at p root of
        None \<Rightarrow> root
      | Some t \<Rightarrow>
          if IsCurrentState t then root
          else if b then modify p mark_current (RecursiveClearCurrentNodes root)
          else modify p unset_current root)"


section \<open>Nodes at paths\<close>

lemma node_at_append: "node_at (p @ q) t = (case node_at p t of None \<Rightarrow> None | Some u \<Rightarrow> node_at q u)"
  by (induction p t rule: node_at.induct) auto

lemma node_at_modify:
  "node_at p t = Some u \<Longrightarrow> node_at p (modify p f t) = Some (f u)"
  by (induction p t rule: node_at.induct) (auto split: if_splits)

lemma modify_cong:
  "node_at p t = Some u \<Longrightarrow> f u = g u \<Longrightarrow> modify p f t = modify p g t"
  by (induction p t rule: node_at.induct) (auto split: if_splits)

lemma modify_same: "node_at p t = Some u \<Longrightarrow> f u = u \<Longrightarrow> modify p f t = t"
  by (induction p t rule: node_at.induct) (auto split: if_splits)

lemma modify_modify: "modify p f (modify p g t) = modify p (\<lambda>u. f (g u)) t"
proof (induction p t rule: node_at.induct)
  case (2 i p s cs)
  then show ?case by (cases "i < length cs") (simp_all add: list_update_beyond not_less)
qed simp

lemma modify_state:
  "node_at p t = Some u \<Longrightarrow> m_state (f u) = m_state u \<Longrightarrow> m_state (modify p f t) = m_state t"
  by (cases p; cases t) auto

lemma modify_append: "modify (p @ q) f t = modify p (modify q f) t"
  by (induction p f t rule: modify.induct) auto

text \<open>
  A list that is put together along the order of the nodes: the part that belongs to the node at
  a path is a segment of it.
\<close>

fun preorder :: "(saved_state \<Rightarrow> 'a list) \<Rightarrow> sst \<Rightarrow> 'a list" where
  "preorder h (Node s cs) = h s @ concat (map (preorder h) cs)"

lemma preorder_modify:
  "node_at p t = Some u \<Longrightarrow> \<exists>xs ys. \<forall>f. preorder h (modify p f t) = xs @ preorder h (f u) @ ys"
proof (induction p t rule: node_at.induct)
  case (1 t)
  then show ?case by (auto intro: exI [of _ "[]"])
next
  case (2 i p s cs)
  then have i: "i < length cs" and "node_at p (cs ! i) = Some u" by (auto split: if_splits)
  with 2(1) obtain xs ys where "\<forall>f. preorder h (modify p f (cs ! i)) = xs @ preorder h (f u) @ ys"
    by auto
  then have "\<forall>f. preorder h (modify (i # p) f (Node s cs)) =
    (h s @ concat (map (preorder h) (take i cs)) @ xs) @ preorder h (f u) @
      ys @ concat (map (preorder h) (drop (Suc i) cs))"
    using i by (simp add: upd_conv_take_nth_drop)
  then show ?case by blast
qed

lemma preorder_segment:
  assumes "node_at p t = Some u"
  obtains xs ys where "preorder h t = xs @ preorder h u @ ys"
    "\<And>f. preorder h (modify p f t) = xs @ preorder h (f u) @ ys"
proof -
  from preorder_modify [OF assms, where h = h] obtain xs ys
    where a: "\<forall>f. preorder h (modify p f t) = xs @ preorder h (f u) @ ys" by blast
  from a [rule_format, of "\<lambda>u. u"] have "preorder h t = xs @ preorder h u @ ys"
    by (simp add: modify_same [OF assms])
  with a that show ?thesis by blast
qed

lemma find_node_Some:
  "find_node P t = Some p \<Longrightarrow> \<exists>u. node_at p t = Some u \<and> P u"
  "find_child P i cs = Some p \<Longrightarrow>
     \<exists>j q u. p = (i + j) # q \<and> j < length cs \<and> node_at q (cs ! j) = Some u \<and> P u"
proof (induction P t and P i cs arbitrary: p and p rule: find_node_find_child.induct)
  case (1 P s cs)
  show ?case
  proof (cases "P (Node s cs)")
    case True
    with 1(2) show ?thesis by auto
  next
    case False
    with 1 show ?thesis by fastforce
  qed
next
  case (3 P i c cs)
  show ?case
  proof (cases "find_node P c")
    case None
    with 3(2) [of p] 3(3) obtain j q u where "p = (Suc i + j) # q" "j < length cs"
      "node_at q (cs ! j) = Some u" "P u" by auto
    then show ?thesis by (auto intro!: exI [of _ "Suc j"])
  next
    case (Some q)
    with 3(1) [of q] 3(3) show ?thesis by (auto intro!: exI [of _ 0])
  qed
qed simp

lemma find_node_None:
  "find_node P t = None \<Longrightarrow> node_at p t = Some u \<Longrightarrow> \<not> P u"
  "find_child P i cs = None \<Longrightarrow> j < length cs \<Longrightarrow> node_at q (cs ! j) = Some u \<Longrightarrow> \<not> P u"
proof (induction P t and P i cs arbitrary: p u and j q u rule: find_node_find_child.induct)
  case (1 P s cs)
  from 1(2) have n: "\<not> P (Node s cs)" "find_child P 0 cs = None" by (simp_all split: if_splits)
  show ?case
  proof (cases p)
    case (Cons j q)
    with 1(3) have "j < length cs" "node_at q (cs ! j) = Some u" by (auto split: if_splits)
    with 1(1) n show ?thesis by blast
  qed (use 1(3) n in simp)
next
  case (3 P i c cs)
  from 3(3) have n: "find_node P c = None" "find_child P (Suc i) cs = None"
    by (simp_all split: option.splits)
  show ?case
  proof (cases j)
    case 0
    with 3(1) 3(5) n show ?thesis by simp
  next
    case (Suc k)
    with 3(2) 3(4,5) n show ?thesis by simp
  qed
qed simp


section \<open>Shape of the tree\<close>

text \<open>
  A snapshot has the snapshots made from it as its children and, exactly if it is current, one
  more child at the end, the "You are here" node.
\<close>

definition here_tail :: "saved_state \<Rightarrow> sst list" where
  "here_tail s = (if m_bCurrent s then [here_node] else [])"

inductive sst_shape :: "sst \<Rightarrow> bool" where
  sst_shapeI: "\<not> m_bCurrentState s \<Longrightarrow> \<forall>d \<in> set ds. sst_shape d \<Longrightarrow> sst_shape (Node s (ds @ here_tail s))"

inductive_cases sst_shapeE: "sst_shape t"

text \<open>The list has an element for each current node.\<close>

abbreviation currents :: "sst \<Rightarrow> unit list" where
  "currents \<equiv> preorder (\<lambda>s. if m_bCurrent s then [()] else [])"

text \<open>What a listing may show of a node: neither the marks nor the "You are here" nodes.\<close>

definition listing :: "(saved_state \<Rightarrow> 'a list) \<Rightarrow> bool" where
  "listing h \<longleftrightarrow> (\<forall>s b. h (s\<lparr>m_bCurrent := b\<rparr>) = h s) \<and> h (m_state here_node) = []"

lemma here_node_simps [simp]:
  "m_childNodes here_node = []" "m_bCurrentState (m_state here_node)" "\<not> m_bCurrent (m_state here_node)"
  "m_sGuid (m_state here_node) = []"
  by (simp_all add: here_node_def SetCurrentState_def CleanupStateProperties_def)

lemma shape_not_here: "sst_shape t \<Longrightarrow> \<not> IsCurrentState t"
  by (auto elim: sst_shapeE)

lemma not_shape_here [simp]: "\<not> sst_shape here_node"
  using shape_not_here here_node_simps(2) by blast

lemma here_tail_simps [simp]:
  "\<not> m_bCurrent s \<Longrightarrow> here_tail s = []" "m_bCurrent s \<Longrightarrow> here_tail s = [here_node]"
  by (simp_all add: here_tail_def)

lemma here_node_eq: "here_node = Node (m_state here_node) []"
  by (simp add: here_node_def)

lemma preorder_here [simp]: "h (m_state here_node) = [] \<Longrightarrow> preorder h here_node = []"
  using preorder.simps [of h "m_state here_node" "[]"] by (simp flip: here_node_eq)

lemma preorder_here_tail [simp]:
  "h (m_state here_node) = [] \<Longrightarrow> concat (map (preorder h) (here_tail s)) = []"
  by (cases "m_bCurrent s") simp_all

lemma node_at_here: "node_at p here_node = Some u \<Longrightarrow> u = here_node"
  by (cases p) (simp_all add: here_node_def)

lemma drop_here_shape [simp]: "\<forall>d \<in> set ds. sst_shape d \<Longrightarrow> drop_here (ds @ here_tail s) = ds"
  by (cases "m_bCurrent s") (auto simp: drop_here_def dest: shape_not_here last_in_set)

lemma drop_here_shapes [simp]: "\<forall>d \<in> set ds. sst_shape d \<Longrightarrow> drop_here ds = ds"
  by (auto simp: drop_here_def dest: shape_not_here last_in_set)

lemma node_at_shape:
  "sst_shape t \<Longrightarrow> node_at p t = Some u \<Longrightarrow> sst_shape u \<or> u = here_node"
proof (induction p t rule: node_at.induct)
  case (2 i p s cs)
  from 2(2) obtain ds where cs: "cs = ds @ here_tail s" and d: "\<forall>d \<in> set ds. sst_shape d"
    by (auto elim: sst_shapeE)
  from 2(3) have i: "i < length cs" and n: "node_at p (cs ! i) = Some u" by (auto split: if_splits)
  show ?case
  proof (cases "i < length ds")
    case True
    with d cs have "sst_shape (cs ! i)" by (simp add: nth_append)
    with 2(1) i n show ?thesis by simp
  next
    case False
    with i cs have "cs ! i = here_node" by (cases "m_bCurrent s") (auto simp: nth_append)
    with n node_at_here show ?thesis by simp
  qed
qed simp

lemma node_at_child:
  assumes "sst_shape (Node s cs)" "node_at (i # p) (Node s cs) = Some u" "sst_shape u"
  obtains ds where "cs = ds @ here_tail s" "\<forall>d \<in> set ds. sst_shape d" "i < length ds"
    "node_at p (ds ! i) = Some u"
proof -
  from assms(1) obtain ds where cs: "cs = ds @ here_tail s" and d: "\<forall>d \<in> set ds. sst_shape d"
    by (auto elim: sst_shapeE)
  from assms(2) have i: "i < length cs" and n: "node_at p (cs ! i) = Some u" by (auto split: if_splits)
  have "i < length ds"
  proof (rule ccontr)
    assume "\<not> i < length ds"
    with i cs have "cs ! i = here_node" by (cases "m_bCurrent s") (auto simp: nth_append)
    with n node_at_here have "u = here_node" by simp
    with assms(3) show False by simp
  qed
  moreover from this n cs have "node_at p (ds ! i) = Some u" by (simp add: nth_append)
  ultimately show ?thesis using that cs d by blast
qed

lemma modify_shape:
  "sst_shape t \<Longrightarrow> node_at p t = Some u \<Longrightarrow> sst_shape u \<Longrightarrow> sst_shape (f u) \<Longrightarrow> sst_shape (modify p f t)"
proof (induction p t rule: node_at.induct)
  case (2 i p s cs)
  from node_at_child [OF 2(2,3,4)] obtain ds where ds: "cs = ds @ here_tail s"
    "\<forall>d \<in> set ds. sst_shape d" "i < length ds" "node_at p (ds ! i) = Some u" by blast
  then have "sst_shape (modify p f (ds ! i))" using 2(1,4,5) by (simp add: nth_append)
  with ds(2,3) have "\<forall>d \<in> set (ds[i := modify p f (ds ! i)]). sst_shape d"
    by (auto dest: subsetD [OF set_update_subset_insert])
  from sst_shapeI [OF _ this] ds 2(2) shape_not_here show ?case
    by (fastforce simp: list_update_append nth_append)
qed simp


section \<open>Clearing and marking\<close>

lemma clear_shape:
  assumes "sst_shape t"
  shows "sst_shape (RecursiveClearCurrentNodes t) \<and> currents (RecursiveClearCurrentNodes t) = []"
  using assms
proof (induction t)
  case (sst_shapeI s ds)
  then have "sst_shape (Node (s\<lparr>m_bCurrent := False\<rparr>)
      (map RecursiveClearCurrentNodes ds @ here_tail (s\<lparr>m_bCurrent := False\<rparr>)))"
    by (intro sst_shape.sst_shapeI) auto
  with sst_shapeI show ?case by (auto simp: drop_here_shape)
qed

lemma clear_listing:
  assumes "sst_shape t" "listing h"
  shows "preorder h (RecursiveClearCurrentNodes t) = preorder h t"
  using assms(1)
proof (induction t)
  case (sst_shapeI s ds)
  with assms(2) show ?case by (simp add: drop_here_shape listing_def cong: map_cong)
qed

lemma clear_id:
  assumes "sst_shape t" "currents t = []" shows "RecursiveClearCurrentNodes t = t"
  using assms
proof (induction t)
  case (sst_shapeI s ds)
  then have "map RecursiveClearCurrentNodes ds = ds" "\<not> m_bCurrent s"
    by (auto intro: map_idI split: if_splits)
  with sst_shapeI show ?case by (simp add: drop_here_shape)
qed

lemma node_at_clear:
  "sst_shape t \<Longrightarrow> node_at p t = Some u \<Longrightarrow> sst_shape u \<Longrightarrow>
     node_at p (RecursiveClearCurrentNodes t) = Some (RecursiveClearCurrentNodes u)"
proof (induction p t rule: node_at.induct)
  case (2 i p s cs)
  from node_at_child [OF 2(2,3,4)] obtain ds where ds: "cs = ds @ here_tail s"
    "\<forall>d \<in> set ds. sst_shape d" "i < length ds" "node_at p (ds ! i) = Some u" by blast
  with 2(1,4) have "node_at p (RecursiveClearCurrentNodes (ds ! i)) = Some (RecursiveClearCurrentNodes u)"
    by (simp add: nth_append)
  with ds shape_not_here [OF 2(2)] show ?case by (simp add: drop_here_shape)
qed simp

lemma mark_shape:
  assumes "sst_shape u" "\<not> IsCurrent u"
  shows "sst_shape (mark_current u)" "currents (mark_current u) = () # currents u"
    "listing h \<Longrightarrow> preorder h (mark_current u) = preorder h u" "IsCurrent (mark_current u)"
proof -
  from assms obtain s ds where u: "u = Node s ds" "\<not> m_bCurrentState s" "\<not> m_bCurrent s"
    "\<forall>d \<in> set ds. sst_shape d" by (auto elim!: sst_shapeE)
  then have m: "mark_current u = Node (s\<lparr>m_bCurrent := True\<rparr>) (ds @ here_tail (s\<lparr>m_bCurrent := True\<rparr>))"
    by (simp add: mark_current_def AddChild_def)
  with u show "sst_shape (mark_current u)" using sst_shapeI [of "s\<lparr>m_bCurrent := True\<rparr>" ds] by simp
  show "currents (mark_current u) = () # currents u" using u m by simp
  show "listing h \<Longrightarrow> preorder h (mark_current u) = preorder h u" using u m
    by (simp add: listing_def preorder_here_tail del: here_tail_simps)
  show "IsCurrent (mark_current u)" using m by simp
qed

lemma SetCurrent_True:
  assumes "sst_shape t" "node_at p t = Some u" "sst_shape u"
  shows "sst_shape (SetCurrent True p t)" "currents (SetCurrent True p t) = [()]"
    "listing h \<Longrightarrow> preorder h (SetCurrent True p t) = preorder h t"
    "\<exists>v. node_at p (SetCurrent True p t) = Some v \<and> IsCurrent v"
proof -
  let ?c = "RecursiveClearCurrentNodes t" and ?u = "RecursiveClearCurrentNodes u"
  have eq: "SetCurrent True p t = modify p mark_current ?c"
    using assms shape_not_here by (simp add: SetCurrent_def)
  have c: "sst_shape ?c" "currents ?c = []" using clear_shape [OF assms(1)] by auto
  have u: "sst_shape ?u" "currents ?u = []" using clear_shape [OF assms(3)] by auto
  have n: "node_at p ?c = Some ?u" by (rule node_at_clear [OF assms])
  have i: "\<not> IsCurrent ?u" using u(2) by (cases ?u) (auto split: if_splits)
  note m = mark_shape [OF u(1) i]
  show "sst_shape (SetCurrent True p t)" unfolding eq using modify_shape c(1) n u(1) m(1) by blast
  show "currents (SetCurrent True p t) = [()]"
    using preorder_segment [OF n, where h = "\<lambda>s. if m_bCurrent s then [()] else []"] c(2) u(2) m(2)
    unfolding eq by (metis append_Nil append_is_Nil_conv append_Nil2)
  show "preorder h (SetCurrent True p t) = preorder h t" if "listing h"
  proof -
    obtain xs ys where "preorder h ?c = xs @ preorder h ?u @ ys"
      "preorder h (modify p mark_current ?c) = xs @ preorder h (mark_current ?u) @ ys"
      using preorder_segment [OF n] by metis
    then show ?thesis using m(3) [OF that] clear_listing [OF assms(1) that] by (simp add: eq)
  qed
  show "\<exists>v. node_at p (SetCurrent True p t) = Some v \<and> IsCurrent v"
    unfolding eq using node_at_modify [OF n] m(4) by blast
qed

end
