(* ===== verification/SnapshotStore.thy ===== *)
theory SnapshotStore
  imports SnapshotTree
begin

text \<open>
  The store of snapshots (\<^verbatim>\<open>Libraries/StatesStore/SavedStateStore.cpp\<close>): the tree with its
  head, below which all snapshots are, and the operations that create and delete snapshots.
\<close>

section \<open>The store\<close>

datatype snapshot_rc =
  RcSuccess | BadFileName | BadSnapshotTree | EmptySnapshotTree | CannotWriteFile
  | CannotCreateSnapshot | CannotDeleteSnapshot | BadSnapshotGuid | BadSnapshotName
  | BadSnapshotCreateTime | BadSnapshotCreator | BadSnapshotScreenshot | BadSnapshotDescription

record sst_store =
  m_sXmlFileName :: qstring
  m_sSnapshotFolder :: qstring
  m_SST :: "sst option"

definition new_store :: sst_store where
  "new_store = \<lparr>m_sXmlFileName = [], m_sSnapshotFolder = [], m_SST = None\<rparr>"

definition FindCurrentSnapshot :: "sst_store \<Rightarrow> path option" where
  "FindCurrentSnapshot s = (case m_SST s of None \<Rightarrow> None | Some t \<Rightarrow> FindCurrentNode t)"

text \<open>The node that \<^verbatim>\<open>CreateSnapshot\<close> fills from the description it is given.\<close>

definition snapshot_node :: "saved_state \<Rightarrow> sst" where
  "snapshot_node st =
     Node (CleanupStateProperties
       \<lparr>m_sGuid := m_sGuid st, m_sName := m_sName st, m_sCreator := m_sCreator st,
        m_sDateTime := m_sDateTime st, m_sScreenShot := m_sScreenShot st,
        m_sDescription := m_sDescription st, m_iVmState := m_iVmState st\<rparr>) []"

text \<open>
  The new snapshot becomes a child of the current one, before the "You are here" node, or else the
  first child of a new head, which replaces whatever tree there was; it is the current one then.
\<close>

definition CreateSnapshot :: "saved_state \<Rightarrow> sst_store \<Rightarrow> snapshot_rc \<times> sst_store" where
  "CreateSnapshot st s =
     (case (m_SST s, FindCurrentSnapshot s) of
        (Some t, Some p) \<Rightarrow>
          (case node_at p t of
             None \<Rightarrow> (CannotCreateSnapshot, s)
           | Some u \<Rightarrow>
               if \<not> fst (AddChild (snapshot_node st) u) then (CannotCreateSnapshot, s)
               else (RcSuccess, s\<lparr>m_SST := Some (SetCurrent True (p @ [length (m_childNodes u) - 1])
                      (modify p (\<lambda>u. snd (AddChild (snapshot_node st) u)) t))\<rparr>))
      | _ \<Rightarrow> (RcSuccess, s\<lparr>m_SST :=
                Some (SetCurrent True [0] (snd (AddChild (snapshot_node st) new_node)))\<rparr>))"

definition remove_child :: "nat \<Rightarrow> sst \<Rightarrow> sst" where
  "remove_child i t = Node (m_state t) (take i (m_childNodes t) @ drop (Suc i) (m_childNodes t))"

definition insert_children :: "nat \<Rightarrow> sst list \<Rightarrow> sst \<Rightarrow> sst" where
  "insert_children i ds t = Node (m_state t) (take i (m_childNodes t) @ ds @ drop i (m_childNodes t))"

text \<open>The parent becomes current, unless it is the head and has no children any more.\<close>

definition parent_current :: "path \<Rightarrow> sst \<Rightarrow> sst option" where
  "parent_current q root =
     (if q = [] \<and> GetChildCount q root = 0 then None else Some (SetCurrent True q root))"

text \<open>The last step: a head that is current and has no snapshots is deleted.\<close>

definition drop_bare_head :: "sst option \<Rightarrow> sst option" where
  "drop_bare_head x =
     (case x of None \<Rightarrow> None | Some t \<Rightarrow> if length (m_childNodes t) = 1 \<and> IsCurrent t then None else x)"

definition DeleteNode :: "path \<Rightarrow> sst_store \<Rightarrow> snapshot_rc \<times> sst_store" where
  "DeleteNode p s =
     (case m_SST s of
        None \<Rightarrow> (CannotDeleteSnapshot, s)
      | Some t \<Rightarrow>
          (case (node_at p t, GetParent p) of
             (Some u, Some q) \<Rightarrow>
               (let i = last p;
                    t1 = modify q (remove_child i) t;
                    t2 = modify q (insert_children i (m_childNodes (unset_current u))) t1;
                    x = (if IsCurrent u then parent_current q t2 else Some t2)
                in (RcSuccess, s\<lparr>m_SST := drop_bare_head x\<rparr>))
           | _ \<Rightarrow> (CannotDeleteSnapshot, s)))"

text \<open>The overloads by uuid search in the tree without a look whether there is one.\<close>

definition DeleteNode_uuid :: "qstring \<Rightarrow> sst_store \<Rightarrow> (snapshot_rc \<times> sst_store) option" where
  "DeleteNode_uuid g s =
     (case m_SST s of
        None \<Rightarrow> None
      | Some t \<Rightarrow> Some (case FindByUuid g t of None \<Rightarrow> (CannotDeleteSnapshot, s) | Some p \<Rightarrow> DeleteNode p s))"

definition DeleteBranch :: "path \<Rightarrow> sst_store \<Rightarrow> snapshot_rc \<times> sst_store" where
  "DeleteBranch p s =
     (case m_SST s of
        None \<Rightarrow> (CannotDeleteSnapshot, s)
      | Some t \<Rightarrow>
          (case node_at p t of
             None \<Rightarrow> (CannotDeleteSnapshot, s)
           | Some u \<Rightarrow>
               (let x = (case GetParent p of
                           None \<Rightarrow> None
                         | Some q \<Rightarrow>
                             (let t1 = modify q (remove_child (last p)) t in
                              if FindCurrentNode u \<noteq> None then parent_current q t1 else Some t1))
                in (RcSuccess, s\<lparr>m_SST := drop_bare_head x\<rparr>))))"

definition DeleteBranch_uuid :: "qstring \<Rightarrow> sst_store \<Rightarrow> (snapshot_rc \<times> sst_store) option" where
  "DeleteBranch_uuid g s =
     (case m_SST s of
        None \<Rightarrow> None
      | Some t \<Rightarrow> Some (case FindByUuid g t of None \<Rightarrow> (CannotDeleteSnapshot, s) | Some p \<Rightarrow> DeleteBranch p s))"

definition ClearSavedStateTree :: "sst_store \<Rightarrow> sst_store" where
  "ClearSavedStateTree s = s\<lparr>m_SST := None\<rparr>"


section \<open>Listings below the head\<close>

definition below :: "(saved_state \<Rightarrow> 'a list) \<Rightarrow> sst \<Rightarrow> 'a list" where
  "below h t = concat (map (preorder h) (m_childNodes t))"

lemma preorder_below: "preorder h t = h (m_state t) @ below h t"
  by (cases t) (simp add: below_def)

lemma below_Node [simp]: "below h (Node s cs) = concat (map (preorder h) cs)"
  by (simp add: below_def)

text \<open>The snapshots of a tree in order, without the marks.\<close>

definition snap :: "saved_state \<Rightarrow> saved_state list" where
  "snap s = (if m_bCurrentState s then [] else [s\<lparr>m_bCurrent := False\<rparr>])"

definition store_snapshots :: "sst_store \<Rightarrow> saved_state list" where
  "store_snapshots s = (case m_SST s of None \<Rightarrow> [] | Some t \<Rightarrow> below snap t)"

lemma listing_snap [simp]: "listing snap"
  by (simp add: listing_def snap_def)

lemma below_modify:
  assumes "node_at q t = Some u"
  shows "\<exists>xs ys. \<forall>f. m_state (f u) = m_state u \<longrightarrow> below h (modify q f t) = xs @ below h (f u) @ ys"
proof (cases q)
  case Nil
  with assms show ?thesis by (auto intro: exI [of _ "[]"])
next
  case (Cons i p)
  obtain s cs where t: "t = Node s cs" by (cases t)
  with assms Cons have i: "i < length cs" "node_at p (cs ! i) = Some u" by (auto split: if_splits)
  from preorder_modify [OF i(2), of h] obtain xs ys
    where "\<forall>f. preorder h (modify p f (cs ! i)) = xs @ preorder h (f u) @ ys" by blast
  then have "\<forall>f. m_state (f u) = m_state u \<longrightarrow> below h (modify q f t) =
    (concat (map (preorder h) (take i cs)) @ xs @ h (m_state u)) @ below h (f u) @
      ys @ concat (map (preorder h) (drop (Suc i) cs))"
    using i(1) by (simp add: t Cons upd_conv_take_nth_drop preorder_below [of h "_ u"])
  then show ?thesis by blast
qed

lemma state_SetCurrent:
  assumes "node_at q t = Some u" "\<not> IsCurrentState u"
  shows "\<exists>b. m_state (SetCurrent True q t) = (m_state t)\<lparr>m_bCurrent := b\<rparr> \<or>
    m_state (SetCurrent True q t) = m_state t"
  using assms by (cases t; cases q) (auto simp: SetCurrent_def mark_current_def AddChild_def)

lemma below_SetCurrent:
  assumes "sst_shape t" "node_at q t = Some u" "sst_shape u" "listing h"
  shows "below h (SetCurrent True q t) = below h t"
proof -
  have "h (m_state (SetCurrent True q t)) = h (m_state t)"
    using state_SetCurrent [OF assms(2)] shape_not_here [OF assms(3)] assms(4)
    unfolding listing_def by metis
  with SetCurrent_True(3) [OF assms] show ?thesis by (simp add: preorder_below)
qed

lemma preorder_empty:
  "(\<And>p v. node_at p t = Some v \<Longrightarrow> h (m_state v) = []) \<Longrightarrow> preorder h t = []"
proof (induction t)
  case (Node s cs)
  have "h s = []" using Node(2) [of "[]" "Node s cs"] by simp
  moreover have "preorder h c = []" if c: "c \<in> set cs" for c
  proof (rule Node(1) [OF c])
    from c obtain i where "i < length cs" "cs ! i = c" by (auto simp: in_set_conv_nth)
    then show "h (m_state v) = []" if "node_at p c = Some v" for p v
      using Node(2) [of "i # p" v] that by simp
  qed
  ultimately show ?case by simp
qed

lemma no_current: "FindCurrentNode u = None \<Longrightarrow> currents u = []"
  unfolding FindCurrentNode_def by (rule preorder_empty) (auto dest: find_node_None(1))


section \<open>Changing the children of a node\<close>

text \<open>The snapshot \<open>u\<close> at position \<open>i\<close> of a parent, and its replacement by a list of snapshots.\<close>

definition replace_child :: "nat \<Rightarrow> sst list \<Rightarrow> sst \<Rightarrow> sst" where
  "replace_child i es t =
     Node (m_state t) (take i (m_childNodes t) @ es @ drop (Suc i) (m_childNodes t))"

lemma replace_child_state [simp]: "m_state (replace_child i es t) = m_state t"
  by (simp add: replace_child_def)

lemma remove_child_replace: "remove_child i = replace_child i []"
  by (rule ext) (simp add: remove_child_def replace_child_def)

lemma insert_remove_replace:
  assumes "node_at q t = Some P" "i < length (m_childNodes P)"
  shows "modify q (insert_children i es) (modify q (remove_child i) t) = modify q (replace_child i es) t"
  unfolding modify_modify
  by (rule modify_cong [OF assms(1)])
    (use assms(2) in \<open>simp add: insert_children_def remove_child_def replace_child_def\<close>)

lemma child_of_shape:
  assumes "sst_shape t" "node_at (q @ [i]) t = Some u" "sst_shape u"
  obtains s ds where "node_at q t = Some (Node s (ds @ here_tail s))" "i < length ds" "ds ! i = u"
    "\<forall>d \<in> set ds. sst_shape d" "sst_shape (Node s (ds @ here_tail s))" "\<not> m_bCurrentState s"
proof -
  from assms(2) obtain P where P: "node_at q t = Some P" "node_at [i] P = Some u"
    by (auto simp: node_at_append split: option.splits)
  with node_at_shape [OF assms(1) P(1)] node_at_here assms(3) have w: "sst_shape P" by force
  obtain s cs where n: "P = Node s cs" by (cases P)
  show ?thesis
    using node_at_child [OF w [unfolded n] P(2) [unfolded n] assms(3)] that P(1) w n
      shape_not_here [OF w] by fastforce
qed

lemma replace_child_shape:
  assumes "\<forall>d \<in> set ds. sst_shape d" "i < length ds" "\<forall>d \<in> set es. sst_shape d" "\<not> m_bCurrentState s"
  shows "sst_shape (replace_child i es (Node s (ds @ here_tail s)))"
proof -
  have "\<forall>d \<in> set (take i ds @ es @ drop (Suc i) ds). sst_shape d"
    using assms(1,3) by (auto dest: in_set_takeD in_set_dropD)
  from sst_shapeI [OF assms(4) this] show ?thesis using assms(2) by (simp add: replace_child_def)
qed

lemma replace_child_below:
  assumes "i < length (m_childNodes P)" "m_childNodes P ! i = u"
  obtains A B where "below h P = A @ preorder h u @ B"
    "\<And>es. below h (replace_child i es P) = A @ concat (map (preorder h) es) @ B"
proof -
  have "m_childNodes P = take i (m_childNodes P) @ u # drop (Suc i) (m_childNodes P)"
    using assms id_take_nth_drop by metis
  then have "below h P = concat (map (preorder h) (take i (m_childNodes P))) @ preorder h u @
      concat (map (preorder h) (drop (Suc i) (m_childNodes P)))"
    unfolding below_def by (metis concat.simps(2) concat_append list.simps(9) map_append)
  then show ?thesis using that by (simp add: replace_child_def)
qed

text \<open>
  What it does to a listing of the tree below the head, and to the shape of the tree.
\<close>

lemma replace_in_tree:
  assumes "sst_shape t" "node_at (q @ [i]) t = Some u" "sst_shape u"
    and "\<forall>d \<in> set es. sst_shape d"
  defines "t' \<equiv> modify q (replace_child i es) t"
  shows "sst_shape t'" "\<exists>v. node_at q t' = Some v \<and> sst_shape v"
    "\<exists>xs ys. below h t = xs @ preorder h u @ ys \<and> below h t' = xs @ concat (map (preorder h) es) @ ys"
    "m_state t' = m_state t"
proof -
  from child_of_shape [OF assms(1-3)] obtain s ds where P:
    "node_at q t = Some (Node s (ds @ here_tail s))" "i < length ds" "ds ! i = u"
    "\<forall>d \<in> set ds. sst_shape d" "sst_shape (Node s (ds @ here_tail s))" "\<not> m_bCurrentState s" .
  let ?P = "Node s (ds @ here_tail s)"
  have w: "sst_shape (replace_child i es ?P)"
    using replace_child_shape [OF P(4,2) assms(4) P(6)] .
  then show "sst_shape t'" unfolding t'_def using modify_shape assms(1) P(1,5) by blast
  show "\<exists>v. node_at q t' = Some v \<and> sst_shape v"
    unfolding t'_def using node_at_modify [OF P(1)] w by blast
  show "m_state t' = m_state t" unfolding t'_def by (rule modify_state [OF P(1)]) simp
  from below_modify [OF P(1), of h] obtain xs ys where m:
    "\<forall>f. m_state (f ?P) = m_state ?P \<longrightarrow> below h (modify q f t) = xs @ below h (f ?P) @ ys" by blast
  have c: "i < length (m_childNodes ?P)" "m_childNodes ?P ! i = u"
    using P(2,3) by (simp_all add: nth_append)
  from replace_child_below [OF c, of h] obtain A B where AB: "below h ?P = A @ preorder h u @ B"
    "below h (replace_child i es ?P) = A @ concat (map (preorder h) es) @ B" by metis
  have "below h t = xs @ below h ?P @ ys"
    using m [rule_format, of "\<lambda>x. x"] modify_same [OF P(1), of "\<lambda>x. x"] by simp
  moreover have "below h t' = xs @ below h (replace_child i es ?P) @ ys"
    unfolding t'_def by (rule m [rule_format]) simp
  ultimately show "\<exists>xs ys. below h t = xs @ preorder h u @ ys \<and>
      below h t' = xs @ concat (map (preorder h) es) @ ys"
    using AB by (metis append_assoc)
qed


section \<open>Deleting\<close>

definition tree_ok :: "sst option \<Rightarrow> bool" where
  "tree_ok x = (case x of None \<Rightarrow> True | Some t \<Rightarrow> sst_shape t \<and> length (currents t) \<le> 1)"

definition listed :: "(saved_state \<Rightarrow> 'a list) \<Rightarrow> sst option \<Rightarrow> 'a list" where
  "listed h x = (case x of None \<Rightarrow> [] | Some t \<Rightarrow> below h t)"

lemma tree_ok_simps [simp]:
  "tree_ok None" "tree_ok (Some t) \<longleftrightarrow> sst_shape t \<and> length (currents t) \<le> 1"
  by (simp_all add: tree_ok_def)

lemma listed_simps [simp]: "listed h None = []" "listed h (Some t) = below h t"
  by (simp_all add: listed_def)

lemma store_snapshots_listed: "store_snapshots s = listed snap (m_SST s)"
  by (simp add: store_snapshots_def listed_def)

lemma listing_here: "listing h \<Longrightarrow> h (m_state here_node) = []"
  by (simp add: listing_def)

lemma unset_current_children:
  assumes "sst_shape u"
  shows "\<forall>d \<in> set (m_childNodes (unset_current u)). sst_shape d"
    "h (m_state here_node) = [] \<Longrightarrow> concat (map (preorder h) (m_childNodes (unset_current u))) = below h u"
proof -
  from assms obtain s ds where "u = Node s (ds @ here_tail s)" "\<not> m_bCurrentState s"
    "\<forall>d \<in> set ds. sst_shape d" by (auto elim!: sst_shapeE)
  then have "m_childNodes (unset_current u) = ds" and "\<forall>d \<in> set ds. sst_shape d"
    and "u = Node s (ds @ here_tail s)" by (simp_all add: unset_current_def)
  then show "\<forall>d \<in> set (m_childNodes (unset_current u)). sst_shape d"
    "h (m_state here_node) = [] \<Longrightarrow> concat (map (preorder h) (m_childNodes (unset_current u))) = below h u"
    by simp_all
qed

lemma bare_head:
  assumes "sst_shape t" "length (m_childNodes t) = 1" "IsCurrent t" "listing h"
  shows "below h t = []"
  using assms by (auto elim!: sst_shapeE simp: listing_here)

lemma finish_delete:
  assumes "sst_shape t" "node_at q t = Some v" "sst_shape v" "listing h" "\<not> c \<Longrightarrow> length (currents t) \<le> 1"
  defines "x \<equiv> drop_bare_head (if c then parent_current q t else Some t)"
  shows "tree_ok x \<and> listed h x = below h t"
proof -
  have drop: "tree_ok (drop_bare_head (Some t')) \<and> listed h (drop_bare_head (Some t')) = below h t'"
    if "sst_shape t'" "length (currents t') \<le> 1" for t'
    using that bare_head [OF that(1) _ _ assms(4)] by (auto simp: drop_bare_head_def)
  show ?thesis
  proof (cases "c \<and> \<not> (q = [] \<and> GetChildCount q t = 0)")
    case True
    with drop [of "SetCurrent True q t"] SetCurrent_True [OF assms(1-3)]
      below_SetCurrent [OF assms(1-4)] show ?thesis by (auto simp: x_def parent_current_def)
  next
    case False
    show ?thesis
    proof (cases c)
      case True
      with False have "q = []" "m_childNodes t = []" by (auto simp: GetChildCount_def)
      with True show ?thesis
        by (simp add: x_def parent_current_def drop_bare_head_def GetChildCount_def below_def)
    qed (use drop [OF assms(1)] assms(5) in \<open>simp add: x_def\<close>)
  qed
qed

lemma finish_current:
  assumes "sst_shape t" "node_at q t = Some v" "sst_shape v" "drop_bare_head (parent_current q t) = Some t'"
  shows "\<exists>v'. node_at q t' = Some v' \<and> IsCurrent v'"
  using assms SetCurrent_True(4) [OF assms(1-3)]
  by (auto simp: drop_bare_head_def parent_current_def split: if_splits)

lemma DeleteNode_ok:
  assumes "m_SST s = Some t" "tree_ok (Some t)" "node_at p t = Some u" "sst_shape u" "p \<noteq> []" "listing h"
  shows "fst (DeleteNode p s) = RcSuccess" "tree_ok (m_SST (snd (DeleteNode p s)))"
    "\<exists>xs ys. below h t = xs @ h (m_state u) @ below h u @ ys \<and>
       listed h (m_SST (snd (DeleteNode p s))) = xs @ below h u @ ys"
    "IsCurrent u \<Longrightarrow> m_SST (snd (DeleteNode p s)) = Some t'' \<Longrightarrow>
       \<exists>v. node_at (butlast p) t'' = Some v \<and> IsCurrent v"
proof -
  obtain q i where p: "p = q @ [i]" using assms(5) by (cases p rule: rev_cases) auto
  define es where "es = m_childNodes (unset_current u)"
  define t' where "t' = modify q (replace_child i es) t"
  have t: "sst_shape t" "length (currents t) \<le> 1" using assms(2) by simp_all
  have n: "node_at (q @ [i]) t = Some u" using assms(3) p by simp
  note es = unset_current_children [OF assms(4), folded es_def]
  note r = replace_in_tree [OF t(1) n assms(4) es(1), folded t'_def]
  from child_of_shape [OF t(1) n assms(4)] have
    "modify q (insert_children i es) (modify q (remove_child i) t) = t'"
    unfolding t'_def by (metis append_is_Nil_conv insert_remove_replace length_append sst.sel(2) trans_less_add1)
  then have res: "DeleteNode p s = (RcSuccess, s\<lparr>m_SST :=
      drop_bare_head (if IsCurrent u then parent_current q t' else Some t')\<rparr>)"
    using assms(1,3) p by (simp add: DeleteNode_def GetParent_def es_def Let_def)
  have cur: "length (currents t') \<le> 1" if "\<not> IsCurrent u"
  proof -
    let ?h = "\<lambda>s. if m_bCurrent s then [()] else []"
    from r(3) [of ?h] obtain xs ys where "below ?h t = xs @ preorder ?h u @ ys"
      "below ?h t' = xs @ below ?h u @ ys" by (auto simp: es(2))
    with that r(4) t(2) show ?thesis by (auto simp: preorder_below [of ?h])
  qed
  from r(2) obtain v where v: "node_at q t' = Some v" "sst_shape v" by blast
  note f = finish_delete [OF r(1) v, of _ "IsCurrent u", OF _ cur]
  show "fst (DeleteNode p s) = RcSuccess" "tree_ok (m_SST (snd (DeleteNode p s)))"
    using f [OF assms(6)] by (simp_all add: res)
  from r(3) [of h] f [OF assms(6)] show "\<exists>xs ys. below h t = xs @ h (m_state u) @ below h u @ ys \<and>
       listed h (m_SST (snd (DeleteNode p s))) = xs @ below h u @ ys"
    by (simp add: res es(2) listing_here [OF assms(6)] preorder_below [of h u])
  show "\<exists>v. node_at (butlast p) t'' = Some v \<and> IsCurrent v"
    if "IsCurrent u" "m_SST (snd (DeleteNode p s)) = Some t''"
    using finish_current [OF r(1) v] that unfolding res by (simp add: p)
qed

lemma DeleteBranch_ok:
  assumes "m_SST s = Some t" "tree_ok (Some t)" "node_at p t = Some u" "sst_shape u" "p \<noteq> []" "listing h"
  shows "fst (DeleteBranch p s) = RcSuccess" "tree_ok (m_SST (snd (DeleteBranch p s)))"
    "\<exists>xs ys. below h t = xs @ preorder h u @ ys \<and> listed h (m_SST (snd (DeleteBranch p s))) = xs @ ys"
proof -
  obtain q i where p: "p = q @ [i]" using assms(5) by (cases p rule: rev_cases) auto
  define t' where "t' = modify q (replace_child i []) t"
  have t: "sst_shape t" "length (currents t) \<le> 1" using assms(2) by simp_all
  have n: "node_at (q @ [i]) t = Some u" using assms(3) p by simp
  note r = replace_in_tree [OF t(1) n assms(4), of "[]", folded t'_def, simplified]
  have res: "DeleteBranch p s = (RcSuccess, s\<lparr>m_SST :=
      drop_bare_head (if FindCurrentNode u \<noteq> None then parent_current q t' else Some t')\<rparr>)"
    using assms(1,3) p by (simp add: DeleteBranch_def GetParent_def Let_def t'_def remove_child_replace)
  have cur: "length (currents t') \<le> 1" if "\<not> FindCurrentNode u \<noteq> None"
  proof -
    let ?h = "\<lambda>s. if m_bCurrent s then [()] else []"
    from r(3) [of ?h] obtain xs ys where "below ?h t = xs @ preorder ?h u @ ys"
      "below ?h t' = xs @ ys" by auto
    with no_current [of u] that r(4) t(2) show ?thesis by (auto simp: preorder_below [of ?h t] preorder_below [of ?h t'])
  qed
  from r(2) obtain v where v: "node_at q t' = Some v" "sst_shape v" by blast
  note f = finish_delete [OF r(1) v, of _ "FindCurrentNode u \<noteq> None", OF _ cur]
  show "fst (DeleteBranch p s) = RcSuccess" "tree_ok (m_SST (snd (DeleteBranch p s)))"
    using f [OF assms(6)] by (simp_all add: res)
  from r(3) [of h] f [OF assms(6)] show "\<exists>xs ys. below h t = xs @ preorder h u @ ys \<and>
       listed h (m_SST (snd (DeleteBranch p s))) = xs @ ys"
    by (simp add: res)
qed


section \<open>Creating\<close>

lemma snapshot_node_simps [simp]:
  "m_childNodes (snapshot_node st) = []" "\<not> m_bCurrent (m_state (snapshot_node st))"
  "\<not> m_bCurrentState (m_state (snapshot_node st))" "m_sGuid (m_state (snapshot_node st)) = m_sGuid st"
  by (simp_all add: snapshot_node_def CleanupStateProperties_def)

lemma snapshot_node_shape: "sst_shape (snapshot_node st)"
  using sst_shapeI [of "m_state (snapshot_node st)" "[]"] sst.collapse [of "snapshot_node st"]
  by (metis append_Nil empty_iff empty_set here_tail_simps(1) snapshot_node_simps(1,2,3))

lemma snapshot_node_below: "preorder h (snapshot_node st) = h (m_state (snapshot_node st))"
  by (simp add: preorder_below below_def)

lemma AddChild_current:
  assumes "\<not> m_bCurrentState s" "m_bCurrent s" "\<forall>d \<in> set ds. sst_shape d" "sst_shape n"
  shows "AddChild n (Node s (ds @ here_tail s)) = (True, Node s ((ds @ [n]) @ here_tail s))"
    "sst_shape (Node s ((ds @ [n]) @ here_tail s))"
  using assms shape_not_here [OF assms(4)] sst_shapeI [OF assms(1), of "ds @ [n]"]
  by (simp_all add: AddChild_def)

text \<open>What holds when the new node is in the tree and becomes current.\<close>

lemma created_current:
  assumes "sst_shape t" "node_at p t = Some (snapshot_node st)"
  shows "tree_ok (Some (SetCurrent True p t))" "below snap (SetCurrent True p t) = below snap t"
    "\<exists>v. node_at p (SetCurrent True p t) = Some v \<and>
       m_state v = (m_state (snapshot_node st))\<lparr>m_bCurrent := True\<rparr>"
proof -
  note w = snapshot_node_shape [of st]
  have clear: "RecursiveClearCurrentNodes (snapshot_node st) = snapshot_node st"
    by (rule clear_id [OF w]) (simp add: preorder_below below_def)
  show "tree_ok (Some (SetCurrent True p t))" using SetCurrent_True(1,2) [OF assms w] by simp
  show "below snap (SetCurrent True p t) = below snap t" by (rule below_SetCurrent [OF assms w]) simp
  have "node_at p (SetCurrent True p t) = Some (mark_current (snapshot_node st))"
    using node_at_modify [OF node_at_clear [OF assms w], of mark_current] assms(2) clear
    by (simp add: SetCurrent_def)
  then show "\<exists>v. node_at p (SetCurrent True p t) = Some v \<and>
       m_state v = (m_state (snapshot_node st))\<lparr>m_bCurrent := True\<rparr>"
    by (simp add: mark_current_def AddChild_def)
qed

lemma CreateSnapshot_under:
  assumes "tree_ok (Some t)" "m_SST s = Some t" "FindCurrentSnapshot s = Some p"
  obtains k t' xs ys v where
    "CreateSnapshot st s = (RcSuccess, s\<lparr>m_SST := Some t'\<rparr>)" "tree_ok (Some t')"
    "below snap t = xs @ ys" "below snap t' = xs @ m_state (snapshot_node st) # ys"
    "node_at (p @ [k]) t' = Some v" "m_state v = (m_state (snapshot_node st))\<lparr>m_bCurrent := True\<rparr>"
proof -
  have t: "sst_shape t" using assms(1) by simp
  from assms(2,3) find_node_Some(1) obtain P where P: "node_at p t = Some P" "IsCurrent P"
    unfolding FindCurrentSnapshot_def FindCurrentNode_def by fastforce
  with node_at_shape [OF t P(1)] have w: "sst_shape P" by auto
  then obtain ps ds where eq: "P = Node ps (ds @ here_tail ps)" and ps: "\<not> m_bCurrentState ps"
    "m_bCurrent ps" and ds: "\<forall>d \<in> set ds. sst_shape d" using P(2) by (auto elim!: sst_shapeE)
  let ?n = "snapshot_node st" and ?F = "\<lambda>u. snd (AddChild (snapshot_node st) u)"
  let ?k = "length (m_childNodes P) - 1" and ?t = "modify p ?F t"
  have add: "AddChild ?n P = (True, Node ps ((ds @ [?n]) @ here_tail ps))"
    and FP: "sst_shape (?F P)"
    using AddChild_current [OF ps ds snapshot_node_shape] by (simp_all add: eq)
  have tt: "sst_shape ?t" by (rule modify_shape [where f = ?F, OF t P(1) w FP])
  have k: "?k = length ds" using eq ps by simp
  have FP': "?F P = Node ps (ds @ [?n, here_node])" using add ps by simp
  have n: "node_at (p @ [?k]) ?t = Some ?n"
    using node_at_modify [where f = ?F, OF P(1)] unfolding k FP' by (simp add: node_at_append)
  from below_modify [OF P(1), of snap] obtain xs ys where m:
    "\<forall>f. m_state (f P) = m_state P \<longrightarrow> below snap (modify p f t) = xs @ below snap (f P) @ ys" by blast
  have st: "m_state (?F P) = m_state P" and b: "below snap (?F P) = below snap P @ [m_state ?n]"
    unfolding FP' by (simp_all add: eq ps snapshot_node_below snap_def)
  have "below snap ?t = xs @ below snap (?F P) @ ys" by (rule m [rule_format]) (rule st)
  then have "below snap ?t = (xs @ below snap P) @ m_state ?n # ys" by (simp add: b)
  moreover have "below snap t = (xs @ below snap P) @ ys"
    using m [rule_format, of "\<lambda>x. x"] modify_same [OF P(1), of "\<lambda>x. x"] by simp
  moreover have "CreateSnapshot st s = (RcSuccess, s\<lparr>m_SST := Some (SetCurrent True (p @ [?k]) ?t)\<rparr>)"
    using assms(2,3) P(1) by (simp add: CreateSnapshot_def add)
  ultimately show ?thesis using that created_current [OF tt n] by metis
qed

lemma CreateSnapshot_head:
  assumes "FindCurrentSnapshot s = None"
  obtains t' v where
    "CreateSnapshot st s = (RcSuccess, s\<lparr>m_SST := Some t'\<rparr>)" "tree_ok (Some t')"
    "below snap t' = [m_state (snapshot_node st)]"
    "node_at [0] t' = Some v" "m_state v = (m_state (snapshot_node st))\<lparr>m_bCurrent := True\<rparr>"
proof -
  let ?t = "snd (AddChild (snapshot_node st) new_node)"
  have c: "\<not> m_bCurrent CleanupStateProperties" "\<not> m_bCurrentState CleanupStateProperties"
    by (simp_all add: CleanupStateProperties_def)
  then have t: "?t = Node CleanupStateProperties [snapshot_node st]"
    by (simp add: AddChild_def new_node_def)
  have "sst_shape ?t" unfolding t using sst_shapeI [OF c(2), of "[snapshot_node st]"] c
    by (simp add: snapshot_node_shape)
  note cc = created_current [OF this, of "[0]" st]
  have "CreateSnapshot st s = (RcSuccess, s\<lparr>m_SST := Some (SetCurrent True [0] ?t)\<rparr>)"
    using assms by (cases "m_SST s") (simp_all add: CreateSnapshot_def)
  with that cc show ?thesis by (fastforce simp: t snapshot_node_below snap_def)
qed

end
