(* ===== verification/SnapshotXml.thy ===== *)
theory SnapshotXml
  imports SnapshotStore
begin

text \<open>
  The XML form of the snapshot tree: the writer and the parser of \<^verbatim>\<open>SavedStateTree.cpp\<close> and
  \<^verbatim>\<open>Save\<close> and \<^verbatim>\<open>Load\<close> of \<^verbatim>\<open>SavedStateStore.cpp\<close>, over Qt's DOM.  Of the DOM the
  model has the nodes, with a cursor being the list of a node and its next siblings; how a file
  is read into a DOM is a parameter of \<^verbatim>\<open>Load\<close>.
\<close>


section \<open>Documents\<close>

datatype xml =
  Element (tagName: qstring) (attributes: "(qstring \<times> qstring) list") (childNodes: "xml list")
  | TextNode qstring
  | CDATASection qstring
  | OtherNode

fun dom_text :: "xml \<Rightarrow> qstring" where
  "dom_text (Element t a ns) = concat (map dom_text ns)"
| "dom_text (TextNode v) = v"
| "dom_text (CDATASection v) = v"
| "dom_text OtherNode = []"

definition attribute :: "qstring \<Rightarrow> xml \<Rightarrow> qstring" where
  "attribute a x = (case map_of (attributes x) a of None \<Rightarrow> [] | Some v \<Rightarrow> v)"

definition firstChildElement :: "xml \<Rightarrow> xml list" where
  "firstChildElement x = dropWhile (\<lambda>y. \<not> is_Element y) (childNodes x)"

text \<open>\<^verbatim>\<open>nextSibling().toElement()\<close>: null, that is \<open>[]\<close>, when the next node is no element.\<close>

definition next_element :: "xml list \<Rightarrow> xml list" where
  "next_element c = (case c of _ # y # ys \<Rightarrow> if is_Element y then y # ys else [] | _ \<Rightarrow> [])"

text \<open>What the code uses of Qt's strings.\<close>

record qt_strings =
  arg64 :: "64 word \<Rightarrow> qstring"
  arg32 :: "32 word \<Rightarrow> qstring"
  toULongLong :: "qstring \<Rightarrow> 64 word"
  toUInt :: "qstring \<Rightarrow> 32 word"
  toLower :: "qstring \<Rightarrow> qstring"

definition qt_ok :: "qt_strings \<Rightarrow> bool" where
  "qt_ok Q \<longleftrightarrow> (\<forall>n. toULongLong Q (arg64 Q n) = n) \<and> (\<forall>n. toUInt Q (arg32 Q n) = n) \<and>
     (\<forall>s. (\<forall>c \<in> set s. c \<in> set ''abcdefghijklmnopqrstuvwxyz'') \<longrightarrow> toLower Q s = s)"


section \<open>Writing\<close>

definition vmstate_text :: "snapshoted_vm_state \<Rightarrow> qstring" where
  "vmstate_text v =
     (case v of
        SnapshotedVmRunning \<Rightarrow> ''poweron''
      | SnapshotedVmPaused \<Rightarrow> ''pause''
      | SnapshotedVmSuspended \<Rightarrow> ''suspend''
      | SnapshotedVmPoweredOff \<Rightarrow> ''poweroff'')"

definition text_element :: "qstring \<Rightarrow> qstring \<Rightarrow> xml" where
  "text_element t v = Element t [] [TextNode v]"

definition item_attributes :: "saved_state \<Rightarrow> (qstring \<times> qstring) list" where
  "item_attributes s =
     [(''guid'', m_sGuid s)] @ (if m_bCurrent s then [(''current'', ''yes'')] else []) @
     [(''state'', vmstate_text (m_iVmState s))]"

definition item_fields :: "qt_strings \<Rightarrow> bool \<Rightarrow> saved_state \<Rightarrow> xml list" where
  "item_fields Q all_save s =
     [text_element ''Name'' (m_sName s), text_element ''DateTime'' (m_sDateTime s),
      text_element ''Creator'' (m_sCreator s), text_element ''ScreenShot'' (m_sScreenShot s),
      Element ''Description'' [] [CDATASection (m_sDescription s)]] @
     (if all_save
      then [Element ''Runtime'' []
              [text_element ''Size'' (arg64 Q (nSize s)), text_element ''OsVersion'' (arg32 Q (nOsVersion s))]]
      else [])"

definition hasChildNodes :: "xml \<Rightarrow> bool" where
  "hasChildNodes x \<longleftrightarrow> is_Element x \<and> childNodes x \<noteq> []"

text \<open>The item of a "You are here" node stays empty and is not appended to its parent.\<close>

fun AppendClassProperties :: "qt_strings \<Rightarrow> bool \<Rightarrow> sst \<Rightarrow> xml" where
  "AppendClassProperties Q all_save (Node s cs) =
     (if m_bCurrentState s then Element ''SavedStateItem'' [] []
      else Element ''SavedStateItem'' (item_attributes s)
             (item_fields Q all_save s @
              filter hasChildNodes (map (AppendClassProperties Q all_save) cs)))"

definition Save :: "qt_strings \<Rightarrow> bool \<Rightarrow> sst_store \<Rightarrow> xml" where
  "Save Q all_save s =
     Element ''VirtuozzoSavedStates'' []
       (case m_SST s of
          None \<Rightarrow> []
        | Some t \<Rightarrow> filter hasChildNodes [AppendClassProperties Q all_save t])"


section \<open>Parsing\<close>

definition vmstate_of :: "qt_strings \<Rightarrow> qstring \<Rightarrow> snapshoted_vm_state" where
  "vmstate_of Q v =
     (if toLower Q v = ''poweron'' then SnapshotedVmRunning
      else if toLower Q v = ''pause'' then SnapshotedVmPaused
      else if toLower Q v = ''suspend'' then SnapshotedVmSuspended
      else SnapshotedVmPoweredOff)"

definition set_state :: "(saved_state \<Rightarrow> saved_state) \<Rightarrow> sst \<Rightarrow> sst" where
  "set_state f t = Node (f (m_state t)) (m_childNodes t)"

text \<open>
  The parser works on the whole tree, \<open>root\<close>, at the node with path \<open>p\<close>.  One field: the
  element under the cursor has to have the tag; the result is a return code, or the cursor moved
  on, each with the tree.
\<close>

type_synonym parse_result = "snapshot_rc \<times> sst + xml list \<times> sst"

definition parse_field ::
  "snapshot_rc \<Rightarrow> qstring \<Rightarrow> (xml \<Rightarrow> saved_state \<Rightarrow> saved_state) \<Rightarrow> path \<Rightarrow> xml list \<times> sst \<Rightarrow> parse_result" where
  "parse_field rc tag set_it p cr =
     (case cr of (c, root) \<Rightarrow>
        if c = [] \<or> tagName (hd c) \<noteq> tag then Inl (rc, root)
        else Inr (next_element c, modify p (set_state (set_it (hd c))) root))"

definition description_text :: "xml \<Rightarrow> qstring" where
  "description_text x = (case childNodes x of CDATASection v # _ \<Rightarrow> v | _ \<Rightarrow> [])"

text \<open>The elements a loop over the next siblings visits.\<close>

definition cursor_elements :: "xml list \<Rightarrow> xml list" where
  "cursor_elements = takeWhile is_Element"

definition runtime_entry :: "qt_strings \<Rightarrow> xml \<Rightarrow> saved_state \<Rightarrow> saved_state" where
  "runtime_entry Q x s =
     (if tagName x = ''Size'' then s\<lparr>nSize := toULongLong Q (dom_text x)\<rparr>
      else if tagName x = ''OsVersion'' then s\<lparr>nOsVersion := toUInt Q (dom_text x)\<rparr>
      else s)"

definition parse_runtime :: "qt_strings \<Rightarrow> path \<Rightarrow> xml list \<times> sst \<Rightarrow> xml list \<times> sst" where
  "parse_runtime Q p cr =
     (case cr of (c, root) \<Rightarrow>
        if c \<noteq> [] \<and> tagName (hd c) = ''Runtime''
        then (next_element c,
              modify p (set_state (fold (runtime_entry Q) (cursor_elements (firstChildElement (hd c))))) root)
        else (c, root))"

definition parse_attributes :: "qt_strings \<Rightarrow> path \<Rightarrow> xml \<Rightarrow> sst \<Rightarrow> sst" where
  "parse_attributes Q p x root =
     (let r1 = modify p (set_state (\<lambda>s. s\<lparr>m_sGuid := attribute ''guid'' x\<rparr>)) root;
          cur = attribute ''current'' x;
          r2 = SetCurrent (cur \<noteq> [] \<and> toLower Q cur = ''yes'') p r1
      in modify p (set_state (\<lambda>s. s\<lparr>m_iVmState := vmstate_of Q (attribute ''state'' x)\<rparr>)) r2)"

definition then_parse ::
  "(xml list \<times> sst \<Rightarrow> parse_result) \<Rightarrow> (xml list \<times> sst \<Rightarrow> parse_result) \<Rightarrow> xml list \<times> sst \<Rightarrow> parse_result"
  where "then_parse f g cr = (case f cr of Inl e \<Rightarrow> Inl e | Inr x \<Rightarrow> g x)"

definition parse_fields :: "qt_strings \<Rightarrow> path \<Rightarrow> xml list \<times> sst \<Rightarrow> parse_result" where
  "parse_fields Q p =
     then_parse (parse_field BadSnapshotName ''Name'' (\<lambda>e s. s\<lparr>m_sName := dom_text e\<rparr>) p)
     (then_parse (parse_field BadSnapshotCreateTime ''DateTime'' (\<lambda>e s. s\<lparr>m_sDateTime := dom_text e\<rparr>) p)
     (then_parse (parse_field BadSnapshotCreator ''Creator'' (\<lambda>e s. s\<lparr>m_sCreator := dom_text e\<rparr>) p)
     (then_parse (parse_field BadSnapshotScreenshot ''ScreenShot'' (\<lambda>e s. s\<lparr>m_sScreenShot := dom_text e\<rparr>) p)
     (then_parse (parse_field BadSnapshotDescription ''Description'' (\<lambda>e s. s\<lparr>m_sDescription := description_text e\<rparr>) p)
       (\<lambda>cr. Inr (parse_runtime Q p cr))))))"

text \<open>The position at which \<^verbatim>\<open>AddChild\<close> puts a new node.\<close>

definition child_pos :: "path \<Rightarrow> sst \<Rightarrow> nat" where
  "child_pos p root =
     (case node_at p root of
        None \<Rightarrow> 0
      | Some t \<Rightarrow> if IsCurrent t then length (m_childNodes t) - 1 else length (m_childNodes t))"

definition add_new_node :: "path \<Rightarrow> sst \<Rightarrow> sst" where
  "add_new_node p root = modify p (\<lambda>t. snd (AddChild new_node t)) root"

lemma next_element_subset: "set (next_element c) \<subseteq> set c"
  by (auto simp: next_element_def split: list.splits)

lemma firstChildElement_subset: "set (firstChildElement x) \<subseteq> set (childNodes x)"
  unfolding firstChildElement_def using set_dropWhileD by fastforce

text \<open>The parts of a cursor of an item's children are no longer than the children.\<close>

definition xml_weight :: "xml list \<Rightarrow> nat" where
  "xml_weight c = size_list size c"

lemma next_element_weight: "xml_weight (next_element c) \<le> xml_weight c"
  by (auto simp: next_element_def xml_weight_def split: list.splits)

lemma dropWhile_weight: "xml_weight (dropWhile P c) \<le> xml_weight c"
  by (induction c) (auto simp: xml_weight_def)

lemma firstChildElement_weight: "xml_weight (firstChildElement (Element t a ns)) < size (Element t a ns)"
  using dropWhile_weight [of _ ns] by (simp add: firstChildElement_def xml_weight_def less_Suc_eq_le)

definition shortens :: "(xml list \<times> sst \<Rightarrow> parse_result) \<Rightarrow> bool" where
  "shortens f \<longleftrightarrow> (\<forall>cr y. f cr = Inr y \<longrightarrow> xml_weight (fst y) \<le> xml_weight (fst cr))"

lemma shortens_then [intro]: "shortens f \<Longrightarrow> shortens g \<Longrightarrow> shortens (then_parse f g)"
  unfolding shortens_def then_parse_def by (fastforce split: sum.splits dest: order_trans)

lemma shortens_field [intro]: "shortens (parse_field rc tag f p)"
  using next_element_weight by (auto simp: shortens_def parse_field_def split: if_splits)

lemma shortens_runtime [intro]: "shortens (\<lambda>cr. Inr (parse_runtime Q p cr))"
  using next_element_weight by (auto simp: shortens_def parse_runtime_def split: prod.splits if_splits)

lemma shortens_fields: "shortens (parse_fields Q p)"
  unfolding parse_fields_def by blast

lemma parse_fields_smaller:
  assumes "parse_fields Q p (firstChildElement x, root) = Inr (c, r)" "is_Element x"
  shows "xml_weight c < size x"
proof -
  have "xml_weight c \<le> xml_weight (firstChildElement x)"
    using shortens_fields [of Q p] assms(1) unfolding shortens_def by fastforce
  also have "\<dots> < size x" using firstChildElement_weight assms(2) by (cases x) auto
  finally show ?thesis .
qed

text \<open>
  \<^verbatim>\<open>RecursiveParseClassProperties\<close>: an item at a path, and the rest of the siblings of an
  item's child under the cursor.
\<close>

function parse_item :: "qt_strings \<Rightarrow> path \<Rightarrow> xml \<Rightarrow> sst \<Rightarrow> snapshot_rc \<times> sst"
  and parse_children :: "qt_strings \<Rightarrow> path \<Rightarrow> xml list \<Rightarrow> sst \<Rightarrow> snapshot_rc \<times> sst" where
  "parse_item Q p x root =
     (if \<not> is_Element x \<or> tagName x \<noteq> ''SavedStateItem'' then (BadSnapshotTree, root)
      else if attribute ''guid'' x = [] \<and> p \<noteq> [] then (BadSnapshotGuid, root)
      else (case parse_fields Q p (firstChildElement x, parse_attributes Q p x root) of
              Inl (rc, r) \<Rightarrow> (rc, r)
            | Inr (c, r) \<Rightarrow> parse_children Q p c r))"
| "parse_children Q p [] root = (RcSuccess, root)"
| "parse_children Q p (x # xs) root =
     (if \<not> is_Element x then (RcSuccess, root)
      else if tagName x = ''SavedStateItem'' then
        (case parse_item Q (p @ [child_pos p root]) x (add_new_node p root) of
           (rc, r) \<Rightarrow> if rc \<noteq> RcSuccess then (rc, r) else parse_children Q p xs r)
      else parse_children Q p xs root)"
  by pat_completeness auto

termination
  by (relation "measure (\<lambda>y. case y of Inl (Q, p, x, root) \<Rightarrow> 2 * size x + 1 | Inr (Q, p, xs, root) \<Rightarrow> 2 * xml_weight xs)")
    (use parse_fields_smaller in \<open>fastforce simp: xml_weight_def\<close>)+

declare parse_item.simps [simp del]


definition ReadXml :: "qt_strings \<Rightarrow> xml \<Rightarrow> snapshot_rc \<times> sst" where
  "ReadXml Q x = parse_item Q [] x new_node"

text \<open>
  \<^verbatim>\<open>Load\<close> of a document or of a text, which \<open>doc\<close> is the DOM of, if it has one.  The
  field for the name of the file or the folder is set before anything can fail; a tree that
  could not be read to the end stays in the store.
\<close>

definition load_document :: "qt_strings \<Rightarrow> xml option \<Rightarrow> sst_store \<Rightarrow> snapshot_rc \<times> sst_store" where
  "load_document Q doc s =
     (case doc of
        None \<Rightarrow> (BadFileName, s)
      | Some d \<Rightarrow>
          (case childNodes d of
             [] \<Rightarrow> (EmptySnapshotTree, s)
           | x # _ \<Rightarrow>
               if is_Element x
               then (fst (ReadXml Q x), s\<lparr>m_SST := Some (snd (ReadXml Q x))\<rparr>)
               else (BadSnapshotTree, s)))"

definition Load_file :: "qt_strings \<Rightarrow> (qstring \<Rightarrow> xml option) \<Rightarrow> qstring \<Rightarrow> sst_store \<Rightarrow> snapshot_rc \<times> sst_store"
  where "Load_file Q files name s =
     load_document Q (files name) ((snd (DeleteBranch [] s))\<lparr>m_sXmlFileName := name\<rparr>)"

definition Load_text ::
  "qt_strings \<Rightarrow> (qstring \<Rightarrow> xml option) \<Rightarrow> qstring \<Rightarrow> qstring \<Rightarrow> sst_store \<Rightarrow> snapshot_rc \<times> sst_store" where
  "Load_text Q setContent content folder s =
     load_document Q (setContent content) ((snd (DeleteBranch [] s))\<lparr>m_sSnapshotFolder := folder\<rparr>)"


section \<open>Every document gives a tree of the right shape\<close>

definition good_at :: "path \<Rightarrow> sst \<Rightarrow> bool" where
  "good_at p root \<longleftrightarrow> tree_ok (Some root) \<and> (\<exists>u. node_at p root = Some u \<and> sst_shape u)"

lemma set_state_shape:
  assumes "sst_shape u" "\<And>s. m_bCurrent (f s) = m_bCurrent s" "\<And>s. m_bCurrentState (f s) = m_bCurrentState s"
  shows "sst_shape (set_state f u)" "currents (set_state f u) = currents u"
proof -
  from assms(1) obtain s ds where u: "u = Node s (ds @ here_tail s)" "\<not> m_bCurrentState s"
    "\<forall>d \<in> set ds. sst_shape d" by (auto elim!: sst_shapeE)
  have "here_tail (f s) = here_tail s" by (simp add: here_tail_def assms(2))
  with sst_shapeI [of "f s" ds] u assms(2,3)
  show "sst_shape (set_state f u)" "currents (set_state f u) = currents u"
    by (simp_all add: set_state_def)
qed

lemma good_modify:
  assumes "good_at p root" "\<And>u. sst_shape u \<Longrightarrow> sst_shape (f u)"
    "\<And>u. sst_shape u \<Longrightarrow> length (currents (f u)) \<le> length (currents u)"
  shows "good_at p (modify p f root)"
proof -
  from assms(1) obtain u where u: "tree_ok (Some root)" "node_at p root = Some u" "sst_shape u"
    unfolding good_at_def by blast
  obtain xs ys where "currents root = xs @ currents u @ ys"
    "currents (modify p f root) = xs @ currents (f u) @ ys" using preorder_segment [OF u(2)] by metis
  with u(1) assms(3) [OF u(3)] have "length (currents (modify p f root)) \<le> 1" by auto
  moreover have "sst_shape (modify p f root)"
    by (rule modify_shape [where f = f, OF _ u(2,3) assms(2) [OF u(3)]]) (use u(1) in simp)
  ultimately show ?thesis using node_at_modify [OF u(2)] assms(2) [OF u(3)] by (simp add: good_at_def)
qed

lemma good_set_state:
  assumes "good_at p root" "\<And>s. m_bCurrent (f s) = m_bCurrent s" "\<And>s. m_bCurrentState (f s) = m_bCurrentState s"
  shows "good_at p (modify p (set_state f) root)"
  using set_state_shape [of _ f, OF _ assms(2,3)] by (intro good_modify [OF assms(1)]) simp_all

lemma unset_current_shape:
  assumes "sst_shape u"
  shows "sst_shape (unset_current u)" "length (currents (unset_current u)) \<le> length (currents u)"
proof -
  from assms obtain s ds where u: "u = Node s (ds @ here_tail s)" "\<not> m_bCurrentState s"
    "\<forall>d \<in> set ds. sst_shape d" by (auto elim!: sst_shapeE)
  then have "unset_current u = Node (s\<lparr>m_bCurrent := False\<rparr>) ds" by (simp add: unset_current_def)
  with sst_shapeI [of "s\<lparr>m_bCurrent := False\<rparr>" ds] u
  show "sst_shape (unset_current u)" "length (currents (unset_current u)) \<le> length (currents u)"
    by simp_all
qed

lemma good_SetCurrent:
  assumes "good_at p root" shows "good_at p (SetCurrent b p root)"
proof -
  from assms obtain u where u: "tree_ok (Some root)" "node_at p root = Some u" "sst_shape u"
    unfolding good_at_def by blast
  show ?thesis
  proof (cases b)
    case True
    from u SetCurrent_True [of root p u] obtain v where "node_at p (SetCurrent True p root) = Some v"
      "IsCurrent v" by auto
    with node_at_shape SetCurrent_True [of root p u] u have "sst_shape v" by fastforce
    with True \<open>node_at p _ = Some v\<close> SetCurrent_True [of root p u] u show ?thesis by (simp add: good_at_def)
  next
    case False
    with u shape_not_here [OF u(3)] have "SetCurrent b p root = modify p unset_current root"
      by (simp add: SetCurrent_def)
    with good_modify [OF assms] unset_current_shape show ?thesis by simp
  qed
qed

lemma good_attributes: "good_at p root \<Longrightarrow> good_at p (parse_attributes Q p x root)"
  by (auto simp: parse_attributes_def Let_def intro!: good_set_state good_SetCurrent)

text \<open>Steps of the parser that keep the tree good.\<close>

definition result_tree :: "parse_result \<Rightarrow> sst" where
  "result_tree r = (case r of Inl (rc, t) \<Rightarrow> t | Inr (c, t) \<Rightarrow> t)"

definition keeps_good :: "path \<Rightarrow> (xml list \<times> sst \<Rightarrow> parse_result) \<Rightarrow> bool" where
  "keeps_good p f \<longleftrightarrow> (\<forall>c root. good_at p root \<longrightarrow> good_at p (result_tree (f (c, root))))"

lemma keeps_then [intro]: "keeps_good p f \<Longrightarrow> keeps_good p g \<Longrightarrow> keeps_good p (then_parse f g)"
proof (unfold keeps_good_def, intro allI impI)
  fix c root
  assume a: "\<forall>c root. good_at p root \<longrightarrow> good_at p (result_tree (f (c, root)))"
    "\<forall>c root. good_at p root \<longrightarrow> good_at p (result_tree (g (c, root)))" "good_at p root"
  then have "good_at p (result_tree (f (c, root)))" by blast
  show "good_at p (result_tree (then_parse f g (c, root)))"
  proof (cases "f (c, root)")
    case (Inl e)
    with \<open>good_at p (result_tree (f (c, root)))\<close> show ?thesis
      by (cases e) (simp add: then_parse_def result_tree_def)
  next
    case (Inr y)
    obtain c' r' where "y = (c', r')" by (cases y)
    with Inr \<open>good_at p (result_tree (f (c, root)))\<close> have "good_at p r'" by (simp add: result_tree_def)
    with a(2) have "good_at p (result_tree (g y))" unfolding \<open>y = _\<close> by blast
    with Inr show ?thesis by (simp add: then_parse_def)
  qed
qed

lemma keeps_field:
  assumes "\<And>e s. m_bCurrent (f e s) = m_bCurrent s" "\<And>e s. m_bCurrentState (f e s) = m_bCurrentState s"
  shows "keeps_good p (parse_field rc tag f p)"
  using good_set_state [OF _ assms] by (auto simp: keeps_good_def parse_field_def result_tree_def)

lemma runtime_entries:
  "m_bCurrent (fold (runtime_entry Q) xs s) = m_bCurrent s \<and>
   m_bCurrentState (fold (runtime_entry Q) xs s) = m_bCurrentState s"
  by (induction xs arbitrary: s) (auto simp: runtime_entry_def)

lemma keeps_runtime: "keeps_good p (\<lambda>cr. Inr (parse_runtime Q p cr))"
  using good_set_state [of p _ "fold (runtime_entry Q) xs" for xs] runtime_entries
  by (auto simp: keeps_good_def parse_runtime_def result_tree_def)

lemma keeps_fields: "keeps_good p (parse_fields Q p)"
  unfolding parse_fields_def by (intro keeps_then keeps_field keeps_runtime) simp_all

lemma new_node_shape: "sst_shape new_node" "currents new_node = []"
  using sst_shapeI [of CleanupStateProperties "[]"]
  by (simp_all add: new_node_def CleanupStateProperties_def here_tail_def)

lemma add_new_node:
  assumes "node_at p root = Some (Node s (ds @ here_tail s))" "\<forall>d \<in> set ds. sst_shape d" "\<not> m_bCurrentState s"
  shows "child_pos p root = length ds"
    "add_new_node p root = modify p (\<lambda>_. Node s ((ds @ [new_node]) @ here_tail s)) root"
proof -
  show "child_pos p root = length ds" by (cases "m_bCurrent s") (simp_all add: child_pos_def assms(1))
  have "AddChild new_node (Node s (ds @ here_tail s)) = (True, Node s ((ds @ [new_node]) @ here_tail s))"
    using assms(3) shape_not_here [OF new_node_shape(1)]
    by (cases "m_bCurrent s") (simp_all add: AddChild_def)
  then show "add_new_node p root = modify p (\<lambda>_. Node s ((ds @ [new_node]) @ here_tail s)) root"
    unfolding add_new_node_def by (intro modify_cong [OF assms(1)]) simp
qed

lemma good_new_child:
  assumes "good_at p root" shows "good_at (p @ [child_pos p root]) (add_new_node p root)"
proof -
  from assms obtain s ds where n: "node_at p root = Some (Node s (ds @ here_tail s))"
    and ds: "\<forall>d \<in> set ds. sst_shape d" and s: "\<not> m_bCurrentState s" and root: "tree_ok (Some root)"
    by (auto simp: good_at_def elim!: sst_shapeE)
  let ?u = "Node s (ds @ here_tail s)" and ?v = "Node s ((ds @ [new_node]) @ here_tail s)"
  have v: "sst_shape ?v" "sst_shape ?u"
    using sst_shapeI [OF s, of "ds @ [new_node]"] sst_shapeI [OF s, of ds] ds new_node_shape(1) by simp_all
  from preorder_segment [OF n, where h = "\<lambda>s. if m_bCurrent s then [()] else []"] obtain xs ys
    where "currents root = xs @ currents ?u @ ys" and
      seg: "\<And>f. currents (modify p f root) = xs @ currents (f ?u) @ ys" by blast
  moreover have "currents (modify p (\<lambda>_. ?v) root) = xs @ currents ?v @ ys" by (rule seg)
  moreover have "currents ?v = currents ?u" using new_node_shape(2) by simp
  ultimately have c: "length (currents (modify p (\<lambda>_. ?v) root)) \<le> 1" using root by simp
  have "node_at (p @ [length ds]) (modify p (\<lambda>_. ?v) root) = Some new_node"
    using node_at_modify [OF n] by (simp add: node_at_append)
  moreover have "sst_shape (modify p (\<lambda>_. ?v) root)"
    by (rule modify_shape [where f = "\<lambda>_. ?v", OF _ n v(2,1)]) (use root in simp)
  ultimately have "good_at (p @ [length ds]) (modify p (\<lambda>_. ?v) root)"
    using c new_node_shape(1) unfolding good_at_def tree_ok_simps by metis
  then show ?thesis unfolding add_new_node [OF n ds s] .
qed

lemma good_parent:
  assumes "good_at (p @ [k]) root" shows "good_at p root"
proof -
  from assms obtain u where u: "tree_ok (Some root)" "node_at (p @ [k]) root = Some u" "sst_shape u"
    unfolding good_at_def by blast
  then have "sst_shape root" by simp
  from child_of_shape [OF this u(2,3)] u(1) show ?thesis unfolding good_at_def by blast
qed

lemma parse_good:
  "good_at p root \<Longrightarrow> good_at p (snd (parse_item Q p x root))"
  "good_at p root \<Longrightarrow> good_at p (snd (parse_children Q p xs root))"
proof (induction Q p x root and Q p xs root rule: parse_item_parse_children.induct)
  case (1 Q p x root)
  have "good_at p (result_tree (parse_fields Q p (firstChildElement x, parse_attributes Q p x root)))"
    using keeps_fields [of p Q] good_attributes [OF 1(2)] by (auto simp: keeps_good_def)
  with 1 show ?case
    by (subst parse_item.simps) (auto simp: result_tree_def split: sum.splits)
next
  case (3 Q p x xs root)
  show ?case
  proof (cases "is_Element x \<and> tagName x = ''SavedStateItem''")
    case True
    obtain rc r where i: "parse_item Q (p @ [child_pos p root]) x (add_new_node p root) = (rc, r)" by force
    from 3(1) [OF _ _ good_new_child [OF 3(4)]] True i have "good_at p r" by (auto dest: good_parent)
    with 3(2) [OF _ _ i [symmetric]] True i show ?thesis by auto
  next
    case False
    with 3 show ?thesis by auto
  qed
qed simp


section \<open>Reading what was written\<close>

definition kept :: "bool \<Rightarrow> saved_state \<Rightarrow> saved_state" where
  "kept all_save s = (if all_save then s else s\<lparr>nSize := 0, nOsVersion := 0\<rparr>)"

fun map_sst :: "(saved_state \<Rightarrow> saved_state) \<Rightarrow> sst \<Rightarrow> sst" where
  "map_sst f (Node s cs) = Node (f s) (map (map_sst f) cs)"

definition put :: "path \<Rightarrow> sst \<Rightarrow> sst \<Rightarrow> sst" where
  "put p t root = modify p (\<lambda>_. t) root"

lemma modify_put [simp]: "modify p f (put p t root) = put p (f t) root"
  by (simp add: put_def modify_modify)

lemma put_put [simp]: "put p t (put p u root) = put p t root"
  by (simp add: put_def modify_modify)

lemma put_same: "node_at p root = Some u \<Longrightarrow> put p u root = root"
  unfolding put_def by (rule modify_same) simp_all

lemma node_at_put [simp]: "node_at p root = Some u \<Longrightarrow> node_at p (put p t root) = Some t"
  unfolding put_def by (rule node_at_modify)

lemma put_shape:
  "sst_shape root \<Longrightarrow> node_at p root = Some u \<Longrightarrow> sst_shape u \<Longrightarrow> sst_shape t \<Longrightarrow> sst_shape (put p t root)"
  unfolding put_def by (rule modify_shape [where f = "\<lambda>_. t"])

lemma put_currents:
  assumes "node_at p root = Some u" "currents u = []"
  shows "length (currents (put p t root)) = length (currents root) + length (currents t)"
proof -
  from preorder_segment [OF assms(1), where h = "\<lambda>s. if m_bCurrent s then [()] else []"] obtain xs ys
    where "currents root = xs @ currents u @ ys"
      and seg: "\<And>f. currents (modify p f root) = xs @ currents (f u) @ ys" by blast
  with seg [of "\<lambda>_. t"] assms(2) show ?thesis by (simp add: put_def)
qed

text \<open>The node as it is after the attributes, and after the fields.\<close>

definition with_attributes :: "saved_state \<Rightarrow> saved_state" where
  "with_attributes s = CleanupStateProperties
     \<lparr>m_sGuid := m_sGuid s, m_bCurrent := m_bCurrent s, m_iVmState := m_iVmState s\<rparr>"

lemma qt_lower:
  assumes "qt_ok Q"
  shows "toLower Q ''yes'' = ''yes''" "toLower Q (vmstate_text v) = vmstate_text v"
  using assms unfolding qt_ok_def by (auto simp: vmstate_text_def split: snapshoted_vm_state.split)

lemma vmstate_round: "qt_ok Q \<Longrightarrow> vmstate_of Q (vmstate_text v) = v"
  by (simp add: vmstate_of_def qt_lower(2)) (cases v; simp add: vmstate_text_def)

lemma new_node_parts [simp]: "m_state new_node = CleanupStateProperties" "m_childNodes new_node = []"
  by (simp_all add: new_node_def)

lemma parse_attributes_fresh:
  assumes "qt_ok Q" "node_at p root = Some new_node" "sst_shape root"
    "m_bCurrent s \<Longrightarrow> currents root = []"
  shows "parse_attributes Q p (Element t (item_attributes s) ns) root =
    put p (Node (with_attributes s) (here_tail s)) root"
proof -
  let ?x = "Element t (item_attributes s) ns" and ?g = "CleanupStateProperties\<lparr>m_sGuid := m_sGuid s\<rparr>"
  have a: "attribute ''guid'' ?x = m_sGuid s" "attribute ''state'' ?x = vmstate_text (m_iVmState s)"
    "attribute ''current'' ?x = (if m_bCurrent s then ''yes'' else [])"
    by (simp_all add: attribute_def item_attributes_def)
  have r1: "modify p (set_state (\<lambda>u. u\<lparr>m_sGuid := m_sGuid s\<rparr>)) root = put p (Node ?g []) root"
    unfolding put_def by (rule modify_cong [OF assms(2)]) (simp add: set_state_def)
  have g: "\<not> m_bCurrentState ?g" "\<not> m_bCurrent ?g" by (simp_all add: CleanupStateProperties_def)
  have n: "node_at p (put p (Node ?g []) root) = Some (Node ?g [])" using assms(2) by simp
  have sh: "sst_shape (Node ?g [])" using sst_shapeI [OF g(1), of "[]"] g(2) by simp
  have "SetCurrent (m_bCurrent s) p (put p (Node ?g []) root) =
      put p (Node (?g\<lparr>m_bCurrent := m_bCurrent s\<rparr>) (here_tail s)) root"
  proof (cases "m_bCurrent s")
    case True
    have "currents (put p (Node ?g []) root) = []"
      using put_currents [OF assms(2) new_node_shape(2), of "Node ?g []"] assms(4) [OF True] g(2) by simp
    from clear_id [OF put_shape [OF assms(3,2) new_node_shape(1) sh] this] g n True
    show ?thesis by (simp add: SetCurrent_def mark_current_def AddChild_def)
  next
    case False
    with n g show ?thesis by (simp add: SetCurrent_def unset_current_def drop_here_def)
  qed
  moreover have "(attribute ''current'' ?x \<noteq> [] \<and> toLower Q (attribute ''current'' ?x) = ''yes'') = m_bCurrent s"
    by (simp add: a(3) qt_lower(1) [OF assms(1)])
  ultimately show ?thesis
    by (simp add: parse_attributes_def Let_def a r1 vmstate_round [OF assms(1)] set_state_def with_attributes_def)
qed

lemma parse_fields_written:
  assumes "qt_ok Q" "\<not> m_bCurrentState s" "\<forall>x \<in> set rest. is_Element x \<and> tagName x = ''SavedStateItem''"
  shows "parse_fields Q p (firstChildElement (Element t a (item_fields Q all_save s @ rest)),
      put p (Node (with_attributes s) cs) root) = Inr (rest, put p (Node (kept all_save s) cs) root)"
proof -
  have nxt: "next_element (x # rest) = rest" for x
    using assms(3) by (cases rest) (simp_all add: next_element_def)
  have elems: "next_element (x # y # ys) = (if is_Element y then y # ys else [])" for x y ys
    by (simp add: next_element_def)
  from assms(1) have q: "toULongLong Q (arg64 Q n) = n" "toUInt Q (arg32 Q m) = m" for n m
    by (simp_all add: qt_ok_def)
  have run: "parse_runtime Q p (rest, r) = (rest, r)" for r
    using assms(3) by (cases rest) (simp_all add: parse_runtime_def)
  have tag: "rest \<noteq> [] \<Longrightarrow> tagName (hd rest) = ''SavedStateItem''" using assms(3) by simp
  have "kept all_save s = with_attributes s
    \<lparr>m_sName := m_sName s, m_sDateTime := m_sDateTime s, m_sCreator := m_sCreator s,
     m_sScreenShot := m_sScreenShot s, m_sDescription := m_sDescription s,
     nSize := if all_save then nSize s else 0, nOsVersion := if all_save then nOsVersion s else 0\<rparr>"
    using assms(2) by (simp add: kept_def with_attributes_def CleanupStateProperties_def)
  with tag show ?thesis
    by (cases all_save)
      (auto simp: parse_fields_def then_parse_def parse_field_def item_fields_def firstChildElement_def
        text_element_def nxt elems run description_text_def set_state_def parse_runtime_def
        cursor_elements_def runtime_entry_def q with_attributes_def CleanupStateProperties_def)
qed


text \<open>The children: those of \<open>es\<close> are in the tree, those of \<open>ds\<close> are still to be read.\<close>

definition reads_back :: "qt_strings \<Rightarrow> bool \<Rightarrow> sst \<Rightarrow> bool" where
  "reads_back Q all_save t \<longleftrightarrow>
     (\<forall>p root. node_at p root = Some new_node \<longrightarrow> sst_shape root \<longrightarrow>
        length (currents root) + length (currents t) \<le> 1 \<longrightarrow>
        (p \<noteq> [] \<longrightarrow> m_sGuid (m_state t) \<noteq> []) \<longrightarrow>
        parse_item Q p (AppendClassProperties Q all_save t) root =
          (RcSuccess, put p (map_sst (kept all_save) t) root))"

lemma written_tag:
  "is_Element (AppendClassProperties Q all_save t)"
  "tagName (AppendClassProperties Q all_save t) = ''SavedStateItem''"
  by (cases t; simp)+

lemma map_kept_shape: "sst_shape t \<Longrightarrow> sst_shape (map_sst (kept a) t) \<and> currents (map_sst (kept a) t) = currents t"
proof (induction t rule: sst_shape.induct)
  case (sst_shapeI s ds)
  have k: "m_bCurrent (kept a s) = m_bCurrent s" "m_bCurrentState (kept a s) = m_bCurrentState s" for s
    by (simp_all add: kept_def)
  have h: "map_sst (kept a) here_node = here_node"
    by (simp add: here_node_def kept_def SetCurrentState_def CleanupStateProperties_def)
  have "map (map_sst (kept a)) (ds @ here_tail s) = map (map_sst (kept a)) ds @ here_tail (kept a s)"
    by (cases "m_bCurrent s") (simp_all add: k h)
  moreover have "sst_shape (Node (kept a s) (map (map_sst (kept a)) ds @ here_tail (kept a s)))"
    using sst_shapeI by (intro sst_shape.sst_shapeI) (auto simp: k)
  ultimately show ?case using sst_shapeI by (simp add: k cong: map_cong)
qed

lemma map_kept_here_tail:
  "map_sst (kept a) (Node s (ds @ here_tail s)) = Node (kept a s) (map (map_sst (kept a)) ds @ here_tail (kept a s))"
  by (cases "m_bCurrent s")
    (simp_all add: kept_def here_node_def SetCurrentState_def CleanupStateProperties_def here_tail_def)

lemma modify_deeper:
  assumes "node_at p root = Some u"
  shows "put (p @ [length es]) t (put p (Node s ((es @ [new_node]) @ rest)) root) = put p (Node s ((es @ [t]) @ rest)) root"
  unfolding put_def modify_append modify_modify by simp

lemma children_read_back:
  assumes "node_at p root = Some u" "sst_shape u" "currents u = []" "sst_shape root" "\<not> m_bCurrentState s"
  shows "\<forall>d \<in> set ds. sst_shape d \<and> reads_back Q a d \<and> m_sGuid (m_state d) \<noteq> [] \<Longrightarrow>
    \<forall>e \<in> set es. sst_shape e \<Longrightarrow>
    length (currents root) + length (currents (Node s (es @ here_tail s))) +
      length (concat (map currents ds)) \<le> 1 \<Longrightarrow>
    parse_children Q p (map (AppendClassProperties Q a) ds) (put p (Node s (es @ here_tail s)) root) =
      (RcSuccess, put p (Node s ((es @ map (map_sst (kept a)) ds) @ here_tail s)) root)"
proof (induction ds arbitrary: es)
  case (Cons d ds)
  let ?v = "Node s ((es @ [new_node]) @ here_tail s)" and ?r = "put p (Node s (es @ here_tail s)) root"
  let ?k = "length es" and ?d = "map_sst (kept a) d"
  have n: "node_at p ?r = Some (Node s (es @ here_tail s))" using assms(1) by simp
  note add = add_new_node [OF n Cons(3) assms(5)]
  have new: "add_new_node p ?r = put p ?v root" unfolding add(2) by (simp add: put_def modify_modify)
  have sh: "sst_shape ?v" using sst_shapeI [OF assms(5), of "es @ [new_node]"] Cons(3) new_node_shape(1) by simp
  have at: "node_at (p @ [?k]) (put p ?v root) = Some new_node"
    using node_at_put [OF assms(1), of ?v] by (simp add: node_at_append del: node_at_put)
  have "length (currents (put p ?v root)) + length (currents d) \<le> 1"
    using put_currents [OF assms(1,3), of ?v] new_node_shape(2) Cons(4) by simp
  then have item: "parse_item Q (p @ [?k]) (AppendClassProperties Q a d) (put p ?v root) =
      (RcSuccess, put p (Node s ((es @ [?d]) @ here_tail s)) root)"
    using Cons(2) at put_shape [OF assms(4,1,2) sh] modify_deeper [OF assms(1)]
    by (simp add: reads_back_def)
  have "parse_children Q p (map (AppendClassProperties Q a) ds) (put p (Node s ((es @ [?d]) @ here_tail s)) root) =
      (RcSuccess, put p (Node s (((es @ [?d]) @ map (map_sst (kept a)) ds) @ here_tail s)) root)"
    using map_kept_shape [of d a] Cons(2-4) by (intro Cons(1)) auto
  with item show ?case by (simp add: written_tag add(1) new)
qed simp

lemma written_children:
  assumes "\<forall>d \<in> set ds. sst_shape d"
  shows "filter hasChildNodes (map (AppendClassProperties Q a) (ds @ here_tail s)) = map (AppendClassProperties Q a) ds"
proof -
  have "hasChildNodes (AppendClassProperties Q a d)" if "sst_shape d" for d
    using shape_not_here [OF that] by (cases d) (simp add: hasChildNodes_def item_fields_def)
  with assms have "filter hasChildNodes (map (AppendClassProperties Q a) ds) = map (AppendClassProperties Q a) ds"
    by (auto intro!: filter_True)
  moreover have "\<not> hasChildNodes (AppendClassProperties Q a here_node)"
    by (simp add: here_node_def SetCurrentState_def hasChildNodes_def)
  ultimately show ?thesis by (cases "m_bCurrent s") simp_all
qed

lemma all_read_back:
  assumes "qt_ok Q"
  shows "sst_shape t \<Longrightarrow> \<forall>g \<in> set (below snap t). m_sGuid g \<noteq> [] \<Longrightarrow> reads_back Q a t"
proof (induction t rule: sst_shape.induct)
  case (sst_shapeI s ds)
  have ds: "\<forall>d \<in> set ds. sst_shape d \<and> reads_back Q a d \<and> m_sGuid (m_state d) \<noteq> []"
  proof
    fix d assume d: "d \<in> set ds"
    with sst_shapeI have sd: "sst_shape d" by blast
    have "set (preorder snap d) \<subseteq> set (below snap (Node s (ds @ here_tail s)))" using d by auto
    with sst_shapeI(3) have g: "\<forall>g \<in> set (preorder snap d). m_sGuid g \<noteq> []" by blast
    then have "\<forall>g \<in> set (below snap d). m_sGuid g \<noteq> []" "m_sGuid (m_state d) \<noteq> []"
      using shape_not_here [OF sd] by (auto simp: preorder_below [of snap d] snap_def)
    with sst_shapeI d sd show "sst_shape d \<and> reads_back Q a d \<and> m_sGuid (m_state d) \<noteq> []" by blast
  qed
  let ?t = "Node s (ds @ here_tail s)" and ?w = "with_attributes s"
  let ?rest = "map (AppendClassProperties Q a) ds"
  have x: "AppendClassProperties Q a ?t = Element ''SavedStateItem'' (item_attributes s) (item_fields Q a s @ ?rest)"
    using sst_shapeI(1) written_children [of ds Q a s] ds by simp
  have tail: "here_tail s = here_tail (kept a s)" by (simp add: here_tail_def kept_def)
  show ?case unfolding reads_back_def
  proof (intro allI impI)
    fix p root
    assume n: "node_at p root = Some new_node" "sst_shape root"
      "length (currents root) + length (currents ?t) \<le> 1" "p \<noteq> [] \<longrightarrow> m_sGuid (m_state ?t) \<noteq> []"
    have att: "parse_attributes Q p (AppendClassProperties Q a ?t) root = put p (Node ?w (here_tail s)) root"
      unfolding x by (rule parse_attributes_fresh [OF assms n(1,2)]) (use n(3) in simp)
    have fld: "parse_fields Q p (firstChildElement (AppendClassProperties Q a ?t),
        put p (Node ?w (here_tail s)) root) = Inr (?rest, put p (Node (kept a s) (here_tail s)) root)"
      unfolding x by (rule parse_fields_written [OF assms sst_shapeI(1)]) (auto simp: written_tag)
    have g: "attribute ''guid'' (AppendClassProperties Q a ?t) = m_sGuid s"
      unfolding x by (simp add: attribute_def item_attributes_def)
    have "length (currents root) + length (currents (Node (kept a s) ([] @ here_tail (kept a s)))) +
      length (concat (map currents ds)) \<le> 1"
      using n(3) by (cases "m_bCurrent s") (simp_all add: kept_def)
    from children_read_back [OF n(1) new_node_shape n(2) _ ds _ this] sst_shapeI(1)
    have "parse_children Q p ?rest (put p (Node (kept a s) (here_tail (kept a s))) root) =
      (RcSuccess, put p (map_sst (kept a) ?t) root)"
      unfolding map_kept_here_tail by (simp add: kept_def)
    with n(4) fld show "parse_item Q p (AppendClassProperties Q a ?t) root =
        (RcSuccess, put p (map_sst (kept a) ?t) root)"
      by (subst parse_item.simps) (auto simp: att g written_tag tail [symmetric] simp del: AppendClassProperties.simps)
  qed
qed


section \<open>Reachable stores\<close>

inductive store_step :: "qt_strings \<Rightarrow> sst_store \<Rightarrow> sst_store \<Rightarrow> bool" for Q where
  step_create: "store_step Q s (snd (CreateSnapshot st s))"
| step_delete: "g \<noteq> [] \<Longrightarrow> DeleteNode_uuid g s = Some (rc, t) \<Longrightarrow> store_step Q s t"
| step_branch: "g \<noteq> [] \<Longrightarrow> DeleteBranch_uuid g s = Some (rc, t) \<Longrightarrow> store_step Q s t"
| step_load_file: "store_step Q s (snd (Load_file Q files f s))"
| step_load_text: "store_step Q s (snd (Load_text Q setContent content folder s))"
| step_clear: "store_step Q s (ClearSavedStateTree s)"

inductive_cases store_stepE: "store_step Q s t"

lemma FindByUuid_node:
  assumes "sst_shape t" "FindByUuid g t = Some p" "g \<noteq> []"
  obtains u where "node_at p t = Some u" "sst_shape u" "m_sGuid (m_state u) = g"
proof -
  from assms(2) find_node_Some(1) obtain u where u: "node_at p t = Some u" "m_sGuid (m_state u) = g"
    unfolding FindByUuid_def by blast
  moreover from this node_at_shape [OF assms(1) u(1)] assms(3) have "sst_shape u" by auto
  ultimately show ?thesis using that by blast
qed

lemma create_tree_ok: "tree_ok (m_SST s) \<Longrightarrow> tree_ok (m_SST (snd (CreateSnapshot st s)))"
proof (cases "FindCurrentSnapshot s")
  case None
  from CreateSnapshot_head [OF this, of st] show ?thesis by fastforce
next
  case (Some p)
  then obtain t where "m_SST s = Some t" by (auto simp: FindCurrentSnapshot_def split: option.splits)
  moreover assume "tree_ok (m_SST s)"
  ultimately show ?thesis using CreateSnapshot_under [of t s p st] Some by fastforce
qed

lemma root_delete: "p = [] \<Longrightarrow> snd (DeleteNode p s) = s" "m_SST (snd (DeleteBranch [] s)) = None"
  by (auto simp: DeleteNode_def DeleteBranch_def GetParent_def drop_bare_head_def split: option.splits)

lemma delete_tree_ok:
  assumes "tree_ok (m_SST s)" "g \<noteq> []" "DeleteNode_uuid g s = Some (rc, s')"
  shows "tree_ok (m_SST s')"
proof -
  from assms(3) obtain t where t: "m_SST s = Some t" by (auto simp: DeleteNode_uuid_def split: option.splits)
  show ?thesis
  proof (cases "FindByUuid g t")
    case (Some p)
    from assms(1) t have "sst_shape t" by simp
    from FindByUuid_node [OF this Some assms(2)] obtain u where "node_at p t = Some u" "sst_shape u" .
    moreover have "s' = snd (DeleteNode p s)" using assms(3) t Some by (auto simp: DeleteNode_uuid_def)
    ultimately show ?thesis
      using DeleteNode_ok(2) [OF t _ _ _ _ listing_snap] root_delete(1) [of p s] assms(1) t by (cases "p = []") auto
  qed (use assms t in \<open>auto simp: DeleteNode_uuid_def\<close>)
qed

lemma branch_tree_ok:
  assumes "tree_ok (m_SST s)" "g \<noteq> []" "DeleteBranch_uuid g s = Some (rc, s')"
  shows "tree_ok (m_SST s')"
proof -
  from assms(3) obtain t where t: "m_SST s = Some t" by (auto simp: DeleteBranch_uuid_def split: option.splits)
  show ?thesis
  proof (cases "FindByUuid g t")
    case (Some p)
    from assms(1) t have "sst_shape t" by simp
    from FindByUuid_node [OF this Some assms(2)] obtain u where "node_at p t = Some u" "sst_shape u" .
    moreover have "s' = snd (DeleteBranch p s)" using assms(3) t Some by (auto simp: DeleteBranch_uuid_def)
    ultimately show ?thesis
      using DeleteBranch_ok(2) [OF t _ _ _ _ listing_snap] root_delete(2) [of s] assms(1) t by (cases "p = []") auto
  qed (use assms t in \<open>auto simp: DeleteBranch_uuid_def\<close>)
qed

lemma good_new: "good_at [] new_node"
  by (simp add: good_at_def new_node_shape)

lemma load_tree_ok: "m_SST s = None \<Longrightarrow> tree_ok (m_SST (snd (load_document Q doc s)))"
  using parse_good(1) [OF good_new, of Q]
  by (auto simp: load_document_def ReadXml_def good_at_def split: option.splits list.splits)

lemma reachable_tree_ok: "(store_step Q)\<^sup>*\<^sup>* new_store s \<Longrightarrow> tree_ok (m_SST s)"
proof (induction rule: rtranclp_induct)
  case (step s t)
  from step(2,3) show ?case
    by cases (auto intro: create_tree_ok delete_tree_ok branch_tree_ok load_tree_ok
        simp: Load_file_def Load_text_def root_delete ClearSavedStateTree_def)
qed (simp add: new_store_def)


section \<open>Properties\<close>


definition snapshot1 :: saved_state where
  "snapshot1 = CleanupStateProperties\<lparr>m_sGuid := ''a'', m_sName := ''first''\<rparr>"

definition snapshot2 :: saved_state where
  "snapshot2 = CleanupStateProperties\<lparr>m_sGuid := ''b'', m_sName := ''second''\<rparr>"

definition store2 :: sst_store where
  "store2 = snd (CreateSnapshot snapshot2 (snd (CreateSnapshot snapshot1 new_store)))"

lemma reach_create: "(store_step Q)\<^sup>*\<^sup>* s t \<Longrightarrow> (store_step Q)\<^sup>*\<^sup>* s (snd (CreateSnapshot st t))"
  by (erule rtranclp.rtrancl_into_rtrancl) (rule step_create)

lemma store2_reachable: "(store_step Q)\<^sup>*\<^sup>* new_store store2"
  unfolding store2_def by (intro reach_create rtranclp.rtrancl_refl)

lemmas store2_eval =
  store2_def CreateSnapshot_def FindCurrentSnapshot_def FindCurrentNode_def new_store_def AddChild_def
  snapshot_node_def snapshot1_def snapshot2_def CleanupStateProperties_def new_node_def SetCurrent_def
  mark_current_def here_node_def SetCurrentState_def drop_here_def

definition tree2 :: sst where
  "tree2 = the (m_SST store2)"

lemma store2_tree: "m_SST store2 = Some tree2"
  by (simp add: tree2_def store2_eval)


text \<open>
  A tree without a current snapshot, as a document without the mark gives, is replaced as a whole
  when a snapshot is created: the snapshots it had are not in the store any more.
\<close>

lemma create_without_current_loses_the_tree:
  "store_snapshots (snd (CreateSnapshot snapshot2
     (new_store\<lparr>m_SST := Some (Node CleanupStateProperties [snapshot_node snapshot1])\<rparr>)))
   = [m_state (snapshot_node snapshot2)]"
  by (simp add: store_snapshots_def store2_eval snap_def)

text \<open>Creating a snapshot adds exactly it, below the one that was current, and makes it the
  current one; the first one goes below a new head.\<close>

theorem create_adds_one:
  assumes "(store_step Q)\<^sup>*\<^sup>* new_store s" "m_SST s = None \<or> FindCurrentSnapshot s = Some p"
  shows "\<exists>s' t q v xs ys. CreateSnapshot st s = (RcSuccess, s') \<and> m_SST s' = Some t \<and>
    store_snapshots s = xs @ ys \<and> store_snapshots s' = xs @ m_state (snapshot_node st) # ys \<and>
    node_at q t = Some v \<and> m_state v = (m_state (snapshot_node st))\<lparr>m_bCurrent := True\<rparr> \<and>
    butlast q = (if m_SST s = None then [] else p)"
proof (cases "m_SST s")
  case None
  then have "FindCurrentSnapshot s = None" by (simp add: FindCurrentSnapshot_def)
  from CreateSnapshot_head [OF this, of st] obtain t' v where
    c: "CreateSnapshot st s = (RcSuccess, s\<lparr>m_SST := Some t'\<rparr>)"
      "below snap t' = [m_state (snapshot_node st)]"
      "node_at [0] t' = Some v" "m_state v = (m_state (snapshot_node st))\<lparr>m_bCurrent := True\<rparr>" by blast
  then have "store_snapshots s = [] @ []"
    "store_snapshots (s\<lparr>m_SST := Some t'\<rparr>) = [] @ m_state (snapshot_node st) # []"
    by (simp_all add: None store_snapshots_def)
  with c None show ?thesis by (intro exI conjI) (rule c, simp, assumption+, simp)
next
  case (Some t)
  with assms have "tree_ok (Some t)" "FindCurrentSnapshot s = Some p"
    using reachable_tree_ok by fastforce+
  from CreateSnapshot_under [OF this(1) Some this(2), of st] obtain k t' xs ys v where
    c: "CreateSnapshot st s = (RcSuccess, s\<lparr>m_SST := Some t'\<rparr>)"
      "below snap t = xs @ ys" "below snap t' = xs @ m_state (snapshot_node st) # ys"
      "node_at (p @ [k]) t' = Some v" "m_state v = (m_state (snapshot_node st))\<lparr>m_bCurrent := True\<rparr>" .
  then have "store_snapshots s = xs @ ys"
    "store_snapshots (s\<lparr>m_SST := Some t'\<rparr>) = xs @ m_state (snapshot_node st) # ys"
    by (simp_all add: Some store_snapshots_def)
  with c Some show ?thesis by (intro exI conjI) (rule c, simp, assumption+, simp)
qed

lemma create_adds_one_witness:
  "\<exists>s' t q v xs ys. CreateSnapshot snapshot1 new_store = (RcSuccess, s') \<and> m_SST s' = Some t \<and>
    store_snapshots new_store = xs @ ys \<and> store_snapshots s' = xs @ m_state (snapshot_node snapshot1) # ys \<and>
    node_at q t = Some v \<and> m_state v = (m_state (snapshot_node snapshot1))\<lparr>m_bCurrent := True\<rparr> \<and>
    butlast q = []"
  using create_adds_one [of undefined new_store "[]" snapshot1] by (simp add: new_store_def)

text \<open>C30. Deleting a snapshot removes exactly it: all others stay, in their order.  When it was the
  current one its parent is current afterwards, unless the tree is empty.\<close>

theorem delete_removes_one:
  assumes "(store_step Q)\<^sup>*\<^sup>* new_store s" "m_SST s = Some t" "g \<noteq> []"
    "FindByUuid g t = Some p" "p \<noteq> []" "node_at p t = Some u"
  shows "\<exists>s' xs ys. DeleteNode_uuid g s = Some (RcSuccess, s') \<and> m_sGuid (m_state u) = g \<and>
    store_snapshots s = xs @ (m_state u)\<lparr>m_bCurrent := False\<rparr> # ys \<and> store_snapshots s' = xs @ ys \<and>
    \<not> (IsCurrent u \<and> (\<exists>t' v. m_SST s' = Some t' \<and> node_at (butlast p) t' = Some v \<and> \<not> IsCurrent v))"
proof -
  from reachable_tree_ok [OF assms(1)] assms(2) have ok: "tree_ok (Some t)" by simp
  then have "sst_shape t" by simp
  from FindByUuid_node [OF this assms(4,3)] assms(6) have u: "sst_shape u" "m_sGuid (m_state u) = g" by auto
  note d = DeleteNode_ok [OF assms(2) ok assms(6) u(1) assms(5) listing_snap]
  from d(3) obtain xs ys where l: "below snap t = xs @ snap (m_state u) @ below snap u @ ys"
    "listed snap (m_SST (snd (DeleteNode p s))) = xs @ below snap u @ ys" by blast
  have res: "DeleteNode_uuid g s = Some (RcSuccess, snd (DeleteNode p s))"
    using assms(2,4) d(1) by (simp add: DeleteNode_uuid_def prod_eq_iff)
  have "store_snapshots s = xs @ (m_state u)\<lparr>m_bCurrent := False\<rparr> # below snap u @ ys"
    using l(1) shape_not_here [OF u(1)] by (simp add: store_snapshots_def assms(2) snap_def)
  moreover have "store_snapshots (snd (DeleteNode p s)) = xs @ below snap u @ ys"
    using l(2) by (simp add: store_snapshots_listed)
  moreover have "\<not> (IsCurrent u \<and> (\<exists>t' v. m_SST (snd (DeleteNode p s)) = Some t' \<and>
      node_at (butlast p) t' = Some v \<and> \<not> IsCurrent v))" using d(4) by auto
  ultimately show ?thesis using res u(2)
    by (intro exI [of _ "snd (DeleteNode p s)"] exI [of _ xs] exI [of _ "below snap u @ ys"] conjI)
qed

lemma delete_removes_one_witness:
  "\<exists>s' xs ys. DeleteNode_uuid ''a'' store2 = Some (RcSuccess, s') \<and>
    store_snapshots store2 = xs @ m_state (snapshot_node snapshot1) # ys \<and> store_snapshots s' = xs @ ys"
proof -
  have "FindByUuid ''a'' tree2 = Some [0]"
    by (simp add: tree2_def store2_eval FindByUuid_def)
  moreover obtain u where u: "node_at [0] tree2 = Some u" "(m_state u)\<lparr>m_bCurrent := False\<rparr> = m_state (snapshot_node snapshot1)"
    by (simp add: tree2_def store2_eval)
  ultimately show ?thesis
    using delete_removes_one [OF store2_reachable store2_tree, of "''a''" "[0]" u] by simp metis
qed

text \<open>Deleting a branch removes exactly the snapshot and those made from it.\<close>

theorem delete_branch_removes_subtree:
  assumes "(store_step Q)\<^sup>*\<^sup>* new_store s" "m_SST s = Some t" "g \<noteq> []"
    "FindByUuid g t = Some p" "p \<noteq> []" "node_at p t = Some u"
  shows "\<exists>s' xs ys. DeleteBranch_uuid g s = Some (RcSuccess, s') \<and>
    store_snapshots s = xs @ preorder snap u @ ys \<and> store_snapshots s' = xs @ ys"
proof -
  from reachable_tree_ok [OF assms(1)] assms(2) have ok: "tree_ok (Some t)" by simp
  then have "sst_shape t" by simp
  from FindByUuid_node [OF this assms(4,3)] assms(6) have u: "sst_shape u" by auto
  note d = DeleteBranch_ok [OF assms(2) ok assms(6) u assms(5) listing_snap]
  have "DeleteBranch_uuid g s = Some (RcSuccess, snd (DeleteBranch p s))"
    using assms(2,4) d(1) by (simp add: DeleteBranch_uuid_def prod_eq_iff)
  with d(3) show ?thesis by (fastforce simp: store_snapshots_listed assms(2))
qed

lemma delete_branch_removes_subtree_witness:
  "\<exists>s'. DeleteBranch_uuid ''a'' store2 = Some (RcSuccess, s') \<and> length (store_snapshots s') = 0"
proof -
  have "FindByUuid ''a'' tree2 = Some [0]"
    by (simp add: tree2_def store2_eval FindByUuid_def)
  moreover obtain u where u: "node_at [0] tree2 = Some u" "length (preorder snap u) = 2"
    by (simp add: tree2_def store2_eval snap_def)
  moreover have "length (store_snapshots store2) = 2"
    by (simp add: store_snapshots_def store2_eval snap_def)
  ultimately show ?thesis
    using delete_branch_removes_subtree [OF store2_reachable store2_tree, of "''a''" "[0]" u] by fastforce
qed


definition plain_qt :: qt_strings where
  "plain_qt =
     \<lparr>arg64 = \<lambda>n. replicate (unat n) CHR ''1'', arg32 = \<lambda>n. replicate (unat n) CHR ''1'',
      toULongLong = \<lambda>s. of_nat (length s), toUInt = \<lambda>s. of_nat (length s), toLower = \<lambda>s. s\<rparr>"


end
