(* ===== verification/KeyValue.thy ===== *)
theory KeyValue
  imports Prelude
begin

text \<open>
  Lines of the form key=value, as the tools cpufeatures and cpupools print them: the function
  template \<^verbatim>\<open>parseKeyValue\<close> of \<^verbatim>\<open>CCpuHelper.cpp\<close> and the interface
  \<^verbatim>\<open>ParseTraits\<close> through which it fills a model.
\<close>


section \<open>Splitting\<close>

definition skip_empty :: "qstring list \<Rightarrow> qstring list" where
  "skip_empty = filter (\<lambda>p. p \<noteq> [])"

abbreviation newline :: char where "newline \<equiv> CHR 0x0A"

text \<open>The text with the given lines, each ended by a newline.\<close>

definition text_of :: "qstring list \<Rightarrow> qstring" where
  "text_of ls = concat (map (\<lambda>l. l @ [newline]) ls)"

lemma text_of_simps [simp]: "text_of [] = []" "text_of (l # ls) = l @ newline # text_of ls"
  by (simp_all add: text_of_def)

lemma skip_empty_lines:
  "\<forall>l \<in> set ls. l \<noteq> [] \<and> newline \<notin> set l \<Longrightarrow> skip_empty (split_on newline (text_of ls)) = ls"
  by (induction ls) (simp_all add: skip_empty_def)


section \<open>The parser\<close>

text \<open>
  A model is filled line by line; when a line cannot be used, the parser fails and the model keeps
  what it has got by then.  The first argument is \<^verbatim>\<open>ParseTraits::setValue\<close>, with \<open>None\<close>
  for false; the set has the keys that were processed.
\<close>

fun parse_pairs ::
  "(qstring \<Rightarrow> qstring \<Rightarrow> 'm \<Rightarrow> 'm option) \<Rightarrow> qstring list \<Rightarrow> qstring set \<Rightarrow> 'm \<Rightarrow> qstring set option \<times> 'm"
  where
  "parse_pairs setValue [] processed m = (Some processed, m)"
| "parse_pairs setValue (p # ps) processed m =
     (let kv = split_on CHR ''='' p in
      if length kv \<noteq> 2 then (None, m)
      else (case setValue (kv ! 0) (kv ! 1) m of
              None \<Rightarrow> (None, m)
            | Some m' \<Rightarrow> parse_pairs setValue ps (insert (kv ! 0) processed) m'))"

definition parseKeyValue ::
  "(qstring \<Rightarrow> qstring \<Rightarrow> 'm \<Rightarrow> 'm option) \<Rightarrow> (qstring set \<Rightarrow> bool) \<Rightarrow> qstring \<Rightarrow> 'm \<Rightarrow> bool \<times> 'm" where
  "parseKeyValue setValue checkAllSetted str m =
     (case parse_pairs setValue (skip_empty (split_on newline str)) {} m of
        (None, m') \<Rightarrow> (False, m')
      | (Some processed, m') \<Rightarrow> (checkAllSetted processed, m'))"

definition assignment :: "qstring \<Rightarrow> qstring \<Rightarrow> qstring" where
  "assignment k v = k @ ''='' @ v"

definition plain :: "qstring \<Rightarrow> bool" where
  "plain s \<longleftrightarrow> CHR ''='' \<notin> set s \<and> newline \<notin> set s"

lemma split_assignment: "plain k \<Longrightarrow> plain v \<Longrightarrow> split_on CHR ''='' (assignment k v) = [k, v]"
  by (simp add: assignment_def plain_def)

lemma assignment_line: "plain k \<Longrightarrow> plain v \<Longrightarrow> assignment k v \<noteq> [] \<and> newline \<notin> set (assignment k v)"
  by (simp add: assignment_def plain_def)


section \<open>What a model has to offer\<close>

text \<open>The value that a list of lines gives a key: that of its last line, or else the old one.\<close>

fun last_value :: "(qstring \<Rightarrow> qstring \<Rightarrow> 'v option) \<Rightarrow> qstring list \<Rightarrow> qstring \<Rightarrow> 'v \<Rightarrow> 'v" where
  "last_value decode [] k x = x"
| "last_value decode (p # ps) k x =
     (let kv = split_on CHR ''='' p in
      last_value decode ps k (if kv ! 0 = k then the (decode k (kv ! 1)) else x))"

text \<open>
  The interface: the keys the model has fields for, how the text of a value is read for a key, and
  the value of a field.  A model may refuse keys it does not know, or ignore them.
\<close>

locale key_value_model =
  fixes keys :: "qstring list"
    and decode :: "qstring \<Rightarrow> qstring \<Rightarrow> 'v option"
    and get :: "'m \<Rightarrow> qstring \<Rightarrow> 'v"
    and setValue :: "qstring \<Rightarrow> qstring \<Rightarrow> 'm \<Rightarrow> 'm option"
    and checkAllSetted :: "qstring set \<Rightarrow> bool"
  assumes set_known: "k \<in> set keys \<Longrightarrow> decode k v = Some x \<Longrightarrow> \<exists>m'. setValue k v m = Some m' \<and> get m' k = x"
    and set_refused: "k \<in> set keys \<Longrightarrow> decode k v = None \<Longrightarrow> setValue k v m = None"
    and set_frame: "setValue k v m = Some m' \<Longrightarrow> j \<in> set keys \<Longrightarrow> j \<noteq> k \<Longrightarrow> get m' j = get m j"
    and all_set: "checkAllSetted P \<longleftrightarrow> set keys \<subseteq> P"

context key_value_model
begin

lemma parse_pairs_get:
  "parse_pairs setValue ps P m = (Some P', m') \<Longrightarrow> k \<in> set keys \<Longrightarrow> get m' k = last_value decode ps k (get m k)"
proof (induction ps arbitrary: P m)
  case (Cons p ps)
  let ?kv = "split_on CHR ''='' p"
  from Cons(2) obtain m1 where s: "setValue (?kv ! 0) (?kv ! 1) m = Some m1"
    "parse_pairs setValue ps (insert (?kv ! 0) P) m1 = (Some P', m')"
    by (auto simp: Let_def split: if_splits option.splits)
  have "get m1 k = (if ?kv ! 0 = k then the (decode k (?kv ! 1)) else get m k)"
  proof (cases "?kv ! 0 = k")
    case True
    with s(1) set_refused [OF Cons(3), of "?kv ! 1" m] obtain x where "decode k (?kv ! 1) = Some x"
      by (cases "decode k (?kv ! 1)") auto
    with set_known [OF Cons(3) this, of m] s(1) True show ?thesis by auto
  next
    case False
    with set_frame [OF s(1) Cons(3)] show ?thesis by auto
  qed
  with Cons(1) [OF s(2) Cons(3)] show ?case by (simp add: Let_def)
qed simp

lemma parse_pairs_processed:
  "parse_pairs setValue ps P m = (Some P', m') \<Longrightarrow>
     P' = P \<union> (\<lambda>p. split_on CHR ''='' p ! 0) ` set ps"
  by (induction ps arbitrary: P m) (auto simp: Let_def split: if_splits option.splits)

text \<open>A text that parses has a line for each key, and each field is what its last line says.\<close>

lemma parse_success:
  assumes "parseKeyValue setValue checkAllSetted str m = (True, m')" "k \<in> set keys"
  shows "get m' k = last_value decode (skip_empty (split_on newline str)) k (get m k)"
    "\<exists>p \<in> set (skip_empty (split_on newline str)). split_on CHR ''='' p ! 0 = k"
proof -
  let ?ps = "skip_empty (split_on newline str)"
  from assms(1) obtain P' where p: "parse_pairs setValue ?ps {} m = (Some P', m')" "checkAllSetted P'"
    by (auto simp: parseKeyValue_def split: prod.splits option.splits)
  from parse_pairs_get [OF p(1) assms(2)] show "get m' k = last_value decode ?ps k (get m k)" .
  from p(2) assms(2) have "k \<in> P'" by (auto simp: all_set)
  with parse_pairs_processed [OF p(1)] show "\<exists>p \<in> set ?ps. split_on CHR ''='' p ! 0 = k" by auto
qed

lemma last_value_assignments:
  assumes "distinct ks" "k \<in> set ks" "\<forall>j \<in> set ks. plain j \<and> plain (f j)"
  shows "last_value decode (map (\<lambda>j. assignment j (f j)) ks) k x = the (decode k (f k))"
proof -
  have skip: "last_value decode (map (\<lambda>j. assignment j (f j)) js) k x = x"
    if "k \<notin> set js" "\<forall>j \<in> set js. plain j \<and> plain (f j)" for js x
    using that by (induction js) (auto simp: split_assignment)
  show ?thesis using assms
    by (induction ks arbitrary: x) (auto simp: split_assignment skip)
qed

lemma parse_pairs_assignments:
  "\<forall>j \<in> set ks. j \<in> set keys \<and> plain j \<and> plain (f j) \<and> decode j (f j) \<noteq> None \<Longrightarrow>
     \<exists>m'. parse_pairs setValue (map (\<lambda>j. assignment j (f j)) ks) P m = (Some (P \<union> set ks), m')"
proof (induction ks arbitrary: P m)
  case (Cons j ks)
  then obtain x where "decode j (f j) = Some x" by auto
  with set_known [of j "f j" x m] Cons(2) obtain m1 where "setValue j (f j) m = Some m1" by auto
  with Cons(1) [of "insert j P" m1] Cons(2) show ?case by (simp add: split_assignment)
qed simp

text \<open>The text with one line for each key is read back.\<close>

lemma assignments_read_back:
  assumes "distinct keys" "\<forall>k \<in> set keys. plain k \<and> plain (f k) \<and> decode k (f k) = Some (val k)"
  shows "\<exists>m'. parseKeyValue setValue checkAllSetted (text_of (map (\<lambda>k. assignment k (f k)) keys)) m = (True, m') \<and>
    (\<forall>k \<in> set keys. get m' k = val k)"
proof -
  let ?ls = "map (\<lambda>k. assignment k (f k)) keys"
  have ls: "skip_empty (split_on newline (text_of ?ls)) = ?ls"
    using assignment_line assms(2) by (intro skip_empty_lines) auto
  obtain m' where m': "parse_pairs setValue ?ls {} m = (Some (set keys), m')"
    using parse_pairs_assignments [of keys f "{}" m] assms(2) by auto
  then have "parseKeyValue setValue checkAllSetted (text_of ?ls) m = (True, m')"
    by (simp add: parseKeyValue_def ls all_set)
  moreover have "get m' k = val k" if "k \<in> set keys" for k
    using parse_pairs_get [OF m' that] last_value_assignments [OF assms(1) that] assms(2) that by simp
  ultimately show ?thesis by blast
qed

end

end
