(* ===== verification/CpuFeatures.thy ===== *)
theory CpuFeatures
  imports KeyValue "HOL-Library.Word" "HOL-Library.List_Lexorder" "HOL-Library.Char_ord"
begin

text \<open>
  Masks of CPU features (\<^verbatim>\<open>Libraries/CpuFeatures/CCpuHelper.cpp\<close>): the registers of a mask
  and their names, the text forms the tools cpufeatures and cpupools read and print, the masks of
  VMs, the pools, and the names of the features a VM does not get.

  The classes of the SDK that hold registers, five sets of them in four classes, are modelled by
  their ten fields.  The tools are the record \<open>host\<close>: which files exist, what a command prints,
  and the exit code of a command.
\<close>

unbundle bit_operations_syntax

section \<open>Registers\<close>

datatype cpu_register =
  PCFE_FEATURES | PCFE_EXT_FEATURES | PCFE_EXT_00000007_EBX | PCFE_EXT_80000001_ECX
  | PCFE_EXT_80000001_EDX | PCFE_EXT_80000007_EDX | PCFE_EXT_00000007_ECX
  | PCFE_EXT_00000007_EDX | PCFE_EXT_80000008_EAX | PCFE_EXT_0000000D_EAX

type_synonym registers = "cpu_register \<Rightarrow> 32 word"

text \<open>
  The keys of the accessor maps \<^verbatim>\<open>Traits::createAccessors\<close> with the register each gives
  access to, in the order of the keys, in which \<^verbatim>\<open>QMap\<close> is iterated.  The five maps differ
  in the class and the suffix of the fields only.
\<close>

definition accessors :: "(qstring \<times> cpu_register) list" where
  "accessors =
     [(''cpuid_00000001_ECX'', PCFE_EXT_FEATURES), (''cpuid_00000001_EDX'', PCFE_FEATURES),
      (''cpuid_00000007_EBX'', PCFE_EXT_00000007_EBX), (''cpuid_00000007_ECX'', PCFE_EXT_00000007_ECX),
      (''cpuid_00000007_EDX'', PCFE_EXT_00000007_EDX), (''cpuid_0000000D_01_EAX'', PCFE_EXT_0000000D_EAX),
      (''cpuid_80000001_ECX'', PCFE_EXT_80000001_ECX), (''cpuid_80000001_EDX'', PCFE_EXT_80000001_EDX),
      (''cpuid_80000007_EDX'', PCFE_EXT_80000007_EDX), (''cpuid_80000008_EAX'', PCFE_EXT_80000008_EAX)]"

definition feature_keys :: "qstring list" where
  "feature_keys = map fst accessors"

definition getValue :: "qstring \<Rightarrow> registers \<Rightarrow> 32 word" where
  "getValue name m = (case map_of accessors name of None \<Rightarrow> 0 | Some r \<Rightarrow> m r)"

definition setValue :: "qstring \<Rightarrow> 32 word \<Rightarrow> registers \<Rightarrow> bool \<times> registers" where
  "setValue name v m =
     (case map_of accessors name of None \<Rightarrow> (False, m) | Some r \<Rightarrow> (True, m(r := v)))"

definition fill_all :: "32 word \<Rightarrow> registers \<Rightarrow> registers" where
  "fill_all v m = fold (\<lambda>(k, r) m. m(r := v)) accessors m"

definition features_eq :: "registers \<Rightarrow> registers \<Rightarrow> bool" where
  "features_eq m m' \<longleftrightarrow> list_all (\<lambda>(k, r). m r = m' r) accessors"

text \<open>The assignment from another set of features.\<close>

definition assign_features :: "registers \<Rightarrow> registers \<Rightarrow> registers" where
  "assign_features other m = fold (\<lambda>k m. snd (setValue k (getValue k other) m)) feature_keys m"


section \<open>Text forms\<close>

text \<open>\<^verbatim>\<open>QString("%1").arg(v, 8, 16, QChar('0')).toUpper()\<close>\<close>

definition hex_digit :: "nat \<Rightarrow> char" where
  "hex_digit n = ''0123456789ABCDEF'' ! n"

definition hex8 :: "32 word \<Rightarrow> qstring" where
  "hex8 w = map (\<lambda>i. hex_digit (unat w div 16 ^ i mod 16)) [7, 6, 5, 4, 3, 2, 1, 0]"

definition hex_text :: "32 word \<Rightarrow> qstring" where
  "hex_text w = ''0x'' @ hex8 w"

definition createArgs :: "registers \<Rightarrow> qstring" where
  "createArgs m = concat (map (\<lambda>(k, r). ''-r '' @ assignment k (hex_text (m r)) @ '' '') accessors)"

text \<open>
  The two instances of \<^verbatim>\<open>ParseTraits\<close>.  \<open>toUInt\<close> is \<^verbatim>\<open>QString::toUInt\<close> with base
  0, which has to read the C notation of numbers.
\<close>

definition features_setValue ::
  "(qstring \<Rightarrow> 32 word option) \<Rightarrow> qstring \<Rightarrow> qstring \<Rightarrow> registers \<Rightarrow> registers option" where
  "features_setValue toUInt name value m =
     (case toUInt value of None \<Rightarrow> None | Some v \<Rightarrow> Some (snd (setValue name v m)))"

definition features_checkAllSetted :: "qstring set \<Rightarrow> bool" where
  "features_checkAllSetted processed \<longleftrightarrow> list_all (\<lambda>k. k \<in> processed) feature_keys"

record cpu_pool_info =
  pool_name :: qstring
  pool_vendor :: qstring

definition pool_setValue :: "qstring \<Rightarrow> qstring \<Rightarrow> cpu_pool_info \<Rightarrow> cpu_pool_info option" where
  "pool_setValue name value m =
     (if name = ''name'' then Some (m\<lparr>pool_name := value\<rparr>)
      else if name = ''vendor'' then Some (m\<lparr>pool_vendor := value\<rparr>)
      else None)"

definition pool_checkAllSetted :: "qstring set \<Rightarrow> bool" where
  "pool_checkAllSetted processed \<longleftrightarrow> ''name'' \<in> processed \<and> ''vendor'' \<in> processed"

abbreviation parse_features :: "(qstring \<Rightarrow> 32 word option) \<Rightarrow> qstring \<Rightarrow> registers \<Rightarrow> bool \<times> registers" where
  "parse_features toUInt \<equiv> parseKeyValue (features_setValue toUInt) features_checkAllSetted"

abbreviation parse_pool :: "qstring \<Rightarrow> cpu_pool_info \<Rightarrow> bool \<times> cpu_pool_info" where
  "parse_pool \<equiv> parseKeyValue pool_setValue pool_checkAllSetted"


section \<open>Running the tools\<close>

record host =
  binary_exists :: "qstring \<Rightarrow> bool"
  run_output :: "qstring \<Rightarrow> qstring option"
  exit_code :: "qstring \<Rightarrow> (int \<times> qstring) option"
  read_uint :: "qstring \<Rightarrow> 32 word option"

text \<open>
  \<^verbatim>\<open>run_output\<close> is \<^verbatim>\<open>RunCmdLineUtility\<close>, with \<open>None\<close> for its failure, and \<open>exit_code\<close>
  what \<^verbatim>\<open>RunCmdLineUtilityEx\<close> reports to its handler: the exit code and the output, or
  \<open>None\<close> when the command did not run to its end.
\<close>

definition CPUFEATURES_BINARY :: qstring where "CPUFEATURES_BINARY = ''/usr/sbin/cpufeatures''"

definition CPUPOOLS_BINARY :: qstring where "CPUPOOLS_BINARY = ''/usr/sbin/cpupools''"

definition convert_exit :: "int \<Rightarrow> prl_result" where
  "convert_exit code =
     (if code = 6 then PRL_ERR_CPUFEATURES_INCORRECT_MASK
      else if code = 10 then PRL_ERR_CPUFEATURES_RUNNING_VM_OR_CT
      else if code = 17 then PRL_ERR_CPUFEATURES_POOLS_MANAGMENT
      else if code = 16 then PRL_ERR_CPUFEATURES_NOT_IN_POOLS
      else if code = 18 then PRL_ERR_CPUFEATURES_DEFAULT_POOL_ARG
      else if code = 8 then PRL_ERR_CPUFEATURES_INCOMPATIBLE_NODE
      else PRL_ERR_FAILURE)"

definition execFeaturesCmd :: "host \<Rightarrow> qstring \<Rightarrow> prl_result" where
  "execFeaturesCmd H cmdline =
     (case exit_code H cmdline of
        None \<Rightarrow> PRL_ERR_FAILURE
      | Some (code, out) \<Rightarrow> if code = 0 then PRL_ERR_SUCCESS else convert_exit code)"

definition fillCpuDump :: "host \<Rightarrow> qstring \<Rightarrow> registers \<Rightarrow> bool \<times> registers" where
  "fillCpuDump H opt m =
     (case run_output H (CPUFEATURES_BINARY @ '' dump '' @ opt) of
        None \<Rightarrow> (False, m)
      | Some out \<Rightarrow> parse_features (read_uint H) out m)"

text \<open>\<^verbatim>\<open>CDispCpuPreferences\<close>: the registers and whether they count.\<close>

record cpu_preferences =
  mask_registers :: registers
  cpuFeaturesMaskValid :: bool

definition fixupValidProperty :: "cpu_preferences \<Rightarrow> cpu_preferences" where
  "fixupValidProperty m =
     (if \<not> cpuFeaturesMaskValid m
      then m\<lparr>cpuFeaturesMaskValid := True, mask_registers := fill_all 0xFFFFFFFF (mask_registers m)\<rparr>
      else m)"

definition new_preferences :: cpu_preferences where
  "new_preferences = \<lparr>mask_registers = \<lambda>_. 0, cpuFeaturesMaskValid = False\<rparr>"

definition get_cpu_mask :: "host \<Rightarrow> cpu_preferences option" where
  "get_cpu_mask H =
     (let m = new_preferences\<lparr>cpuFeaturesMaskValid := True\<rparr> in
      if \<not> binary_exists H CPUFEATURES_BINARY
      then Some (m\<lparr>mask_registers := fill_all 0xFFFFFFFF (mask_registers m)\<rparr>)
      else (case fillCpuDump H ''--mask'' (mask_registers m) of
              (True, r) \<Rightarrow> Some (m\<lparr>mask_registers := r\<rparr>)
            | (False, r) \<Rightarrow> None))"

text \<open>\<^verbatim>\<open>CHwCpu\<close>: the features and which of them can be masked.\<close>

record hw_cpu =
  hw_features :: registers
  hw_masking_cap :: registers

definition dump_or_none :: "host \<Rightarrow> qstring \<Rightarrow> registers \<Rightarrow> registers" where
  "dump_or_none H opt m =
     (if \<not> binary_exists H CPUFEATURES_BINARY then fill_all 0 m
      else (case fillCpuDump H opt m of (True, r) \<Rightarrow> r | (False, r) \<Rightarrow> fill_all 0 r))"

definition fill_cpu_info :: "host \<Rightarrow> hw_cpu \<Rightarrow> hw_cpu" where
  "fill_cpu_info H cpu =
     cpu\<lparr>hw_features := dump_or_none H ''--original'' (hw_features cpu),
         hw_masking_cap := dump_or_none H ''--mask-caps'' (hw_masking_cap cpu)\<rparr>"

definition maskUpdate :: "host \<Rightarrow> cpu_preferences \<Rightarrow> prl_result" where
  "maskUpdate H new_mask =
     (let fs = fixupValidProperty new_mask in
      if \<not> binary_exists H CPUFEATURES_BINARY then PRL_ERR_CPUFEATURES_NO_BINARY
      else execFeaturesCmd H (CPUFEATURES_BINARY @ '' set '' @ createArgs (mask_registers fs)))"

text \<open>\<^verbatim>\<open>CVmRunTimeOptions\<close> of a VM.\<close>

record vm_cpu_options =
  vm_registers :: registers
  vm_cpuFeaturesMaskValid :: bool

definition update_with :: "vm_cpu_options \<Rightarrow> cpu_preferences \<Rightarrow> vm_cpu_options" where
  "update_with r msk =
     r\<lparr>vm_registers := assign_features (mask_registers msk) (vm_registers r),
       vm_cpuFeaturesMaskValid := True\<rparr>"

definition update :: "host \<Rightarrow> vm_cpu_options \<Rightarrow> bool \<times> vm_cpu_options" where
  "update H r = (case get_cpu_mask H of None \<Rightarrow> (False, r) | Some m \<Rightarrow> (True, update_with r m))"

definition isMasksEqual :: "cpu_preferences \<Rightarrow> cpu_preferences \<Rightarrow> bool" where
  "isMasksEqual mask1 mask2 \<longleftrightarrow>
     features_eq (mask_registers (fixupValidProperty mask1)) (mask_registers (fixupValidProperty mask2))"

fun has_infix :: "qstring \<Rightarrow> qstring \<Rightarrow> bool" where
  "has_infix p [] \<longleftrightarrow> p = []"
| "has_infix p (x # xs) \<longleftrightarrow> take (length p) (x # xs) = p \<or> has_infix p xs"

definition getCpuMaskingSupport :: "host \<Rightarrow> bool" where
  "getCpuMaskingSupport H \<longleftrightarrow> binary_exists H CPUFEATURES_BINARY \<and>
     (case run_output H (CPUFEATURES_BINARY @ '' info'') of
        None \<Rightarrow> False
      | Some out \<Rightarrow> out \<noteq> [] \<and> has_infix ''fault_support=yes'' out)"

definition sync_mask :: "host \<Rightarrow> bool" where
  "sync_mask H \<longleftrightarrow> \<not> binary_exists H CPUFEATURES_BINARY \<or>
     run_output H (CPUFEATURES_BINARY @ '' --quiet sync'') \<noteq> None"


section \<open>Pools\<close>

definition no_pool :: cpu_pool_info where
  "no_pool = \<lparr>pool_name = [], pool_vendor = []\<rparr>"

text \<open>
  \<open>garbage\<close> is the initial value of \<^verbatim>\<open>DumpInfoHandler::m_success\<close>, which no constructor
  sets: it is the result when the command did not run to its end.
\<close>

definition getPoolInfo :: "bool \<Rightarrow> host \<Rightarrow> cpu_pool_info option" where
  "getPoolInfo garbage H =
     (if \<not> binary_exists H CPUPOOLS_BINARY then Some no_pool
      else (case exit_code H (CPUPOOLS_BINARY @ '' --quiet dump-pool --info'') of
              None \<Rightarrow> if garbage then Some no_pool else None
            | Some (code, out) \<Rightarrow>
                if code = 0 then (case parse_pool out no_pool of (ok, info) \<Rightarrow> if ok then Some info else None)
                else if code = 16 then Some no_pool
                else None))"

record cpu_pool =
  pool_mask :: registers
  pool_info :: cpu_pool_info

definition load_pool :: "host \<Rightarrow> qstring \<Rightarrow> cpu_pool option" where
  "load_pool H name =
     (case run_output H (CPUPOOLS_BINARY @ '' --quiet dump-pool --mask --pool-name '' @ name) of
        None \<Rightarrow> None
      | Some out \<Rightarrow>
          (case parse_features (read_uint H) out (\<lambda>_. 0) of
             (False, _) \<Rightarrow> None
           | (True, r) \<Rightarrow>
               (case run_output H (CPUPOOLS_BINARY @ '' --quiet dump-pool --info --pool-name '' @ name) of
                  None \<Rightarrow> None
                | Some out' \<Rightarrow>
                    (case parse_pool out' no_pool of
                       (False, _) \<Rightarrow> None
                     | (True, i) \<Rightarrow> Some \<lparr>pool_mask = r, pool_info = i\<rparr>))))"

text \<open>The list has the pools that were loaded before the first failure.\<close>

fun load_pools :: "host \<Rightarrow> qstring list \<Rightarrow> bool \<times> cpu_pool list" where
  "load_pools H [] = (True, [])"
| "load_pools H (name # names) =
     (case load_pool H name of
        None \<Rightarrow> (False, [])
      | Some p \<Rightarrow> (case load_pools H names of (ok, ps) \<Rightarrow> (ok, p # ps)))"

definition loadPoolsList :: "host \<Rightarrow> bool \<times> cpu_pool list" where
  "loadPoolsList H =
     (if \<not> binary_exists H CPUPOOLS_BINARY then (True, [])
      else (case run_output H (CPUPOOLS_BINARY @ '' --quiet list-pools'') of
              None \<Rightarrow> (False, [])
            | Some out \<Rightarrow> load_pools H (skip_empty (split_on newline out))))"

definition joinPool :: "host \<Rightarrow> prl_result" where
  "joinPool H = execFeaturesCmd H (CPUPOOLS_BINARY @ '' --quiet join'')"

definition leavePool :: "host \<Rightarrow> prl_result" where
  "leavePool H = execFeaturesCmd H (CPUPOOLS_BINARY @ '' --quiet leave'')"

definition moveToPool :: "host \<Rightarrow> qstring \<Rightarrow> prl_result" where
  "moveToPool H name = execFeaturesCmd H (CPUPOOLS_BINARY @ '' --quiet move '' @ name)"

definition recalcPool :: "host \<Rightarrow> qstring \<Rightarrow> prl_result" where
  "recalcPool H name = execFeaturesCmd H (CPUPOOLS_BINARY @ '' --quiet recalc '' @ name)"


section \<open>Names of features\<close>

type_synonym catalog = "cpu_register \<Rightarrow> qstring list"

text \<open>The names by their bits; an empty name is a bit without a feature.\<close>

definition default_catalog :: catalog where
  "default_catalog r =
     (case r of
        PCFE_FEATURES \<Rightarrow>
          [''fpu'', ''vme'', ''de'', ''pse'', ''tsc'', ''msr'', ''pae'', ''mce'', ''cx8'',
          ''apic'', '''', ''sep'', ''mtrr'', ''pge'', ''mca'', ''cmov'', ''pat'', ''pse36'',
          ''pn'', ''clflush'', '''', ''ds'', ''acpi'', ''mmx'', ''fxsr'', ''sse'', ''sse2'',
          ''ss'', ''ht'', ''tm'', ''ia64'', ''pbe'']
      | PCFE_EXT_FEATURES \<Rightarrow>
          [''pni'', ''pclmuldq'', ''dtes64'', ''monitor'', ''ds_cpl'', ''vmx'', ''smx'', ''est'',
          ''tm2'', ''ssse3'', ''cid'', '''', ''fma'', ''cx16'', ''xtpr'', ''pdcm'', '''',
          ''pcid'', ''dca'', ''sse4.1'', ''sse4.2'', ''x2apic'', ''movbe'', ''popcnt'',
          ''tsc-deadline'', ''aes'', ''xsave'', ''osxsave'', ''avx'', ''f16c'', ''rdrand'',
          ''hypervisor'']
      | PCFE_EXT_00000007_EBX \<Rightarrow>
          [''fsgsbase'', ''tsc_adjust'', '''', ''bmi1'', ''hle'', ''avx2'', '''', ''smep'',
          ''bmi2'', ''erms'', ''invpcid'', ''rtm'', '''', '''', ''mpx'', '''', ''avx512f'', '''',
          ''rdseed'', ''adx'', ''smap'', '''', ''pcommit'', ''clflushopt'', '''', '''',
          ''avx512pf'', ''avx512er'', ''avx512cd'', '''', '''', '''']
      | PCFE_EXT_80000001_ECX \<Rightarrow>
          [''lahf_lm'', ''cmp_legacy'', ''svm'', ''extapic'', ''cr8legacy'', ''abm'', ''sse4a'',
          ''misalignsse'', ''3dnowprefetch'', ''osvw'', ''ibs'', ''xop'', ''skinit'', ''wdt'',
          '''', ''lwp'', ''fma4'', ''tce'', '''', ''nodeid_msr'', '''', ''tbm'', ''topoext'',
          ''perfctr_core'', ''perfctr_nb'']
      | PCFE_EXT_80000001_EDX \<Rightarrow>
          ['''', '''', '''', '''', '''', '''', '''', '''', '''', '''', '''', ''syscall'', '''',
          '''', '''', '''', '''', '''', '''', '''', ''nx'', '''', ''mmxext'', '''', '''',
          ''fxsr_opt'', ''pdpe1gb'', ''rdtscp'', '''', ''lm'', ''3dnowext'', ''3dnow'']
      | PCFE_EXT_80000007_EDX \<Rightarrow> []
      | PCFE_EXT_00000007_ECX \<Rightarrow>
          ['''', ''avx512vbmi'', ''umip'', ''pku'', ''ospke'', ''waitpkg'', ''avx512_vbmi2'',
          ''shstk'', ''gfni'', ''vaes'', ''vpclmulqdq'', ''avx512_vnni'', ''avx512_bitalg'',
          ''tme'', ''avx512_vpopcntdq'', '''', ''la57'', '''', '''', '''', '''', '''', ''rdpid'',
          '''', ''bus_lock_detect'', ''cldemote'', '''', ''movdiri'', ''movdir64b'', ''enqcmd'',
          ''sgx_lc'', '''']
      | PCFE_EXT_00000007_EDX \<Rightarrow>
          ['''', '''', '''', '''', '''', '''', '''', '''', '''', '''', ''md-clear'', '''', '''',
          '''', '''', '''', '''', '''', '''', '''', '''', '''', '''', '''', '''', '''',
          ''spec-ctrl'', ''stibp'', '''', '''', '''', ''ssbd'']
      | PCFE_EXT_80000008_EAX \<Rightarrow> []
      | PCFE_EXT_0000000D_EAX \<Rightarrow>
          [''xsaveopt'', ''xsavec'', ''xgetbv1'', ''xsaves''])"

text \<open>
  \<^verbatim>\<open>Register\<close>: the map from the names to their bits; \<^verbatim>\<open>std::map::insert\<close> keeps the first
  of two equal names.
\<close>

fun register_bits :: "nat \<Rightarrow> qstring list \<Rightarrow> (qstring \<times> nat) list \<Rightarrow> (qstring \<times> nat) list" where
  "register_bits i [] acc = acc"
| "register_bits i (f # fs) acc =
     register_bits (Suc i) fs
       (if f \<noteq> [] \<and> map_of acc f = None then acc @ [(f, i)] else acc)"

definition appendDisabled :: "(qstring \<times> nat) list \<Rightarrow> 32 word \<Rightarrow> qstring set \<Rightarrow> qstring set" where
  "appendDisabled m_features m features =
     fold (\<lambda>(f, i) fs. if (push_bit i 1 :: 64 word) AND ucast m = 0 then insert f fs else fs) m_features features"

text \<open>The range from \<^verbatim>\<open>PCFE_FEATURES\<close> to \<^verbatim>\<open>PCFE_MAX\<close>.\<close>

definition all_registers :: "cpu_register list" where
  "all_registers =
     [PCFE_FEATURES, PCFE_EXT_FEATURES, PCFE_EXT_00000007_EBX, PCFE_EXT_80000001_ECX,
      PCFE_EXT_80000001_EDX, PCFE_EXT_80000007_EDX, PCFE_EXT_00000007_ECX, PCFE_EXT_00000007_EDX,
      PCFE_EXT_80000008_EAX, PCFE_EXT_0000000D_EAX]"

definition getDisabledFeatures :: "catalog \<Rightarrow> vm_cpu_options \<Rightarrow> qstring set" where
  "getDisabledFeatures catalog conf =
     fold (\<lambda>r. appendDisabled (register_bits 0 (catalog r) []) (vm_registers conf r)) all_registers {}"


section \<open>Facts about the registers\<close>

lemma accessors_sorted: "sorted_wrt (<) feature_keys"
  by code_simp

lemma feature_keys_distinct [simp]: "distinct feature_keys"
  by code_simp

lemma accessor_of: "\<exists>k. k \<in> set feature_keys \<and> map_of accessors k = Some r"
proof -
  have "r \<in> set (map snd accessors)" by (cases r) (simp_all add: accessors_def)
  then obtain k where "(k, r) \<in> set accessors" by auto
  moreover have "distinct (map fst accessors)" using feature_keys_distinct by (simp add: feature_keys_def)
  ultimately show ?thesis unfolding feature_keys_def by (force simp: image_iff)
qed

lemma key_accessor: "k \<in> set feature_keys \<longleftrightarrow> map_of accessors k \<noteq> None"
  by (simp add: feature_keys_def map_of_eq_None_iff)

lemma accessor_inj:
  assumes "map_of accessors j = Some r" "map_of accessors k = Some r" shows "j = k"
proof -
  have "distinct (map snd accessors)" by code_simp
  with map_of_SomeD [OF assms(1)] map_of_SomeD [OF assms(2)] show ?thesis
    by (metis distinct_map inj_onD prod.inject snd_conv)
qed

lemma registers_eqI: "(\<And>k. k \<in> set feature_keys \<Longrightarrow> getValue k m = getValue k m') \<Longrightarrow> m = m'"
proof
  fix r assume a: "\<And>k. k \<in> set feature_keys \<Longrightarrow> getValue k m = getValue k m'"
  obtain k where "k \<in> set feature_keys" "map_of accessors k = Some r" using accessor_of by blast
  with a show "m r = m' r" by (fastforce simp: getValue_def)
qed

lemma fill_all_eq: "fill_all v m = (\<lambda>_. v)"
proof
  fix r show "fill_all v m r = v" by (cases r) (simp_all add: fill_all_def accessors_def)
qed

lemma features_eq_iff: "features_eq m m' \<longleftrightarrow> m = m'"
proof
  assume a: "features_eq m m'"
  show "m = m'"
  proof
    fix r show "m r = m' r" using a by (cases r) (simp_all add: features_eq_def accessors_def)
  qed
qed (auto simp: features_eq_def list_all_iff)

lemma assign_features_eq: "assign_features other m = other"
proof
  fix r show "assign_features other m r = other r"
    by (cases r) (simp_all add: assign_features_def feature_keys_def accessors_def setValue_def getValue_def)
qed


section \<open>The two key-value models\<close>

interpretation feat: key_value_model feature_keys "\<lambda>k. toUInt" "\<lambda>m k. getValue k m"
    "features_setValue toUInt" features_checkAllSetted for toUInt :: "qstring \<Rightarrow> 32 word option"
proof unfold_locales
  fix k v x m assume "k \<in> set feature_keys" "toUInt v = Some x"
  then show "\<exists>m'. features_setValue toUInt k v m = Some m' \<and> getValue k m' = x"
    by (auto simp: features_setValue_def setValue_def getValue_def key_accessor)
next
  fix k v m m' j
  assume "features_setValue toUInt k v m = Some m'" "j \<in> set feature_keys" "j \<noteq> k"
  then show "getValue j m' = getValue j m"
    by (auto simp: features_setValue_def setValue_def getValue_def key_accessor
        split: option.splits dest: accessor_inj)
qed (auto simp: features_setValue_def features_checkAllSetted_def list_all_iff)

interpretation pool: key_value_model "[''name'', ''vendor'']" "\<lambda>k v. Some v"
    "\<lambda>m k. if k = ''name'' then pool_name m else pool_vendor m" pool_setValue pool_checkAllSetted
  by unfold_locales (auto simp: pool_setValue_def pool_checkAllSetted_def split: if_splits)


section \<open>Hexadecimal text\<close>

lemma hex_digit_plain: "n < 16 \<Longrightarrow> hex_digit n \<noteq> CHR ''='' \<and> hex_digit n \<noteq> newline"
proof -
  have "\<forall>n \<in> set [0..<16]. hex_digit n \<noteq> CHR ''='' \<and> hex_digit n \<noteq> newline" by code_simp
  then show "n < 16 \<Longrightarrow> hex_digit n \<noteq> CHR ''='' \<and> hex_digit n \<noteq> newline" by simp
qed

lemma hex_text_plain: "plain (hex_text w)"
  unfolding plain_def hex_text_def hex8_def using hex_digit_plain
  by (auto simp: eq_commute [of "CHR ''=''"] eq_commute [of newline])

lemma feature_key_plain: "k \<in> set feature_keys \<Longrightarrow> plain k"
proof -
  have "list_all plain feature_keys" by code_simp
  then show "k \<in> set feature_keys \<Longrightarrow> plain k" by (simp add: list_all_iff)
qed

text \<open>A reader of the numbers that are written, as an example of \<open>toUInt\<close>.\<close>

definition digit_value :: "char \<Rightarrow> nat" where
  "digit_value c = length (takeWhile (\<lambda>d. d \<noteq> c) ''0123456789ABCDEF'')"

definition hex_value :: "qstring \<Rightarrow> nat" where
  "hex_value s = foldl (\<lambda>n c. 16 * n + digit_value c) 0 s"

definition read_hex :: "qstring \<Rightarrow> 32 word option" where
  "read_hex s = (if take 2 s = ''0x'' then Some (of_nat (hex_value (drop 2 s))) else None)"

lemma digit_value_hex_digit: "n < 16 \<Longrightarrow> digit_value (hex_digit n) = n"
proof -
  have "\<forall>n \<in> set [0..<16]. digit_value (hex_digit n) = n" by code_simp
  then show "n < 16 \<Longrightarrow> digit_value (hex_digit n) = n" by simp
qed

lemma hex_value_hex8: "hex_value (hex8 w) = unat w"
proof -
  let ?n = "unat w"
  have n: "?n < 4294967296" using unsigned_less [of w] by simp
  have q: "?n div 268435456 < 16" using n by (simp add: div_less_iff_less_mult)
  have "?n div a = 16 * (?n div (a * 16)) + ?n div a mod 16" for a
    by (simp add: div_mult2_eq)
  from this [of 16777216] this [of 1048576] this [of 65536] this [of 4096] this [of 256] this [of 16] this [of 1] q
  show ?thesis
    by (simp add: hex_value_def hex8_def digit_value_hex_digit)
qed

lemma read_hex_text: "read_hex (hex_text w) = Some w"
  by (simp add: read_hex_def hex_text_def hex_value_hex8)


section \<open>Names and bits\<close>

lemma fst_True: "fst p \<Longrightarrow> p = (True, snd p)"
  by (cases p) simp


lemma ex_less_Suc_split: "(\<exists>j < length (g # fs). P j) \<longleftrightarrow> P 0 \<or> (\<exists>j < length fs. P (Suc j))"
  by (auto simp: less_Suc_eq_0_disj)

lemma register_bits_in:
  "(f, i) \<in> set (register_bits n fs acc) \<longleftrightarrow>
     (f, i) \<in> set acc \<or> f \<noteq> [] \<and> map_of acc f = None \<and>
       (\<exists>j < length fs. i = n + j \<and> fs ! j = f \<and> f \<notin> set (take j fs))"
proof (induction fs arbitrary: n acc)
  case (Cons g fs)
  have split: "(\<exists>j < length (g # fs). i = n + j \<and> (g # fs) ! j = f \<and> f \<notin> set (take j (g # fs))) \<longleftrightarrow>
      (i = n \<and> g = f) \<or> (g \<noteq> f \<and> (\<exists>j < length fs. i = Suc n + j \<and> fs ! j = f \<and> f \<notin> set (take j fs)))"
    by (subst ex_less_Suc_split) auto
  show ?case
    unfolding register_bits.simps Cons split by (auto split: if_splits)
qed simp


lemma test_bit_mask: "i < 64 \<Longrightarrow> (2 ^ i :: 64 word) AND ucast (m :: 32 word) = 0 \<longleftrightarrow> \<not> bit m i"
  using bit_iff_and_push_bit_not_eq_0 [of "ucast m :: 64 word" i]
  by (auto simp: and.commute bit_unsigned_iff push_bit_eq_mult)

lemma appendDisabled_in:
  "f \<in> appendDisabled fs m S \<longleftrightarrow>
     f \<in> S \<or> (\<exists>i. (f, i) \<in> set fs \<and> (push_bit i 1 :: 64 word) AND ucast m = 0)"
  by (induction fs arbitrary: S) (auto simp: appendDisabled_def split: if_splits)

lemma getDisabledFeatures_in:
  "f \<in> getDisabledFeatures c conf \<longleftrightarrow>
     (\<exists>r i. (f, i) \<in> set (register_bits 0 (c r) []) \<and>
        (push_bit i 1 :: 64 word) AND ucast (vm_registers conf r) = 0)"
proof -
  have "f \<in> fold (\<lambda>r. appendDisabled (register_bits 0 (c r) []) (vm_registers conf r)) rs S \<longleftrightarrow>
    f \<in> S \<or> (\<exists>r \<in> set rs. \<exists>i. (f, i) \<in> set (register_bits 0 (c r) []) \<and>
        (push_bit i 1 :: 64 word) AND ucast (vm_registers conf r) = 0)" for rs S
    by (induction rs arbitrary: S) (auto simp: appendDisabled_in)
  moreover have "r \<in> set all_registers" for r by (cases r) (simp_all add: all_registers_def)
  ultimately show ?thesis by (auto simp: getDisabledFeatures_def)
qed

lemma default_catalog_length: "length (default_catalog r) \<le> 32"
  by (cases r) (simp_all add: default_catalog_def)

lemma default_catalog_distinct:
  "distinct (filter (\<lambda>f. f \<noteq> []) (concat (map default_catalog all_registers)))"
  by code_simp

lemma distinct_filter_take:
  assumes "distinct (filter P xs)" "i < length xs" "P (xs ! i)" shows "xs ! i \<notin> set (take i xs)"
proof -
  have "filter P xs = filter P (take i xs) @ xs ! i # filter P (drop (Suc i) xs)"
    using assms(2,3) by (subst id_take_nth_drop [OF assms(2)]) simp
  with assms(1,3) show ?thesis by auto
qed

lemma register_catalog_distinct: "distinct (filter (\<lambda>f. f \<noteq> []) (default_catalog r))"
proof -
  have "r \<in> set all_registers" by (cases r) (simp_all add: all_registers_def)
  then obtain rs ts where rs: "all_registers = rs @ r # ts" by (meson split_list)
  show ?thesis using default_catalog_distinct unfolding rs by simp
qed


lemma disabled_bit:
  assumes "length cs \<le> 32" "distinct (filter (\<lambda>f. f \<noteq> []) cs)"
  shows "(f, i) \<in> set (register_bits 0 cs []) \<and> (push_bit i 1 :: 64 word) AND ucast (m :: 32 word) = 0 \<longleftrightarrow>
    i < length cs \<and> cs ! i = f \<and> f \<noteq> [] \<and> \<not> bit m i"
proof (cases "i < length cs \<and> cs ! i = f \<and> f \<noteq> []")
  case True
  then have f: "i < length cs" "cs ! i = f" "f \<noteq> []" by auto
  with assms(1) have i: "i < 64" by linarith
  from distinct_filter_take [OF assms(2) f(1)] f have "f \<notin> set (take i cs)" by simp
  with f have "(f, i) \<in> set (register_bits 0 cs [])" unfolding register_bits_in by auto
  with f test_bit_mask [OF i, of m] show ?thesis by simp
qed (auto simp: register_bits_in)


lemma features_read_back:
  fixes m :: registers
  assumes "\<forall>w. toUInt (hex_text w) = Some w"
  shows "parse_features toUInt (text_of (map (\<lambda>k. assignment k (hex_text (getValue k m))) feature_keys)) m0 = (True, m)"
proof -
  have "\<forall>k \<in> set feature_keys. plain k \<and> plain (hex_text (getValue k m)) \<and>
      toUInt (hex_text (getValue k m)) = Some (getValue k m)"
    using feature_key_plain hex_text_plain assms(1) by blast
  from feat.assignments_read_back [OF feature_keys_distinct this, of m0] obtain m' where
    "parse_features toUInt (text_of (map (\<lambda>k. assignment k (hex_text (getValue k m))) feature_keys)) m0 = (True, m')"
    "\<forall>k \<in> set feature_keys. getValue k m' = getValue k m" by blast
  with registers_eqI [of m' m] show ?thesis by simp
qed


text \<open>When the tool does not run to its end, the result is what the memory held before.\<close>

lemma getPoolInfo_reads_garbage:
  "binary_exists H CPUPOOLS_BINARY \<Longrightarrow>
   exit_code H (CPUPOOLS_BINARY @ '' --quiet dump-pool --info'') = None \<Longrightarrow>
   getPoolInfo True H \<noteq> getPoolInfo False H"
  by (simp add: getPoolInfo_def)


text \<open>The features a mask lets through.\<close>

definition effective_mask :: "cpu_preferences \<Rightarrow> registers" where
  "effective_mask m = (if cpuFeaturesMaskValid m then mask_registers m else (\<lambda>_. mask 32))"


section \<open>Properties\<close>

text \<open>C32. The arguments for the tool give each register once, by its key and eight hexadecimal
  digits; and a text with these assignments on its lines, as the tool prints it, is read back into
  exactly the registers it was made from, whatever was in the model before.\<close>

theorem masks_written_are_read:
  fixes m :: registers
  assumes "\<forall>w. toUInt (hex_text w) = Some w"
  defines "assigned \<equiv> map (\<lambda>k. assignment k (hex_text (getValue k m))) feature_keys"
  shows "createArgs m = concat (map (\<lambda>a. ''-r '' @ a @ '' '') assigned) \<and>
    parse_features toUInt (text_of assigned) m0 = (True, m)"
proof
  have "getValue k m = m r" if "(k, r) \<in> set accessors" for k r
  proof -
    have "distinct (map fst accessors)" using feature_keys_distinct by (simp add: feature_keys_def)
    with that show ?thesis by (simp add: getValue_def)
  qed
  then have "map (\<lambda>(k, r). ''-r '' @ assignment k (hex_text (m r)) @ '' '') accessors =
    map (\<lambda>a. ''-r '' @ a @ '' '') assigned"
    unfolding assigned_def feature_keys_def by (auto simp del: append.simps)
  then show "createArgs m = concat (map (\<lambda>a. ''-r '' @ a @ '' '') assigned)"
    unfolding createArgs_def by (rule arg_cong)
  show "parse_features toUInt (text_of assigned) m0 = (True, m)"
    unfolding assigned_def by (rule features_read_back [OF assms(1)])
qed

lemma masks_written_are_read_witness:
  "parse_features read_hex (text_of (map (\<lambda>k. assignment k (hex_text (getValue k (\<lambda>_. 0xBFEBFBFF)))) feature_keys))
     (\<lambda>_. 0) = (True, \<lambda>_. 0xBFEBFBFF)"
  using masks_written_are_read [of read_hex "\<lambda>_. 0xBFEBFBFF" "\<lambda>_. 0"] read_hex_text by blast

text \<open>C33. A dump is accepted only if it has a line for each register, and then each register has the
  value of its last line, while keys that are not registers are ignored.\<close>

theorem accepted_dump_gives_every_register:
  assumes "parse_features toUInt str m = (True, m')" "k \<in> set feature_keys"
  shows "(\<exists>p \<in> set (skip_empty (split_on newline str)). split_on CHR ''='' p ! 0 = k) \<and>
    getValue k m' = last_value (\<lambda>_. toUInt) (skip_empty (split_on newline str)) k (getValue k m)"
  using feat.parse_success [OF assms] by blast

lemma accepted_dump_gives_every_register_witness:
  "last_value (\<lambda>_. read_hex) (skip_empty (split_on newline
     (text_of (map (\<lambda>k. assignment k (hex_text (getValue k (\<lambda>_. 7)))) feature_keys))))
     ''cpuid_00000001_EDX'' (getValue ''cpuid_00000001_EDX'' (\<lambda>_. 0)) = 7"
proof -
  have "\<forall>w. read_hex (hex_text w) = Some w" using read_hex_text by blast
  from features_read_back [OF this] have p: "parse_features read_hex
    (text_of (map (\<lambda>k. assignment k (hex_text (getValue k (\<lambda>_. 7)))) feature_keys)) (\<lambda>_. 0) = (True, \<lambda>_. 7)" .
  have k: "''cpuid_00000001_EDX'' \<in> set feature_keys" by code_simp
  have "getValue ''cpuid_00000001_EDX'' (\<lambda>_. 7) = 7" by code_simp
  with accepted_dump_gives_every_register [OF p k, THEN conjunct2] show ?thesis by (rule trans [OF sym])
qed



end
