(* ===== verification/MultiEdit.thy ===== *)
theory MultiEdit
  imports Prelude "HOL-Library.AList" "HOL-Library.Word"
begin

text \<open>
  Concurrent editing of configurations (\<^verbatim>\<open>EditHelpers/CMultiEditDispatcher.cpp\<close>,
  \<^verbatim>\<open>CMultiEditMergeHelper.h\<close> and the two classes derived from it): a session that begins to
  edit an object leaves a mark with the time and a copy of the configuration, a commit is
  compared with the marks, and a session that was overtaken merges its changes into the newer
  configuration.  Then the two callers of the class: the check of an edit commit
  (\<^verbatim>\<open>Task_EditVm::editVm\<close>) and \<^verbatim>\<open>Edit::Unlocked\<close> (\<^verbatim>\<open>CDspVmConfigManager.cpp\<close>).

  All of it runs under one recursive mutex, so operations are atomic.  The ticks of
  \<^verbatim>\<open>PrlGetTickCount64\<close> are an argument, and \<^verbatim>\<open>mergeDocuments\<close> of the SDK is a parameter.
\<close>

section \<open>State\<close>

record begin_edit_info =
  tsBeginEditTimeStamp :: "64 word"
  llObjectShotId :: "64 word"

record edit_commit_info =
  tsCommitTimeStamp :: "64 word"
  m_hashBeginEditByUser :: "(qstring \<times> begin_edit_info) list"

definition new_edit_commit_info :: edit_commit_info where
  "new_edit_commit_info = \<lparr>tsCommitTimeStamp = 0, m_hashBeginEditByUser = []\<rparr>"

record 'c multi_edit =
  m_hashCommitsByObject :: "(qstring \<times> edit_commit_info) list"
  m_llCounter :: "64 word"
  m_hashIdToShot :: "(64 word \<times> 'c) list"

definition new_multi_edit :: "'c multi_edit" where
  "new_multi_edit = \<lparr>m_hashCommitsByObject = [], m_llCounter = 1, m_hashIdToShot = []\<rparr>"

definition removeObjectShot :: "64 word \<Rightarrow> 'c multi_edit \<Rightarrow> 'c multi_edit" where
  "removeObjectShot key s = s\<lparr>m_hashIdToShot := AList.delete key (m_hashIdToShot s)\<rparr>"

definition store_info :: "qstring \<Rightarrow> edit_commit_info \<Rightarrow> 'c multi_edit \<Rightarrow> 'c multi_edit" where
  "store_info ob i s = s\<lparr>m_hashCommitsByObject := AList.update ob i (m_hashCommitsByObject s)\<rparr>"


section \<open>Operations\<close>

definition register_mark ::
  "qstring \<Rightarrow> qstring \<Rightarrow> 64 word \<Rightarrow> 64 word \<Rightarrow> 'c multi_edit \<Rightarrow> 'c multi_edit" where
  "register_mark objectUuid userUuid shot now s =
     (let i = (case map_of (m_hashCommitsByObject s) objectUuid of
                 None \<Rightarrow> new_edit_commit_info | Some i \<Rightarrow> i);
          s1 = (case map_of (m_hashBeginEditByUser i) userUuid of
                  None \<Rightarrow> s | Some b \<Rightarrow> removeObjectShot (llObjectShotId b) s)
      in store_info objectUuid
           (i\<lparr>m_hashBeginEditByUser := AList.update userUuid
                \<lparr>tsBeginEditTimeStamp = now, llObjectShotId = shot\<rparr> (m_hashBeginEditByUser i)\<rparr>) s1)"

definition registerBeginEdit ::
  "qstring \<Rightarrow> qstring \<Rightarrow> 'c \<Rightarrow> 64 word \<Rightarrow> 'c multi_edit \<Rightarrow> 'c multi_edit" where
  "registerBeginEdit sObjectId sUserAccessToken pPrevConf now s =
     (let n = m_llCounter s + 1 in
      register_mark sObjectId sUserAccessToken n now
        (s\<lparr>m_llCounter := n, m_hashIdToShot := AList.update n pPrevConf (m_hashIdToShot s)\<rparr>))"

definition configWasChanged :: "qstring \<Rightarrow> qstring \<Rightarrow> 'c multi_edit \<Rightarrow> bool \<times> prl_result" where
  "configWasChanged objectUuid userUuid s =
     (case map_of (m_hashCommitsByObject s) objectUuid of
        None \<Rightarrow> (True, PRL_ERR_CONFIG_BEGIN_EDIT_NOT_FOUND_OBJECT_UUID)
      | Some i \<Rightarrow>
          (case map_of (m_hashBeginEditByUser i) userUuid of
             None \<Rightarrow> (True, PRL_ERR_CONFIG_BEGIN_EDIT_NOT_FOUND_USER_UUID)
           | Some b \<Rightarrow> (tsBeginEditTimeStamp b \<le> tsCommitTimeStamp i, PRL_ERR_SUCCESS)))"

definition cleanupBeginEditMark :: "qstring \<Rightarrow> qstring \<Rightarrow> 'c multi_edit \<Rightarrow> 'c multi_edit" where
  "cleanupBeginEditMark objectUuid userUuid s =
     (case map_of (m_hashCommitsByObject s) objectUuid of
        None \<Rightarrow> s
      | Some i \<Rightarrow>
          (case map_of (m_hashBeginEditByUser i) userUuid of
             None \<Rightarrow> s
           | Some b \<Rightarrow> removeObjectShot (llObjectShotId b)
               (store_info objectUuid
                 (i\<lparr>m_hashBeginEditByUser := AList.delete userUuid (m_hashBeginEditByUser i)\<rparr>) s)))"

definition registerCommit :: "qstring \<Rightarrow> qstring \<Rightarrow> 64 word \<Rightarrow> 'c multi_edit \<Rightarrow> 'c multi_edit" where
  "registerCommit objectUuid userUuid now s =
     (case map_of (m_hashCommitsByObject s) objectUuid of
        None \<Rightarrow> s
      | Some i \<Rightarrow>
          (let s1 = cleanupBeginEditMark objectUuid userUuid
                      (store_info objectUuid (i\<lparr>tsCommitTimeStamp := now\<rparr>) s)
           in case map_of (m_hashCommitsByObject s1) objectUuid of
                None \<Rightarrow> s1
              | Some i1 \<Rightarrow>
                  if m_hashBeginEditByUser i1 = []
                  then s1\<lparr>m_hashCommitsByObject := AList.delete objectUuid (m_hashCommitsByObject s1)\<rparr>
                  else s1))"

definition getShotId :: "qstring \<Rightarrow> qstring \<Rightarrow> 'c multi_edit \<Rightarrow> 64 word" where
  "getShotId objectUuid userUuid s =
     (case map_of (m_hashCommitsByObject s) objectUuid of
        None \<Rightarrow> 0
      | Some i \<Rightarrow>
          (case map_of (m_hashBeginEditByUser i) userUuid of None \<Rightarrow> 0 | Some b \<Rightarrow> llObjectShotId b))"

text \<open>One round of the loop over the objects: what is left of the entry, and the shot to remove.\<close>

definition drop_user :: "qstring \<Rightarrow> edit_commit_info \<Rightarrow> edit_commit_info" where
  "drop_user u i = i\<lparr>m_hashBeginEditByUser := AList.delete u (m_hashBeginEditByUser i)\<rparr>"

fun cleanup_objects ::
  "qstring \<Rightarrow> (qstring \<times> edit_commit_info) list \<Rightarrow> (64 word \<times> 'c) list \<Rightarrow>
     (qstring \<times> edit_commit_info) list \<times> (64 word \<times> 'c) list" where
  "cleanup_objects u [] shots = ([], shots)"
| "cleanup_objects u ((ob, i) # its) shots =
     (let shots1 = (case map_of (m_hashBeginEditByUser i) u of
                      None \<Rightarrow> shots | Some b \<Rightarrow> AList.delete (llObjectShotId b) shots);
          rest = cleanup_objects u its shots1
      in (if m_hashBeginEditByUser (drop_user u i) = [] then fst rest else (ob, drop_user u i) # fst rest,
          snd rest))"

definition cleanupAllBeginEditMarksByAccessToken :: "qstring \<Rightarrow> 'c multi_edit \<Rightarrow> 'c multi_edit" where
  "cleanupAllBeginEditMarksByAccessToken u s =
     (let r = cleanup_objects u (m_hashCommitsByObject s) (m_hashIdToShot s)
      in s\<lparr>m_hashCommitsByObject := fst r, m_hashIdToShot := snd r\<rparr>)"

text \<open>
  The copy that is stored is the object of the caller; \<open>edit_unlocked\<close> below, which goes on to
  change it, never merges, so the model stores its value.  The merge returns whether it succeeded and the new configuration, which it changes in place.
  A null copy of the old configuration cannot be stored (\<^verbatim>\<open>PRL_ASSERT(pPrevConf)\<close>).
\<close>

type_synonym 'c merger = "'c \<Rightarrow> 'c \<Rightarrow> 'c \<Rightarrow> bool \<times> 'c"

definition tryToMerge ::
  "'c merger \<Rightarrow> qstring \<Rightarrow> qstring \<Rightarrow> 'c \<Rightarrow> 'c \<Rightarrow> 'c multi_edit \<Rightarrow> bool \<times> 'c" where
  "tryToMerge merge sObjectId sUserAccessToken pNewConf pCurrConf s =
     (let llId = getShotId sObjectId sUserAccessToken s in
      if llId = 0 then (False, pNewConf)
      else (case map_of (m_hashIdToShot s) llId of
              None \<Rightarrow> (False, pNewConf)
            | Some pPrevConf \<Rightarrow> merge pPrevConf pNewConf pCurrConf))"

text \<open>The derived class for the configuration of the dispatcher.\<close>

definition DISPATCHER_CONFIG_EDIT_ID :: qstring where
  "DISPATCHER_CONFIG_EDIT_ID = ''dispatcher configuration''"

definition disp_registerBeginEdit :: "qstring \<Rightarrow> 'c \<Rightarrow> qstring \<Rightarrow> 64 word \<Rightarrow> 'c multi_edit \<Rightarrow> 'c multi_edit" where
  "disp_registerBeginEdit u pPrev qsIdExt = registerBeginEdit (DISPATCHER_CONFIG_EDIT_ID @ qsIdExt) u pPrev"

definition disp_registerCommit :: "qstring \<Rightarrow> qstring \<Rightarrow> 64 word \<Rightarrow> 'c multi_edit \<Rightarrow> 'c multi_edit" where
  "disp_registerCommit u qsIdExt = registerCommit (DISPATCHER_CONFIG_EDIT_ID @ qsIdExt) u"

definition disp_tryToMerge ::
  "'c merger \<Rightarrow> qstring \<Rightarrow> 'c \<Rightarrow> 'c \<Rightarrow> qstring \<Rightarrow> 'c multi_edit \<Rightarrow> bool \<times> 'c" where
  "disp_tryToMerge merge u n c qsIdExt = tryToMerge merge (DISPATCHER_CONFIG_EDIT_ID @ qsIdExt) u n c"

text \<open>\<^verbatim>\<open>merge\<close> of the two derived classes: \<open>mergeDocuments\<close> returns 0 on success.\<close>

definition merge_with :: "('c \<Rightarrow> 'c \<Rightarrow> 'c \<Rightarrow> int \<times> 'c) \<Rightarrow> 'c merger" where
  "merge_with mergeDocuments pPrev pNew pCurr =
     (case mergeDocuments pNew pCurr pPrev of (rc, new') \<Rightarrow> (rc = 0, new'))"


section \<open>Callers\<close>

text \<open>
  The check of an edit commit in \<^verbatim>\<open>Task_EditVm::editVm\<close>: the exception, or the configuration
  that goes on.  \<open>prepare\<close> adds to the current configuration, before the merge, the parameters
  that clients are shown.
\<close>

definition check_edit_commit ::
  "'c merger \<Rightarrow> ('c \<Rightarrow> 'c) \<Rightarrow> qstring \<Rightarrow> qstring \<Rightarrow> 'c \<Rightarrow> 'c \<Rightarrow> 'c multi_edit \<Rightarrow> prl_result + 'c" where
  "check_edit_commit merge prepare vm_uuid client pVmConfigNew pVmConfigOld s =
     (case configWasChanged vm_uuid client s of
        (False, _) \<Rightarrow> Inr pVmConfigNew
      | (True, nErrCode) \<Rightarrow>
          if prl_failed nErrCode then Inl nErrCode
          else (case tryToMerge merge vm_uuid client pVmConfigNew (prepare pVmConfigOld) s of
                  (False, _) \<Rightarrow> Inl PRL_ERR_VM_CONFIG_WAS_CHANGED
                | (True, merged) \<Rightarrow> Inr merged))"

text \<open>
  \<^verbatim>\<open>Edit::Unlocked::operator()\<close>.  \<open>actor\<close> is the directory of a valid actor, \<open>config\<close> the
  configuration it is given, \<open>action\<close> changes it or fails, \<open>save\<close> is \<^verbatim>\<open>saveConfig\<close>.
\<close>

definition edit_unlocked ::
  "prl_result + 'c \<Rightarrow> ('c \<Rightarrow> prl_result + 'c) \<Rightarrow> ('c \<Rightarrow> prl_result) \<Rightarrow> qstring option \<Rightarrow> qstring \<Rightarrow>
     64 word \<Rightarrow> 64 word \<Rightarrow> 'c multi_edit \<Rightarrow> prl_result \<times> 'c multi_edit" where
  "edit_unlocked config action save actor m_uuid t0 t1 s =
     (case actor of
        None \<Rightarrow> (PRL_ERR_INVALID_ARG, s)
      | Some d \<Rightarrow>
     (case config of
        Inl e \<Rightarrow> (if prl_failed e then e else PRL_ERR_FILE_NOT_FOUND, s)
      | Inr x \<Rightarrow>
          (let f = d @ ''-'' @ m_uuid;
               s1 = registerBeginEdit m_uuid f x t0 s
           in case action x of
                Inl e \<Rightarrow> (e, cleanupBeginEditMark d f s1)
              | Inr x' \<Rightarrow>
                  if prl_failed (save x') then (save x', s1)
                  else (PRL_ERR_SUCCESS, registerCommit m_uuid f t1 s1))))"


section \<open>Runs\<close>

datatype 'c edit_op =
    Begin qstring qstring 'c
  | Commit qstring qstring
  | Cleanup qstring qstring
  | CleanupAll qstring

fun edit_step :: "64 word \<times> 'c edit_op \<Rightarrow> 'c multi_edit \<Rightarrow> 'c multi_edit" where
  "edit_step (now, Begin ob u c) = registerBeginEdit ob u c now"
| "edit_step (now, Commit ob u) = registerCommit ob u now"
| "edit_step (now, Cleanup ob u) = cleanupBeginEditMark ob u"
| "edit_step (now, CleanupAll u) = cleanupAllBeginEditMarksByAccessToken u"

definition edit_run :: "(64 word \<times> 'c edit_op) list \<Rightarrow> 'c multi_edit \<Rightarrow> 'c multi_edit" where
  "edit_run ops = fold edit_step ops"


section \<open>Marks\<close>

text \<open>The mark of a session on an object, and the time of the last commit that is remembered.\<close>

definition mark_of :: "'c multi_edit \<Rightarrow> qstring \<Rightarrow> qstring \<Rightarrow> begin_edit_info option" where
  "mark_of s ob u =
     (case map_of (m_hashCommitsByObject s) ob of
        None \<Rightarrow> None | Some i \<Rightarrow> map_of (m_hashBeginEditByUser i) u)"

definition commit_time :: "'c multi_edit \<Rightarrow> qstring \<Rightarrow> 64 word" where
  "commit_time s ob =
     (case map_of (m_hashCommitsByObject s) ob of None \<Rightarrow> 0 | Some i \<Rightarrow> tsCommitTimeStamp i)"

definition shot_of :: "'c multi_edit \<Rightarrow> 64 word \<Rightarrow> 'c option" where
  "shot_of s = map_of (m_hashIdToShot s)"

definition keys_ok :: "'c multi_edit \<Rightarrow> bool" where
  "keys_ok s \<longleftrightarrow> distinct (map fst (m_hashCommitsByObject s))"

lemma mark_of_removeObjectShot [simp]: "mark_of (removeObjectShot k s) = mark_of s"
  by (simp add: mark_of_def removeObjectShot_def fun_eq_iff)

lemma commit_time_removeObjectShot [simp]: "commit_time (removeObjectShot k s) = commit_time s"
  by (simp add: commit_time_def removeObjectShot_def fun_eq_iff)

lemma shot_of_removeObjectShot [simp]: "shot_of (removeObjectShot k s) = (shot_of s)(k := None)"
  by (simp add: shot_of_def removeObjectShot_def AList.delete_conv')

lemma hash_removeObjectShot [simp]:
  "m_hashCommitsByObject (removeObjectShot k s) = m_hashCommitsByObject s"
  "m_llCounter (removeObjectShot k s) = m_llCounter s"
  by (simp_all add: removeObjectShot_def)

lemma mark_of_store_info [simp]:
  "mark_of (store_info ob i s) = (mark_of s)(ob := map_of (m_hashBeginEditByUser i))"
  by (auto simp: mark_of_def store_info_def AList.update_conv' fun_eq_iff)

lemma commit_time_store_info [simp]:
  "commit_time (store_info ob i s) = (commit_time s)(ob := tsCommitTimeStamp i)"
  by (auto simp: commit_time_def store_info_def AList.update_conv' fun_eq_iff)

lemma shot_of_store_info [simp]: "shot_of (store_info ob i s) = shot_of s"
  by (simp add: shot_of_def store_info_def)

lemma hash_store_info [simp]:
  "map_of (m_hashCommitsByObject (store_info ob i s)) = (map_of (m_hashCommitsByObject s))(ob \<mapsto> i)"
  "m_llCounter (store_info ob i s) = m_llCounter s"
  by (simp_all add: store_info_def AList.update_conv')

text \<open>The operations on marks.\<close>

lemma mark_of_register_mark:
  "mark_of (register_mark ob u shot now s) =
     (mark_of s)(ob := (mark_of s ob)(u \<mapsto> \<lparr>tsBeginEditTimeStamp = now, llObjectShotId = shot\<rparr>))"
  by (auto simp: register_mark_def mark_of_def fun_eq_iff AList.update_conv' Let_def
      new_edit_commit_info_def split: option.splits)

lemma commit_time_register_mark [simp]: "commit_time (register_mark ob u shot now s) = commit_time s"
  by (auto simp: register_mark_def commit_time_def fun_eq_iff Let_def new_edit_commit_info_def
      split: option.splits)

lemma shot_of_register_mark:
  "shot_of (register_mark ob u shot now s) =
     (case mark_of s ob u of None \<Rightarrow> shot_of s | Some b \<Rightarrow> (shot_of s)(llObjectShotId b := None))"
  by (auto simp: register_mark_def mark_of_def Let_def new_edit_commit_info_def split: option.splits)

lemma mark_of_cleanupBeginEditMark:
  "mark_of (cleanupBeginEditMark ob u s) = (mark_of s)(ob := (mark_of s ob)(u := None))"
  by (auto simp: cleanupBeginEditMark_def mark_of_def fun_eq_iff AList.delete_conv' split: option.splits)

lemma commit_time_cleanupBeginEditMark [simp]: "commit_time (cleanupBeginEditMark ob u s) = commit_time s"
  by (auto simp: cleanupBeginEditMark_def commit_time_def fun_eq_iff split: option.splits)

lemma shot_of_cleanupBeginEditMark:
  "shot_of (cleanupBeginEditMark ob u s) =
     (case mark_of s ob u of None \<Rightarrow> shot_of s | Some b \<Rightarrow> (shot_of s)(llObjectShotId b := None))"
  by (auto simp: cleanupBeginEditMark_def mark_of_def split: option.splits)

text \<open>What a commit and the loop over all objects leave of an entry.\<close>

definition kept_entry :: "edit_commit_info \<Rightarrow> edit_commit_info option" where
  "kept_entry i = (if m_hashBeginEditByUser i = [] then None else Some i)"

lemma drop_user_marks [simp]:
  "map_of (m_hashBeginEditByUser (drop_user u i)) = (map_of (m_hashBeginEditByUser i))(u := None)"
  "tsCommitTimeStamp (drop_user u i) = tsCommitTimeStamp i"
  by (simp_all add: drop_user_def AList.delete_conv')

lemma kept_entry_marks [simp]:
  "(case kept_entry i of None \<Rightarrow> None | Some j \<Rightarrow> map_of (m_hashBeginEditByUser j) v) =
     map_of (m_hashBeginEditByUser i) v"
  by (simp add: kept_entry_def)

lemma kept_entry_SomeD: "kept_entry i = Some j \<Longrightarrow> j = i"
  by (simp add: kept_entry_def split: if_splits)

lemma kept_entry_time:
  "map_of (m_hashBeginEditByUser i) v \<noteq> None \<Longrightarrow>
     (case kept_entry i of None \<Rightarrow> 0 | Some j \<Rightarrow> tsCommitTimeStamp j) = tsCommitTimeStamp i"
  "(case kept_entry i of None \<Rightarrow> 0 | Some j \<Rightarrow> tsCommitTimeStamp j) \<in> {0, tsCommitTimeStamp i}"
  by (auto simp: kept_entry_def)

lemma drop_user_absent: "map_of (m_hashBeginEditByUser i) u = None \<Longrightarrow> drop_user u i = i"
  by (simp add: drop_user_def map_of_eq_None_iff)

lemma hash_cleanupBeginEditMark:
  "map_of (m_hashCommitsByObject (cleanupBeginEditMark ob u s)) ob' =
     (if ob' = ob then map_option (drop_user u) (map_of (m_hashCommitsByObject s) ob)
      else map_of (m_hashCommitsByObject s) ob')"
  using drop_user_absent by (auto simp: cleanupBeginEditMark_def drop_user_def [symmetric] split: option.splits)

lemma hash_registerCommit:
  "map_of (m_hashCommitsByObject (registerCommit ob u now s)) ob' =
     (if ob' = ob
      then Option.bind (map_of (m_hashCommitsByObject s) ob)
             (\<lambda>i. kept_entry (drop_user u (i\<lparr>tsCommitTimeStamp := now\<rparr>)))
      else map_of (m_hashCommitsByObject s) ob')"
proof (cases "map_of (m_hashCommitsByObject s) ob")
  case (Some i)
  then show ?thesis
    by (simp add: registerCommit_def Let_def hash_cleanupBeginEditMark kept_entry_def AList.delete_conv')
qed (simp add: registerCommit_def)

lemma mark_of_registerCommit:
  "mark_of (registerCommit ob u now s) = (mark_of s)(ob := (mark_of s ob)(u := None))"
proof (intro ext)
  fix ob' v
  show "mark_of (registerCommit ob u now s) ob' v = ((mark_of s)(ob := (mark_of s ob)(u := None))) ob' v"
    unfolding mark_of_def hash_registerCommit by (cases "map_of (m_hashCommitsByObject s) ob") simp_all
qed

lemma commit_time_registerCommit:
  assumes "mark_of (registerCommit ob u now s) ob v \<noteq> None"
  shows "commit_time (registerCommit ob u now s) ob = now"
proof (cases "map_of (m_hashCommitsByObject s) ob")
  case (Some i)
  let ?i = "drop_user u (i\<lparr>tsCommitTimeStamp := now\<rparr>)"
  have "map_of (m_hashBeginEditByUser ?i) v \<noteq> None"
    using assms Some unfolding mark_of_def hash_registerCommit by simp
  from kept_entry_time(1) [OF this] show ?thesis
    unfolding commit_time_def hash_registerCommit by (simp add: Some)
next
  case None
  with assms show ?thesis unfolding mark_of_def hash_registerCommit by simp
qed

lemma commit_time_registerCommit_in: "commit_time (registerCommit ob u now s) ob \<in> {0, now}"
proof (cases "map_of (m_hashCommitsByObject s) ob")
  case (Some i)
  with kept_entry_time(2) [of "drop_user u (i\<lparr>tsCommitTimeStamp := now\<rparr>)"] show ?thesis
    unfolding commit_time_def hash_registerCommit by simp
qed (simp add: commit_time_def hash_registerCommit)

lemma commit_time_registerCommit_other [simp]:
  "ob' \<noteq> ob \<Longrightarrow> commit_time (registerCommit ob u now s) ob' = commit_time s ob'"
  unfolding commit_time_def hash_registerCommit by simp

lemma shot_of_drop_object [simp]:
  "shot_of (s\<lparr>m_hashCommitsByObject := h\<rparr>) = shot_of s"
  by (simp add: shot_of_def)

lemma shot_of_registerCommit:
  "shot_of (registerCommit ob u now s) =
     (case mark_of s ob u of None \<Rightarrow> shot_of s | Some b \<Rightarrow> (shot_of s)(llObjectShotId b := None))"
  by (auto simp: registerCommit_def mark_of_def cleanupBeginEditMark_def Let_def split: option.splits)

text \<open>The loop over all objects, whose keys are distinct.\<close>

definition entry :: "(qstring \<times> edit_commit_info) list \<Rightarrow> qstring \<Rightarrow> qstring \<Rightarrow> begin_edit_info option" where
  "entry its ob u = (case map_of its ob of None \<Rightarrow> None | Some i \<Rightarrow> map_of (m_hashBeginEditByUser i) u)"

lemma cleanup_objects_keys: "fst ` set (fst (cleanup_objects u its shots)) \<subseteq> fst ` set its"
  by (induction u its shots rule: cleanup_objects.induct) (auto simp: Let_def)

lemma cleanup_objects_Cons:
  "\<exists>shots1. cleanup_objects u ((ob, i) # its) shots =
     (if m_hashBeginEditByUser (drop_user u i) = [] then fst (cleanup_objects u its shots1)
      else (ob, drop_user u i) # fst (cleanup_objects u its shots1), snd (cleanup_objects u its shots1)) \<and>
     shots1 = (case map_of (m_hashBeginEditByUser i) u of
                 None \<Rightarrow> shots | Some b \<Rightarrow> AList.delete (llObjectShotId b) shots)"
  by (simp add: Let_def)

lemma cleanup_objects_distinct:
  "distinct (map fst its) \<Longrightarrow> distinct (map fst (fst (cleanup_objects u its shots)))"
proof (induction its arbitrary: shots)
  case (Cons p its)
  obtain ob i where p: "p = (ob, i)" by (cases p)
  obtain shots1 where c: "cleanup_objects u (p # its) shots =
     (if m_hashBeginEditByUser (drop_user u i) = [] then fst (cleanup_objects u its shots1)
      else (ob, drop_user u i) # fst (cleanup_objects u its shots1), snd (cleanup_objects u its shots1))"
    using cleanup_objects_Cons unfolding p by blast
  have "ob \<notin> fst ` set (fst (cleanup_objects u its shots1))"
    using Cons(2) cleanup_objects_keys [of u its shots1] unfolding p by auto
  with Cons show ?case unfolding c by simp
qed simp

lemma cleanup_objects_map:
  "distinct (map fst its) \<Longrightarrow>
   map_of (fst (cleanup_objects u its shots)) ob =
     Option.bind (map_of its ob) (\<lambda>i. kept_entry (drop_user u i))"
proof (induction u its shots rule: cleanup_objects.induct)
  case (2 u ob' i its shots)
  have "map_of its ob' = None" using 2(2) by (simp add: map_of_eq_None_iff)
  with 2 show ?case by (cases "ob = ob'") (auto simp: Let_def kept_entry_def)
qed simp

lemma cleanup_objects_shots:
  "distinct (map fst its) \<Longrightarrow>
   map_of (snd (cleanup_objects u its shots)) k =
     (if \<exists>ob b. entry its ob u = Some b \<and> llObjectShotId b = k then None else map_of shots k)"
proof (induction its arbitrary: shots)
  case (Cons p its)
  obtain ob' i where p: "p = (ob', i)" by (cases p)
  have "map_of its ob' = None" using Cons(2) by (simp add: map_of_eq_None_iff p)
  then have e: "entry (p # its) ob u = (if ob = ob' then map_of (m_hashBeginEditByUser i) u else entry its ob u)"
    "entry its ob' u = None" for ob
    by (simp_all add: entry_def p)
  let ?shots1 = "case map_of (m_hashBeginEditByUser i) u of
                 None \<Rightarrow> shots | Some b \<Rightarrow> AList.delete (llObjectShotId b) shots"
  have "map_of (snd (cleanup_objects u (p # its) shots)) k =
      (if \<exists>ob b. entry its ob u = Some b \<and> llObjectShotId b = k then None else map_of ?shots1 k)"
    using Cons by (simp add: p Let_def)
  also have "\<dots> = (if \<exists>ob b. entry (p # its) ob u = Some b \<and> llObjectShotId b = k then None else map_of shots k)"
  proof (cases "map_of (m_hashBeginEditByUser i) u")
    case None
    then have "entry (p # its) ob u = entry its ob u" for ob using e by simp
    with None show ?thesis by auto
  next
    case (Some b)
    have "(\<exists>ob b. entry (p # its) ob u = Some b \<and> llObjectShotId b = k) \<longleftrightarrow>
        llObjectShotId b = k \<or> (\<exists>ob b. entry its ob u = Some b \<and> llObjectShotId b = k)"
      unfolding e(1) Some using e(2) by (metis option.distinct(1) option.inject)
    with Some show ?thesis by (auto simp add: AList.delete_conv')
  qed
  finally show ?case .
qed (simp add: entry_def)

lemma hash_cleanupAll:
  "keys_ok s \<Longrightarrow> map_of (m_hashCommitsByObject (cleanupAllBeginEditMarksByAccessToken u s)) ob =
     Option.bind (map_of (m_hashCommitsByObject s) ob) (\<lambda>i. kept_entry (drop_user u i))"
  by (simp add: cleanupAllBeginEditMarksByAccessToken_def keys_ok_def Let_def cleanup_objects_map)

lemma mark_of_cleanupAll:
  assumes "keys_ok s"
  shows "mark_of (cleanupAllBeginEditMarksByAccessToken u s) ob = (mark_of s ob)(u := None)"
proof
  fix v show "mark_of (cleanupAllBeginEditMarksByAccessToken u s) ob v = ((mark_of s ob)(u := None)) v"
    unfolding mark_of_def hash_cleanupAll [OF assms]
    by (cases "map_of (m_hashCommitsByObject s) ob") simp_all
qed

lemma commit_time_cleanupAll:
  assumes "keys_ok s"
  shows "mark_of (cleanupAllBeginEditMarksByAccessToken u s) ob v \<noteq> None \<Longrightarrow>
      commit_time (cleanupAllBeginEditMarksByAccessToken u s) ob = commit_time s ob" (is "?m \<noteq> None \<Longrightarrow> ?a")
    "commit_time (cleanupAllBeginEditMarksByAccessToken u s) ob \<in> {0, commit_time s ob}" (is ?b)
proof -
  have "(?m \<noteq> None \<longrightarrow> ?a) \<and> ?b"
  proof (cases "map_of (m_hashCommitsByObject s) ob")
    case (Some i)
    with kept_entry_time [of "drop_user u i"] show ?thesis
      unfolding mark_of_def commit_time_def hash_cleanupAll [OF assms]
      by (simp only: bind.simps option.case kept_entry_marks drop_user_marks) blast
  qed (simp add: mark_of_def commit_time_def hash_cleanupAll [OF assms])
  then show "?m \<noteq> None \<Longrightarrow> ?a" ?b by blast+
qed

lemma shot_of_cleanupAll:
  assumes "keys_ok s"
  shows "shot_of (cleanupAllBeginEditMarksByAccessToken u s) k =
    (if \<exists>ob b. mark_of s ob u = Some b \<and> llObjectShotId b = k then None else shot_of s k)"
proof -
  have m: "mark_of s ob u = entry (m_hashCommitsByObject s) ob u" for ob
    by (simp add: mark_of_def entry_def)
  have h: "m_hashIdToShot (cleanupAllBeginEditMarksByAccessToken u s) =
      snd (cleanup_objects u (m_hashCommitsByObject s) (m_hashIdToShot s))"
    by (simp add: cleanupAllBeginEditMarksByAccessToken_def Let_def)
  show ?thesis
    unfolding m shot_of_def h by (rule cleanup_objects_shots [OF assms [unfolded keys_ok_def]])
qed

lemma keys_ok_updates [simp]:
  "keys_ok s \<Longrightarrow> keys_ok (store_info ob i s)"
  "keys_ok (removeObjectShot k s) \<longleftrightarrow> keys_ok s"
  "keys_ok (s\<lparr>m_llCounter := n, m_hashIdToShot := sh\<rparr>) \<longleftrightarrow> keys_ok s"
  "keys_ok s \<Longrightarrow> keys_ok (s\<lparr>m_hashCommitsByObject := AList.delete ob (m_hashCommitsByObject s)\<rparr>)"
  by (simp_all add: keys_ok_def store_info_def removeObjectShot_def AList.distinct_update AList.distinct_delete)

lemma keys_ok_cleanupBeginEditMark [simp]: "keys_ok s \<Longrightarrow> keys_ok (cleanupBeginEditMark ob u s)"
  by (simp add: cleanupBeginEditMark_def split: option.splits)

lemma keys_ok_step: "keys_ok s \<Longrightarrow> keys_ok (edit_step (now, op) s)"
proof (cases op)
  case (Begin ob u c)
  then show "keys_ok s \<Longrightarrow> ?thesis"
    by (simp add: registerBeginEdit_def register_mark_def Let_def split: option.splits)
next
  case (Commit ob u)
  then show "keys_ok s \<Longrightarrow> ?thesis" by (simp add: registerCommit_def Let_def split: option.splits)
next
  case (CleanupAll u)
  then show "keys_ok s \<Longrightarrow> ?thesis"
    by (simp add: cleanupAllBeginEditMarksByAccessToken_def keys_ok_def Let_def cleanup_objects_distinct)
qed simp

lemma counter_cleanupBeginEditMark [simp]: "m_llCounter (cleanupBeginEditMark ob u s) = m_llCounter s"
  by (simp add: cleanupBeginEditMark_def split: option.splits)

lemma counter_step:
  "m_llCounter (edit_step (now, op) s) = (case op of Begin ob u c \<Rightarrow> m_llCounter s + 1 | _ \<Rightarrow> m_llCounter s)"
proof (cases op)
  case (Begin ob u c)
  then show ?thesis by (simp add: registerBeginEdit_def register_mark_def Let_def split: option.splits)
next
  case (Commit ob u)
  then show ?thesis by (simp add: registerCommit_def Let_def split: option.splits)
qed (simp_all add: cleanupAllBeginEditMarksByAccessToken_def Let_def)


section \<open>The copies belong to the marks\<close>

definition shots_ok :: "'c multi_edit \<Rightarrow> bool" where
  "shots_ok s \<longleftrightarrow> keys_ok s \<and>
     (\<forall>ob u b. mark_of s ob u = Some b \<longrightarrow>
        shot_of s (llObjectShotId b) \<noteq> None \<and> 1 < llObjectShotId b \<and> llObjectShotId b \<le> m_llCounter s) \<and>
     (\<forall>k. shot_of s k \<noteq> None \<longrightarrow> (\<exists>ob u b. mark_of s ob u = Some b \<and> llObjectShotId b = k)) \<and>
     (\<forall>ob u b ob' u' b'. mark_of s ob u = Some b \<longrightarrow> mark_of s ob' u' = Some b' \<longrightarrow>
        llObjectShotId b = llObjectShotId b' \<longrightarrow> ob = ob' \<and> u = u')"

lemma shots_okD:
  assumes "shots_ok s"
  shows "keys_ok s"
    "mark_of s ob u = Some b \<Longrightarrow> shot_of s (llObjectShotId b) \<noteq> None"
    "mark_of s ob u = Some b \<Longrightarrow> 1 < llObjectShotId b"
    "mark_of s ob u = Some b \<Longrightarrow> llObjectShotId b \<le> m_llCounter s"
    "shot_of s k \<noteq> None \<Longrightarrow> \<exists>ob u b. mark_of s ob u = Some b \<and> llObjectShotId b = k"
    "mark_of s ob u = Some b \<Longrightarrow> mark_of s ob' u' = Some b' \<Longrightarrow>
       llObjectShotId b = llObjectShotId b' \<Longrightarrow> ob = ob' \<and> u = u'"
  using assms unfolding shots_ok_def by blast+

lemma shots_ok_new: "shots_ok new_multi_edit"
  by (simp add: shots_ok_def keys_ok_def new_multi_edit_def mark_of_def shot_of_def)

text \<open>An operation that takes away some of the marks and exactly their copies keeps the invariant.\<close>

lemma shots_ok_removed:
  assumes s: "shots_ok s" and k: "keys_ok s'" "m_llCounter s' = m_llCounter s"
    and m: "\<And>ob u. mark_of s' ob u = (if R ob u then None else mark_of s ob u)"
    and sh: "\<And>k. shot_of s' k =
      (if \<exists>ob u b. R ob u \<and> mark_of s ob u = Some b \<and> llObjectShotId b = k then None else shot_of s k)"
  shows "shots_ok s'"
  unfolding shots_ok_def
proof (intro conjI allI impI)
  fix ob u b assume "mark_of s' ob u = Some b"
  then have b: "\<not> R ob u" "mark_of s ob u = Some b" by (auto simp: m split: if_splits)
  show "1 < llObjectShotId b" "llObjectShotId b \<le> m_llCounter s'"
    using shots_okD(3,4) [OF s b(2)] k(2) by simp_all
  have "\<not> (\<exists>ob' u' b'. R ob' u' \<and> mark_of s ob' u' = Some b' \<and> llObjectShotId b' = llObjectShotId b)"
    using shots_okD(6) [OF s b(2)] b(1) by metis
  with shots_okD(2) [OF s b(2)] show "shot_of s' (llObjectShotId b) \<noteq> None" by (simp only: sh if_False not_False_eq_True)
next
  fix k assume k: "shot_of s' k \<noteq> None"
  then have n: "\<not> (\<exists>ob u b. R ob u \<and> mark_of s ob u = Some b \<and> llObjectShotId b = k)" "shot_of s k \<noteq> None"
    by (simp_all only: sh split: if_splits) auto
  with shots_okD(5) [OF s n(2)] show "\<exists>ob u b. mark_of s' ob u = Some b \<and> llObjectShotId b = k"
    unfolding m by metis
next
  fix ob u b ob' u' b'
  assume "mark_of s' ob u = Some b" "mark_of s' ob' u' = Some b'" "llObjectShotId b = llObjectShotId b'"
  then have "mark_of s ob u = Some b" "mark_of s ob' u' = Some b'" "llObjectShotId b = llObjectShotId b'"
    by (auto simp: m split: if_splits)
  then show "ob = ob'" "u = u'" using shots_okD(6) [OF s] by blast+
qed (use k(1) in simp)

lemma unat_max: "unat (- 1 :: 64 word) = 2 ^ 64 - 1"
  by (simp add: unsigned_minus_1_eq_mask mask_eq_exp_minus_1)

lemma unat_add_1:
  assumes "(n :: 64 word) \<noteq> - 1" shows "unat (n + 1) = unat n + 1"
proof -
  have "1 + n \<noteq> 0" using assms by (metis add.commute add_eq_0_iff)
  from unatSuc [OF this] show ?thesis by (simp add: add.commute)
qed

lemma word_Suc_greater:
  assumes "(n :: 64 word) < - 1" shows "n < n + 1"
proof -
  have "n \<noteq> - 1" using assms by (metis less_irrefl)
  from unat_add_1 [OF this] show ?thesis by (simp add: word_less_nat_alt)
qed

lemma shots_ok_added:
  assumes s: "shots_ok s" and new: "mark_of s ob u = None" and n: "m_llCounter s < - 1" "1 \<le> m_llCounter s"
    and k: "keys_ok s'" "m_llCounter s' = m_llCounter s + 1"
    and b: "llObjectShotId b = m_llCounter s + 1"
    and m: "mark_of s' = (mark_of s)(ob := (mark_of s ob)(u \<mapsto> b))"
    and sh: "shot_of s' = (shot_of s)(m_llCounter s + 1 \<mapsto> c)"
  shows "shots_ok s'"
proof -
  have gt: "m_llCounter s < m_llCounter s + 1" using n(1) by (rule word_Suc_greater)
  have old: "llObjectShotId b' < m_llCounter s + 1" if "mark_of s ob' u' = Some b'" for ob' u' b'
    using shots_okD(4) [OF s that] gt by (rule le_less_trans)
  have m': "mark_of s' ob' u' = (if ob' = ob \<and> u' = u then Some b else mark_of s ob' u')" for ob' u'
    by (simp add: m)
  show ?thesis unfolding shots_ok_def
  proof (intro conjI allI impI)
    fix ob' u' b' assume a: "mark_of s' ob' u' = Some b'"
    show "shot_of s' (llObjectShotId b') \<noteq> None"
      using a b shots_okD(2) [OF s, of ob' u' b'] by (auto simp: m' sh split: if_splits)
    show "1 < llObjectShotId b'"
      using a b shots_okD(3) [OF s, of ob' u' b'] le_less_trans [OF n(2) gt] by (auto simp: m' split: if_splits)
    show "llObjectShotId b' \<le> m_llCounter s'"
      using a b old [of ob' u' b'] by (auto simp: m' k(2) split: if_splits)
  next
    fix k assume "shot_of s' k \<noteq> None"
    then consider "k = m_llCounter s + 1" | "shot_of s k \<noteq> None" by (auto simp: sh split: if_splits)
    then show "\<exists>ob u b. mark_of s' ob u = Some b \<and> llObjectShotId b = k"
    proof cases
      case 2
      from shots_okD(5) [OF s this] obtain o2 u2 b2 where "mark_of s o2 u2 = Some b2" "llObjectShotId b2 = k" by blast
      with new show ?thesis unfolding m' by (metis option.distinct(1))
    qed (use m' b in auto)
  next
    fix o1 u1 b1 o2 u2 b2
    assume a: "mark_of s' o1 u1 = Some b1" "mark_of s' o2 u2 = Some b2" "llObjectShotId b1 = llObjectShotId b2"
    have "o1 = o2 \<and> u1 = u2"
      using a b old [of o1 u1 b1] old [of o2 u2 b2] shots_okD(6) [OF s, of o1 u1 b1 o2 u2 b2]
      by (auto simp: m' split: if_splits)
    then show "o1 = o2" "u1 = u2" by blast+
  qed (use k in simp)
qed

lemma counter_frame [simp]:
  "mark_of (s\<lparr>m_llCounter := n, m_hashIdToShot := sh\<rparr>) = mark_of s"
  "commit_time (s\<lparr>m_llCounter := n, m_hashIdToShot := sh\<rparr>) = commit_time s"
  by (simp_all add: mark_of_def commit_time_def fun_eq_iff)

lemma mark_of_registerBeginEdit:
  "mark_of (registerBeginEdit ob u c now s) =
     (mark_of s)(ob := (mark_of s ob)(u \<mapsto> \<lparr>tsBeginEditTimeStamp = now, llObjectShotId = m_llCounter s + 1\<rparr>))"
  by (simp add: registerBeginEdit_def Let_def mark_of_register_mark)

lemma commit_time_registerBeginEdit [simp]: "commit_time (registerBeginEdit ob u c now s) = commit_time s"
  by (simp add: registerBeginEdit_def Let_def)

lemma shot_of_registerBeginEdit:
  "shot_of (registerBeginEdit ob u c now s) =
     (case mark_of s ob u of
        None \<Rightarrow> (shot_of s)(m_llCounter s + 1 \<mapsto> c)
      | Some b \<Rightarrow> ((shot_of s)(m_llCounter s + 1 \<mapsto> c))(llObjectShotId b := None))"
proof -
  let ?s = "s\<lparr>m_llCounter := m_llCounter s + 1,
    m_hashIdToShot := AList.update (m_llCounter s + 1) c (m_hashIdToShot s)\<rparr>"
  have "shot_of ?s = (shot_of s)(m_llCounter s + 1 \<mapsto> c)"
    by (simp add: shot_of_def AList.update_conv')
  then show ?thesis by (simp add: registerBeginEdit_def Let_def shot_of_register_mark split: option.splits)
qed

lemma shots_ok_cleanup: "shots_ok s \<Longrightarrow> shots_ok (cleanupBeginEditMark ob u s)"
  by (rule shots_ok_removed [where R = "\<lambda>o' u'. o' = ob \<and> u' = u"])
    (auto simp: shots_okD(1) mark_of_cleanupBeginEditMark shot_of_cleanupBeginEditMark split: option.splits)

lemma shots_ok_step:
  assumes s: "shots_ok s" and n: "m_llCounter s < - 1" "1 \<le> m_llCounter s"
  shows "shots_ok (edit_step (now, op) s)"
proof (cases op)
  case (Begin ob u c)
  let ?s0 = "cleanupBeginEditMark ob u s" and ?s' = "registerBeginEdit ob u c now s"
  have sh: "shot_of ?s' = (shot_of ?s0)(m_llCounter s + 1 \<mapsto> c)"
  proof (cases "mark_of s ob u")
    case (Some b)
    have "llObjectShotId b \<noteq> m_llCounter s + 1"
      using le_less_trans [OF shots_okD(4) [OF s Some] word_Suc_greater [OF n(1)]] by simp
    with Some show ?thesis
      by (simp add: shot_of_registerBeginEdit shot_of_cleanupBeginEditMark fun_upd_twist)
  qed (simp add: shot_of_registerBeginEdit shot_of_cleanupBeginEditMark)
  have "shots_ok ?s'"
    by (rule shots_ok_added [OF shots_ok_cleanup [OF s], where ob = ob and u = u
          and b = "\<lparr>tsBeginEditTimeStamp = now, llObjectShotId = m_llCounter s + 1\<rparr>" and c = c])
      (use n sh keys_ok_step [OF shots_okD(1) [OF s], of now "Begin ob u c"]
        counter_step [of now "Begin ob u c" s] in
        \<open>simp_all add: mark_of_cleanupBeginEditMark mark_of_registerBeginEdit\<close>)
  then show ?thesis by (simp add: Begin)
next
  case (Commit ob u)
  have "shots_ok (registerCommit ob u now s)"
    by (rule shots_ok_removed [OF s, where R = "\<lambda>o' u'. o' = ob \<and> u' = u"])
      (use keys_ok_step [OF shots_okD(1) [OF s], of now op] counter_step [of now op s] Commit in
        \<open>auto simp: mark_of_registerCommit shot_of_registerCommit split: option.splits\<close>)
  then show ?thesis by (simp add: Commit)
next
  case (Cleanup ob u)
  with shots_ok_cleanup [OF s] show ?thesis by simp
next
  case (CleanupAll u)
  note k = shots_okD(1) [OF s]
  have "shots_ok (cleanupAllBeginEditMarksByAccessToken u s)"
    by (rule shots_ok_removed [OF s, where R = "\<lambda>o' u'. u' = u"])
      (use keys_ok_step [OF k, of now op] counter_step [of now op s] CleanupAll in
        \<open>simp_all add: mark_of_cleanupAll [OF k] shot_of_cleanupAll [OF k]\<close>)
  then show ?thesis by (simp add: CleanupAll)
qed


section \<open>Runs from an empty dispatcher\<close>

lemma edit_run_simps [simp]:
  "edit_run [] s = s" "edit_run (ops @ ops') s = edit_run ops' (edit_run ops s)"
  "edit_run (op # ops) s = edit_run ops (edit_step op s)"
  by (simp_all add: edit_run_def)

lemma keys_ok_run: "keys_ok s \<Longrightarrow> keys_ok (edit_run ops s)"
  by (induction ops arbitrary: s) (auto simp: keys_ok_step)

lemma keys_ok_new [simp]: "keys_ok new_multi_edit"
  by (simp add: keys_ok_def new_multi_edit_def)

lemma shots_ok_run:
  "length ops < 2 ^ 64 - 2 \<Longrightarrow>
   shots_ok (edit_run ops new_multi_edit) \<and> 1 \<le> m_llCounter (edit_run ops new_multi_edit) \<and>
     unat (m_llCounter (edit_run ops new_multi_edit)) \<le> 1 + length ops"
proof (induction ops rule: rev_induct)
  case Nil
  then show ?case using shots_ok_new by (simp add: new_multi_edit_def)
next
  case (snoc op ops)
  let ?s = "edit_run ops new_multi_edit"
  obtain now o' where op: "op = (now, o')" by (cases op)
  from snoc have s: "shots_ok ?s" "1 \<le> m_llCounter ?s" "unat (m_llCounter ?s) \<le> 1 + length ops" by simp_all
  have n: "m_llCounter ?s < - 1"
    using s(3) snoc(2) unfolding word_less_nat_alt unat_max by simp
  then have "m_llCounter ?s \<noteq> - 1" by (metis less_irrefl)
  then have u: "unat (m_llCounter ?s + 1) = unat (m_llCounter ?s) + 1" by (rule unat_add_1)
  have "1 \<le> m_llCounter ?s + 1" using s(2) word_Suc_greater [OF n] by simp
  then show ?case
    using shots_ok_step [OF s(1) n s(2), of now o'] s u counter_step [of now o' ?s]
    by (simp add: op split: edit_op.splits)
qed

text \<open>Times: no mark is later than the last operation.\<close>

definition marks_until :: "64 word \<Rightarrow> 'c multi_edit \<Rightarrow> bool" where
  "marks_until t s \<longleftrightarrow> (\<forall>ob u b. mark_of s ob u = Some b \<longrightarrow> tsBeginEditTimeStamp b \<le> t)"

lemma mark_of_step:
  assumes "keys_ok s"
  shows "mark_of (edit_step (now, op) s) ob u = Some b \<Longrightarrow>
    mark_of s ob u = Some b \<or> (\<exists>c. op = Begin ob u c \<and> tsBeginEditTimeStamp b = now)"
  by (cases op) (auto simp: mark_of_registerBeginEdit mark_of_registerCommit mark_of_cleanupBeginEditMark
      mark_of_cleanupAll [OF assms] split: if_splits)

lemma marks_until_step:
  assumes "keys_ok s" "marks_until t s" "t \<le> now" shows "marks_until now (edit_step (now, op) s)"
  unfolding marks_until_def
proof (intro allI impI)
  fix ob u b assume "mark_of (edit_step (now, op) s) ob u = Some b"
  from mark_of_step [OF assms(1) this] assms(2,3) show "tsBeginEditTimeStamp b \<le> now"
    unfolding marks_until_def by (auto intro: order_trans)
qed

lemma marks_until_run:
  "keys_ok s \<Longrightarrow> marks_until t s \<Longrightarrow> sorted (t # map fst ops) \<Longrightarrow>
   marks_until (last (t # map fst ops)) (edit_run ops s)"
proof (induction ops arbitrary: s t)
  case (Cons op ops)
  obtain now o' where op: "op = (now, o')" by (cases op)
  have "marks_until now (edit_step op s)" unfolding op
    by (rule marks_until_step) (use Cons.prems op in auto)
  with Cons.IH [of "edit_step op s" now] Cons.prems(3) keys_ok_step [OF Cons.prems(1), of now o']
  show ?case by (simp add: op)
qed simp

definition overtaken :: "qstring \<Rightarrow> qstring \<Rightarrow> 'c multi_edit \<Rightarrow> bool" where
  "overtaken ob u s \<longleftrightarrow> (\<forall>b. mark_of s ob u = Some b \<longrightarrow> tsBeginEditTimeStamp b \<le> commit_time s ob)"

lemma configWasChanged_overtaken: "fst (configWasChanged ob u s) \<longleftrightarrow> overtaken ob u s"
  by (auto simp: configWasChanged_def overtaken_def mark_of_def commit_time_def split: option.splits)

lemma no_error_with_mark: "mark_of s ob u = Some b \<Longrightarrow> configWasChanged ob u s = (c, e) \<Longrightarrow> e = PRL_ERR_SUCCESS"
  by (auto simp: configWasChanged_def mark_of_def split: option.splits)

lemma overtaken_commit:
  assumes "marks_until t s" "t \<le> now" shows "overtaken ob u (registerCommit ob v now s)"
  unfolding overtaken_def
proof (intro allI impI)
  fix b assume b: "mark_of (registerCommit ob v now s) ob u = Some b"
  then have "mark_of s ob u = Some b" by (auto simp: mark_of_registerCommit split: if_splits)
  with assms have "tsBeginEditTimeStamp b \<le> now" unfolding marks_until_def by (meson order_trans)
  with b show "tsBeginEditTimeStamp b \<le> commit_time (registerCommit ob v now s) ob"
    by (subst commit_time_registerCommit) auto
qed

lemma overtaken_step:
  assumes k: "keys_ok s" and "marks_until t s" "t \<le> now" and o: "overtaken ob u s"
    and nb: "\<forall>c. op \<noteq> Begin ob u c"
  shows "overtaken ob u (edit_step (now, op) s)"
proof (cases "\<exists>v. op = Commit ob v")
  case True
  with overtaken_commit [OF assms(2,3)] show ?thesis by auto
next
  case False
  show ?thesis unfolding overtaken_def
  proof (intro allI impI)
    fix b assume b: "mark_of (edit_step (now, op) s) ob u = Some b"
    with mark_of_step [OF k b] nb have "mark_of s ob u = Some b" by blast
    with o have "tsBeginEditTimeStamp b \<le> commit_time s ob" by (auto simp: overtaken_def)
    moreover have "commit_time (edit_step (now, op) s) ob = commit_time s ob"
      using False b commit_time_cleanupAll(1) [OF k] by (cases op) auto
    ultimately show "tsBeginEditTimeStamp b \<le> commit_time (edit_step (now, op) s) ob" by simp
  qed
qed

lemma overtaken_run:
  "keys_ok s \<Longrightarrow> marks_until t s \<Longrightarrow> sorted (t # map fst ops) \<Longrightarrow> overtaken ob u s \<Longrightarrow>
   \<forall>c. Begin ob u c \<notin> snd ` set ops \<Longrightarrow> overtaken ob u (edit_run ops s)"
proof (induction ops arbitrary: s t)
  case (Cons op ops)
  obtain now o' where op: "op = (now, o')" by (cases op)
  have nb: "\<forall>c. o' \<noteq> Begin ob u c" using Cons.prems(5) op by auto
  have "overtaken ob u (edit_step op s)" unfolding op
    by (rule overtaken_step [OF Cons.prems(1,2) _ Cons.prems(4) nb]) (use Cons.prems(3) op in simp)
  moreover have "marks_until now (edit_step op s)" unfolding op
    by (rule marks_until_step [OF Cons.prems(1,2)]) (use Cons.prems(3) op in simp)
  ultimately show ?case
    using Cons.IH [of "edit_step op s" now] Cons.prems(3,5) keys_ok_step [OF Cons.prems(1), of now o']
    by (auto simp: op)
qed simp

text \<open>The configuration that a session's mark keeps is the one that its last edit began with.\<close>

definition last_begun :: "qstring \<Rightarrow> qstring \<Rightarrow> (64 word \<times> 'c edit_op) list \<Rightarrow> (64 word \<times> 'c) option" where
  "last_begun ob u ops =
     fold (\<lambda>(t, op) r. case op of Begin ob' u' c \<Rightarrow> if ob' = ob \<and> u' = u then Some (t, c) else r | _ \<Rightarrow> r)
       ops None"

lemma last_begun_simps:
  "last_begun ob u [] = None"
  "last_begun ob u (ops @ [(t, op)]) =
     (case op of Begin ob' u' c \<Rightarrow> if ob' = ob \<and> u' = u then Some (t, c) else last_begun ob u ops
      | _ \<Rightarrow> last_begun ob u ops)"
  by (simp_all add: last_begun_def split: edit_op.splits)

lemma shot_kept:
  assumes s: "shots_ok s" and n: "m_llCounter s < - 1" and b: "mark_of s ob u = Some b"
    and a: "mark_of (edit_step (now, op) s) ob u = Some b" and nb: "\<forall>c. op \<noteq> Begin ob u c"
  shows "shot_of (edit_step (now, op) s) (llObjectShotId b) = shot_of s (llObjectShotId b)"
proof -
  have other: "llObjectShotId b' \<noteq> llObjectShotId b" if "mark_of s ob' u' = Some b'" "(ob', u') \<noteq> (ob, u)" for ob' u' b'
    using shots_okD(6) [OF s that(1) b] that(2) by auto
  show ?thesis
  proof (cases op)
    case (Begin ob' u' c)
    have "llObjectShotId b \<noteq> m_llCounter s + 1"
      using le_less_trans [OF shots_okD(4) [OF s b] word_Suc_greater [OF n]] by simp
    with Begin nb other [of ob' u'] show ?thesis by (auto simp: shot_of_registerBeginEdit split: option.splits)
  next
    case (Commit ob' u')
    with a other [of ob' u'] show ?thesis
      by (auto simp: shot_of_registerCommit mark_of_registerCommit split: option.splits if_splits)
  next
    case (Cleanup ob' u')
    with a other [of ob' u'] show ?thesis
      by (auto simp: shot_of_cleanupBeginEditMark mark_of_cleanupBeginEditMark split: option.splits if_splits)
  next
    case (CleanupAll u')
    note k = shots_okD(1) [OF s]
    have "\<not> (\<exists>ob b'. mark_of s ob u' = Some b' \<and> llObjectShotId b' = llObjectShotId b)"
      using a CleanupAll other by (auto simp: mark_of_cleanupAll [OF k] split: if_splits)
    then show ?thesis by (auto simp: CleanupAll shot_of_cleanupAll [OF k])
  qed
qed

lemma counter_below_max:
  assumes "length ops < 2 ^ 64 - 2" shows "m_llCounter (edit_run ops new_multi_edit) < - 1"
  using shots_ok_run [OF assms] assms unfolding word_less_nat_alt unat_max by simp

lemma base_is_last_begun:
  "length ops < 2 ^ 64 - 2 \<Longrightarrow> mark_of (edit_run ops new_multi_edit) ob u = Some b \<Longrightarrow>
   \<exists>c. last_begun ob u ops = Some (tsBeginEditTimeStamp b, c) \<and>
     shot_of (edit_run ops new_multi_edit) (llObjectShotId b) = Some c"
proof (induction ops arbitrary: b rule: rev_induct)
  case Nil
  then show ?case by (simp add: mark_of_def new_multi_edit_def)
next
  case (snoc op ops)
  let ?s = "edit_run ops new_multi_edit"
  obtain now o' where op: "op = (now, o')" by (cases op)
  from snoc.prems(1) have l: "length ops < 2 ^ 64 - 2" by simp
  note s = shots_ok_run [OF l, THEN conjunct1] and n = counter_below_max [OF l]
  have b: "mark_of (edit_step (now, o') ?s) ob u = Some b" using snoc.prems(2) by (simp add: op)
  show ?case
  proof (cases "\<exists>c. o' = Begin ob u c")
    case True
    then obtain c where o': "o' = Begin ob u c" by blast
    have id: "llObjectShotId b' \<noteq> m_llCounter ?s + 1" if "mark_of ?s ob u = Some b'" for b'
      using le_less_trans [OF shots_okD(4) [OF s that] word_Suc_greater [OF n]] by simp
    from b have b': "b = \<lparr>tsBeginEditTimeStamp = now, llObjectShotId = m_llCounter ?s + 1\<rparr>"
      by (simp add: o' mark_of_registerBeginEdit)
    have "shot_of (registerBeginEdit ob u c now ?s) (m_llCounter ?s + 1) = Some c"
      using id by (auto simp: shot_of_registerBeginEdit split: option.splits)
    then show ?thesis by (simp add: op o' b' last_begun_simps)
  next
    case False
    with mark_of_step [OF shots_okD(1) [OF s] b] have m: "mark_of ?s ob u = Some b" by blast
    have "last_begun ob u (ops @ [op]) = last_begun ob u ops"
      using False by (auto simp: op last_begun_simps split: edit_op.splits)
    moreover have "shot_of (edit_step (now, o') ?s) (llObjectShotId b) = shot_of ?s (llObjectShotId b)"
      using shot_kept [OF s n m b] False by blast
    ultimately show ?thesis using snoc.IH [OF l m] by (simp add: op)
  qed
qed

lemma tryToMerge_base:
  assumes l: "length ops < 2 ^ 64 - 2" and b: "mark_of (edit_run ops new_multi_edit) ob u = Some b"
  shows "\<exists>c. last_begun ob u ops = Some (tsBeginEditTimeStamp b, c) \<and>
    tryToMerge merge ob u pNew pCurr (edit_run ops new_multi_edit) = merge c pNew pCurr"
proof -
  let ?s = "edit_run ops new_multi_edit"
  obtain c where c: "last_begun ob u ops = Some (tsBeginEditTimeStamp b, c)" "shot_of ?s (llObjectShotId b) = Some c"
    using base_is_last_begun [OF l b] by blast
  have "getShotId ob u ?s = llObjectShotId b"
    using b by (auto simp: getShotId_def mark_of_def split: option.splits)
  moreover have "llObjectShotId b \<noteq> 0" using shots_okD(3) [OF shots_ok_run [OF l, THEN conjunct1] b] by auto
  ultimately show ?thesis using c by (simp add: tryToMerge_def shot_of_def [symmetric] Let_def)
qed


section \<open>The bracket of an edit\<close>

text \<open>
  What the callers rely on: an edit is a bracket of \<open>begin_edit\<close> and \<open>commit_edit\<close> or
  \<open>discard\<close>, which have to name the same object and session.
\<close>

locale edit_marks =
  fixes begin_edit :: "'o \<Rightarrow> 'u \<Rightarrow> 'c \<Rightarrow> 't \<Rightarrow> 's \<Rightarrow> 's"
    and commit_edit :: "'o \<Rightarrow> 'u \<Rightarrow> 't \<Rightarrow> 's \<Rightarrow> 's"
    and discard :: "'o \<Rightarrow> 'u \<Rightarrow> 's \<Rightarrow> 's"
    and marked :: "'s \<Rightarrow> 'o \<Rightarrow> 'u \<Rightarrow> bool"
  assumes marked_begin: "marked (begin_edit ob u c t s) ob' u' \<longleftrightarrow> ob' = ob \<and> u' = u \<or> marked s ob' u'"
    and marked_commit: "marked (commit_edit ob u t s) ob' u' \<longleftrightarrow> \<not> (ob' = ob \<and> u' = u) \<and> marked s ob' u'"
    and marked_discard: "marked (discard ob u s) ob' u' \<longleftrightarrow> \<not> (ob' = ob \<and> u' = u) \<and> marked s ob' u'"
begin

lemma bracket_commit:
  "\<not> marked s ob u \<Longrightarrow> marked (commit_edit ob u t1 (begin_edit ob u c t0 s)) ob' u' \<longleftrightarrow> marked s ob' u'"
  by (auto simp: marked_begin marked_commit)

lemma bracket_open:
  "ob1 \<noteq> ob \<Longrightarrow> marked (discard ob1 u (begin_edit ob u c t s)) ob u"
  by (simp add: marked_begin marked_discard)

end

interpretation marks: edit_marks registerBeginEdit registerCommit cleanupBeginEditMark
    "\<lambda>s ob u. mark_of s ob u \<noteq> None"
  by unfold_locales
    (auto simp: mark_of_registerBeginEdit mark_of_registerCommit mark_of_cleanupBeginEditMark)

text \<open>
  \<^verbatim>\<open>Edit::Unlocked\<close> closes the bracket on success only: on failure it discards a mark of the
  directory instead of the VM, and when the file is not saved it discards none.
\<close>

lemma edit_unlocked_success:
  assumes "config = Inr x" "action x = Inr x'" "save x' = PRL_ERR_SUCCESS"
    "mark_of s m_uuid (d @ ''-'' @ m_uuid) = None"
  shows "fst (edit_unlocked config action save (Some d) m_uuid t0 t1 s) = PRL_ERR_SUCCESS"
    "mark_of (snd (edit_unlocked config action save (Some d) m_uuid t0 t1 s)) ob u \<noteq> None \<longleftrightarrow> mark_of s ob u \<noteq> None"
  using assms marks.bracket_commit [of s m_uuid "d @ ''-'' @ m_uuid"]
  by (simp_all add: edit_unlocked_def Let_def)

lemma failed_edit_keeps_its_mark:
  assumes "config = Inr x" "d \<noteq> m_uuid" "case action x of Inl e \<Rightarrow> True | Inr x' \<Rightarrow> prl_failed (save x')"
  shows "mark_of (snd (edit_unlocked config action save (Some d) m_uuid t0 t1 s)) m_uuid (d @ ''-'' @ m_uuid) \<noteq> None"
  using assms marks.bracket_open [of d m_uuid]
  by (auto simp: edit_unlocked_def Let_def mark_of_registerBeginEdit split: sum.splits)


section \<open>Properties\<close>

text \<open>C36. A session is told that a configuration was changed if anyone has committed it since the
  session last began to edit it; and its commit then fails, or goes on with the merge of its
  configuration into the current one over exactly the configuration that this edit began with.\<close>

theorem overtaken_edits_are_merged:
  assumes "length ops < 2 ^ 64 - 2" "sorted (map fst ops)"
    "ops = pre @ (t, Commit ob v) # post" "\<forall>c. Begin ob u c \<notin> snd ` set post"
  shows "fst (configWasChanged ob u (edit_run ops new_multi_edit)) \<and>
    (case check_edit_commit merge prepare ob u pNew pOld (edit_run ops new_multi_edit) of
       Inl e \<Rightarrow> prl_failed e
     | Inr x \<Rightarrow> (\<exists>t c. last_begun ob u ops = Some (t, c) \<and> merge c pNew (prepare pOld) = (True, x)))"
proof -
  let ?s = "edit_run ops new_multi_edit" and ?before = "edit_run pre new_multi_edit"
  note k = keys_ok_run [OF keys_ok_new, of pre]
  have "marks_until 0 new_multi_edit" by (simp add: marks_until_def mark_of_def new_multi_edit_def)
  moreover have "sorted (0 # map fst pre)" using assms(2,3) by (simp add: sorted_append)
  ultimately have m: "marks_until (last (0 # map fst pre)) ?before" by (rule marks_until_run [OF keys_ok_new])
  have le: "last (0 # map fst pre) \<le> t" using assms(2,3) by (auto simp: sorted_append last_map)
  have "overtaken ob u (edit_step (t, Commit ob v) ?before)" using overtaken_commit [OF m le] by simp
  moreover have "marks_until t (edit_step (t, Commit ob v) ?before)" by (rule marks_until_step [OF k m le])
  moreover have "sorted (t # map fst post)" using assms(2,3) by (simp add: sorted_append)
  ultimately have "overtaken ob u (edit_run post (edit_step (t, Commit ob v) ?before))"
    using assms(4) by (intro overtaken_run [OF keys_ok_step [OF k]])
  then have changed: "fst (configWasChanged ob u ?s)" by (simp add: configWasChanged_overtaken assms(3))
  then show ?thesis
  proof (cases "mark_of ?s ob u")
    case None
    then have "\<exists>e. configWasChanged ob u ?s = (True, e) \<and> prl_failed e"
      by (auto simp: configWasChanged_def mark_of_def prl_failed_def split: option.splits)
    with changed show ?thesis by (auto simp: check_edit_commit_def)
  next
    case (Some b)
    then have "configWasChanged ob u ?s = (True, PRL_ERR_SUCCESS)"
      using changed by (auto simp: configWasChanged_def mark_of_def split: option.splits)
    moreover obtain c where "last_begun ob u ops = Some (tsBeginEditTimeStamp b, c)"
      "tryToMerge merge ob u pNew (prepare pOld) ?s = merge c pNew (prepare pOld)"
      using tryToMerge_base [OF assms(1) Some] by blast
    ultimately show ?thesis using changed
      by (auto simp: check_edit_commit_def prl_failed_def split: prod.splits bool.splits)
  qed
qed

theorem overtaken_edits_are_merged_witness:
  "check_edit_commit (\<lambda>c n m. (True, n + m - c)) (\<lambda>m. m) ''vm'' ''a'' 7 9
     (edit_run [(5, Begin ''vm'' ''a'' (4 :: nat)), (6, Begin ''vm'' ''b'' 4), (7, Commit ''vm'' ''b'')]
       new_multi_edit) = Inr 12"
proof -
  let ?pre = "[(5, Begin ''vm'' ''a'' (4 :: nat)), (6, Begin ''vm'' ''b'' 4)]"
  let ?ops = "?pre @ (7, Commit ''vm'' ''b'') # []"
  have "case check_edit_commit (\<lambda>c n m. (True, n + m - c)) (\<lambda>m. m) ''vm'' ''a'' 7 9 (edit_run ?ops new_multi_edit) of
       Inl e \<Rightarrow> prl_failed e
     | Inr x \<Rightarrow> (\<exists>t c. last_begun ''vm'' ''a'' ?ops = Some (t, c) \<and> (\<lambda>c n m. (True, n + m - c)) c 7 9 = (True, x))"
    by (rule overtaken_edits_are_merged [OF _ _ refl, THEN conjunct2]) simp_all
  moreover have "last_begun ''vm'' ''a'' ?ops = Some (5, 4)" by (simp add: last_begun_def)
  moreover have "mark_of (edit_run ?ops new_multi_edit) ''vm'' ''a'' \<noteq> None"
    "fst (tryToMerge (\<lambda>c n m. (True, n + m - c)) ''vm'' ''a'' 7 (9 :: nat) (edit_run ?ops new_multi_edit))"
    by code_simp+
  then have "isl (check_edit_commit (\<lambda>c n m. (True, n + m - c)) (\<lambda>m. m) ''vm'' ''a'' 7 (9 :: nat)
      (edit_run ?ops new_multi_edit)) = False"
    by (auto simp: check_edit_commit_def dest: no_error_with_mark split: prod.splits bool.splits)
  ultimately show ?thesis by (auto split: sum.splits)
qed

text \<open>The operations that touch a session's edit of an object.\<close>

fun disturbs :: "qstring \<Rightarrow> qstring \<Rightarrow> 'c edit_op \<Rightarrow> bool" where
  "disturbs ob u (Begin ob' u' c) \<longleftrightarrow> ob' = ob \<and> u' = u"
| "disturbs ob u (Commit ob' v) \<longleftrightarrow> ob' = ob"
| "disturbs ob u (Cleanup ob' u') \<longleftrightarrow> ob' = ob \<and> u' = u"
| "disturbs ob u (CleanupAll u') \<longleftrightarrow> u' = u"

lemma undisturbed_step:
  assumes k: "keys_ok s" and m: "mark_of s ob u = Some b" and d: "\<not> disturbs ob u op"
  shows "mark_of (edit_step (now, op) s) ob u = Some b \<and>
    commit_time (edit_step (now, op) s) ob = commit_time s ob"
proof -
  have b: "mark_of (edit_step (now, op) s) ob u = Some b"
    using m d by (cases op) (auto simp: mark_of_registerBeginEdit mark_of_registerCommit
        mark_of_cleanupBeginEditMark mark_of_cleanupAll [OF k])
  moreover have "commit_time (edit_step (now, op) s) ob = commit_time s ob"
    using d b commit_time_cleanupAll(1) [OF k, of _ ob u] by (cases op) auto
  ultimately show ?thesis by blast
qed

lemma undisturbed_run:
  "keys_ok s \<Longrightarrow> mark_of s ob u = Some b \<Longrightarrow> \<forall>op \<in> snd ` set ops. \<not> disturbs ob u op \<Longrightarrow>
   mark_of (edit_run ops s) ob u = Some b \<and> commit_time (edit_run ops s) ob = commit_time s ob"
proof (induction ops arbitrary: s)
  case (Cons op ops)
  obtain now o' where op: "op = (now, o')" by (cases op)
  have "mark_of (edit_step op s) ob u = Some b \<and> commit_time (edit_step op s) ob = commit_time s ob"
    unfolding op by (rule undisturbed_step) (use Cons.prems op in auto)
  with Cons.IH [of "edit_step op s"] Cons.prems keys_ok_step [of s now o'] show ?case by (simp add: op)
qed simp

lemma commit_time_run_in:
  "keys_ok s \<Longrightarrow> commit_time (edit_run ops s) ob \<in>
     {0, commit_time s ob} \<union> {t. \<exists>v. (t, Commit ob v) \<in> set ops}"
proof (induction ops arbitrary: s)
  case (Cons op ops)
  obtain now o' where op: "op = (now, o')" by (cases op)
  have "commit_time (edit_step op s) ob \<in> {0, commit_time s ob} \<union> {t. \<exists>v. op = (t, Commit ob v)}"
  proof (cases o')
    case (Commit ob' v)
    with commit_time_registerCommit_in [of ob v now s] show ?thesis by (cases "ob' = ob") (auto simp: op)
  next
    case (CleanupAll v)
    with commit_time_cleanupAll(2) [OF Cons.prems, of v ob] show ?thesis by (auto simp: op)
  qed (auto simp: op)
  with Cons.IH [of "edit_step op s"] keys_ok_step [OF Cons.prems, of now o'] show ?case by (auto simp: op)
qed simp

text \<open>An edit that nobody overtook is saved as it is: if the session's last operation on the object
  is its begin, later than the commits before it, and there was no commit of the object since, then
  its commit is neither refused nor merged.\<close>

theorem undisturbed_edits_pass:
  fixes c :: 'c
  assumes "ops = pre @ (t, Begin ob u c) # post" "0 < t"
    "\<forall>t' v. (t', Commit ob v) \<in> set pre \<longrightarrow> t' < t" "\<forall>op \<in> snd ` set post. \<not> disturbs ob u op"
  shows "configWasChanged ob u (edit_run ops new_multi_edit) = (False, PRL_ERR_SUCCESS) \<and>
    check_edit_commit merge prepare ob u pNew pOld (edit_run ops new_multi_edit) = Inr pNew"
proof -
  let ?before = "edit_run pre new_multi_edit" and ?s = "edit_run ops new_multi_edit"
  let ?begun = "edit_step (t, Begin ob u c) ?before"
  note k = keys_ok_run [OF keys_ok_new, of pre]
  obtain b where b: "mark_of ?begun ob u = Some b" "tsBeginEditTimeStamp b = t"
    by (simp add: mark_of_registerBeginEdit)
  have "commit_time (new_multi_edit :: 'c multi_edit) ob = 0" by (simp add: commit_time_def new_multi_edit_def)
  then have "commit_time ?before ob < t"
    using commit_time_run_in [OF keys_ok_new, of pre ob] assms(2,3) by auto
  with undisturbed_run [OF keys_ok_step [OF k] b(1) assms(4)] b(2)
  have "mark_of ?s ob u = Some b" "commit_time ?s ob < tsBeginEditTimeStamp b" by (simp_all add: assms(1))
  then have "configWasChanged ob u ?s = (False, PRL_ERR_SUCCESS)"
    by (auto simp: configWasChanged_def mark_of_def commit_time_def dest: leD split: option.splits)
  then show ?thesis by (simp add: check_edit_commit_def)
qed

theorem undisturbed_edits_pass_witness:
  "check_edit_commit (\<lambda>c n m. (False, n)) (\<lambda>m. m) ''vm'' ''a'' 7 (9 :: nat)
     (edit_run ([(3, Begin ''vm'' ''b'' 4), (4, Commit ''vm'' ''b'')] @ (5, Begin ''vm'' ''a'' 4) #
       [(6, Begin ''vm'' ''b'' 4), (7, Commit ''other'' ''a''), (8, CleanupAll ''b'')]) new_multi_edit) = Inr 7"
  by (rule undisturbed_edits_pass [THEN conjunct2, OF refl]) auto

text \<open>After any number of operations that the counter can count, the dispatcher keeps exactly one
  copy of a configuration for each mark of a session on an object, under an identifier that is not
  0 and belongs to no other mark, and no copy without a mark.\<close>

theorem copies_belong_to_marks:
  fixes ops :: "(64 word \<times> 'c edit_op) list"
  assumes "length ops < 2 ^ 64 - 2"
  defines "s \<equiv> edit_run ops new_multi_edit"
  shows "(shot_of s k \<noteq> None \<longleftrightarrow> (\<exists>ob u b. mark_of s ob u = Some b \<and> llObjectShotId b = k)) \<and>
    (mark_of s ob u = Some b \<and> mark_of s ob' u' = Some b' \<and> llObjectShotId b = llObjectShotId b' \<longrightarrow>
       ob = ob' \<and> u = u') \<and> shot_of s 0 = None"
proof -
  have s: "shots_ok s" using shots_ok_run [OF assms(1)] unfolding s_def by blast
  have "shot_of s 0 = None" using shots_okD(5) [OF s, of 0] shots_okD(3) [OF s] by force
  with shots_okD(2,5,6) [OF s] show ?thesis by blast
qed

theorem copies_belong_to_marks_witness:
  "shot_of (edit_run [(5, Begin ''vm'' ''a'' (4 :: nat)), (6, Begin ''vm'' ''a'' 5), (7, CleanupAll ''a'')]
     new_multi_edit) 0 = None"
  by (rule copies_belong_to_marks [THEN conjunct2, THEN conjunct2]) simp

end
