(* ===== verification/BackupLocks.thy ===== *)
theory BackupLocks
  imports Prelude
begin

text \<open>
  The locks on backup sequences, \<^verbatim>\<open>Backup::Metadata::Lock\<close> of \<^verbatim>\<open>CDspVmBackupInfrastructure.cpp\<close>:
  many threads may read a sequence, or one task may change it.  A refused request does not wait.
  The locale \<open>sequence_locks\<close> is what the tasks rely on; here it is interpreted on the code's lock.
\<close>

section \<open>The lock\<close>

text \<open>
  Threads are numbers.  \<^verbatim>\<open>QMultiHash\<close> keeps one entry for each successful \<^verbatim>\<open>insert\<close>, so the
  shared locks are a list of pairs.
\<close>

record metadata_lock =
  m_exclusive :: "qstring set"
  m_shared :: "(qstring \<times> nat) list"

definition lock_init :: metadata_lock where
  "lock_init = \<lparr>m_exclusive = {}, m_shared = []\<rparr>"

definition grabShared :: "nat \<Rightarrow> qstring \<Rightarrow> metadata_lock \<Rightarrow> prl_result \<times> metadata_lock" where
  "grabShared thread sequence s =
     (if sequence \<in> m_exclusive s then (PRL_ERR_BACKUP_LOCKED_FOR_WRITING, s)
      else (PRL_ERR_SUCCESS, s\<lparr>m_shared := (sequence, thread) # m_shared s\<rparr>))"

definition releaseShared :: "nat \<Rightarrow> qstring \<Rightarrow> metadata_lock \<Rightarrow> metadata_lock" where
  "releaseShared thread sequence s =
     (if (sequence, thread) \<notin> set (m_shared s) then s
      else s\<lparr>m_shared := erase_first (\<lambda>p. p = (sequence, thread)) (m_shared s)\<rparr>)"

definition grabExclusive :: "qstring \<Rightarrow> metadata_lock \<Rightarrow> prl_result \<times> metadata_lock" where
  "grabExclusive sequence s =
     (if sequence \<in> m_exclusive s then (PRL_ERR_BACKUP_LOCKED_FOR_WRITING, s)
      else if sequence \<in> fst ` set (m_shared s) then (PRL_ERR_BACKUP_LOCKED_FOR_READING, s)
      else (PRL_ERR_SUCCESS, s\<lparr>m_exclusive := insert sequence (m_exclusive s)\<rparr>))"

definition releaseExclusive :: "qstring \<Rightarrow> metadata_lock \<Rightarrow> metadata_lock" where
  "releaseExclusive sequence s = s\<lparr>m_exclusive := m_exclusive s - {sequence}\<rparr>"


section \<open>The loops of the tasks that remove backups\<close>

text \<open>
  \<^verbatim>\<open>Task_RemoveVmBackupTarget::do_\<close> locks the sequences one by one and counts them;
  \<^verbatim>\<open>finalizeTask\<close> gives back as many.
\<close>

fun lock_loop ::
  "('q \<Rightarrow> 's \<Rightarrow> prl_result \<times> 's) \<Rightarrow> 'q list \<Rightarrow> nat \<Rightarrow> 's \<Rightarrow> prl_result \<times> nat \<times> 's" where
  "lock_loop grab [] n s = (PRL_ERR_SUCCESS, n, s)"
| "lock_loop grab (u # us) n s =
     (case grab u s of (e, s') \<Rightarrow> if prl_failed e then (e, n, s') else lock_loop grab us (Suc n) s')"

definition release_loop :: "('q \<Rightarrow> 's \<Rightarrow> 's) \<Rightarrow> 'q list \<Rightarrow> nat \<Rightarrow> 's \<Rightarrow> 's" where
  "release_loop release us n s = foldl (\<lambda>s u. release u s) s (take n us)"


section \<open>What the tasks rely on\<close>

text \<open>
  \<open>readers\<close> counts the threads that read a sequence, \<open>writer\<close> says whether it is locked for
  writing; a sequence that is written has no readers.
\<close>

locale sequence_locks =
  fixes ok :: "'s \<Rightarrow> bool"
    and readers :: "'s \<Rightarrow> 'q \<Rightarrow> 't \<Rightarrow> nat"
    and writer :: "'s \<Rightarrow> 'q \<Rightarrow> bool"
    and grab_shared :: "'t \<Rightarrow> 'q \<Rightarrow> 's \<Rightarrow> prl_result \<times> 's"
    and release_shared :: "'t \<Rightarrow> 'q \<Rightarrow> 's \<Rightarrow> 's"
    and grab_exclusive :: "'q \<Rightarrow> 's \<Rightarrow> prl_result \<times> 's"
    and release_exclusive :: "'q \<Rightarrow> 's \<Rightarrow> 's"
  assumes shared_granted: "ok s \<Longrightarrow> \<not> writer s q \<Longrightarrow>
      \<exists>s'. grab_shared t q s = (PRL_ERR_SUCCESS, s') \<and> ok s' \<and> writer s' = writer s \<and>
        readers s' = (readers s)(q := (readers s q)(t := Suc (readers s q t)))"
    and shared_refused: "ok s \<Longrightarrow> writer s q \<Longrightarrow>
      grab_shared t q s = (PRL_ERR_BACKUP_LOCKED_FOR_WRITING, s)"
    and shared_released: "ok s \<Longrightarrow> ok (release_shared t q s) \<and> writer (release_shared t q s) = writer s \<and>
        readers (release_shared t q s) = (readers s)(q := (readers s q)(t := readers s q t - 1))"
    and exclusive_granted: "ok s \<Longrightarrow> \<not> writer s q \<Longrightarrow> (\<And>t. readers s q t = 0) \<Longrightarrow>
      \<exists>s'. grab_exclusive q s = (PRL_ERR_SUCCESS, s') \<and> ok s' \<and> readers s' = readers s \<and>
        writer s' = (writer s)(q := True)"
    and exclusive_refused: "ok s \<Longrightarrow> writer s q \<or> readers s q t > 0 \<Longrightarrow>
      grab_exclusive q s = (if writer s q then PRL_ERR_BACKUP_LOCKED_FOR_WRITING
        else PRL_ERR_BACKUP_LOCKED_FOR_READING, s)"
    and exclusive_released: "ok s \<Longrightarrow> ok (release_exclusive q s) \<and>
        readers (release_exclusive q s) = readers s \<and> writer (release_exclusive q s) = (writer s)(q := False)"
    and written_alone: "ok s \<Longrightarrow> writer s q \<Longrightarrow> readers s q t = 0"

context sequence_locks
begin

lemma exclusive_cases:
  assumes "ok s"
  obtains (granted) s' where "grab_exclusive q s = (PRL_ERR_SUCCESS, s')" "ok s'"
      "\<not> writer s q" "readers s q = (\<lambda>t. 0)" "readers s' = readers s" "writer s' = (writer s)(q := True)"
  | (refused) e where "grab_exclusive q s = (e, s)" "prl_failed e"
proof (cases "writer s q \<or> (\<exists>t. readers s q t > 0)")
  case True
  with exclusive_refused [OF assms, of q] show thesis
    by (intro refused) (auto simp: prl_failed_def split: if_splits)
next
  case False
  then have r: "readers s q t = 0" for t by auto
  from exclusive_granted [OF assms _ r] False obtain s' where
    "grab_exclusive q s = (PRL_ERR_SUCCESS, s')" "ok s'" "readers s' = readers s"
    "writer s' = (writer s)(q := True)" by auto
  with r False granted show thesis by auto
qed

text \<open>The loop takes a prefix of the sequences; all of them exactly when it succeeds.\<close>

lemma lock_loop_taken:
  assumes "ok s" "lock_loop grab_exclusive us k s = (e, n, s')"
  shows "ok s' \<and> k \<le> n \<and> n \<le> k + length us \<and> (prl_succeeded e \<longleftrightarrow> n = k + length us) \<and>
    distinct (take (n - k) us) \<and> readers s' = readers s \<and>
    (\<forall>q. writer s' q \<longleftrightarrow> writer s q \<or> q \<in> set (take (n - k) us)) \<and>
    (\<forall>q \<in> set (take (n - k) us). \<not> writer s q \<and> readers s q = (\<lambda>t. 0))"
  using assms
proof (induction us arbitrary: k s)
  case (Cons u us)
  from Cons.prems(1) show ?case
  proof (cases rule: exclusive_cases [of _ u])
    case (granted s1)
    with Cons.prems(2) have l: "lock_loop grab_exclusive us (Suc k) s1 = (e, n, s')" by simp
    from Cons.IH [OF granted(2) l] have "Suc k \<le> n" by simp
    then have t: "take (n - k) (u # us) = u # take (n - Suc k) us" by (simp add: Suc_diff_Suc take_Cons')
    show ?thesis using Cons.IH [OF granted(2) l] granted by (auto simp: t split: if_splits)
  next
    case (refused e')
    with Cons.prems show ?thesis by auto
  qed
qed auto

lemma release_loop_frees:
  "ok s \<Longrightarrow> ok (foldl (\<lambda>s u. release_exclusive u s) s us) \<and>
    readers (foldl (\<lambda>s u. release_exclusive u s) s us) = readers s \<and>
    (\<forall>q. writer (foldl (\<lambda>s u. release_exclusive u s) s us) q \<longleftrightarrow> writer s q \<and> q \<notin> set us)"
proof (induction us arbitrary: s)
  case (Cons u us)
  from exclusive_released [OF Cons.prems, of u] Cons.IH [of "release_exclusive u s"] show ?case by auto
qed simp

text \<open>Locking and giving back what was counted leaves no trace.\<close>

lemma locked_and_released:
  assumes "ok s" "lock_loop grab_exclusive us 0 s = (e, n, s')"
  shows "readers (release_loop release_exclusive us n s') = readers s"
    "writer (release_loop release_exclusive us n s') = writer s"
proof -
  from lock_loop_taken [OF assms] have l: "ok s'" "readers s' = readers s"
    "\<forall>q. writer s' q \<longleftrightarrow> writer s q \<or> q \<in> set (take n us)" "\<forall>q \<in> set (take n us). \<not> writer s q" by auto
  from release_loop_frees [OF l(1), of "take n us"] l(2-) show
    "readers (release_loop release_exclusive us n s') = readers s"
    "writer (release_loop release_exclusive us n s') = writer s"
    by (auto simp: release_loop_def fun_eq_iff)
qed

end


section \<open>The code's lock\<close>

definition shared_by :: "metadata_lock \<Rightarrow> qstring \<Rightarrow> nat \<Rightarrow> nat" where
  "shared_by s q t = length (filter (\<lambda>p. p = (q, t)) (m_shared s))"

definition lock_ok :: "metadata_lock \<Rightarrow> bool" where
  "lock_ok s \<longleftrightarrow> (\<forall>q \<in> m_exclusive s. q \<notin> fst ` set (m_shared s))"

lemma shared_by_pos: "shared_by s q t > 0 \<longleftrightarrow> (q, t) \<in> set (m_shared s)"
  by (auto simp: shared_by_def filter_empty_conv)

lemma shared_by_erase:
  assumes "(q, t) \<in> set ps"
  shows "length (filter (\<lambda>p. p = (q', t')) (erase_first (\<lambda>p. p = (q, t)) ps)) =
    length (filter (\<lambda>p. p = (q', t')) ps) - (if (q', t') = (q, t) then 1 else 0)"
proof (cases "(q', t') = (q, t)")
  case True
  with filter_erase_first_hit [OF assms, of "\<lambda>p. p = (q, t)" "\<lambda>p. p = (q, t)"] show ?thesis by simp
next
  case False
  then have "filter (\<lambda>p. p = (q', t')) (erase_first (\<lambda>p. p = (q, t)) ps) = filter (\<lambda>p. p = (q', t')) ps"
    by (intro filter_erase_first_other) auto
  with False show ?thesis by auto
qed

lemma shared_by_release:
  "shared_by (releaseShared t q s) = (shared_by s)(q := (shared_by s q)(t := shared_by s q t - 1))"
proof (cases "(q, t) \<in> set (m_shared s)")
  case True
  have "shared_by (releaseShared t q s) q' t' = shared_by s q' t' - (if (q', t') = (q, t) then 1 else 0)" for q' t'
    using True shared_by_erase [OF True, of q' t'] by (simp only: releaseShared_def shared_by_def) simp
  then show ?thesis by (simp add: fun_eq_iff)
next
  case False
  with shared_by_pos [of s q t] have "shared_by s q t = 0" by simp
  with False show ?thesis by (simp add: releaseShared_def fun_eq_iff)
qed

lemma lock_ok_shared: "lock_ok (s\<lparr>m_shared := ps\<rparr>) \<longleftrightarrow> (\<forall>q \<in> m_exclusive s. q \<notin> fst ` set ps)"
  by (simp add: lock_ok_def)

lemma lock_ok_release:
  assumes "lock_ok s"
  shows "lock_ok (releaseShared t q s)"
proof (cases "(q, t) \<in> set (m_shared s)")
  case True
  have "fst ` set (erase_first (\<lambda>p. p = (q, t)) (m_shared s)) \<subseteq> fst ` set (m_shared s)"
    using set_erase_first by (rule image_mono)
  moreover have "\<forall>u \<in> m_exclusive s. u \<notin> fst ` set (m_shared s)" using assms by (simp only: lock_ok_def)
  ultimately have "\<forall>u \<in> m_exclusive s. u \<notin> fst ` set (erase_first (\<lambda>p. p = (q, t)) (m_shared s))" by blast
  then have "lock_ok (s\<lparr>m_shared := erase_first (\<lambda>p. p = (q, t)) (m_shared s)\<rparr>)"
    by (simp only: lock_ok_shared)
  with True show ?thesis by (simp add: releaseShared_def)
qed (use assms in \<open>simp add: releaseShared_def\<close>)

lemma releaseShared_exclusive [simp]: "m_exclusive (releaseShared t q s) = m_exclusive s"
  by (simp add: releaseShared_def)

interpretation metadata: sequence_locks lock_ok shared_by "\<lambda>s q. q \<in> m_exclusive s"
    grabShared releaseShared grabExclusive releaseExclusive
proof
  fix s q t assume "lock_ok s" "q \<notin> m_exclusive s"
  then show "\<exists>s'. grabShared t q s = (PRL_ERR_SUCCESS, s') \<and> lock_ok s' \<and>
      (\<lambda>q. q \<in> m_exclusive s') = (\<lambda>q. q \<in> m_exclusive s) \<and>
      shared_by s' = (shared_by s)(q := (shared_by s q)(t := Suc (shared_by s q t)))"
    by (auto simp: grabShared_def lock_ok_def shared_by_def fun_eq_iff)
next
  fix s q t assume "lock_ok s"
  then show "lock_ok (releaseShared t q s) \<and>
      (\<lambda>qa. qa \<in> m_exclusive (releaseShared t q s)) = (\<lambda>q. q \<in> m_exclusive s) \<and>
      shared_by (releaseShared t q s) = (shared_by s)(q := (shared_by s q)(t := shared_by s q t - 1))"
    by (simp add: shared_by_release lock_ok_release)
next
  fix s q assume "lock_ok s" "q \<notin> m_exclusive s" "\<And>t. shared_by s q t = 0"
  then have "q \<notin> fst ` set (m_shared s)" using shared_by_pos [of s q] by force
  with \<open>lock_ok s\<close> \<open>q \<notin> m_exclusive s\<close> show "\<exists>s'. grabExclusive q s = (PRL_ERR_SUCCESS, s') \<and> lock_ok s' \<and>
      shared_by s' = shared_by s \<and> (\<lambda>qa. qa \<in> m_exclusive s') = (\<lambda>q. q \<in> m_exclusive s)(q := True)"
    by (auto simp: grabExclusive_def lock_ok_def shared_by_def fun_eq_iff)
next
  fix s q t assume "lock_ok s" "q \<in> m_exclusive s \<or> 0 < shared_by s q t"
  then show "grabExclusive q s = (if q \<in> m_exclusive s then PRL_ERR_BACKUP_LOCKED_FOR_WRITING
      else PRL_ERR_BACKUP_LOCKED_FOR_READING, s)"
    by (auto simp: grabExclusive_def shared_by_pos image_iff)
next
  fix s q t assume "lock_ok s" "q \<in> m_exclusive s"
  then show "shared_by s q t = 0" using shared_by_pos [of s q t] by (force simp: lock_ok_def)
next
  fix s q assume "lock_ok s"
  then show "lock_ok (releaseExclusive q s) \<and> shared_by (releaseExclusive q s) = shared_by s \<and>
      (\<lambda>qa. qa \<in> m_exclusive (releaseExclusive q s)) = (\<lambda>q. q \<in> m_exclusive s)(q := False)"
    by (auto simp: releaseExclusive_def lock_ok_def shared_by_def fun_eq_iff)
qed (simp add: grabShared_def)


section \<open>Runs of the tasks\<close>

text \<open>
  A task that creates a backup (\<^verbatim>\<open>Task_CreateVmBackupTarget\<close>) locks the sequence for writing
  when the backup is full, and only for reading when it adds an item.
\<close>

definition create_lock :: "bool \<Rightarrow> nat \<Rightarrow> qstring \<Rightarrow> metadata_lock \<Rightarrow> prl_result \<times> metadata_lock" where
  "create_lock full thread u s = (if full then grabExclusive u s else grabShared thread u s)"

definition create_unlock :: "bool \<Rightarrow> bool \<Rightarrow> nat \<Rightarrow> qstring \<Rightarrow> metadata_lock \<Rightarrow> metadata_lock" where
  "create_unlock m_bBackupLocked full thread u s =
     (if \<not> m_bBackupLocked then s
      else if full then releaseExclusive u s else releaseShared thread u s)"

datatype grip = Shared qstring nat | Exclusive qstring nat

text \<open>
  The threads of the tasks request locks in any order and give back what they were granted, as
  the flags \<^verbatim>\<open>m_bBackupLocked\<close> and \<^verbatim>\<open>m_nLocked\<close> make sure.  The second argument is what they hold.
\<close>

inductive lock_run :: "metadata_lock \<Rightarrow> grip list \<Rightarrow> bool" where
  start: "lock_run lock_init []"
| granted_shared: "lock_run s gs \<Longrightarrow> grabShared t u s = (PRL_ERR_SUCCESS, s') \<Longrightarrow> lock_run s' (Shared u t # gs)"
| granted_exclusive: "lock_run s gs \<Longrightarrow> grabExclusive u s = (PRL_ERR_SUCCESS, s') \<Longrightarrow> lock_run s' (Exclusive u t # gs)"
| refused_shared: "lock_run s gs \<Longrightarrow> grabShared t u s = (e, s') \<Longrightarrow> prl_failed e \<Longrightarrow> lock_run s' gs"
| refused_exclusive: "lock_run s gs \<Longrightarrow> grabExclusive u s = (e, s') \<Longrightarrow> prl_failed e \<Longrightarrow> lock_run s' gs"
| returned_shared: "lock_run s gs \<Longrightarrow> Shared u t \<in> set gs \<Longrightarrow>
    lock_run (releaseShared t u s) (remove1 (Shared u t) gs)"
| returned_exclusive: "lock_run s gs \<Longrightarrow> Exclusive u t \<in> set gs \<Longrightarrow>
    lock_run (releaseExclusive u s) (remove1 (Exclusive u t) gs)"

definition writers :: "grip list \<Rightarrow> qstring \<Rightarrow> nat" where
  "writers gs u = length (filter (\<lambda>g. case g of Exclusive v _ \<Rightarrow> v = u | _ \<Rightarrow> False) gs)"

definition holds_shared :: "grip list \<Rightarrow> qstring \<Rightarrow> nat \<Rightarrow> nat" where
  "holds_shared gs u t = length (filter (\<lambda>g. g = Shared u t) gs)"

lemma writers_Cons [simp]:
  "writers [] u = 0"
  "writers (Shared v t # gs) u = writers gs u"
  "writers (Exclusive v t # gs) u = (if v = u then Suc (writers gs u) else writers gs u)"
  by (simp_all add: writers_def)

lemma holds_shared_Cons [simp]:
  "holds_shared [] u t = 0"
  "holds_shared (g # gs) u t = (if g = Shared u t then Suc (holds_shared gs u t) else holds_shared gs u t)"
  by (simp_all add: holds_shared_def)

lemma writers_remove1:
  "g \<in> set gs \<Longrightarrow> writers (remove1 g gs) u = writers gs u - (case g of Exclusive v _ \<Rightarrow> if v = u then 1 else 0 | _ \<Rightarrow> 0)"
proof (induction gs)
  case (Cons h gs)
  have "g \<in> set gs \<Longrightarrow> g = Exclusive v t \<Longrightarrow> writers gs v > 0" for v t
    by (auto simp: writers_def filter_empty_conv intro!: bexI)
  with Cons show ?case by (cases h; cases g) (auto simp: Suc_diff_Suc)
qed simp

lemma holds_shared_remove1:
  "g \<in> set gs \<Longrightarrow> holds_shared (remove1 g gs) u t = holds_shared gs u t - (if g = Shared u t then 1 else 0)"
proof (induction gs)
  case (Cons h gs)
  have "Shared u t \<in> set gs \<Longrightarrow> holds_shared gs u t > 0"
    by (auto simp: holds_shared_def filter_empty_conv)
  with Cons show ?case by (auto simp: Suc_diff_Suc)
qed simp

lemma writers_pos: "writers gs u > 0 \<longleftrightarrow> (\<exists>t. Exclusive u t \<in> set gs)"
  by (induction gs) (auto split: grip.splits simp: writers_def)

lemma holds_shared_pos: "holds_shared gs u t > 0 \<longleftrightarrow> Shared u t \<in> set gs"
  by (induction gs) auto

text \<open>The lock's state is what the threads hold.\<close>

lemma lock_run_agrees:
  "lock_run s gs \<Longrightarrow> lock_ok s \<and> shared_by s = holds_shared gs \<and>
     (\<forall>u. writers gs u = (if u \<in> m_exclusive s then 1 else 0))"
proof (induction rule: lock_run.induct)
  case start
  show ?case by (simp add: lock_init_def lock_ok_def shared_by_def fun_eq_iff)
next
  case (granted_shared s gs t u s')
  have "u \<notin> m_exclusive s" using granted_shared(2) by (auto simp: grabShared_def split: if_splits)
  from metadata.shared_granted [OF _ this, of t] granted_shared(2,3)
  have "lock_ok s'" "(\<lambda>q. q \<in> m_exclusive s') = (\<lambda>q. q \<in> m_exclusive s)"
    "shared_by s' = (shared_by s)(u := (shared_by s u)(t := Suc (shared_by s u t)))" by auto
  with granted_shared(3) show ?case by (auto simp: fun_eq_iff)
next
  case (granted_exclusive s gs u s' t)
  then have s': "s' = s\<lparr>m_exclusive := insert u (m_exclusive s)\<rparr>" and
    u: "u \<notin> m_exclusive s" "u \<notin> fst ` set (m_shared s)"
    by (auto simp: grabExclusive_def split: if_splits)
  with granted_exclusive(3) show ?case by (auto simp: lock_ok_def shared_by_def fun_eq_iff)
next
  case (refused_shared s gs t u e s')
  then show ?case by (auto simp: grabShared_def split: if_splits)
next
  case (refused_exclusive s gs u e s')
  then show ?case by (auto simp: grabExclusive_def split: if_splits)
next
  case (returned_shared s gs u t)
  then show ?case
    by (simp add: lock_ok_release shared_by_release writers_remove1 holds_shared_remove1 fun_eq_iff)
next
  case (returned_exclusive s gs u t)
  with metadata.exclusive_released [of s u] show ?case
    by (auto simp: writers_remove1 holds_shared_remove1 releaseExclusive_def fun_eq_iff)
qed

text \<open>C13. A backup sequence that a task has locked for writing is held by nobody else; and the
  answer to a request tells who holds it: a reader is refused exactly while a writer has the
  sequence, a writer exactly while anybody has it, and both then change nothing.
\<close>

theorem written_sequences_are_held_alone:
  assumes "lock_run s gs"
  shows "(Exclusive u t \<in> set gs \<longrightarrow> writers gs u = 1 \<and> (\<forall>t'. Shared u t' \<notin> set gs)) \<and>
    grabShared t u s = (if writers gs u > 0 then (PRL_ERR_BACKUP_LOCKED_FOR_WRITING, s)
       else (PRL_ERR_SUCCESS, s\<lparr>m_shared := (u, t) # m_shared s\<rparr>)) \<and>
    grabExclusive u s =
      (if writers gs u > 0 then (PRL_ERR_BACKUP_LOCKED_FOR_WRITING, s)
       else if \<exists>t. Shared u t \<in> set gs then (PRL_ERR_BACKUP_LOCKED_FOR_READING, s)
       else (PRL_ERR_SUCCESS, s\<lparr>m_exclusive := insert u (m_exclusive s)\<rparr>))"
proof (intro conjI impI)
  note a = lock_run_agrees [OF assms]
  have sh: "Shared u t' \<in> set gs \<longleftrightarrow> (u, t') \<in> set (m_shared s)" for t'
    using a holds_shared_pos [of gs u t'] shared_by_pos [of s u t'] by simp
  have wr: "writers gs u > 0 \<longleftrightarrow> u \<in> m_exclusive s" using a by auto
  have readers: "u \<in> fst ` set (m_shared s) \<longleftrightarrow> (\<exists>t'. Shared u t' \<in> set gs)" by (force simp: sh)
  assume "Exclusive u t \<in> set gs"
  with a wr writers_pos [of gs u] readers
  show "writers gs u = 1" "\<forall>t'. Shared u t' \<notin> set gs" by (auto simp: lock_ok_def)
next
  note a = lock_run_agrees [OF assms]
  have wr: "writers gs u > 0 \<longleftrightarrow> u \<in> m_exclusive s" using a by auto
  have sh: "Shared u t' \<in> set gs \<longleftrightarrow> (u, t') \<in> set (m_shared s)" for t'
    using a holds_shared_pos [of gs u t'] shared_by_pos [of s u t'] by simp
  show "grabShared t u s = (if writers gs u > 0 then (PRL_ERR_BACKUP_LOCKED_FOR_WRITING, s)
       else (PRL_ERR_SUCCESS, s\<lparr>m_shared := (u, t) # m_shared s\<rparr>))"
    by (simp add: grabShared_def wr)
  have "u \<in> fst ` set (m_shared s) \<longleftrightarrow> (\<exists>t'. Shared u t' \<in> set gs)" by (force simp: sh)
  then show "grabExclusive u s =
      (if writers gs u > 0 then (PRL_ERR_BACKUP_LOCKED_FOR_WRITING, s)
       else if \<exists>t. Shared u t \<in> set gs then (PRL_ERR_BACKUP_LOCKED_FOR_READING, s)
       else (PRL_ERR_SUCCESS, s\<lparr>m_exclusive := insert u (m_exclusive s)\<rparr>))"
    by (simp add: grabExclusive_def wr)
qed

theorem written_sequences_are_held_alone_witness:
  "writers [Exclusive ''a'' 1] ''a'' = 1 \<and>
   fst (grabShared 1 ''a'' \<lparr>m_exclusive = {''a''}, m_shared = []\<rparr>) = PRL_ERR_BACKUP_LOCKED_FOR_WRITING"
proof -
  have "lock_run \<lparr>m_exclusive = {''a''}, m_shared = []\<rparr> [Exclusive ''a'' 1]"
    by (rule granted_exclusive [OF start]) (simp add: grabExclusive_def lock_init_def)
  from written_sequences_are_held_alone [OF this, of "''a''" 1] show ?thesis by simp
qed

text \<open>A refused removal holds nothing, and a removal that ends has left no lock behind.\<close>

lemma removal_leaves_no_lock:
  assumes "lock_ok s" "lock_loop grabExclusive us 0 s = (e, n, s')"
  shows "m_exclusive (release_loop releaseExclusive us n s') = m_exclusive s"
    "shared_by (release_loop releaseExclusive us n s') = shared_by s"
proof -
  show "shared_by (release_loop releaseExclusive us n s') = shared_by s"
    by (rule metadata.locked_and_released(1) [OF assms])
  have "(\<lambda>q. q \<in> m_exclusive (release_loop releaseExclusive us n s')) = (\<lambda>q. q \<in> m_exclusive s)"
    by (rule metadata.locked_and_released(2) [OF assms])
  then show "m_exclusive (release_loop releaseExclusive us n s') = m_exclusive s"
    by (simp add: fun_eq_iff set_eq_iff)
qed

end
