(* ===== verification/BackupStore.thy ===== *)
theory BackupStore
  imports BackupLocks "HOL-Library.AList" "HOL-Library.Word" "HOL-Library.Multiset"
begin

text \<open>
  The directory in which backups are kept: \<^verbatim>\<open>Backup::Metadata\<close> of
  \<^verbatim>\<open>CDspVmBackupInfrastructure.cpp\<close> (\<^verbatim>\<open>Carcass\<close>, \<^verbatim>\<open>Ve\<close>, \<^verbatim>\<open>Sequence\<close>, \<^verbatim>\<open>Catalog\<close>), with the
  batches of \<^verbatim>\<open>CDspInstrument.cpp\<close>.  Below the backup directory there is one directory for each
  VM or container (the catalogue), in it one for each full backup (the sequence), and in that one
  for each item: the full backup and the incremental ones.

  A path is the list of its names below the backup directory.  The classes \<^verbatim>\<open>BackupItem\<close>,
  \<^verbatim>\<open>PartialBackupItem\<close> and \<^verbatim>\<open>VmItem\<close> are outside the repository; they are records with the
  fields that the code uses.  What reads, writes and removes files is the record \<open>backup_env\<close>.
\<close>

section \<open>Files\<close>

type_synonym path = "qstring list"

datatype 'c node = Dir | File 'c

type_synonym 'c files = "(path \<times> 'c node) list"

definition path_exists :: "path \<Rightarrow> 'c files \<Rightarrow> bool" where
  "path_exists p fs \<longleftrightarrow> map_of fs p \<noteq> None"

definition is_dir :: "path \<Rightarrow> 'c files \<Rightarrow> bool" where
  "is_dir p fs \<longleftrightarrow> (case map_of fs p of Some Dir \<Rightarrow> True | _ \<Rightarrow> False)"

text \<open>\<^verbatim>\<open>QDir::entryInfoList(QDir::NoDotAndDotDot | QDir::Dirs)\<close>: the names of the directories in one.\<close>

definition child_dirs :: "path \<Rightarrow> 'c files \<Rightarrow> qstring list" where
  "child_dirs d fs =
     map last (filter (\<lambda>p. p \<noteq> [] \<and> butlast p = d \<and> is_dir p fs) (remdups (map fst fs)))"

lemma is_dir_iff: "is_dir p fs \<longleftrightarrow> map_of fs p = Some Dir"
  by (auto simp: is_dir_def split: option.splits node.splits)

lemma set_child_dirs: "n \<in> set (child_dirs d fs) \<longleftrightarrow> map_of fs (d @ [n]) = Some Dir"
proof
  assume "n \<in> set (child_dirs d fs)"
  then obtain p where p: "p \<noteq> []" "butlast p = d" "last p = n" "map_of fs p = Some Dir"
    by (auto simp: child_dirs_def is_dir_iff)
  from append_butlast_last_id [OF p(1)] p(2-) show "map_of fs (d @ [n]) = Some Dir" by simp
next
  assume n: "map_of fs (d @ [n]) = Some Dir"
  from map_of_SomeD [OF this] have "d @ [n] \<in> set (map fst fs)" by force
  with n show "n \<in> set (child_dirs d fs)"
    unfolding child_dirs_def set_map set_filter set_remdups
    by (intro image_eqI [where x = "d @ [n]"]) (simp_all add: is_dir_iff)
qed

lemma distinct_child_dirs: "distinct (child_dirs d fs)"
proof -
  have "inj_on last {p :: path. p \<noteq> [] \<and> butlast p = d}"
    by (rule inj_onI) (metis (mono_tags) append_butlast_last_id mem_Collect_eq)
  then have "inj_on last (set (filter (\<lambda>p. p \<noteq> [] \<and> butlast p = d \<and> is_dir p fs) (remdups (map fst fs))))"
    by (rule inj_on_subset) auto
  then show ?thesis by (simp add: child_dirs_def distinct_map)
qed

lemma map_of_drop:
  "map_of (filter (\<lambda>(p, _). \<not> P p) fs) q = (if P q then None else map_of fs q)"
  by (induction fs) auto


section \<open>Paths\<close>

definition below_dir :: "path \<Rightarrow> path \<Rightarrow> bool" where
  "below_dir p q \<longleftrightarrow> take (length p) q = p"

lemma below_append [simp]: "below_dir p (p @ q)" "below_dir p p"
  by (simp_all add: below_dir_def)

lemma below_sibling [simp]: "below_dir (d @ [x]) (d @ y # q) \<longleftrightarrow> x = y"
  by (auto simp: below_dir_def)

lemma not_below_short: "length q < length p \<Longrightarrow> \<not> below_dir p q"
  by (auto simp: below_dir_def dest: arg_cong [where f = length])

text \<open>What a directory holds: the files below it, by their path in it.\<close>

definition subtree :: "path \<Rightarrow> 'c files \<Rightarrow> path \<Rightarrow> 'c node option" where
  "subtree p fs r = map_of fs (p @ r)"


section \<open>Items\<close>

datatype backup_type = PRL_BACKUP_FULL_TYPE | PRL_BACKUP_INCREMENTAL_TYPE | PRL_BACKUP_DIFFERENTIAL_TYPE
  | Untyped

text \<open>The fields that both classes of items have; a full backup adds two, a partial one its number.\<close>

record item =
  item_ident :: qstring
  item_host :: qstring
  item_serverUuid :: qstring
  item_dateTime :: int
  item_creator :: qstring
  item_size :: "64 word"
  item_type :: backup_type
  item_description :: qstring
  item_originalSize :: "64 word"
  item_bundlePermissions :: "32 word"
  item_tibFileList :: "qstring list"
  item_flags :: "32 word"

record backup_item = item +
  item_uuid :: qstring
  item_lastNumber :: "32 word"

record partial_item = item +
  item_number :: "32 word"

datatype ve_type = PVBT_VM | PVBT_CT_VZFS | PVBT_CT_PLOOP | PVBT_CT_VZWIN

record ve_item =
  ve_uuid :: qstring
  ve_name :: qstring
  ve_vmType :: ve_type
  ve_version :: nat

datatype arg = Word qstring | Path path

text \<open>
  What the code calls outside the repository.  Functions that read hand back a failure code as
  \<open>Inl\<close>.  \<open>absent\<close> is the code for a file that cannot be opened.  \<open>ClearAndDeleteDir\<close> gets no path
  for the empty string.
\<close>

record 'c backup_env =
  isUuid :: "qstring \<Rightarrow> bool"
  QString_toUInt :: "qstring \<Rightarrow> 32 word option"
  number_text :: "32 word \<Rightarrow> qstring"
  PRL_BACKUP_METADATA :: qstring
  BACKUP_PROTO_V4 :: nat
  QEMU_IMG_BIN :: qstring
  absent :: prl_result
  blank_head :: backup_item
  blank_tail :: partial_item
  read_head :: "'c \<Rightarrow> prl_result + backup_item"
  read_tail :: "'c \<Rightarrow> prl_result + partial_item"
  read_ve :: "'c \<Rightarrow> prl_result + ve_item"
  head_text :: "backup_item \<Rightarrow> 'c"
  tail_text :: "partial_item \<Rightarrow> 'c"
  ve_text :: "ve_item \<Rightarrow> 'c"
  file_size :: "'c \<Rightarrow> 64 word"
  saveToFile :: "path \<Rightarrow> 'c \<Rightarrow> 'c files \<Rightarrow> prl_result \<times> 'c files"
  ClearAndDeleteDir :: "path option \<Rightarrow> 'c files \<Rightarrow> bool \<times> 'c files"
  remove_file :: "path \<Rightarrow> 'c files \<Rightarrow> bool \<times> 'c files"
  run_command :: "arg list \<Rightarrow> 'c files \<Rightarrow> bool \<times> 'c files"
  can_read :: "path \<Rightarrow> bool"
  can_write :: "path \<Rightarrow> bool"

definition loadFromFile :: "'c backup_env \<Rightarrow> ('c \<Rightarrow> prl_result + 'i) \<Rightarrow> path \<Rightarrow> 'c files \<Rightarrow> prl_result + 'i" where
  "loadFromFile E read p fs = (case map_of fs p of Some (File c) \<Rightarrow> read c | _ \<Rightarrow> Inl (absent E))"


section \<open>Carcass\<close>

definition BASE :: "32 word" where "BASE = 1"

definition getSequence :: "path \<Rightarrow> qstring \<Rightarrow> path" where
  "getSequence m_root uuid = m_root @ [uuid]"

definition getItem :: "'c backup_env \<Rightarrow> path \<Rightarrow> qstring \<Rightarrow> 32 word \<Rightarrow> path" where
  "getItem E m_root sequence number =
     (if BASE = number then getSequence m_root sequence @ [''base'']
      else getSequence m_root sequence @ [number_text E number])"


section \<open>The item of the virtual environment\<close>

definition ve_showItem :: "'c backup_env \<Rightarrow> path \<Rightarrow> path" where
  "ve_showItem E m_root = m_root @ [PRL_BACKUP_METADATA E]"

text \<open>The cache is the object's; it is filled by the first load and by a save.\<close>

definition ve_loadItem ::
  "'c backup_env \<Rightarrow> path \<Rightarrow> 'c files \<Rightarrow> ve_item option \<Rightarrow> (prl_result + ve_item) \<times> ve_item option" where
  "ve_loadItem E m_root fs m_cache =
     (case m_cache of
        Some v \<Rightarrow> (Inr v, m_cache)
      | None \<Rightarrow>
          (case loadFromFile E (read_ve E) (ve_showItem E m_root) fs of
             Inl e \<Rightarrow> (Inl e, None)
           | Inr v \<Rightarrow> (Inr v, Some v)))"

definition ve_saveItem ::
  "'c backup_env \<Rightarrow> path \<Rightarrow> ve_item \<Rightarrow> 'c files \<times> ve_item option \<Rightarrow> prl_result \<times> 'c files \<times> ve_item option" where
  "ve_saveItem E m_root v s =
     (case saveToFile E (ve_showItem E m_root) (ve_text E v) (fst s) of
        (e, fs') \<Rightarrow> (e, fs', if prl_failed e then snd s else Some v))"


section \<open>Sequence\<close>

definition showItem :: "'c backup_env \<Rightarrow> path \<Rightarrow> qstring \<Rightarrow> 32 word \<Rightarrow> path" where
  "showItem E m_root uuid at = getItem E m_root uuid at @ [PRL_BACKUP_METADATA E]"

definition numbered_items :: "'c backup_env \<Rightarrow> path \<Rightarrow> qstring \<Rightarrow> 'c files \<Rightarrow> 32 word list" where
  "numbered_items E m_root uuid fs =
     [n. Some n \<leftarrow> map (QString_toUInt E) (child_dirs (getSequence m_root uuid) fs),
         path_exists (showItem E m_root uuid n) fs]"

definition getIndex :: "'c backup_env \<Rightarrow> path \<Rightarrow> qstring \<Rightarrow> 'c files \<Rightarrow> 32 word list" where
  "getIndex E m_root uuid fs =
     (if \<not> is_dir (getSequence m_root uuid) fs then []
      else (if is_dir (getItem E m_root uuid BASE) fs then [BASE] else []) @
        sort (numbered_items E m_root uuid fs))"

definition getHeadItem ::
  "'c backup_env \<Rightarrow> path \<Rightarrow> qstring \<Rightarrow> 32 word \<Rightarrow> 'c files \<Rightarrow> prl_result + backup_item" where
  "getHeadItem E m_root uuid at fs =
     (case loadFromFile E (read_head E) (showItem E m_root uuid at) fs of
        Inl e \<Rightarrow> if path_exists (showItem E m_root uuid at) fs then Inl e
                  else Inl PRL_ERR_BACKUP_INTERNAL_ERROR
      | Inr b \<Rightarrow> Inr (b\<lparr>item_type := PRL_BACKUP_FULL_TYPE\<rparr>))"

definition getTailItem ::
  "'c backup_env \<Rightarrow> path \<Rightarrow> qstring \<Rightarrow> 32 word \<Rightarrow> 'c files \<Rightarrow> prl_result + partial_item" where
  "getTailItem E m_root uuid at fs =
     (case loadFromFile E (read_tail E) (showItem E m_root uuid at) fs of
        Inl e \<Rightarrow> Inl e
      | Inr p \<Rightarrow> Inr (p\<lparr>item_type := PRL_BACKUP_INCREMENTAL_TYPE\<rparr>))"

definition save ::
  "'c backup_env \<Rightarrow> path \<Rightarrow> qstring \<Rightarrow> backup_item \<Rightarrow> 32 word \<Rightarrow> 'c files \<Rightarrow> prl_result \<times> 'c files" where
  "save E m_root uuid b at fs = saveToFile E (showItem E m_root uuid at) (head_text E b) fs"

definition seq_update ::
  "'c backup_env \<Rightarrow> path \<Rightarrow> qstring \<Rightarrow> partial_item \<Rightarrow> 32 word \<Rightarrow> 'c files \<Rightarrow> prl_result \<times> 'c files" where
  "seq_update E m_root uuid p at fs = saveToFile E (showItem E m_root uuid at) (tail_text E p) fs"

text \<open>\<open>None\<close>: \<^verbatim>\<open>first()\<close> of an empty list, which Qt leaves undefined.\<close>

definition first_item :: "32 word list \<Rightarrow> 32 word option" where
  "first_item xs = (case xs of [] \<Rightarrow> None | x # _ \<Rightarrow> Some x)"

definition create ::
  "'c backup_env \<Rightarrow> path \<Rightarrow> qstring \<Rightarrow> partial_item \<Rightarrow> 32 word \<Rightarrow> 'c files \<Rightarrow> (prl_result \<times> 'c files) option" where
  "create E m_root uuid p at fs =
     (case seq_update E m_root uuid p at fs of (e, fs1) \<Rightarrow>
        if prl_failed e then Some (e, fs1)
        else (case first_item (getIndex E m_root uuid fs1) of
                None \<Rightarrow> None
              | Some i \<Rightarrow>
                  (case getHeadItem E m_root uuid i fs1 of
                     Inl e \<Rightarrow> Some (e, fs1)
                   | Inr h \<Rightarrow> Some (save E m_root uuid (h\<lparr>item_lastNumber := at\<rparr>) i fs1))))"

text \<open>\<^verbatim>\<open>Sequence::remove\<close>; \<^verbatim>\<open>cdUp\<close> fails when the sequence is no directory.\<close>

definition seq_remove ::
  "'c backup_env \<Rightarrow> path \<Rightarrow> qstring \<Rightarrow> 32 word \<Rightarrow> 'c files \<Rightarrow> prl_result \<times> 'c files" where
  "seq_remove E m_root uuid at fs =
     (if \<not> is_dir (getSequence m_root uuid) fs then (PRL_ERR_FILE_NOT_FOUND, fs)
      else (case ClearAndDeleteDir E (Some (getItem E m_root uuid at)) fs of (ok, fs1) \<Rightarrow>
        if \<not> ok then (PRL_ERR_FAILURE, fs1)
        else if getIndex E m_root uuid fs1 = [] then
          (case ClearAndDeleteDir E (Some (getSequence m_root uuid)) fs1 of (ok, fs2) \<Rightarrow>
             if ok then (PRL_ERR_SUCCESS, fs2) else (PRL_ERR_FAILURE, fs2))
        else (PRL_ERR_SUCCESS, fs1)))"


section \<open>Catalog\<close>

definition getSequences :: "'c backup_env \<Rightarrow> path \<Rightarrow> 'c files \<Rightarrow> qstring list" where
  "getSequences E m_root fs =
     (if \<not> path_exists (ve_showItem E m_root) fs then []
      else filter (isUuid E) (child_dirs m_root fs))"

text \<open>Without a user every sequence is listed.\<close>

definition getIndexForRead :: "'c backup_env \<Rightarrow> bool \<Rightarrow> path \<Rightarrow> 'c files \<Rightarrow> qstring list" where
  "getIndexForRead E with_auth m_root fs =
     (if \<not> with_auth then getSequences E m_root fs
      else filter (\<lambda>n. can_read E (m_root @ [n])) (getSequences E m_root fs))"

definition getIndexForWrite :: "'c backup_env \<Rightarrow> path \<Rightarrow> 'c files \<Rightarrow> qstring list" where
  "getIndexForWrite E m_root fs = filter (\<lambda>n. can_write E (m_root @ [n])) (getSequences E m_root fs)"


section \<open>Batches\<close>

text \<open>An action and, when it has one, what undoes it.  The undo list has the latest action first.\<close>

type_synonym 's batch = "(('s \<Rightarrow> prl_result \<times> 's) \<times> ('s \<Rightarrow> 's) option) list"

definition batch_addItem :: "('s \<Rightarrow> prl_result \<times> 's) \<Rightarrow> 's batch \<Rightarrow> 's batch" where
  "batch_addItem redo b = b @ [(redo, None)]"

definition batch_rollback :: "('s \<Rightarrow> 's) list \<Rightarrow> 's \<Rightarrow> 's" where
  "batch_rollback m_undo s = foldl (\<lambda>s u. u s) s m_undo"

fun batch_loop :: "'s batch \<Rightarrow> ('s \<Rightarrow> 's) list \<Rightarrow> 's \<Rightarrow> prl_result \<times> 's" where
  "batch_loop [] m_undo s = (PRL_ERR_SUCCESS, s)"
| "batch_loop ((redo, undo) # b) m_undo s =
     (case redo s of (output, s') \<Rightarrow>
        if prl_failed output then (output, batch_rollback m_undo s')
        else batch_loop b (case undo of None \<Rightarrow> m_undo | Some u \<Rightarrow> u # m_undo) s')"

definition batch_execute :: "'s batch \<Rightarrow> 's \<Rightarrow> prl_result \<times> 's" where
  "batch_execute b s = (if b = [] then (PRL_ERR_UNINITIALIZED, s) else batch_loop b [] s)"

end
