(* ===== verification/BackupRemoval.thy ===== *)
theory BackupRemoval
  imports BackupStore
begin

text \<open>
  The removal of backups, the task of the server in \<^verbatim>\<open>Tasks/Task_RemoveVmBackup.cpp\<close>: what is to be
  done is put together as a batch while the sequence is locked for reading; then the sequences
  are locked for writing and the batch is executed.  An item is removed with the items that
  depend on it, or alone (\<^verbatim>\<open>PBT_KEEP_CHAIN\<close>), and then the next item takes over its data.
\<close>

section \<open>Identifiers of backups\<close>

text \<open>
  \<^verbatim>\<open>{uuid}\<close> or \<^verbatim>\<open>{uuid}.number\<close>.  Where \<^verbatim>\<open>toUInt\<close> fails it returns 0, which is stored before the
  function returns its error.
\<close>

definition parseBackupId :: "'c backup_env \<Rightarrow> qstring \<Rightarrow> prl_result \<times> qstring \<times> 32 word" where
  "parseBackupId E sBackupId =
     (if CHR ''.'' \<notin> set sBackupId
      then (if isUuid E sBackupId then PRL_ERR_SUCCESS else PRL_ERR_INVALID_ARG, sBackupId, BASE)
      else
        let sBackupUuid = takeWhile (\<lambda>c. c \<noteq> CHR ''.'') sBackupId;
            sBackupDir = tl (dropWhile (\<lambda>c. c \<noteq> CHR ''.'') sBackupId)
        in (case QString_toUInt E sBackupDir of
              None \<Rightarrow> (PRL_ERR_INVALID_ARG, sBackupUuid, 0)
            | Some n \<Rightarrow>
                (if isUuid E sBackupUuid then PRL_ERR_SUCCESS else PRL_ERR_INVALID_ARG, sBackupUuid, n)))"


section \<open>The items of a sequence\<close>

datatype item_data = Head backup_item | Tail partial_item

record rm_item =
  m_number :: "32 word"
  m_files :: "path list"
  m_lair :: "path option"
  m_data :: item_data

definition rm_item_of :: "'c backup_env \<Rightarrow> 32 word \<Rightarrow> rm_item" where
  "rm_item_of E n = \<lparr>m_number = n, m_files = [], m_lair = None, m_data = Head (blank_head E)\<rparr>"

definition item_files :: "path \<Rightarrow> qstring \<Rightarrow> qstring list \<Rightarrow> path list" where
  "item_files root uuid l = map (\<lambda>f. getSequence root uuid @ [f]) l"

definition rm_load ::
  "'c backup_env \<Rightarrow> path \<Rightarrow> qstring \<Rightarrow> 'c files \<Rightarrow> rm_item \<Rightarrow> prl_result \<times> rm_item" where
  "rm_load E root uuid fs x =
     (let i = getIndex E root uuid fs; n = m_number x;
          done = (\<lambda>l d. (PRL_ERR_SUCCESS,
            x\<lparr>m_files := item_files root uuid l, m_lair := Some (getItem E root uuid n), m_data := d\<rparr>))
      in if n \<notin> set i then (PRL_ERR_BACKUP_BACKUP_NOT_FOUND, x)
         else if n = hd i then
           (case getHeadItem E root uuid n fs of
              Inl e \<Rightarrow> (e, x)
            | Inr b \<Rightarrow> done (item_tibFileList b) (Head b))
         else
           (case getTailItem E root uuid n fs of
              Inl e \<Rightarrow> (e, x)
            | Inr p \<Rightarrow> done (item_tibFileList p) (Tail p)))"

definition loaded_item :: "'c backup_env \<Rightarrow> path \<Rightarrow> qstring \<Rightarrow> 'c files \<Rightarrow> 32 word \<Rightarrow> rm_item" where
  "loaded_item E root uuid fs n = snd (rm_load E root uuid fs (rm_item_of E n))"


section \<open>Actions\<close>

type_synonym 'c action = "'c files \<Rightarrow> prl_result \<times> 'c files"

definition rmdir :: "'c backup_env \<Rightarrow> path option \<Rightarrow> 'c action" where
  "rmdir E folder fs =
     (case ClearAndDeleteDir E folder fs of (ok, fs') \<Rightarrow>
        (if ok then PRL_ERR_SUCCESS else PRL_ERR_BACKUP_CANNOT_REMOVE_DIRECTORY, fs'))"

definition unlink_file :: "'c backup_env \<Rightarrow> path \<Rightarrow> 'c action" where
  "unlink_file E file fs =
     (case remove_file E file fs of (ok, fs') \<Rightarrow>
        (if ok then PRL_ERR_SUCCESS else PRL_ERR_OPERATION_FAILED, fs'))"

definition unlinkItem :: "'c backup_env \<Rightarrow> rm_item \<Rightarrow> 'c action list" where
  "unlinkItem E item = rmdir E (m_lair item) # map (unlink_file E) (m_files item)"

definition rebase_command :: "'c backup_env \<Rightarrow> path \<Rightarrow> path option \<Rightarrow> arg list" where
  "rebase_command E file base =
     map Word [QEMU_IMG_BIN E, ''rebase'', ''-c'', ''-f'', ''qcow2'', ''-b''] @
     (case base of None \<Rightarrow> [Word [CHR 0x22, CHR 0x22]] | Some b \<Rightarrow> [Path b, Word ''-F'', Word ''qcow2'']) @
     [Path file]"

definition rebase :: "'c backup_env \<Rightarrow> path \<Rightarrow> path option \<Rightarrow> 'c action" where
  "rebase E file base fs =
     (case run_command E (rebase_command E file base) fs of (ok, fs') \<Rightarrow>
        (if ok then PRL_ERR_SUCCESS else PRL_ERR_BACKUP_INTERNAL_ERROR, fs'))"

definition base_of :: "rm_item \<Rightarrow> nat \<Rightarrow> path option" where
  "base_of base i = (if i < length (m_files base) then Some (m_files base ! i) else None)"

definition rebaseItem :: "'c backup_env \<Rightarrow> rm_item \<Rightarrow> rm_item \<Rightarrow> 'c action list" where
  "rebaseItem E item base = map (\<lambda>i. rebase E (m_files item ! i) (base_of base i)) [0..<length (m_files item)]"

definition meta_getSize :: "'c backup_env \<Rightarrow> rm_item \<Rightarrow> 'c files \<Rightarrow> 64 word" where
  "meta_getSize E item fs =
     sum_list (map (\<lambda>f. case map_of fs f of Some (File c) \<Rightarrow> file_size E c | _ \<Rightarrow> 0) (m_files item))"

text \<open>A partial item that becomes the first one: its own data, with those of the full backup that was.\<close>

definition promoted :: "'c backup_env \<Rightarrow> backup_item \<Rightarrow> partial_item \<Rightarrow> 64 word \<Rightarrow> backup_item" where
  "promoted E from to bytes = (blank_head E)
     \<lparr>item_ident := item_ident to,
      item_uuid := item_uuid from,
      item_host := item_host to,
      item_serverUuid := item_serverUuid to,
      item_dateTime := item_dateTime to,
      item_creator := item_creator to,
      item_size := bytes,
      item_description := item_description to,
      item_originalSize := item_originalSize to + item_originalSize from,
      item_bundlePermissions := item_bundlePermissions to,
      item_tibFileList := item_tibFileList to,
      item_flags := item_flags from,
      item_lastNumber := item_lastNumber from\<rparr>"

text \<open>\<^verbatim>\<open>Meta\<close>, applied to the data of the removed item and of the next one.\<close>

definition meta :: "'c backup_env \<Rightarrow> path \<Rightarrow> qstring \<Rightarrow> rm_item \<Rightarrow> item_data \<Rightarrow> item_data \<Rightarrow> 'c action" where
  "meta E root uuid item from to fs =
     (case (from, to) of
        (Head b, Tail p) \<Rightarrow> save E root uuid (promoted E b p (meta_getSize E item fs)) (m_number item) fs
      | (Tail _, Tail p) \<Rightarrow> seq_update E root uuid (p\<lparr>item_size := meta_getSize E item fs\<rparr>) (m_number item) fs
      | _ \<Rightarrow> (PRL_ERR_INVALID_ARG, fs))"

text \<open>\<^verbatim>\<open>Shifter\<close>: what removes one item and keeps the others.\<close>

definition shifter ::
  "'c backup_env \<Rightarrow> path \<Rightarrow> qstring \<Rightarrow> 'c files \<Rightarrow> 32 word option \<Rightarrow> 32 word option \<Rightarrow> 32 word \<Rightarrow> 'c action list" where
  "shifter E root uuid fs preceding next item =
     (let c = loaded_item E root uuid fs item in
      case next of
        None \<Rightarrow> unlinkItem E c
      | Some n \<Rightarrow>
          let n = loaded_item E root uuid fs n;
              p = (case preceding of None \<Rightarrow> rm_item_of E 0 | Some p \<Rightarrow> loaded_item E root uuid fs p)
          in rebaseItem E n p @ meta E root uuid n (m_data c) (m_data n) # unlinkItem E c)"


section \<open>Confectioner\<close>

definition as_batch :: "'c action list \<Rightarrow> 'c files batch" where
  "as_batch as = foldl (\<lambda>b a. batch_addItem a b) [] as"

text \<open>The position of the first occurrence, as \<^verbatim>\<open>std::find\<close> gives it.\<close>

definition position :: "'a \<Rightarrow> 'a list \<Rightarrow> nat" where
  "position x xs = length (takeWhile (\<lambda>y. y \<noteq> x) xs)"

definition confectioner_keep ::
  "'c backup_env \<Rightarrow> path \<Rightarrow> qstring \<Rightarrow> 'c files \<Rightarrow> 32 word list \<Rightarrow> 32 word \<Rightarrow> prl_result + ve_item \<Rightarrow>
   prl_result + 'c files batch" where
  "confectioner_keep E root uuid fs index number catalog =
     (case catalog of
        Inl _ \<Rightarrow> Inl PRL_ERR_BACKUP_BACKUP_NOT_FOUND
      | Inr v \<Rightarrow>
          if ve_version v < BACKUP_PROTO_V4 E then Inl PRL_ERR_BACKUP_UNSUPPORTED_KEEP_CHAIN
          else if number \<notin> set index then Inl PRL_ERR_BACKUP_BACKUP_NOT_FOUND
          else
            let p = position number index;
                preceding = (if p = 0 then None else Some (index ! (p - 1)));
                next = (if number = last index then None else Some (index ! (p + 1)))
            in Inr (as_batch (shifter E root uuid fs preceding next number)))"

text \<open>
  The loop collects the items and the position of the one to remove, \<open>z\<close>, which stays 0 when there
  is none.  Whether an item could be loaded_item is not looked at.
\<close>

fun collect_items ::
  "'c backup_env \<Rightarrow> path \<Rightarrow> qstring \<Rightarrow> 'c files \<Rightarrow> 32 word \<Rightarrow> 32 word list \<Rightarrow> nat \<Rightarrow> rm_item list \<Rightarrow> nat \<times> rm_item list" where
  "collect_items E root uuid fs number [] z os = (z, os)"
| "collect_items E root uuid fs number (n # ns) z os =
     collect_items E root uuid fs number ns (if n = number then length os else z) (os @ [loaded_item E root uuid fs n])"

definition confectioner_chain ::
  "'c backup_env \<Rightarrow> path \<Rightarrow> qstring \<Rightarrow> 'c files \<Rightarrow> 32 word list \<Rightarrow> 32 word \<Rightarrow> prl_result + 'c files batch" where
  "confectioner_chain E root uuid fs index number =
     (case collect_items E root uuid fs number index 0 [] of (z, os) \<Rightarrow>
        Inr (as_batch
          (if z = 0 then (if os = [] then [] else [rmdir E (map_option butlast (m_lair (hd os)))])
           else concat (map (unlinkItem E) (drop z os)))))"


section \<open>The task\<close>

record remove_cmd =
  rc_vmUuid :: qstring
  rc_backupId :: qstring
  PBT_KEEP_CHAIN :: bool
  PBT_IGNORE_NOT_EXISTS :: bool

text \<open>All backups of the VM: the sequences to lock are those the user may write to.\<close>

definition removeAllBackupsForVm ::
  "'c backup_env \<Rightarrow> qstring \<Rightarrow> 'c files \<Rightarrow> (prl_result + 'c files batch) \<times> qstring list" where
  "removeAllBackupsForVm E vm fs =
     (let lst = getIndexForWrite E [vm] fs in
      if lst = [] then (Inl PRL_ERR_BACKUP_BACKUP_NOT_FOUND, lst)
      else (Inr (as_batch [rmdir E (Some [vm])]), lst))"

text \<open>The batch, the sequences to lock, and the lock.\<close>

definition remove_prepare ::
  "'c backup_env \<Rightarrow> nat \<Rightarrow> remove_cmd \<Rightarrow> metadata_lock \<Rightarrow> 'c files \<Rightarrow>
   (prl_result + 'c files batch) \<times> qstring list \<times> metadata_lock" where
  "remove_prepare E thread cmd lock fs =
     (let vm = rc_vmUuid cmd in
      if rc_backupId cmd = [] \<and> vm \<noteq> []
      then (case removeAllBackupsForVm E vm fs of (b, lst) \<Rightarrow> (b, lst, lock))
      else
        (case parseBackupId E (rc_backupId cmd) of (_, uuid, number) \<Rightarrow>
           let u = getIndexForRead E False [vm] fs in
           if uuid \<notin> set u then (Inl PRL_ERR_BACKUP_BACKUP_UUID_NOT_FOUND, [], lock)
           else
             (case grabShared thread uuid lock of (e, lock1) \<Rightarrow>
                if prl_failed e then (Inl e, [], lock1)
                else
                  let i = getIndex E [vm] uuid fs in
                  (case (if length i = 1 \<and> length u = 1 then removeAllBackupsForVm E vm fs
                         else
                           (let b = (if PBT_KEEP_CHAIN cmd
                                     then confectioner_keep E [vm] uuid fs i number (fst (ve_loadItem E [vm] fs None))
                                     else confectioner_chain E [vm] uuid fs i number)
                            in (b, (case b of Inl _ \<Rightarrow> [] | Inr _ \<Rightarrow> [uuid])))) of
                     (b, lst) \<Rightarrow> (b, lst, releaseShared thread uuid lock1)))))"

text \<open>\<^verbatim>\<open>do_\<close>; the number is \<^verbatim>\<open>m_nLocked\<close>.\<close>

definition remove_do ::
  "qstring list \<Rightarrow> 'c files batch \<Rightarrow> metadata_lock \<Rightarrow> 'c files \<Rightarrow> prl_result \<times> nat \<times> metadata_lock \<times> 'c files" where
  "remove_do lst b lock fs =
     (case lock_loop grabExclusive lst 0 lock of (e, n, lock1) \<Rightarrow>
        if prl_failed e then (e, n, lock1, fs)
        else (case batch_execute b fs of (e', fs') \<Rightarrow> (e', n, lock1, fs')))"

definition remove_code :: "remove_cmd \<Rightarrow> prl_result \<Rightarrow> prl_result" where
  "remove_code cmd e =
     (if e = PRL_ERR_BACKUP_BACKUP_UUID_NOT_FOUND \<and> PBT_IGNORE_NOT_EXISTS cmd then PRL_ERR_SUCCESS else e)"

text \<open>\<^verbatim>\<open>run_body\<close> and \<^verbatim>\<open>finalizeTask\<close>, when no other task runs in between.\<close>

definition remove_task ::
  "'c backup_env \<Rightarrow> nat \<Rightarrow> remove_cmd \<Rightarrow> metadata_lock \<Rightarrow> 'c files \<Rightarrow> prl_result \<times> metadata_lock \<times> 'c files" where
  "remove_task E thread cmd lock fs =
     (case remove_prepare E thread cmd lock fs of (b, lst, lock1) \<Rightarrow>
        (case b of
           Inl e \<Rightarrow> (remove_code cmd e, lock1, fs)
         | Inr b \<Rightarrow>
             (case remove_do lst b lock1 fs of (e, n, lock2, fs2) \<Rightarrow>
                (remove_code cmd e, release_loop releaseExclusive lst n lock2, fs2))))"


section \<open>Well-formed sequences\<close>

text \<open>
  Each item can be loaded_item.  The images of a sequence are files in its directory; those of the first item stand alone, and
  each image of another one is based on the image of the item before.  \<open>backing\<close> tells the base
  of an image from its content.
\<close>

definition images :: "'c backup_env \<Rightarrow> path \<Rightarrow> qstring \<Rightarrow> 'c files \<Rightarrow> 32 word \<Rightarrow> path list" where
  "images E root uuid fs n = m_files (loaded_item E root uuid fs n)"

definition based_on :: "('c \<Rightarrow> path option) \<Rightarrow> 'c files \<Rightarrow> path list \<Rightarrow> path list \<Rightarrow> bool" where
  "based_on backing fs bs is \<longleftrightarrow>
     (\<forall>j < length is. \<exists>c. map_of fs (is ! j) = Some (File c) \<and>
        backing c = (if j < length bs then Some (bs ! j) else None))"

fun chained :: "('c \<Rightarrow> path option) \<Rightarrow> 'c files \<Rightarrow> path list \<Rightarrow> path list list \<Rightarrow> bool" where
  "chained backing fs bs [] = True"
| "chained backing fs bs (is # iss) \<longleftrightarrow> based_on backing fs bs is \<and> chained backing fs is iss"

definition well_formed_sequence ::
  "'c backup_env \<Rightarrow> ('c \<Rightarrow> path option) \<Rightarrow> path \<Rightarrow> qstring \<Rightarrow> 'c files \<Rightarrow> bool" where
  "well_formed_sequence E backing root uuid fs \<longleftrightarrow>
     (let i = getIndex E root uuid fs in
      i \<noteq> [] \<and> distinct i \<and> (\<forall>n \<in> set i. is_dir (getItem E root uuid n) fs) \<and>
      (\<forall>n \<in> set i. m_lair (loaded_item E root uuid fs n) \<noteq> None) \<and>
      distinct (concat (map (images E root uuid fs) i)) \<and>
      chained backing fs [] (map (images E root uuid fs) i))"

text \<open>
  What the code relies on: a directory that is removed goes with everything below_dir it, a file that
  is removed or written is that one, the classes read back what they wrote, and codes of failures
  are failures.  \<^verbatim>\<open>qemu-img
  rebase\<close> changes the image it is given only, which then has the new base and still shows the
  guest the same.  What an image shows, \<open>view\<close>, depends on it and on its base.
\<close>

definition store_laws :: "'c backup_env \<Rightarrow> bool" where
  "store_laws E \<longleftrightarrow>
     (\<forall>p fs fs'. ClearAndDeleteDir E (Some p) fs = (True, fs') \<longrightarrow>
        (\<forall>q. map_of fs' q = (if take (length p) q = p then None else map_of fs q))) \<and>
     (\<forall>p fs fs'. remove_file E p fs = (True, fs') \<longrightarrow> map_of fs' = (map_of fs)(p := None)) \<and>
     (\<forall>p c fs fs'. saveToFile E p c fs = (PRL_ERR_SUCCESS, fs') \<longrightarrow> map_of fs' = (map_of fs)(p \<mapsto> File c)) \<and>
     (\<forall>b. read_head E (head_text E b) = Inr b) \<and> (\<forall>p. read_tail E (tail_text E p) = Inr p) \<and>
     (\<forall>n. number_text E n \<noteq> ''base'' \<and> QString_toUInt E (number_text E n) = Some n) \<and>
     QString_toUInt E ''base'' = None \<and> prl_failed (absent E) \<and>
     (\<forall>c e. read_head E c = Inl e \<longrightarrow> prl_failed e)"

definition image_laws ::
  "'c backup_env \<Rightarrow> ('c \<Rightarrow> path option) \<Rightarrow> ('c files \<Rightarrow> path \<Rightarrow> 'v) \<Rightarrow> bool" where
  "image_laws E backing view \<longleftrightarrow>
     (\<forall>f b fs fs'. run_command E (rebase_command E f b) fs = (True, fs') \<longrightarrow>
        (\<forall>q. q \<noteq> f \<longrightarrow> map_of fs' q = map_of fs q) \<and>
        (\<exists>c. map_of fs' f = Some (File c) \<and> backing c = b) \<and> view fs' f = view fs f) \<and>
     (\<forall>f c fs fs'. map_of fs f = Some (File c) \<longrightarrow> map_of fs' f = Some (File c) \<longrightarrow>
        (\<forall>b. backing c = Some b \<longrightarrow> view fs' b = view fs b) \<longrightarrow> view fs' f = view fs f)"

end
