(* ===== verification/BackupChain.thy ===== *)
theory BackupChain
  imports BackupRemoval
begin

text \<open>
  What the removal of backups leaves behind: without its dependent items a sequence is as it was up
  to the removed item; with \<^verbatim>\<open>PBT_KEEP_CHAIN\<close> all other items keep their images and their data.
\<close>

section \<open>Batches that succeed\<close>

definition succeeds :: "'c action list \<Rightarrow> 'c files \<Rightarrow> 'c files \<Rightarrow> bool" where
  "succeeds as fs fs' \<longleftrightarrow> batch_loop (map (\<lambda>a. (a, None)) as) [] fs = (PRL_ERR_SUCCESS, fs')"

lemma as_batch_map: "as_batch as = map (\<lambda>a. (a, None)) as"
proof -
  have "foldl (\<lambda>b a. batch_addItem a b) b as = b @ map (\<lambda>a. (a, None)) as" for b
    by (induction as arbitrary: b) (simp_all add: batch_addItem_def)
  then show ?thesis by (simp add: as_batch_def)
qed

lemma succeeds_simps [simp]:
  "succeeds [] fs fs' \<longleftrightarrow> fs' = fs"
  "succeeds (a # as) fs fs' \<longleftrightarrow> (\<exists>fs1. a fs = (PRL_ERR_SUCCESS, fs1) \<and> succeeds as fs1 fs')"
  by (auto simp: succeeds_def prl_failed_def split: prod.splits if_splits)

lemma succeeds_append [simp]:
  "succeeds (as @ bs) fs fs' \<longleftrightarrow> (\<exists>fs1. succeeds as fs fs1 \<and> succeeds bs fs1 fs')"
  by (induction as arbitrary: fs) auto

lemma execute_succeeds:
  "batch_execute (as_batch as) fs = (PRL_ERR_SUCCESS, fs') \<Longrightarrow> succeeds as fs fs'"
  by (auto simp: batch_execute_def as_batch_map succeeds_def split: if_splits)


section \<open>The laws\<close>

text \<open>The laws, one by one.\<close>

lemma store_lawsD:
  assumes "store_laws E"
  shows "ClearAndDeleteDir E (Some p) fs = (True, fs') \<Longrightarrow> map_of fs' q = (if below_dir p q then None else map_of fs q)"
    "remove_file E p fs = (True, fs') \<Longrightarrow> map_of fs' = (map_of fs)(p := None)"
    "saveToFile E p c fs = (PRL_ERR_SUCCESS, fs') \<Longrightarrow> map_of fs' = (map_of fs)(p \<mapsto> File c)"
    "read_head E (head_text E b) = Inr b" "read_tail E (tail_text E t) = Inr t"
    "number_text E n \<noteq> ''base''" "QString_toUInt E (number_text E n) = Some n" "QString_toUInt E ''base'' = None"
    "prl_failed (absent E)" "read_head E c = Inl e \<Longrightarrow> prl_failed e"
  using assms unfolding store_laws_def below_dir_def by blast+

lemma rmdir_map:
  assumes "store_laws E" "rmdir E (Some p) fs = (PRL_ERR_SUCCESS, fs')"
  shows "map_of fs' q = (if below_dir p q then None else map_of fs q)"
proof -
  from assms(2) have "ClearAndDeleteDir E (Some p) fs = (True, fs')"
    by (simp add: rmdir_def split: prod.splits if_splits)
  from store_lawsD(1) [OF assms(1) this] show ?thesis .
qed

lemma unlink_map:
  assumes "store_laws E" "unlink_file E p fs = (PRL_ERR_SUCCESS, fs')"
  shows "map_of fs' = (map_of fs)(p := None)"
proof -
  from assms(2) have "remove_file E p fs = (True, fs')"
    by (simp add: unlink_file_def split: prod.splits if_splits)
  from store_lawsD(2) [OF assms(1) this] show ?thesis .
qed

lemma number_text_eq: "store_laws E \<Longrightarrow> number_text E n = number_text E m \<longleftrightarrow> n = m"
  by (metis store_lawsD(7) option.inject)

lemma unlinks_map:
  assumes "store_laws E"
  shows "succeeds (map (unlink_file E) ps) fs fs' \<Longrightarrow> map_of fs' q = (if q \<in> set ps then None else map_of fs q)"
proof (induction ps arbitrary: fs)
  case (Cons p ps)
  then obtain fs1 where "unlink_file E p fs = (PRL_ERR_SUCCESS, fs1)" "succeeds (map (unlink_file E) ps) fs1 fs'"
    by auto
  with Cons.IH [of fs1] unlink_map [OF assms, of p fs fs1] show ?case by simp
qed simp

text \<open>The directories of different items are different, and their metadata too.\<close>

lemma getItem_eq: "store_laws E \<Longrightarrow> getItem E root uuid n = getItem E root uuid m \<longleftrightarrow> n = m"
  using number_text_eq [of E n m] store_lawsD(6) [of E n] store_lawsD(6) [of E m]
  by (auto simp: getItem_def)

lemma getItem_name: "\<exists>x. getItem E root uuid n = getSequence root uuid @ [x]"
  by (simp add: getItem_def)

lemma below_item:
  assumes "store_laws E"
  shows "below_dir (getItem E root uuid n) (showItem E root uuid m) \<longleftrightarrow> n = m"
proof -
  obtain x y where "getItem E root uuid n = getSequence root uuid @ [x]" "getItem E root uuid m = getSequence root uuid @ [y]"
    using getItem_name by metis
  with getItem_eq [OF assms, of root uuid n m] show ?thesis by (auto simp: showItem_def)
qed

lemma image_not_metadata: "f \<in> set (item_files root uuid l) \<Longrightarrow> f \<noteq> showItem E root uuid m"
  by (auto simp: item_files_def showItem_def getItem_def)

lemma image_length: "f \<in> set (item_files root uuid l) \<Longrightarrow> length f = Suc (length (getSequence root uuid))"
  by (auto simp: item_files_def)


section \<open>The index after a removal\<close>

text \<open>
  \<open>cut\<close> relates the files before and after some items were removed: their directories are gone, no
  other directory is, and the metadata of the others exist as before.
\<close>

definition cut :: "'c backup_env \<Rightarrow> path \<Rightarrow> qstring \<Rightarrow> 32 word set \<Rightarrow> 'c files \<Rightarrow> 'c files \<Rightarrow> bool" where
  "cut E root uuid N fs fs' \<longleftrightarrow>
     (\<forall>q. map_of fs' q = Some Dir \<longleftrightarrow> map_of fs q = Some Dir \<and> (\<forall>n \<in> N. \<not> below_dir (getItem E root uuid n) q)) \<and>
     (\<forall>m. map_of fs' (showItem E root uuid m) = None \<longleftrightarrow> m \<in> N \<or> map_of fs (showItem E root uuid m) = None)"

lemma numbered_items_mset:
  "mset (numbered_items E root uuid fs) =
     image_mset (\<lambda>x. the (QString_toUInt E x))
       (mset_set {x. map_of fs (getSequence root uuid @ [x]) = Some Dir \<and>
          (\<exists>n. QString_toUInt E x = Some n \<and> path_exists (showItem E root uuid n) fs)})"
proof -
  let ?P = "\<lambda>x. \<exists>n. QString_toUInt E x = Some n \<and> path_exists (showItem E root uuid n) fs"
  let ?xs = "child_dirs (getSequence root uuid) fs"
  have "numbered_items E root uuid fs = map (\<lambda>x. the (QString_toUInt E x)) (filter ?P ?xs)"
  proof -
    have "[n. Some n \<leftarrow> map (QString_toUInt E) xs, Q n] =
        map (\<lambda>x. the (QString_toUInt E x)) (filter (\<lambda>x. \<exists>n. QString_toUInt E x = Some n \<and> Q n) xs)" for xs Q
      by (induction xs) (auto split: option.splits)
    then show ?thesis by (simp add: numbered_items_def)
  qed
  then have "mset (numbered_items E root uuid fs) = image_mset (\<lambda>x. the (QString_toUInt E x)) (mset (filter ?P ?xs))"
    by simp
  also have "mset (filter ?P ?xs) = mset_set (set (filter ?P ?xs))"
    by (rule mset_set_set [symmetric]) (simp add: distinct_child_dirs)
  also have "set (filter ?P ?xs) = {x. map_of fs (getSequence root uuid @ [x]) = Some Dir \<and> ?P x}"
    by (auto simp: set_child_dirs)
  finally show ?thesis .
qed


lemma cut_index:
  assumes laws: "store_laws E" and cut: "cut E root uuid N fs fs'"
  shows "getIndex E root uuid fs' = filter (\<lambda>n. n \<notin> N) (getIndex E root uuid fs)"
proof -
  let ?d = "getSequence root uuid"
  let ?X = "\<lambda>fs. {x. map_of fs (?d @ [x]) = Some Dir \<and>
    (\<exists>n. QString_toUInt E x = Some n \<and> path_exists (showItem E root uuid n) fs)}"
  have dirs: "map_of fs' q = Some Dir \<longleftrightarrow> map_of fs q = Some Dir \<and> (\<forall>n \<in> N. \<not> below_dir (getItem E root uuid n) q)" for q
    using cut by (simp add: cut_def)
  have meta: "path_exists (showItem E root uuid m) fs' \<longleftrightarrow> m \<notin> N \<and> path_exists (showItem E root uuid m) fs" for m
    using cut by (auto simp: cut_def path_exists_def)
  have item_below: "below_dir (getItem E root uuid n) (?d @ [x]) \<Longrightarrow> QString_toUInt E x = (if n = BASE then None else Some n)" for n x
    by (auto simp: getItem_def store_lawsD(7,8) [OF laws])
  have X: "?X fs' = {x \<in> ?X fs. the (QString_toUInt E x) \<notin> N}"
  proof (rule Collect_eqI)
    fix x
    have "QString_toUInt E x = Some n \<Longrightarrow> n \<notin> N \<Longrightarrow> m \<in> N \<Longrightarrow> \<not> below_dir (getItem E root uuid m) (?d @ [x])" for n m
      using item_below [of m x] by (auto split: if_splits)
    then show "map_of fs' (?d @ [x]) = Some Dir \<and>
        (\<exists>n. QString_toUInt E x = Some n \<and> path_exists (showItem E root uuid n) fs') \<longleftrightarrow>
        x \<in> ?X fs \<and> the (QString_toUInt E x) \<notin> N"
      unfolding dirs meta by auto
  qed
  have fin: "finite (?X fs)"
  proof (rule finite_subset)
    show "?X fs \<subseteq> last ` dom (map_of fs)" by (force simp: image_iff)
    show "finite (last ` dom (map_of fs))" by (simp add: finite_dom_map_of)
  qed
  have "mset (numbered_items E root uuid fs') = image_mset (\<lambda>x. the (QString_toUInt E x)) (mset_set (?X fs'))"
    by (rule numbered_items_mset)
  also have "\<dots> = image_mset (\<lambda>x. the (QString_toUInt E x)) (filter_mset (\<lambda>x. the (QString_toUInt E x) \<notin> N) (mset_set (?X fs)))"
    unfolding X using fin by (simp add: filter_mset_mset_set)
  also have "\<dots> = filter_mset (\<lambda>n. n \<notin> N) (image_mset (\<lambda>x. the (QString_toUInt E x)) (mset_set (?X fs)))"
    by (simp add: filter_mset_image_mset)
  also have "\<dots> = mset (filter (\<lambda>n. n \<notin> N) (numbered_items E root uuid fs))"
    by (simp add: numbered_items_mset)
  finally have "sort (numbered_items E root uuid fs') = sort (filter (\<lambda>n. n \<notin> N) (numbered_items E root uuid fs))"
    by (metis sorted_list_of_multiset_mset)
  then have numbers: "sort (numbered_items E root uuid fs') = filter (\<lambda>n. n \<notin> N) (sort (numbered_items E root uuid fs))"
    by (simp add: filter_sort)
  have "below_dir (getItem E root uuid n) (getItem E root uuid m) \<longleftrightarrow> n = m" for n m
    using getItem_eq [OF laws, of root uuid n m] getItem_name by (metis below_append(2) below_sibling)
  then have base: "is_dir (getItem E root uuid BASE) fs' \<longleftrightarrow> BASE \<notin> N \<and> is_dir (getItem E root uuid BASE) fs"
    by (auto simp: is_dir_iff dirs)
  have "\<not> below_dir (getItem E root uuid n) ?d" for n
    by (rule not_below_short) (simp add: getItem_def)
  then have "is_dir ?d fs' \<longleftrightarrow> is_dir ?d fs" by (simp add: is_dir_iff dirs)
  with numbers base show ?thesis by (simp add: getIndex_def)
qed


section \<open>Items that can be loaded\<close>

lemma loaded_iff:
  "m_lair (loaded_item E root uuid fs n) \<noteq> None \<longleftrightarrow>
     n \<in> set (getIndex E root uuid fs) \<and>
     (if n = hd (getIndex E root uuid fs) then \<exists>b. getHeadItem E root uuid n fs = Inr b
      else \<exists>p. getTailItem E root uuid n fs = Inr p)"
  by (auto simp: loaded_item_def rm_load_def rm_item_of_def Let_def split: sum.splits)

lemma loaded_head:
  "n \<in> set (getIndex E root uuid fs) \<Longrightarrow> n = hd (getIndex E root uuid fs) \<Longrightarrow> getHeadItem E root uuid n fs = Inr b \<Longrightarrow>
   loaded_item E root uuid fs n = \<lparr>m_number = n, m_files = item_files root uuid (item_tibFileList b),
     m_lair = Some (getItem E root uuid n), m_data = Head b\<rparr>"
  by (simp add: loaded_item_def rm_load_def rm_item_of_def Let_def)

lemma loaded_tail:
  "n \<in> set (getIndex E root uuid fs) \<Longrightarrow> n \<noteq> hd (getIndex E root uuid fs) \<Longrightarrow> getTailItem E root uuid n fs = Inr p \<Longrightarrow>
   loaded_item E root uuid fs n = \<lparr>m_number = n, m_files = item_files root uuid (item_tibFileList p),
     m_lair = Some (getItem E root uuid n), m_data = Tail p\<rparr>"
  by (simp add: loaded_item_def rm_load_def rm_item_of_def Let_def)

lemma getHeadItem_file: "getHeadItem E root uuid n fs = Inr b \<Longrightarrow> \<exists>c. map_of fs (showItem E root uuid n) = Some (File c)"
  by (cases "map_of fs (showItem E root uuid n)"; cases "the (map_of fs (showItem E root uuid n))")
    (simp_all add: getHeadItem_def loadFromFile_def split: if_splits)

lemma getTailItem_file: "getTailItem E root uuid n fs = Inr p \<Longrightarrow> \<exists>c. map_of fs (showItem E root uuid n) = Some (File c)"
  by (cases "map_of fs (showItem E root uuid n)"; cases "the (map_of fs (showItem E root uuid n))")
    (simp_all add: getTailItem_def loadFromFile_def)

lemma loaded_form:
  assumes "m_lair (loaded_item E root uuid fs n) \<noteq> None"
  shows "m_lair (loaded_item E root uuid fs n) = Some (getItem E root uuid n)" "m_number (loaded_item E root uuid fs n) = n"
    "\<exists>l. images E root uuid fs n = item_files root uuid l"
    "\<exists>c. map_of fs (showItem E root uuid n) = Some (File c)"
proof -
  from assms consider (head) b where "n \<in> set (getIndex E root uuid fs)" "n = hd (getIndex E root uuid fs)"
      "getHeadItem E root uuid n fs = Inr b"
    | (tail) p where "n \<in> set (getIndex E root uuid fs)" "n \<noteq> hd (getIndex E root uuid fs)"
      "getTailItem E root uuid n fs = Inr p"
    unfolding loaded_iff by (auto split: if_splits)
  then have "m_lair (loaded_item E root uuid fs n) = Some (getItem E root uuid n) \<and> m_number (loaded_item E root uuid fs n) = n \<and>
    (\<exists>l. images E root uuid fs n = item_files root uuid l) \<and> (\<exists>c. map_of fs (showItem E root uuid n) = Some (File c))"
  proof cases
    case head
    show ?thesis unfolding images_def loaded_head [OF head] using getHeadItem_file [OF head(3)] by auto
  next
    case tail
    show ?thesis unfolding images_def loaded_tail [OF tail] using getTailItem_file [OF tail(3)] by auto
  qed
  then show "m_lair (loaded_item E root uuid fs n) = Some (getItem E root uuid n)" "m_number (loaded_item E root uuid fs n) = n"
    "\<exists>l. images E root uuid fs n = item_files root uuid l"
    "\<exists>c. map_of fs (showItem E root uuid n) = Some (File c)" by auto
qed

text \<open>An item whose metadata and place in the index are the same is the same.\<close>

lemma getItem_cong:
  "map_of fs' (showItem E root uuid n) = map_of fs (showItem E root uuid n) \<Longrightarrow>
   getHeadItem E root uuid n fs' = getHeadItem E root uuid n fs \<and>
   getTailItem E root uuid n fs' = getTailItem E root uuid n fs"
  by (simp only: getHeadItem_def getTailItem_def loadFromFile_def path_exists_def)

lemma loaded_cong:
  assumes "map_of fs' (showItem E root uuid n) = map_of fs (showItem E root uuid n)"
    "n \<in> set (getIndex E root uuid fs') \<longleftrightarrow> n \<in> set (getIndex E root uuid fs)"
    "n = hd (getIndex E root uuid fs') \<longleftrightarrow> n = hd (getIndex E root uuid fs)"
  shows "loaded_item E root uuid fs' n = loaded_item E root uuid fs n"
  by (simp only: loaded_item_def rm_load_def rm_item_of_def Let_def rm_item.simps assms(2,3) getItem_cong [OF assms(1)])


section \<open>Chains of images\<close>

lemma chained_append:
  "chained backing fs bs (xs @ ys) \<longleftrightarrow> chained backing fs bs xs \<and> chained backing fs (last (bs # xs)) ys"
  by (induction xs arbitrary: bs) auto

lemma based_on_cong:
  "\<forall>f \<in> set im. map_of fs' f = map_of fs f \<Longrightarrow> based_on backing fs' bs im \<longleftrightarrow> based_on backing fs bs im"
  by (simp add: based_on_def)

lemma chained_cong:
  "\<forall>f \<in> set (concat iss). map_of fs' f = map_of fs f \<Longrightarrow> chained backing fs' bs iss \<longleftrightarrow> chained backing fs bs iss"
proof (induction iss arbitrary: bs)
  case (Cons im iss)
  with based_on_cong [of im fs' fs backing bs] show ?case by simp
qed simp

lemma chained_files: "chained backing fs bs iss \<Longrightarrow> f \<in> set (concat iss) \<Longrightarrow> \<exists>c. map_of fs f = Some (File c)"
proof (induction iss arbitrary: bs)
  case (Cons im iss)
  show ?case
  proof (cases "f \<in> set im")
    case True
    with Cons.prems(1) show ?thesis by (auto simp: based_on_def in_set_conv_nth)
  next
    case False
    with Cons show ?thesis by auto
  qed
qed simp

definition ordered :: "('c \<Rightarrow> path option) \<Rightarrow> 'c files \<Rightarrow> path list \<Rightarrow> bool" where
  "ordered backing fs ps \<longleftrightarrow>
     (\<forall>f \<in> set ps. \<exists>c. map_of fs f = Some (File c) \<and>
        (\<forall>b. backing c = Some b \<longrightarrow> position b ps < position f ps))"

lemma position_append:
  "position x (xs @ ys) = (if x \<in> set xs then position x xs else length xs + position x ys)"
  by (induction xs) (auto simp: position_def)

lemma position_less: "x \<in> set xs \<Longrightarrow> position x xs < length xs"
  by (induction xs) (auto simp: position_def)

lemma position_mem: "position x xs < length xs \<Longrightarrow> x \<in> set xs"
  by (induction xs) (auto simp: position_def split: if_splits)

lemma chained_ordered:
  "chained backing fs bs iss \<Longrightarrow> distinct (P @ concat iss) \<Longrightarrow> set bs \<subseteq> set P \<Longrightarrow>
   \<forall>f \<in> set (concat iss). \<exists>c. map_of fs f = Some (File c) \<and>
     (\<forall>b. backing c = Some b \<longrightarrow> position b (P @ concat iss) < position f (P @ concat iss))"
proof (induction iss arbitrary: bs P)
  case (Cons im iss)
  have here: "\<exists>c. map_of fs f = Some (File c) \<and>
      (\<forall>b. backing c = Some b \<longrightarrow> position b (P @ im @ concat iss) < position f (P @ im @ concat iss))"
    if "f \<in> set im" for f
  proof -
    from that Cons.prems(1) obtain j c where c: "map_of fs f = Some (File c)"
      "backing c = (if j < length bs then Some (bs ! j) else None)"
      by (auto simp: based_on_def in_set_conv_nth)
    have "f \<notin> set P" using that Cons.prems(2) by auto
    moreover have "b \<in> set P" if "backing c = Some b" for b
      using that c(2) Cons.prems(3) by (auto split: if_splits)
    ultimately show ?thesis using c(1)
      by (intro exI [of _ c]) (simp add: position_append position_less trans_less_add1)
  qed
  from Cons.IH [of im "P @ im"] Cons.prems have "\<forall>f \<in> set (concat iss). \<exists>c. map_of fs f = Some (File c) \<and>
     (\<forall>b. backing c = Some b \<longrightarrow> position b (P @ im @ concat iss) < position f (P @ im @ concat iss))" by simp
  with here show ?case by auto
qed simp

lemma chain_is_ordered: "chained backing fs [] iss \<Longrightarrow> distinct (concat iss) \<Longrightarrow> ordered backing fs (concat iss)"
  using chained_ordered [of backing fs "[]" iss "[]"] by (simp add: ordered_def)

lemma image_lawsD:
  assumes "image_laws E backing view"
  shows "run_command E (rebase_command E f b) fs = (True, fs') \<Longrightarrow>
      (\<forall>q. q \<noteq> f \<longrightarrow> map_of fs' q = map_of fs q) \<and>
      (\<exists>c. map_of fs' f = Some (File c) \<and> backing c = b) \<and> view fs' f = view fs f"
    "map_of fs f = Some (File c) \<Longrightarrow> map_of fs' f = Some (File c) \<Longrightarrow>
      (\<And>b. backing c = Some b \<Longrightarrow> view fs' b = view fs b) \<Longrightarrow> view fs' f = view fs f"
  using assms unfolding image_laws_def by blast+

text \<open>Where the content of each image, or what it shows, is the same, all images show the same.\<close>

lemma same_views:
  assumes laws: "image_laws E backing view" and ord: "ordered backing fs ps"
    and same: "\<forall>f \<in> set ps. map_of fs' f = map_of fs f \<or> view fs' f = view fs f"
  shows "f \<in> set ps \<Longrightarrow> view fs' f = view fs f"
proof (induction "position f ps" arbitrary: f rule: less_induct)
  case less
  show ?case
  proof (cases "map_of fs' f = map_of fs f")
    case True
    from ord less.prems obtain c where c: "map_of fs f = Some (File c)"
      "\<And>b. backing c = Some b \<Longrightarrow> position b ps < position f ps" unfolding ordered_def by blast
    have "view fs' b = view fs b" if "backing c = Some b" for b
    proof (rule less.hyps [OF c(2) [OF that]])
      from c(2) [OF that] position_less [OF less.prems] show "b \<in> set ps" by (intro position_mem) simp
    qed
    with True c(1) show ?thesis by (intro image_lawsD(2) [OF laws c(1)]) auto
  next
    case False
    with same less.prems show ?thesis by auto
  qed
qed


section \<open>Effects of the actions\<close>

lemma rebase_effect:
  assumes laws: "image_laws E backing view" and ord: "ordered backing fs L" and f: "f \<in> set L"
    and b: "\<And>x. b = Some x \<Longrightarrow> position x L < position f L"
    and run: "rebase E f b fs = (PRL_ERR_SUCCESS, fs')"
  shows "q \<noteq> f \<Longrightarrow> map_of fs' q = map_of fs q" "\<exists>c. map_of fs' f = Some (File c) \<and> backing c = b"
    "ordered backing fs' L" "q \<in> set L \<Longrightarrow> view fs' q = view fs q"
proof -
  from run have "run_command E (rebase_command E f b) fs = (True, fs')"
    by (simp add: rebase_def split: prod.splits if_splits)
  note r = image_lawsD(1) [OF laws this]
  from r show other: "q \<noteq> f \<Longrightarrow> map_of fs' q = map_of fs q" for q by simp
  from r show new: "\<exists>c. map_of fs' f = Some (File c) \<and> backing c = b" by simp
  from r ord show "q \<in> set L \<Longrightarrow> view fs' q = view fs q" by (intro same_views [OF laws ord]) auto
  show "ordered backing fs' L" unfolding ordered_def
  proof
    fix g assume "g \<in> set L"
    then show "\<exists>c. map_of fs' g = Some (File c) \<and> (\<forall>b. backing c = Some b \<longrightarrow> position b L < position g L)"
      using other [of g] new b ord by (cases "g = f") (auto simp: ordered_def)
  qed
qed

lemma rebases_effect:
  assumes laws: "image_laws E backing view" and F: "distinct F" "set F \<subseteq> set L"
    and base: "\<And>j b. j < length F \<Longrightarrow> base j = Some b \<Longrightarrow> position b L < position (F ! j) L"
  shows "k \<le> length F \<Longrightarrow> ordered backing fs L \<Longrightarrow>
    succeeds (map (\<lambda>i. rebase E (F ! i) (base i)) [k..<length F]) fs fs' \<Longrightarrow>
    (\<forall>q. q \<notin> set (drop k F) \<longrightarrow> map_of fs' q = map_of fs q) \<and>
    (\<forall>j < length F. k \<le> j \<longrightarrow> (\<exists>c. map_of fs' (F ! j) = Some (File c) \<and> backing c = base j)) \<and>
    ordered backing fs' L \<and> (\<forall>q \<in> set L. view fs' q = view fs q)"
proof (induction "length F - k" arbitrary: k fs)
  case 0
  then show ?case by auto
next
  case (Suc m)
  then have k: "k < length F" by simp
  have up: "[k..<length F] = k # [Suc k..<length F]" by (rule upt_rec [THEN trans]) (simp add: k)
  from Suc.prems(3) obtain fs1 where one: "rebase E (F ! k) (base k) fs = (PRL_ERR_SUCCESS, fs1)"
    and rest: "succeeds (map (\<lambda>i. rebase E (F ! i) (base i)) [Suc k..<length F]) fs1 fs'"
    unfolding up by auto
  have Fk: "F ! k \<in> set L" using F(2) k by auto
  note e = rebase_effect [OF laws Suc.prems(2) Fk base [OF k] one]
  have "m = length F - Suc k" "Suc k \<le> length F" using Suc.hyps(2) k by auto
  from Suc.hyps(1) [OF this e(3) rest]
  have ih: "\<forall>q. q \<notin> set (drop (Suc k) F) \<longrightarrow> map_of fs' q = map_of fs1 q"
    "\<forall>j < length F. Suc k \<le> j \<longrightarrow> (\<exists>c. map_of fs' (F ! j) = Some (File c) \<and> backing c = base j)"
    "ordered backing fs' L" "\<forall>q \<in> set L. view fs' q = view fs1 q" by auto
  have drop: "drop k F = F ! k # drop (Suc k) F" by (rule Cons_nth_drop_Suc [symmetric, OF k])
  have new: "F ! k \<notin> set (drop (Suc k) F)"
    using distinct_drop [OF F(1), of k] by (simp add: drop)
  show ?case
  proof (intro conjI allI impI ballI)
    fix q assume "q \<notin> set (drop k F)"
    then show "map_of fs' q = map_of fs q" using ih(1) e(1) by (simp add: drop)
  next
    fix j assume j: "j < length F" "k \<le> j"
    show "\<exists>c. map_of fs' (F ! j) = Some (File c) \<and> backing c = base j"
      using ih(1,2) e(2) new j by (cases "j = k") auto
  qed (use ih(3,4) e(4) in auto)
qed

lemma unlinkItem_effect:
  assumes "store_laws E" "m_lair c = Some lair" "succeeds (unlinkItem E c) fs fs'"
  shows "map_of fs' q = (if below_dir lair q \<or> q \<in> set (m_files c) then None else map_of fs q)"
proof -
  from assms(2,3) obtain fs1 where "rmdir E (Some lair) fs = (PRL_ERR_SUCCESS, fs1)"
    "succeeds (map (unlink_file E) (m_files c)) fs1 fs'" by (auto simp: unlinkItem_def)
  with rmdir_map [OF assms(1)] unlinks_map [OF assms(1)] show ?thesis by fastforce
qed


lemma unlinkItems_effect:
  assumes "store_laws E"
  shows "\<forall>n \<in> set ns. m_lair (loaded_item E root uuid fs0 n) = Some (getItem E root uuid n) \<Longrightarrow>
    succeeds (concat (map (\<lambda>n. unlinkItem E (loaded_item E root uuid fs0 n)) ns)) fs fs' \<Longrightarrow>
    map_of fs' q = (if \<exists>n \<in> set ns. below_dir (getItem E root uuid n) q \<or> q \<in> set (images E root uuid fs0 n)
      then None else map_of fs q)"
proof (induction ns arbitrary: fs)
  case (Cons n ns)
  then obtain fs1 where one: "succeeds (unlinkItem E (loaded_item E root uuid fs0 n)) fs fs1"
    and rest: "succeeds (concat (map (\<lambda>n. unlinkItem E (loaded_item E root uuid fs0 n)) ns)) fs1 fs'" by auto
  have "m_lair (loaded_item E root uuid fs0 n) = Some (getItem E root uuid n)" using Cons.prems(1) by simp
  note e = unlinkItem_effect [OF assms this one, of q]
  show ?case using Cons.IH [OF _ rest] Cons.prems(1) e by (auto simp: images_def)
qed simp


section \<open>Well-formed sequences after a removal\<close>

lemma well_formedD:
  assumes "well_formed_sequence E backing root uuid fs"
  shows "getIndex E root uuid fs \<noteq> []" "distinct (getIndex E root uuid fs)"
    "n \<in> set (getIndex E root uuid fs) \<Longrightarrow> map_of fs (getItem E root uuid n) = Some Dir"
    "n \<in> set (getIndex E root uuid fs) \<Longrightarrow> m_lair (loaded_item E root uuid fs n) \<noteq> None"
    "distinct (concat (map (images E root uuid fs) (getIndex E root uuid fs)))"
    "chained backing fs [] (map (images E root uuid fs) (getIndex E root uuid fs))"
  using assms by (simp_all add: well_formed_sequence_def Let_def is_dir_iff)

lemma image_file:
  assumes "well_formed_sequence E backing root uuid fs" "n \<in> set (getIndex E root uuid fs)"
    "f \<in> set (images E root uuid fs n)"
  shows "\<exists>c. map_of fs f = Some (File c)" "f \<noteq> showItem E root uuid m"
    "m \<in> set (getIndex E root uuid fs) \<Longrightarrow> \<not> below_dir (getItem E root uuid m) f"
proof -
  show content: "\<exists>c. map_of fs f = Some (File c)"
    using chained_files [OF well_formedD(6) [OF assms(1)], of f] assms(2,3) by auto
  from loaded_form(3) [OF well_formedD(4) [OF assms(1,2)]] obtain l where
    l: "images E root uuid fs n = item_files root uuid l" ..
  with assms(3) image_not_metadata show "f \<noteq> showItem E root uuid m" by metis
  assume "m \<in> set (getIndex E root uuid fs)"
  from well_formedD(3) [OF assms(1) this] content have ne: "f \<noteq> getItem E root uuid m" by auto
  have "length f = length (getItem E root uuid m)"
    using image_length [of f root uuid l] assms(3) l by (simp add: getItem_def)
  with ne show "\<not> below_dir (getItem E root uuid m) f" by (auto simp: below_dir_def)
qed

lemma images_disjoint:
  assumes "well_formed_sequence E backing root uuid fs" "n \<in> set (getIndex E root uuid fs)"
    "m \<in> set (getIndex E root uuid fs)" "n \<noteq> m"
  shows "set (images E root uuid fs n) \<inter> set (images E root uuid fs m) = {}"
proof -
  from split_list [OF assms(2)] obtain A B where ab: "getIndex E root uuid fs = A @ n # B" by auto
  with assms(3,4) have "m \<in> set A \<or> m \<in> set B" by auto
  with well_formedD(5) [OF assms(1)] show ?thesis unfolding ab by auto
qed

text \<open>
  \<open>f2\<close> are the files before the items \<open>N\<close> are unlinked: the same directories as in the well-formed
  sequence, and the same metadata files.
\<close>

lemma unlinked:
  assumes laws: "store_laws E" and wf: "well_formed_sequence E backing root uuid fs"
    and N: "N \<subseteq> set (getIndex E root uuid fs)"
    and dirs: "\<And>q. map_of f2 q = Some Dir \<longleftrightarrow> map_of fs q = Some Dir"
    and metas: "\<And>m. map_of f2 (showItem E root uuid m) = None \<longleftrightarrow> map_of fs (showItem E root uuid m) = None"
    and gone: "\<And>q. map_of fs' q = (if \<exists>n \<in> N. below_dir (getItem E root uuid n) q \<or> q \<in> set (images E root uuid fs n)
      then None else map_of f2 q)"
  shows "getIndex E root uuid fs' = filter (\<lambda>n. n \<notin> N) (getIndex E root uuid fs)"
    "m \<in> set (getIndex E root uuid fs) - N \<Longrightarrow> map_of fs' (showItem E root uuid m) = map_of f2 (showItem E root uuid m)"
    "m \<in> set (getIndex E root uuid fs) - N \<Longrightarrow> f \<in> set (images E root uuid fs m) \<Longrightarrow> map_of fs' f = map_of f2 f"
    "m \<in> set (getIndex E root uuid fs) - N \<Longrightarrow> map_of fs' (getItem E root uuid m) = Some Dir"
proof -
  have img: "n \<in> N \<Longrightarrow> q \<in> set (images E root uuid fs n) \<Longrightarrow> \<exists>c. map_of fs q = Some (File c)" for n q
    using image_file(1) [OF wf] N by blast
  have meta_img: "n \<in> N \<Longrightarrow> showItem E root uuid m \<notin> set (images E root uuid fs n)" for n m
    using image_file(2) [OF wf] N by blast
  have cut: "cut E root uuid N fs fs'" unfolding cut_def
  proof (intro conjI allI)
    fix q show "map_of fs' q = Some Dir \<longleftrightarrow> map_of fs q = Some Dir \<and> (\<forall>n \<in> N. \<not> below_dir (getItem E root uuid n) q)"
      using img [of _ q] dirs [of q] unfolding gone [of q] by (auto, fastforce)
  next
    fix m show "map_of fs' (showItem E root uuid m) = None \<longleftrightarrow> m \<in> N \<or> map_of fs (showItem E root uuid m) = None"
      using meta_img metas [of m] unfolding gone [of "showItem E root uuid m"] below_item [OF laws] by auto
  qed
  show "getIndex E root uuid fs' = filter (\<lambda>n. n \<notin> N) (getIndex E root uuid fs)"
    by (rule cut_index [OF laws cut])
  show "m \<in> set (getIndex E root uuid fs) - N \<Longrightarrow> map_of fs' (showItem E root uuid m) = map_of f2 (showItem E root uuid m)"
    using meta_img unfolding gone [of "showItem E root uuid m"] below_item [OF laws] by auto
  show "map_of fs' f = map_of f2 f" if "m \<in> set (getIndex E root uuid fs) - N" "f \<in> set (images E root uuid fs m)"
  proof -
    have "\<not> below_dir (getItem E root uuid n) f \<and> f \<notin> set (images E root uuid fs n)" if "n \<in> N" for n
      using image_file(3) [OF wf _ \<open>f \<in> set (images E root uuid fs m)\<close>, of n]
        images_disjoint [OF wf, of n m] that N \<open>m \<in> _\<close> \<open>f \<in> _\<close> by blast
    then show ?thesis unfolding gone [of f] by auto
  qed
  show "map_of fs' (getItem E root uuid m) = Some Dir" if m: "m \<in> set (getIndex E root uuid fs) - N"
  proof -
    have d: "map_of fs (getItem E root uuid m) = Some Dir" using well_formedD(3) [OF wf] m by blast
    have "\<not> below_dir (getItem E root uuid n) (getItem E root uuid m) \<and> getItem E root uuid m \<notin> set (images E root uuid fs n)"
      if "n \<in> N" for n
      using getItem_eq [OF laws, of root uuid n m] getItem_name [of E root uuid] img [OF that, of "getItem E root uuid m"]
        d that m by (metis DiffD2 below_sibling node.distinct(1) option.inject)
    with d dirs show ?thesis unfolding gone [of "getItem E root uuid m"] by auto
  qed
qed


lemma distinct_concat_filter: "distinct (concat (map f xs)) \<Longrightarrow> distinct (concat (map f (filter P xs)))"
  by (induction xs) auto

lemma kept_sequence:
  assumes wf: "well_formed_sequence E backing root uuid fs"
    and K: "getIndex E root uuid fs' = filter P (getIndex E root uuid fs)" "getIndex E root uuid fs' \<noteq> []"
    and dirs: "\<And>m. m \<in> set (getIndex E root uuid fs') \<Longrightarrow> map_of fs' (getItem E root uuid m) = Some Dir"
    and load: "\<And>m. m \<in> set (getIndex E root uuid fs') \<Longrightarrow>
      m_lair (loaded_item E root uuid fs' m) \<noteq> None \<and> images E root uuid fs' m = images E root uuid fs m"
    and chain: "chained backing fs' [] (map (images E root uuid fs) (getIndex E root uuid fs'))"
  shows "well_formed_sequence E backing root uuid fs'"
proof -
  have im: "map (images E root uuid fs') (getIndex E root uuid fs') = map (images E root uuid fs) (getIndex E root uuid fs')"
    using load by simp
  have d: "distinct (concat (map (images E root uuid fs) (getIndex E root uuid fs')))"
    unfolding K(1) by (rule distinct_concat_filter [OF well_formedD(5) [OF wf]])
  have "distinct (getIndex E root uuid fs')" unfolding K(1) using well_formedD(2) [OF wf] by simp
  with K(2) dirs load chain d show ?thesis
    unfolding well_formed_sequence_def Let_def im by (simp add: is_dir_iff)
qed

text \<open>Where the images that remain are the same files in both states, they show the same.\<close>

lemma remaining_views:
  assumes laws: "image_laws E backing view" and "chained backing f2 [] iss" "distinct (concat iss)"
    and "\<And>f. f \<in> set (concat iss) \<Longrightarrow> map_of fs' f = map_of f2 f" and "f \<in> set (concat iss)"
  shows "view fs' f = view f2 f"
  by (rule same_views [OF laws chain_is_ordered [OF assms(2,3)]]) (use assms in auto)


text \<open>Files outside the sequence.\<close>

lemma outside_sequence:
  assumes "\<not> below_dir (getSequence root uuid) q"
  shows "\<not> below_dir (getItem E root uuid n) q" "q \<noteq> showItem E root uuid n" "q \<notin> set (item_files root uuid l)"
proof -
  have ext: "below_dir (p @ xs) q \<Longrightarrow> below_dir p q" for p xs
    by (auto simp: below_dir_def dest: arg_cong [where f = "take (length p)"])
  have no: "\<not> below_dir (getSequence root uuid @ xs) q" for xs using ext assms by blast
  show "\<not> below_dir (getItem E root uuid n) q" using no by (simp add: getItem_def)
  have "q \<noteq> getSequence root uuid @ xs" for xs using no [of xs] by auto
  then show "q \<noteq> showItem E root uuid n" "q \<notin> set (item_files root uuid l)"
    by (auto simp: showItem_def getItem_def item_files_def)
qed

lemma images_outside:
  assumes "\<not> below_dir (getSequence root uuid) q" "m_lair (loaded_item E root uuid fs n) \<noteq> None"
  shows "q \<notin> set (images E root uuid fs n)"
  using loaded_form(3) [OF assms(2)] outside_sequence(3) [OF assms(1)] by auto


section \<open>Removal with the dependent items\<close>

lemma collect_items_eq:
  "collect_items E root uuid fs number ns z os =
     (if number \<in> set ns
      then length os + (length ns - 1 - position number (rev ns)) else z, os @ map (loaded_item E root uuid fs) ns)"
proof (induction ns arbitrary: z os)
  case (Cons n ns)
  have p: "number \<in> set ns \<Longrightarrow> position number (rev ns) < length ns" using position_less [of number "rev ns"] by simp
  have "number \<notin> set ns \<Longrightarrow> position number (rev ns @ [number]) = length ns"
    by (simp add: position_append) (simp add: position_def)
  with p show ?case by (auto simp: Cons position_append)
qed simp

lemma collect_items_distinct:
  assumes "distinct (A @ n # B)"
  shows "collect_items E root uuid fs n (A @ n # B) 0 [] = (length A, map (loaded_item E root uuid fs) (A @ n # B))"
proof -
  have "position n (rev (A @ n # B)) = length B" using assms by (simp add: position_append) (simp add: position_def)
  then show ?thesis unfolding collect_items_eq by simp
qed

text \<open>
  An item that is not the first one is removed with all later ones; the earlier ones keep their
  metadata, their images and what these show.
\<close>

lemma chain_removal_keeps_earlier:
  assumes laws: "store_laws E" "image_laws E backing view"
    and wf: "well_formed_sequence E backing root uuid fs"
    and idx: "getIndex E root uuid fs = A @ n # B" "A \<noteq> []"
    and b: "confectioner_chain E root uuid fs (getIndex E root uuid fs) n = Inr b"
    and run: "batch_execute b fs = (PRL_ERR_SUCCESS, fs')"
  shows "getIndex E root uuid fs' = A" "well_formed_sequence E backing root uuid fs'"
    "m \<in> set A \<Longrightarrow> loaded_item E root uuid fs' m = loaded_item E root uuid fs m"
    "m \<in> set A \<Longrightarrow> f \<in> set (images E root uuid fs m) \<Longrightarrow> map_of fs' f = map_of fs f \<and> view fs' f = view fs f"
    "\<not> below_dir (getSequence root uuid) q \<Longrightarrow> map_of fs' q = map_of fs q"
proof -
  have dist: "distinct (A @ n # B)" using well_formedD(2) [OF wf] idx by simp
  have "b = as_batch (concat (map (\<lambda>n. unlinkItem E (loaded_item E root uuid fs n)) (n # B)))"
    using b idx(2) unfolding confectioner_chain_def idx(1) collect_items_distinct [OF dist] by (simp add: comp_def)
  with execute_succeeds [of _ fs fs'] run
  have s: "succeeds (concat (map (\<lambda>n. unlinkItem E (loaded_item E root uuid fs n)) (n # B))) fs fs'" by blast
  have "\<forall>m \<in> set (n # B). m_lair (loaded_item E root uuid fs m) = Some (getItem E root uuid m)"
    using loaded_form(1) [OF well_formedD(4) [OF wf]] idx(1) by simp
  note e = unlinkItems_effect [OF laws(1) this s]
  show "map_of fs' q = map_of fs q" if q: "\<not> below_dir (getSequence root uuid) q"
  proof -
    have "\<not> below_dir (getItem E root uuid k) q \<and> q \<notin> set (images E root uuid fs k)" if "k \<in> set (n # B)" for k
      using outside_sequence(1) [OF q] images_outside [OF q well_formedD(4) [OF wf, of k]] that by (auto simp: idx(1))
    then show ?thesis unfolding e [of q] by auto
  qed
  have N: "set (n # B) \<subseteq> set (getIndex E root uuid fs)" using idx(1) by auto
  note u = unlinked [OF laws(1) wf N refl refl e]
  have rest: "set (getIndex E root uuid fs) - set (n # B) = set A" using dist idx(1) by auto
  have "filter (\<lambda>m. m \<notin> set (n # B)) (A @ n # B) = A" using dist by (auto intro!: filter_True)
  with u(1) show index: "getIndex E root uuid fs' = A" unfolding idx(1) by simp
  show load: "loaded_item E root uuid fs' m = loaded_item E root uuid fs m" if "m \<in> set A" for m
    using u(2) [of m] that idx(2) unfolding rest by (intro loaded_cong) (auto simp: index idx(1))
  have content: "map_of fs' f = map_of fs f" if "m \<in> set A" "f \<in> set (images E root uuid fs m)" for m f
    using u(3) [of m f] that unfolding rest by blast
  have chainA: "chained backing fs [] (map (images E root uuid fs) A)"
    using well_formedD(6) [OF wf] unfolding idx(1) by (simp add: chained_append)
  have c: "\<And>f. f \<in> set (concat (map (images E root uuid fs) A)) \<Longrightarrow> map_of fs' f = map_of fs f"
    using content by auto
  with chainA chained_cong [of "map (images E root uuid fs) A" fs' fs backing "[]"]
  have "chained backing fs' [] (map (images E root uuid fs) A)" by blast
  then show "well_formed_sequence E backing root uuid fs'"
    using index idx(2) u(1,4) load well_formedD(4) [OF wf] unfolding rest
    by (intro kept_sequence [OF wf u(1)]) (auto simp: idx(1) images_def)
  have "distinct (concat (map (images E root uuid fs) A))" using well_formedD(5) [OF wf] idx(1) by simp
  from remaining_views [OF laws(2) chainA this c]
  show "m \<in> set A \<Longrightarrow> f \<in> set (images E root uuid fs m) \<Longrightarrow> map_of fs' f = map_of fs f \<and> view fs' f = view fs f"
    using content by auto
qed

end
