(* ===== verification/BackupKeep.thy ===== *)
theory BackupKeep
  imports BackupChain
begin

text \<open>
  The removal of one item of a chain of backups that keeps the others (\<^verbatim>\<open>PBT_KEEP_CHAIN\<close>), and the
  properties of both ways to remove.
\<close>

section \<open>The last item\<close>

lemma keep_batch:
  assumes "distinct (A @ n # B)"
    and "confectioner_keep E root uuid fs (A @ n # B) n catalog = Inr b"
  shows "b = as_batch (shifter E root uuid fs (if A = [] then None else Some (last A))
    (if B = [] then None else Some (hd B)) n)"
proof -
  have p: "position n (A @ n # B) = length A" using assms(1) by (simp add: position_append) (simp add: position_def)
  have l: "n = last (A @ n # B) \<longleftrightarrow> B = []" using assms(1) by (cases B rule: rev_cases) auto
  have prev: "A \<noteq> [] \<Longrightarrow> (A @ n # B) ! (length A - 1) = last A" by (simp add: nth_append last_conv_nth)
  have "B \<noteq> [] \<Longrightarrow> (A @ n # B) ! (length A + 1) = hd B" by (simp add: nth_append hd_conv_nth)
  with assms(2) p l prev show ?thesis
    by (auto simp: confectioner_keep_def Let_def split: sum.splits if_splits)
qed

lemma keep_removal_of_last:
  assumes laws: "store_laws E" "image_laws E backing view"
    and wf: "well_formed_sequence E backing root uuid fs"
    and idx: "getIndex E root uuid fs = A @ [n]" "A \<noteq> []"
    and run: "succeeds (unlinkItem E (loaded_item E root uuid fs n)) fs fs'"
  shows "getIndex E root uuid fs' = A \<and> well_formed_sequence E backing root uuid fs' \<and>
    (\<forall>m \<in> set A. images E root uuid fs' m = images E root uuid fs m \<and>
      (\<forall>f \<in> set (images E root uuid fs m). view fs' f = view fs f)) \<and>
    (\<forall>q. \<not> below_dir (getSequence root uuid) q \<longrightarrow> map_of fs' q = map_of fs q)"
proof -
  have dist: "distinct (A @ [n])" using well_formedD(2) [OF wf] idx by simp
  have b: "confectioner_chain E root uuid fs (getIndex E root uuid fs) n =
      Inr (as_batch (unlinkItem E (loaded_item E root uuid fs n)))"
    unfolding confectioner_chain_def idx(1) collect_items_distinct [OF dist] using idx(2) by simp
  have "batch_execute (as_batch (unlinkItem E (loaded_item E root uuid fs n))) fs = (PRL_ERR_SUCCESS, fs')"
    using run by (simp add: batch_execute_def as_batch_map succeeds_def unlinkItem_def)
  from chain_removal_keeps_earlier [OF laws wf idx b this] show ?thesis unfolding images_def by metis
qed


section \<open>An item in the middle or the first one\<close>

text \<open>What the rebase of the next item's images and the change of its metadata do.\<close>

lemma keep_prepare_next:
  assumes laws: "store_laws E" "image_laws E backing view"
    and wf: "well_formed_sequence E backing root uuid fs"
    and idx: "getIndex E root uuid fs = A @ n # m # B"
    and p: "m_files p = last ([] # map (images E root uuid fs) A)"
    and rebases: "succeeds (rebaseItem E (loaded_item E root uuid fs m) p) fs f1"
    and metas: "meta E root uuid (loaded_item E root uuid fs m) (m_data (loaded_item E root uuid fs n))
      (m_data (loaded_item E root uuid fs m)) f1 = (PRL_ERR_SUCCESS, f2)"
  shows "q \<notin> set (images E root uuid fs m) \<Longrightarrow> q \<noteq> showItem E root uuid m \<Longrightarrow> map_of f2 q = map_of fs q"
    "based_on backing f2 (last ([] # map (images E root uuid fs) A)) (images E root uuid fs m)"
    "f \<in> set (concat (map (images E root uuid fs) (A @ n # m # B))) \<Longrightarrow> view f2 f = view fs f"
    "\<exists>l c. images E root uuid fs m = item_files root uuid l \<and> map_of f2 (showItem E root uuid m) = Some (File c) \<and>
      (if A = [] then \<exists>b. read_head E c = Inr b \<and> item_tibFileList b = l
       else \<exists>t. read_tail E c = Inr t \<and> item_tibFileList t = l)"
proof -
  let ?im = "images E root uuid fs" let ?F = "?im m" let ?L = "concat (map ?im (A @ n # m # B))"
  have dist: "distinct (A @ n # m # B)" using well_formedD(2) [OF wf] idx by simp
  have dL: "distinct ?L" using well_formedD(5) [OF wf] idx by simp
  have ord: "ordered backing fs ?L"
    using chain_is_ordered [OF well_formedD(6) [OF wf]] well_formedD(5) [OF wf] unfolding idx by blast
  have F: "distinct ?F" "set ?F \<subseteq> set ?L" using dL by auto
  have base: "position b ?L < position (?F ! j) ?L" if "j < length ?F" "base_of p j = Some b" for j b
  proof -
    have "A \<noteq> []" "b \<in> set (?im (last A))" using that(2) p
      by (auto simp: base_of_def last_map split: if_splits)
    then have bA: "b \<in> set (concat (map ?im A))" by auto
    have "?F ! j \<in> set ?F" using that(1) by simp
    then have Fj: "?F ! j \<notin> set (concat (map ?im A))" using dL by auto
    have L: "?L = concat (map ?im A) @ concat (map ?im (n # m # B))" by (simp only: map_append concat_append)
    show ?thesis unfolding L position_append using bA Fj position_less [OF bA]
      by (simp only: if_True if_False trans_less_add1)
  qed
  have run: "succeeds (map (\<lambda>i. rebase E (?F ! i) (base_of p i)) [0..<length ?F]) fs f1"
    using rebases by (simp add: rebaseItem_def images_def)
  from rebases_effect [OF laws(2) F base le0 ord run]
  have r: "\<And>q. q \<notin> set ?F \<Longrightarrow> map_of f1 q = map_of fs q"
    "\<And>j. j < length ?F \<Longrightarrow> \<exists>c. map_of f1 (?F ! j) = Some (File c) \<and> backing c = base_of p j"
    "ordered backing f1 ?L" "\<And>q. q \<in> set ?L \<Longrightarrow> view f1 q = view fs q" by auto
  have "m \<noteq> hd (A @ n # m # B)" using dist by (cases A) auto
  then have m: "m \<in> set (getIndex E root uuid fs)" "m \<noteq> hd (getIndex E root uuid fs)" by (simp_all add: idx)
  from well_formedD(4) [OF wf m(1)] m(2) obtain t where t: "getTailItem E root uuid m fs = Inr t"
    unfolding loaded_iff by auto
  note lm = loaded_tail [OF m t]
  have "n = hd (A @ n # m # B) \<longleftrightarrow> A = []" using dist by (cases A) auto
  then have n: "n \<in> set (getIndex E root uuid fs)" "n = hd (getIndex E root uuid fs) \<longleftrightarrow> A = []" by (simp_all add: idx)
  have data: "if A = [] then \<exists>b. m_data (loaded_item E root uuid fs n) = Head b else \<exists>t. m_data (loaded_item E root uuid fs n) = Tail t"
    using well_formedD(4) [OF wf n(1)] n loaded_head [OF n(1)] loaded_tail [OF n(1)]
    unfolding loaded_iff by (auto split: if_splits)
  have saved: "\<exists>c. map_of f2 = (map_of f1)(showItem E root uuid m \<mapsto> File c) \<and>
      (if A = [] then \<exists>b. read_head E c = Inr b \<and> item_tibFileList b = item_tibFileList t
       else \<exists>u. read_tail E c = Inr u \<and> item_tibFileList u = item_tibFileList t)"
  proof (cases "A = []")
    case True
    with data obtain b where "m_data (loaded_item E root uuid fs n) = Head b" by auto
    with metas lm have "saveToFile E (showItem E root uuid m)
        (head_text E (promoted E b t (meta_getSize E (loaded_item E root uuid fs m) f1))) f1 = (PRL_ERR_SUCCESS, f2)"
      by (simp add: meta_def save_def)
    from store_lawsD(3) [OF laws(1) this] True show ?thesis
      by (intro exI conjI) (auto simp: store_lawsD(4) [OF laws(1)] promoted_def)
  next
    case False
    with data obtain u where "m_data (loaded_item E root uuid fs n) = Tail u" by auto
    with metas lm have "saveToFile E (showItem E root uuid m)
        (tail_text E (t\<lparr>item_size := meta_getSize E (loaded_item E root uuid fs m) f1\<rparr>)) f1 = (PRL_ERR_SUCCESS, f2)"
      by (simp add: meta_def seq_update_def)
    from store_lawsD(3) [OF laws(1) this] False show ?thesis
      by (intro exI conjI) (auto simp: store_lawsD(5) [OF laws(1)])
  qed
  then obtain c where c: "map_of f2 = (map_of f1)(showItem E root uuid m \<mapsto> File c)" by blast
  have no: "f \<noteq> showItem E root uuid m" if "f \<in> set ?L" for f
    using that image_file(2) [OF wf, of _ f m] unfolding idx by auto
  show "q \<notin> set ?F \<Longrightarrow> q \<noteq> showItem E root uuid m \<Longrightarrow> map_of f2 q = map_of fs q" by (simp add: c r(1))
  show "based_on backing f2 (last ([] # map ?im A)) ?F" unfolding based_on_def
  proof (intro allI impI)
    fix j assume j: "j < length ?F"
    then have "?F ! j \<in> set ?L" by auto
    from no [OF this] have "map_of f2 (?F ! j) = map_of f1 (?F ! j)" by (simp add: c)
    with r(2) [OF j] show "\<exists>c. map_of f2 (?F ! j) = Some (File c) \<and>
        backing c = (if j < length (last ([] # map ?im A)) then Some (last ([] # map ?im A) ! j) else None)"
      by (simp only: base_of_def p)
  qed
  show "view f2 f = view fs f" if "f \<in> set ?L"
    using same_views [OF laws(2) r(3), of f2 f] no r(4) that by (simp add: c)
  show "\<exists>l c. images E root uuid fs m = item_files root uuid l \<and> map_of f2 (showItem E root uuid m) = Some (File c) \<and>
      (if A = [] then \<exists>b. read_head E c = Inr b \<and> item_tibFileList b = l
       else \<exists>t. read_tail E c = Inr t \<and> item_tibFileList t = l)"
  proof -
    have "?F = item_files root uuid (item_tibFileList t)" by (simp add: images_def lm)
    with saved show ?thesis by (intro exI [of _ "item_tibFileList t"]) auto
  qed
qed


lemma keep_removal_of_inner:
  assumes laws: "store_laws E" "image_laws E backing view"
    and wf: "well_formed_sequence E backing root uuid fs"
    and idx: "getIndex E root uuid fs = A @ n # m # B"
    and p: "m_files p = last ([] # map (images E root uuid fs) A)"
    and run: "succeeds (rebaseItem E (loaded_item E root uuid fs m) p @
      meta E root uuid (loaded_item E root uuid fs m) (m_data (loaded_item E root uuid fs n)) (m_data (loaded_item E root uuid fs m)) #
      unlinkItem E (loaded_item E root uuid fs n)) fs fs'"
  shows "getIndex E root uuid fs' = A @ m # B \<and> well_formed_sequence E backing root uuid fs' \<and>
    (\<forall>k \<in> set (A @ m # B). images E root uuid fs' k = images E root uuid fs k \<and>
      (\<forall>f \<in> set (images E root uuid fs k). view fs' f = view fs f)) \<and>
    (\<forall>q. \<not> below_dir (getSequence root uuid) q \<longrightarrow> map_of fs' q = map_of fs q)"
proof -
  let ?im = "images E root uuid fs"
  from run obtain f1 f2 where rebases: "succeeds (rebaseItem E (loaded_item E root uuid fs m) p) fs f1"
    and metas: "meta E root uuid (loaded_item E root uuid fs m) (m_data (loaded_item E root uuid fs n))
      (m_data (loaded_item E root uuid fs m)) f1 = (PRL_ERR_SUCCESS, f2)"
    and unlinks: "succeeds (unlinkItem E (loaded_item E root uuid fs n)) f2 fs'" by auto
  note nx = keep_prepare_next [OF laws wf idx p rebases metas]
  have dist: "distinct (A @ n # m # B)" using well_formedD(2) [OF wf] idx by simp
  have in_idx: "k \<in> set (getIndex E root uuid fs) \<longleftrightarrow> k = n \<or> k \<in> set (A @ m # B)" for k by (auto simp: idx)
  have nm: "n \<in> set (getIndex E root uuid fs)" "m \<in> set (getIndex E root uuid fs)" "n \<noteq> m"
    using dist by (auto simp: idx)
  obtain l c where lc: "?im m = item_files root uuid l" "map_of f2 (showItem E root uuid m) = Some (File c)"
    and new: "if A = [] then \<exists>b. read_head E c = Inr b \<and> item_tibFileList b = l
      else \<exists>t. read_tail E c = Inr t \<and> item_tibFileList t = l" using nx(4) by blast
  have imgs: "f \<in> set (?im m) \<Longrightarrow> (\<exists>c. map_of fs f = Some (File c)) \<and> (\<exists>c. map_of f2 f = Some (File c))" for f
    using image_file(1) [OF wf nm(2)] nx(2) by (auto simp: based_on_def in_set_conv_nth)
  have meta_m: "\<exists>c. map_of fs (showItem E root uuid m) = Some (File c)"
    by (rule loaded_form(4) [OF well_formedD(4) [OF wf nm(2)]])
  have dirs: "map_of f2 q = Some Dir \<longleftrightarrow> map_of fs q = Some Dir" for q
    using nx(1) [of q] imgs [of q] meta_m lc(2) by (cases "q \<in> set (?im m)"; cases "q = showItem E root uuid m") auto
  have some: "map_of f2 q = None \<longleftrightarrow> map_of fs q = None" for q
    using nx(1) [of q] imgs [of q] meta_m lc(2) by (cases "q \<in> set (?im m)"; cases "q = showItem E root uuid m") auto
  have gone: "map_of fs' q = (if \<exists>n \<in> {n}. below_dir (getItem E root uuid n) q \<or> q \<in> set (?im n) then None else map_of f2 q)"
    for q using unlinkItem_effect [OF laws(1) loaded_form(1) [OF well_formedD(4) [OF wf nm(1)]] unlinks, of q]
    by (simp add: images_def)
  have N: "{n} \<subseteq> set (getIndex E root uuid fs)" using nm(1) by simp
  note u = unlinked [OF laws(1) wf N dirs some gone]
  have rest: "set (getIndex E root uuid fs) - {n} = set (A @ m # B)" using dist by (auto simp: idx)
  have "filter (\<lambda>k. k \<notin> {n}) A = A" "filter (\<lambda>k. k \<notin> {n}) B = B"
    using dist by (intro filter_True; force)+
  then have "filter (\<lambda>k. k \<notin> {n}) (A @ n # m # B) = A @ m # B" using dist by auto
  with u(1) have index: "getIndex E root uuid fs' = A @ m # B" unfolding idx by simp
  have load: "m_lair (loaded_item E root uuid fs' k) \<noteq> None \<and> images E root uuid fs' k = ?im k" if k: "k \<in> set (A @ m # B)" for k
  proof (cases "k = m")
    case True
    have s: "map_of fs' (showItem E root uuid m) = Some (File c)"
      using u(2) [of m] lc(2) unfolding rest by simp
    show ?thesis
    proof (cases "A = []")
      case head: True
      with new obtain b where b: "read_head E c = Inr b" "item_tibFileList b = l" by auto
      have g: "getHeadItem E root uuid m fs' = Inr (b\<lparr>item_type := PRL_BACKUP_FULL_TYPE\<rparr>)"
        by (simp add: getHeadItem_def loadFromFile_def s b(1))
      have i: "m \<in> set (getIndex E root uuid fs')" "m = hd (getIndex E root uuid fs')" using head by (simp_all add: index)
      from loaded_head [OF i g] b(2) show ?thesis unfolding True lc(1) by (simp add: images_def)
    next
      case tail: False
      with new obtain t where t: "read_tail E c = Inr t" "item_tibFileList t = l" by auto
      have g: "getTailItem E root uuid m fs' = Inr (t\<lparr>item_type := PRL_BACKUP_INCREMENTAL_TYPE\<rparr>)"
        by (simp add: getTailItem_def loadFromFile_def s t(1))
      have "m \<noteq> hd (A @ m # B)" using tail dist by (cases A) auto
      then have i: "m \<in> set (getIndex E root uuid fs')" "m \<noteq> hd (getIndex E root uuid fs')" by (simp_all add: index)
      from loaded_tail [OF i g] t(2) show ?thesis unfolding True lc(1) by (simp add: images_def)
    qed
  next
    case False
    have "showItem E root uuid k \<noteq> showItem E root uuid m"
      using getItem_eq [OF laws(1), of root uuid k m] False by (simp add: showItem_def)
    moreover have "showItem E root uuid k \<notin> set (?im m)" using image_file(2) [OF wf nm(2)] by blast
    ultimately have "map_of fs' (showItem E root uuid k) = map_of fs (showItem E root uuid k)"
      using u(2) [of k] k nx(1) unfolding rest by simp
    moreover have "k \<noteq> n" using k dist by auto
    then have "k = hd (A @ m # B) \<longleftrightarrow> k = hd (A @ n # m # B)" using False by (cases A) auto
    ultimately have "loaded_item E root uuid fs' k = loaded_item E root uuid fs k"
      using k by (intro loaded_cong) (auto simp: index idx)
    with well_formedD(4) [OF wf, of k] k show ?thesis by (auto simp: in_idx images_def)
  qed
  have content: "map_of fs' f = map_of f2 f" if "f \<in> set (concat (map ?im (A @ m # B)))" for f
    using that u(3) unfolding rest by auto
  have chain: "chained backing f2 [] (map ?im (A @ m # B))"
  proof -
    have c: "chained backing fs [] (map ?im A)" "chained backing fs (?im m) (map ?im B)"
      using well_formedD(6) [OF wf] unfolding idx by (auto simp: chained_append)
    have "map_of f2 f = map_of fs f" if "f \<in> set (concat (map ?im A)) \<or> f \<in> set (concat (map ?im B))" for f
    proof (rule nx(1))
      show "f \<notin> set (?im m)" using that well_formedD(5) [OF wf] unfolding idx by auto
      show "f \<noteq> showItem E root uuid m" using that image_file(2) [OF wf, of _ f m] by (auto simp: idx)
    qed
    with c chained_cong [of "map ?im A" f2 fs] chained_cong [of "map ?im B" f2 fs]
    have "chained backing f2 [] (map ?im A)" "chained backing f2 (?im m) (map ?im B)" by blast+
    with nx(2) show ?thesis by (simp add: chained_append)
  qed
  have dL: "distinct (concat (map ?im (A @ m # B)))" using well_formedD(5) [OF wf] unfolding idx by auto
  have "chained backing fs' [] (map ?im (A @ m # B))"
    using chain chained_cong [of "map ?im (A @ m # B)" fs' f2] content by blast
  then have "well_formed_sequence E backing root uuid fs'"
    using u(4) load unfolding rest by (intro kept_sequence [OF wf u(1)]) (auto simp: index)
  moreover have "view fs' f = view fs f" if "f \<in> set (concat (map ?im (A @ m # B)))" for f
    using remaining_views [OF laws(2) chain dL content that] nx(3) [of f] that by auto
  moreover have "map_of fs' q = map_of fs q" if "\<not> below_dir (getSequence root uuid) q" for q
  proof -
    have "map_of f2 q = map_of fs q"
      by (rule nx(1) [OF images_outside [OF that well_formedD(4) [OF wf nm(2)]] outside_sequence(2) [OF that]])
    then show ?thesis using outside_sequence(1) [OF that, of E n] images_outside [OF that well_formedD(4) [OF wf nm(1)]]
      unfolding gone [of q] by simp
  qed
  ultimately show ?thesis using index load by auto
qed


section \<open>The properties\<close>

text \<open>C14. Removing one backup of a chain of at least two so that the chain is kept, when the
  batch succeeds, leaves exactly the other backups, in their order and as a well-formed sequence again:
  each can be loaded_item, has the images it had, and these show the guest the same data as before; nothing outside the
  sequence changes.
\<close>

theorem keep_chain_removal:
  assumes "store_laws E" "image_laws E backing view"
    and "well_formed_sequence E backing root uuid fs"
    and "n \<in> set (getIndex E root uuid fs)" "getIndex E root uuid fs \<noteq> [n]"
    and "confectioner_keep E root uuid fs (getIndex E root uuid fs) n catalog = Inr b"
    and "batch_execute b fs = (PRL_ERR_SUCCESS, fs')"
  shows "getIndex E root uuid fs' = remove1 n (getIndex E root uuid fs) \<and>
    well_formed_sequence E backing root uuid fs' \<and>
    (\<forall>m \<in> set (getIndex E root uuid fs'). images E root uuid fs' m = images E root uuid fs m \<and>
      (\<forall>f \<in> set (images E root uuid fs m). view fs' f = view fs f)) \<and>
    (\<forall>q. \<not> below_dir (getSequence root uuid) q \<longrightarrow> map_of fs' q = map_of fs q)"
proof -
  from split_list [OF assms(4)] obtain A B where idx: "getIndex E root uuid fs = A @ n # B" by auto
  have dist: "distinct (A @ n # B)" using well_formedD(2) [OF assms(3)] idx by simp
  then have removed: "remove1 n (A @ n # B) = A @ B" by (simp add: remove1_append)
  let ?shift = "shifter E root uuid fs (if A = [] then None else Some (last A)) (if B = [] then None else Some (hd B)) n"
  have "b = as_batch ?shift" using keep_batch [OF dist] assms(6) unfolding idx by blast
  with assms(7) have run: "succeeds ?shift fs fs'" by (auto intro: execute_succeeds)
  show ?thesis
  proof (cases B)
    case Nil
    with assms(5) idx have "getIndex E root uuid fs = A @ [n]" "A \<noteq> []" by auto
    moreover have "succeeds (unlinkItem E (loaded_item E root uuid fs n)) fs fs'"
      using run Nil by (simp add: shifter_def)
    ultimately show ?thesis using keep_removal_of_last [OF assms(1-3)] removed Nil by (simp add: idx)
  next
    case (Cons m B')
    let ?p = "if A = [] then rm_item_of E 0 else loaded_item E root uuid fs (last A)"
    have p: "m_files ?p = last ([] # map (images E root uuid fs) A)"
      by (simp add: rm_item_of_def images_def last_map)
    have "shifter E root uuid fs (if A = [] then None else Some (last A)) (Some m) n =
      rebaseItem E (loaded_item E root uuid fs m) ?p @
      meta E root uuid (loaded_item E root uuid fs m) (m_data (loaded_item E root uuid fs n)) (m_data (loaded_item E root uuid fs m)) #
      unlinkItem E (loaded_item E root uuid fs n)"
      by (simp add: shifter_def Let_def)
    with run Cons have "succeeds (rebaseItem E (loaded_item E root uuid fs m) ?p @
      meta E root uuid (loaded_item E root uuid fs m) (m_data (loaded_item E root uuid fs n)) (m_data (loaded_item E root uuid fs m)) #
      unlinkItem E (loaded_item E root uuid fs n)) fs fs'" by simp
    from keep_removal_of_inner [OF assms(1-3) _ p this] idx Cons removed show ?thesis by simp
  qed
qed

end
