(* ===== verification/BackupCreation.thy ===== *)
theory BackupCreation
  imports BackupChain
begin

text \<open>
  The creation of backups on the server (\<^verbatim>\<open>Tasks/Task_CreateVmBackupTarget.cpp\<close>, with
  \<^verbatim>\<open>Task_BackupMixin\<close> of \<^verbatim>\<open>Tasks/Task_BackupHelper.cpp\<close>): the full backup that an incremental one
  continues, the choice between the two, the number, the metadata, and the clean-up after a
  failure.  Copying files and starting the archiver are outside the repository's reach.
\<close>

section \<open>The last full backup\<close>

text \<open>
  The loop over the sequences; those that are being written are passed over.  \<open>None\<close> where
  \<^verbatim>\<open>first()\<close> of an empty index is evaluated.
\<close>

fun lastBase_loop ::
  "'c backup_env \<Rightarrow> nat \<Rightarrow> path \<Rightarrow> 'c files \<Rightarrow> qstring list \<Rightarrow> int \<Rightarrow> backup_item option \<Rightarrow> metadata_lock \<Rightarrow>
   (backup_item option \<times> metadata_lock) option" where
  "lastBase_loop E thread c fs [] lastDateTime a lock = Some (a, lock)"
| "lastBase_loop E thread c fs (u # us) lastDateTime a lock =
     (case grabShared thread u lock of (e, lock1) \<Rightarrow>
        if prl_failed e then lastBase_loop E thread c fs us lastDateTime a lock1
        else (case first_item (getIndex E c u fs) of
                None \<Rightarrow> None
              | Some i \<Rightarrow>
                  let lock2 = releaseShared thread u lock1 in
                  (case getHeadItem E c u i fs of
                     Inl _ \<Rightarrow> lastBase_loop E thread c fs us lastDateTime a lock2
                   | Inr b \<Rightarrow>
                       if lastDateTime \<le> item_dateTime b
                       then lastBase_loop E thread c fs us (item_dateTime b) (Some b) lock2
                       else lastBase_loop E thread c fs us lastDateTime a lock2)))"

definition getLastBaseBackup ::
  "'c backup_env \<Rightarrow> nat \<Rightarrow> bool \<Rightarrow> bool \<Rightarrow> int \<Rightarrow> path \<Rightarrow> 'c files \<Rightarrow> metadata_lock \<Rightarrow>
   (backup_item option \<times> metadata_lock) option" where
  "getLastBaseBackup E thread mode_write with_auth epoch c fs lock =
     lastBase_loop E thread c fs
       (if mode_write \<and> with_auth then getIndexForWrite E c fs else getIndexForRead E with_auth c fs)
       epoch None lock"


section \<open>Full or incremental\<close>

record backup_choice =
  PBT_FULL :: bool
  PBT_INCREMENTAL :: bool
  m_sBackupUuid :: qstring
  m_nBackupNumber :: "32 word"

text \<open>
  \<open>hdd\<close> is the answer of \<^verbatim>\<open>wasHddListChanged\<close>, \<open>fresh\<close> the uuid that a new sequence would get,
  \<open>vzfs\<close> the flag \<^verbatim>\<open>PVM_CT_VZFS_BACKUP\<close>.  The pair's first part is \<^verbatim>\<open>f\<close>: a full backup is needed.
\<close>

definition guess_incremental ::
  "'c backup_env \<Rightarrow> path \<Rightarrow> 'c files \<Rightarrow> backup_item option \<Rightarrow> bool \<Rightarrow> (qstring \<Rightarrow> prl_result + bool) \<Rightarrow> nat \<Rightarrow>
   qstring list \<Rightarrow> backup_choice \<Rightarrow> prl_result + (bool \<times> backup_choice)" where
  "guess_incremental E c fs lastBase vzfs hdd remote bitmaps s =
     (if PBT_FULL s then Inr (True, s)
      else (case lastBase of
        None \<Rightarrow> Inr (True, s)
      | Some b \<Rightarrow>
          let i = getIndex E c (item_uuid b) fs;
              number = (if i = [] then BASE else last i + 1);
              s1 = s\<lparr>m_sBackupUuid := item_uuid b, m_nBackupNumber := number\<rparr>
          in if item_lastNumber b \<noteq> 0 \<and> number \<noteq> item_lastNumber b + 1 then Inr (True, s1)
             else if vzfs then Inr (False, s1)
             else (case hdd (item_uuid b) of
                     Inl e \<Rightarrow> Inl e
                   | Inr changed \<Rightarrow>
                       Inr (if BACKUP_PROTO_V4 E \<le> remote then item_uuid b \<notin> set bitmaps else changed, s1))))"

definition guessBackupType ::
  "'c backup_env \<Rightarrow> path \<Rightarrow> 'c files \<Rightarrow> backup_item option \<Rightarrow> bool \<Rightarrow> (qstring \<Rightarrow> prl_result + bool) \<Rightarrow> nat \<Rightarrow>
   qstring list \<Rightarrow> qstring \<Rightarrow> backup_choice \<Rightarrow> prl_result + backup_choice" where
  "guessBackupType E c fs lastBase vzfs hdd remote bitmaps fresh s =
     (case guess_incremental E c fs lastBase vzfs hdd remote bitmaps s of
        Inl e \<Rightarrow> Inl e
      | Inr (f, s1) \<Rightarrow>
          Inr (if f then s1\<lparr>PBT_INCREMENTAL := False, PBT_FULL := True, m_sBackupUuid := fresh, m_nBackupNumber := BASE\<rparr>
               else s1))"


section \<open>The metadata\<close>

text \<open>What the task knows of the backup; \<open>now\<close> is the clock, \<open>archives\<close> the files it has written.\<close>

record backup_facts =
  now :: int
  source_host :: qstring
  server_uuid :: qstring
  creator :: qstring
  backup_size :: "64 word"
  description :: qstring
  archives :: "qstring list"
  original_size :: "64 word"
  bundle_permissions :: "32 word"
  type_flags :: "32 word"
  the_ve :: ve_item

text \<open>A full backup is dated after the last one even when the clock says otherwise.\<close>

definition full_date :: "int \<Rightarrow> backup_item option \<Rightarrow> int" where
  "full_date x lastBase =
     (case lastBase of None \<Rightarrow> x | Some b \<Rightarrow> if item_dateTime b - x \<ge> 0 then item_dateTime b + 1 else x)"

definition full_item :: "'c backup_env \<Rightarrow> backup_facts \<Rightarrow> backup_item option \<Rightarrow> backup_choice \<Rightarrow> backup_item" where
  "full_item E F lastBase s = (blank_head E)
     \<lparr>item_uuid := m_sBackupUuid s, item_ident := m_sBackupUuid s, item_host := source_host F,
      item_serverUuid := server_uuid F, item_dateTime := full_date (now F) lastBase,
      item_creator := creator F, item_size := backup_size F, item_type := PRL_BACKUP_FULL_TYPE,
      item_description := description F, item_tibFileList := archives F,
      item_originalSize := original_size F, item_bundlePermissions := bundle_permissions F,
      item_flags := type_flags F\<rparr>"

definition tail_item :: "'c backup_env \<Rightarrow> backup_facts \<Rightarrow> backup_choice \<Rightarrow> partial_item" where
  "tail_item E F s = (blank_tail E)
     \<lparr>item_number := m_nBackupNumber s, item_ident := m_sBackupUuid s @ ''.'' @ number_text E (m_nBackupNumber s),
      item_host := source_host F, item_serverUuid := server_uuid F, item_dateTime := now F,
      item_creator := creator F, item_size := backup_size F,
      item_type := (if PBT_INCREMENTAL s then PRL_BACKUP_INCREMENTAL_TYPE else PRL_BACKUP_DIFFERENTIAL_TYPE),
      item_description := description F, item_tibFileList := archives F,
      item_originalSize := original_size F, item_bundlePermissions := bundle_permissions F,
      item_flags := type_flags F\<rparr>"

definition saveMetadata ::
  "'c backup_env \<Rightarrow> path \<Rightarrow> backup_facts \<Rightarrow> backup_item option \<Rightarrow> backup_choice \<Rightarrow> 'c files \<Rightarrow> (prl_result \<times> 'c files) option" where
  "saveMetadata E c F lastBase s fs =
     (case (if PBT_FULL s then Some (save E c (m_sBackupUuid s) (full_item E F lastBase s) BASE fs)
            else create E c (m_sBackupUuid s) (tail_item E F s) (m_nBackupNumber s) fs) of
        None \<Rightarrow> None
      | Some (e, fs1) \<Rightarrow>
          if prl_failed e then Some (e, fs1)
          else (case ve_saveItem E c (the_ve F) (fs1, None) of (e, fs2, _) \<Rightarrow> Some (e, fs2)))"

text \<open>
  \<^verbatim>\<open>finalizeTask\<close> after a failure: the archives and the item go, and the catalogue when no
  sequence is left in it.  The results of the removals are not looked at.
\<close>

fun remove_archives :: "'c backup_env \<Rightarrow> path list \<Rightarrow> 'c files \<Rightarrow> 'c files" where
  "remove_archives E [] fs = fs"
| "remove_archives E (p # ps) fs = remove_archives E ps (snd (remove_file E p fs))"

definition create_cleanup ::
  "'c backup_env \<Rightarrow> path \<Rightarrow> qstring list \<Rightarrow> bool \<Rightarrow> backup_choice \<Rightarrow> 'c files \<Rightarrow> 'c files" where
  "create_cleanup E c tibs target_known s fs =
     (let fs1 = remove_archives E (map (\<lambda>f. getSequence c (m_sBackupUuid s) @ [f]) tibs) fs in
      if \<not> target_known then fs1
      else
        let fs2 = snd (seq_remove E c (m_sBackupUuid s) (m_nBackupNumber s) fs1) in
        if getIndexForRead E False c fs2 = [] then snd (ClearAndDeleteDir E (Some c) fs2) else fs2)"


section \<open>An incremental backup is appended\<close>

lemma sort_snoc:
  fixes xs :: "'a :: linorder list"
  assumes "mset ys = add_mset x (mset xs)" "\<forall>z \<in> set xs. z \<le> x"
  shows "sort ys = sort xs @ [x]"
proof (rule properties_for_sort)
  show "mset (sort xs @ [x]) = mset ys" by (simp add: assms(1))
  show "sorted (sort xs @ [x])" using assms(2) by (simp add: sorted_append)
qed

lemma sorted_last: "z \<in> set xs \<Longrightarrow> sorted xs \<Longrightarrow> (z :: 'a :: linorder) \<le> last xs"
  by (induction xs) auto

lemma last_index_greatest:
  assumes "getIndex E root uuid fs \<noteq> []" "0 \<notin> set (getIndex E root uuid fs)" "k \<in> set (getIndex E root uuid fs)"
  shows "k \<le> last (getIndex E root uuid fs)"
proof -
  let ?s = "sort (numbered_items E root uuid fs)"
  have i: "getIndex E root uuid fs = [BASE] @ ?s \<or> getIndex E root uuid fs = ?s" "set ?s \<subseteq> set (getIndex E root uuid fs)"
    using assms(1) by (auto simp: getIndex_def split: if_splits)
  have top: "z \<in> set ?s \<Longrightarrow> z \<le> last ?s" for z by (rule sorted_last, assumption, simp)
  show ?thesis
  proof (cases "?s = []")
    case True
    with i(1) assms(1,3) show ?thesis by auto
  next
    case False
    then have l: "last (getIndex E root uuid fs) = last ?s" using i(1) by auto
    have "last ?s \<in> set ?s" using False by (rule last_in_set)
    then have "last ?s \<noteq> 0" using i(2) assms(2) by auto
    then have "BASE \<le> last ?s" by (simp add: BASE_def word_le_nat_alt Suc_le_eq unat_gt_0)
    with assms(3) i(1) top show ?thesis unfolding l by auto
  qed
qed


text \<open>Directories of items are named by their number in the form in which the code writes it.\<close>

definition canonical_names :: "'c backup_env \<Rightarrow> path \<Rightarrow> qstring \<Rightarrow> 'c files \<Rightarrow> bool" where
  "canonical_names E root uuid fs \<longleftrightarrow>
     (\<forall>x n. map_of fs (getSequence root uuid @ [x]) = Some Dir \<longrightarrow> QString_toUInt E x = Some n \<longrightarrow> x = number_text E n)"

lemma showItem_eq: "store_laws E \<Longrightarrow> showItem E root uuid n = showItem E root uuid m \<longleftrightarrow> n = m"
  by (simp add: showItem_def getItem_eq)

text \<open>Making the directory of an item and writing its metadata.\<close>

lemma index_grows:
  assumes laws: "store_laws E" and names: "canonical_names E root uuid fs"
    and fresh: "map_of fs (showItem E root uuid n) = None"
    and idx: "getIndex E root uuid fs \<noteq> []" "\<forall>k \<in> set (getIndex E root uuid fs). k < n" and n: "n \<noteq> BASE"
    and new: "map_of fs1 = (map_of fs)(getItem E root uuid n \<mapsto> Dir, showItem E root uuid n \<mapsto> File c)"
  shows "getIndex E root uuid fs1 = getIndex E root uuid fs @ [n]"
proof -
  let ?d = "getSequence root uuid"
  let ?X = "\<lambda>fs. {x. map_of fs (?d @ [x]) = Some Dir \<and> (\<exists>n. QString_toUInt E x = Some n \<and> path_exists (showItem E root uuid n) fs)}"
  have item: "getItem E root uuid n = ?d @ [number_text E n]" using n by (simp add: getItem_def)
  have apart: "showItem E root uuid k \<noteq> getItem E root uuid n" for k by (simp add: showItem_def getItem_def)
  have d: "map_of fs1 (?d @ xs) = Some Dir \<longleftrightarrow> map_of fs (?d @ xs) = Some Dir \<or> xs = [number_text E n]"
    if "length xs < 2" for xs
    using that apart by (auto simp: new item showItem_def)
  have meta: "path_exists (showItem E root uuid m) fs1 \<longleftrightarrow> m = n \<or> path_exists (showItem E root uuid m) fs" for m
    using showItem_eq [OF laws] apart by (auto simp: path_exists_def new)
  have num: "QString_toUInt E (number_text E n) = Some n" by (rule store_lawsD(7) [OF laws])
  have X: "?X fs1 = insert (number_text E n) (?X fs)"
  proof (rule set_eqI)
    fix x
    have "map_of fs (?d @ [x]) = Some Dir \<Longrightarrow> QString_toUInt E x = Some n \<longleftrightarrow> x = number_text E n"
      using names num by (auto simp: canonical_names_def)
    then show "x \<in> ?X fs1 \<longleftrightarrow> x \<in> insert (number_text E n) (?X fs)"
      using d [of "[x]"] num by (auto simp: meta)
  qed
  have notin: "number_text E n \<notin> ?X fs" using fresh num by (auto simp: path_exists_def)
  have fin: "finite (?X fs)"
  proof (rule finite_subset)
    show "?X fs \<subseteq> last ` dom (map_of fs)" by (force simp: image_iff)
  qed (simp add: finite_dom_map_of)
  have m: "mset (numbered_items E root uuid fs1) = add_mset n (mset (numbered_items E root uuid fs))"
    unfolding numbered_items_mset X using fin notin by (simp add: num)
  have in_seq: "is_dir ?d fs" using idx(1) by (auto simp: getIndex_def split: if_splits)
  have le: "\<forall>z \<in> set (numbered_items E root uuid fs). z \<le> n"
    using idx(2) in_seq by (auto simp: getIndex_def less_imp_le)
  have "is_dir ?d fs1 \<longleftrightarrow> is_dir ?d fs" using d [of "[]"] by (simp add: is_dir_iff)
  moreover have "is_dir (getItem E root uuid BASE) fs1 \<longleftrightarrow> is_dir (getItem E root uuid BASE) fs"
    using d [of "[''base'']"] store_lawsD(6) [OF laws, of n] by (simp add: is_dir_iff getItem_def)
  ultimately show ?thesis using sort_snoc [OF m le] in_seq by (simp add: getIndex_def)
qed

lemma next_number:
  assumes "getIndex E root uuid fs \<noteq> []" "0 \<notin> set (getIndex E root uuid fs)"
    and "n = last (getIndex E root uuid fs) + 1" "last (getIndex E root uuid fs) \<noteq> -1"
  shows "\<forall>k \<in> set (getIndex E root uuid fs). k < n" "n \<noteq> BASE"
proof -
  let ?l = "last (getIndex E root uuid fs)"
  have "1 + ?l \<noteq> 0" using assms(4) by (metis add_eq_0_iff add.commute)
  then have "?l < n" unfolding assms(3) word_less_nat_alt by (simp add: unatSuc add.commute)
  with last_index_greatest [OF assms(1,2)] show "\<forall>k \<in> set (getIndex E root uuid fs). k < n"
    by (auto intro: le_less_trans)
  have "?l \<noteq> 0" using assms(1,2) by (metis last_in_set)
  then show "n \<noteq> BASE" unfolding assms(3) BASE_def by (metis add_cancel_left_left)
qed

lemma head_code_fails:
  "store_laws E \<Longrightarrow> getHeadItem E root uuid n fs = Inl e \<Longrightarrow> prl_failed e"
  using store_lawsD(9) [of E] store_lawsD(10) [of E]
  by (auto simp: getHeadItem_def loadFromFile_def prl_failed_def split: sum.splits if_splits option.splits node.splits)

text \<open>C16. An incremental backup that is created with the number that the choice gives it, one more than
  the last of its sequence, becomes the last item of the index; its metadata are what was written, the
  full backup gets it as its last number, with which the next choice compares the index, and
  nothing else changes but the item's directory.
\<close>

theorem incremental_backup_is_appended:
  assumes "store_laws E" "canonical_names E root (item_uuid b) fs"
    and "guess_incremental E root fs (Some b) vzfs hdd remote bitmaps s = Inr (False, s')"
    and "getIndex E root (item_uuid b) fs \<noteq> []" "0 \<notin> set (getIndex E root (item_uuid b) fs)"
      "last (getIndex E root (item_uuid b) fs) \<noteq> -1"
    and "map_of fs1 = (map_of fs)(getItem E root (item_uuid b) (m_nBackupNumber s') \<mapsto> Dir)"
      "map_of fs (showItem E root (item_uuid b) (m_nBackupNumber s')) = None"
    and "create E root (m_sBackupUuid s') p (m_nBackupNumber s') fs1 = Some (PRL_ERR_SUCCESS, fs2)"
  shows "m_nBackupNumber s' = last (getIndex E root (item_uuid b) fs) + 1 \<and>
    getIndex E root (item_uuid b) fs2 = getIndex E root (item_uuid b) fs @ [m_nBackupNumber s'] \<and>
    getTailItem E root (item_uuid b) (m_nBackupNumber s') fs2 = Inr (p\<lparr>item_type := PRL_BACKUP_INCREMENTAL_TYPE\<rparr>) \<and>
    (\<exists>h. getHeadItem E root (item_uuid b) (hd (getIndex E root (item_uuid b) fs)) fs = Inr h \<and>
       getHeadItem E root (item_uuid b) (hd (getIndex E root (item_uuid b) fs)) fs2 =
         Inr (h\<lparr>item_lastNumber := m_nBackupNumber s'\<rparr>)) \<and>
    (\<forall>q. q \<noteq> getItem E root (item_uuid b) (m_nBackupNumber s') \<and> q \<noteq> showItem E root (item_uuid b) (m_nBackupNumber s') \<and>
       q \<noteq> showItem E root (item_uuid b) (hd (getIndex E root (item_uuid b) fs)) \<longrightarrow> map_of fs2 q = map_of fs q)"
proof -
  let ?u = "item_uuid b" let ?i = "getIndex E root ?u fs" let ?n = "m_nBackupNumber s'"
  have s': "m_sBackupUuid s' = ?u" "?n = last ?i + 1"
    using assms(3,4) by (auto simp: guess_incremental_def Let_def split: if_splits sum.splits)
  note n = next_number [OF assms(4,5) s'(2) assms(6)]
  obtain fs3 where u: "seq_update E root ?u p ?n fs1 = (PRL_ERR_SUCCESS, fs3)"
    and rest: "(case first_item (getIndex E root ?u fs3) of None \<Rightarrow> None
      | Some i \<Rightarrow> (case getHeadItem E root ?u i fs3 of Inl e \<Rightarrow> Some (e, fs3)
          | Inr h \<Rightarrow> Some (save E root ?u (h\<lparr>item_lastNumber := ?n\<rparr>) i fs3))) = Some (PRL_ERR_SUCCESS, fs2)"
    using assms(9) unfolding create_def s'(1) by (auto simp: prl_failed_def split: prod.splits if_splits)
  have m3: "map_of fs3 = (map_of fs)(getItem E root ?u ?n \<mapsto> Dir, showItem E root ?u ?n \<mapsto> File (tail_text E p))"
    using store_lawsD(3) [OF assms(1) u [unfolded seq_update_def]] assms(7) by simp
  note g = index_grows [OF assms(1,2,8,4) n m3]
  let ?h = "hd ?i"
  have h: "first_item (?i @ [?n]) = Some ?h" using assms(4) by (cases ?i) (simp_all add: first_item_def)
  from rest obtain h0 where h0: "getHeadItem E root ?u ?h fs3 = Inr h0"
    and saved: "save E root ?u (h0\<lparr>item_lastNumber := ?n\<rparr>) ?h fs3 = (PRL_ERR_SUCCESS, fs2)"
    unfolding g h using head_code_fails [OF assms(1), of root ?u ?h fs3] by (auto split: sum.splits)
  have m2: "map_of fs2 = (map_of fs3)(showItem E root ?u ?h \<mapsto> File (head_text E (h0\<lparr>item_lastNumber := ?n\<rparr>)))"
    using store_lawsD(3) [OF assms(1) saved [unfolded save_def]] .
  from getHeadItem_file [OF h0] obtain c where c: "map_of fs3 (showItem E root ?u ?h) = Some (File c)" ..
  have "cut E root ?u {} fs3 fs2" using c by (auto simp: cut_def m2)
  from cut_index [OF assms(1) this] g have index: "getIndex E root ?u fs2 = ?i @ [?n]" by simp
  have "?h \<in> set ?i" using assms(4) by simp
  with n(1) have hn: "?h \<noteq> ?n" by auto
  then have items: "showItem E root ?u ?h \<noteq> showItem E root ?u ?n" "showItem E root ?u k \<noteq> getItem E root ?u ?n" for k
    using showItem_eq [OF assms(1)] by (auto simp: showItem_def getItem_def)
  have "getHeadItem E root ?u ?h fs = getHeadItem E root ?u ?h fs3"
    using getItem_cong [of fs3 E root ?u ?h fs] items by (simp add: m3)
  then have before: "getHeadItem E root ?u ?h fs = Inr h0" by (simp add: h0)
  have "h0\<lparr>item_type := PRL_BACKUP_FULL_TYPE\<rparr> = h0"
    using h0 by (auto simp: getHeadItem_def split: sum.splits if_splits)
  then have after: "getHeadItem E root ?u ?h fs2 = Inr (h0\<lparr>item_lastNumber := ?n\<rparr>)"
    by (cases h0) (simp add: getHeadItem_def loadFromFile_def m2 store_lawsD(4) [OF assms(1)])
  have tail: "getTailItem E root ?u ?n fs2 = Inr (p\<lparr>item_type := PRL_BACKUP_INCREMENTAL_TYPE\<rparr>)"
    using items by (simp add: getTailItem_def loadFromFile_def m2 m3 store_lawsD(5) [OF assms(1)])
  have "\<forall>q. q \<noteq> getItem E root ?u ?n \<and> q \<noteq> showItem E root ?u ?n \<and> q \<noteq> showItem E root ?u ?h \<longrightarrow> map_of fs2 q = map_of fs q"
    by (simp add: m2 m3)
  with s'(2) index before after tail show ?thesis by blast
qed


section \<open>Dates, disks and clean-up\<close>

lemma full_backup_is_dated_later: "item_dateTime b < full_date x (Some b)"
  by (simp add: full_date_def)

text \<open>The loop finds the latest date among the sequences that nobody writes.\<close>

lemma last_base_is_latest:
  "lastBase_loop E thread c fs us d a lock = Some (r, lock') \<Longrightarrow>
   (case a of None \<Rightarrow> True | Some b \<Rightarrow> item_dateTime b = d) \<Longrightarrow>
   m_exclusive lock' = m_exclusive lock \<and>
   (\<forall>b. r = Some b \<longrightarrow> (d \<le> item_dateTime b \<and>
      (\<forall>u \<in> set us. u \<notin> m_exclusive lock \<longrightarrow>
         (\<forall>i h. first_item (getIndex E c u fs) = Some i \<longrightarrow> getHeadItem E c u i fs = Inr h \<longrightarrow>
            item_dateTime h \<le> item_dateTime b)))) \<and>
   (r = None \<longrightarrow> a = None)"
proof (induction us arbitrary: d a lock)
  case Nil
  then show ?case by (auto split: option.splits)
next
  case (Cons u us)
  show ?case
  proof (cases "u \<in> m_exclusive lock")
    case True
    then have "grabShared thread u lock = (PRL_ERR_BACKUP_LOCKED_FOR_WRITING, lock)" by (simp add: grabShared_def)
    with Cons.prems Cons.IH [of d a lock] True show ?thesis by (simp add: prl_failed_def)
  next
    case False
    let ?l1 = "lock\<lparr>m_shared := (u, thread) # m_shared lock\<rparr>" let ?l2 = "releaseShared thread u ?l1"
    have g: "grabShared thread u lock = (PRL_ERR_SUCCESS, ?l1)" using False by (simp add: grabShared_def)
    from Cons.prems(1) g obtain i where i: "first_item (getIndex E c u fs) = Some i"
      by (auto split: option.splits)
    show ?thesis
    proof (cases "getHeadItem E c u i fs")
      case (Inl e)
      with Cons.prems g i have "lastBase_loop E thread c fs us d a ?l2 = Some (r, lock')" by (simp add: Let_def)
      from Cons.IH [OF this Cons.prems(2)] i Inl show ?thesis by auto
    next
      case (Inr b)
      show ?thesis
      proof (cases "d \<le> item_dateTime b")
        case True
        with Cons.prems g i Inr have "lastBase_loop E thread c fs us (item_dateTime b) (Some b) ?l2 = Some (r, lock')"
          by (simp add: Let_def)
        from Cons.IH [OF this] i Inr True show ?thesis by fastforce
      next
        case later: False
        with Cons.prems g i Inr have "lastBase_loop E thread c fs us d a ?l2 = Some (r, lock')" by (simp add: Let_def)
        from Cons.IH [OF this Cons.prems(2)] i Inr later show ?thesis by fastforce
      qed
    qed
  qed
qed

text \<open>
  With a source of version 4 or later the answer that the list of disks has changed is overwritten by
  the test of the bitmaps: the backup stays incremental.
\<close>

lemma changed_disks_are_forgotten:
  assumes "\<not> PBT_FULL s" "BACKUP_PROTO_V4 E \<le> remote" "item_uuid b \<in> set bitmaps" "hdd (item_uuid b) = Inr True"
    and "item_lastNumber b = 0"
  shows "\<exists>s'. guessBackupType E c fs (Some b) False hdd remote bitmaps fresh s = Inr s' \<and> \<not> PBT_FULL s' \<and>
    m_sBackupUuid s' = item_uuid b"
  using assms by (simp add: guessBackupType_def guess_incremental_def Let_def)

text \<open>
  The clean-up removes the item's directory also when the task failed because that directory, with
  what it holds, was there before.
\<close>

lemma cleanup_removes_the_item:
  assumes "store_laws E" "is_dir (getSequence c (m_sBackupUuid s)) fs"
    and "ClearAndDeleteDir E (Some (getItem E c (m_sBackupUuid s) (m_nBackupNumber s))) fs = (True, fs1)"
    and "getIndex E c (m_sBackupUuid s) fs1 \<noteq> []" "getIndexForRead E False c fs1 \<noteq> []"
    and "below_dir (getItem E c (m_sBackupUuid s) (m_nBackupNumber s)) q"
  shows "map_of (create_cleanup E c [] True s fs) q = None"
  using assms store_lawsD(1) [OF assms(1,3), of q] by (simp add: create_cleanup_def seq_remove_def Let_def)

end
