(* ===== verification/BackupCases.thy ===== *)
theory BackupCases
  imports BackupKeep BackupCreation
begin

text \<open>
  The removal of a backup with those that depend on it; the cases in which removals do what their
  callers do not expect; and a directory of backups on which the properties are tried out.
\<close>

section \<open>Removal with the dependent items\<close>

text \<open>For the first item, and for a number that no item has, the batch removes the sequence.\<close>

lemma whole_sequence_batch:
  assumes "number \<notin> set (k # B) \<or> number = k \<and> distinct (k # B)"
  shows "confectioner_chain E root uuid fs (k # B) number =
    Inr (as_batch [rmdir E (map_option butlast (m_lair (loaded_item E root uuid fs k)))])"
proof -
  have "fst (collect_items E root uuid fs number (k # B) 0 []) = 0"
  proof (cases "number \<in> set (k # B)")
    case True
    with assms have "number = k" "distinct ([] @ k # B)" by auto
    with collect_items_distinct [OF this(2), of E root uuid fs] show ?thesis by simp
  next
    case False
    then show ?thesis unfolding collect_items_eq by simp
  qed
  moreover have "snd (collect_items E root uuid fs number (k # B) 0 []) = map (loaded_item E root uuid fs) (k # B)"
    unfolding collect_items_eq by simp
  ultimately have "collect_items E root uuid fs number (k # B) 0 [] = (0, map (loaded_item E root uuid fs) (k # B))"
    by (intro prod_eqI) (simp_all only: fst_conv snd_conv)
  then show ?thesis unfolding confectioner_chain_def by (simp only:) simp
qed

lemma whole_sequence_removed:
  assumes laws: "store_laws E" and wf: "well_formed_sequence E backing root uuid fs"
    and n: "n \<notin> set (getIndex E root uuid fs) \<or> n = hd (getIndex E root uuid fs)"
    and b: "confectioner_chain E root uuid fs (getIndex E root uuid fs) n = Inr b"
    and run: "batch_execute b fs = (PRL_ERR_SUCCESS, fs')"
  shows "map_of fs' q = (if below_dir (getSequence root uuid) q then None else map_of fs q)"
    "getIndex E root uuid fs' = []"
proof -
  obtain k B where idx: "getIndex E root uuid fs = k # B" using well_formedD(1) [OF wf] by (cases "getIndex E root uuid fs") auto
  have "m_lair (loaded_item E root uuid fs k) = Some (getItem E root uuid k)"
    by (rule loaded_form(1) [OF well_formedD(4) [OF wf]]) (simp add: idx)
  then have "map_option butlast (m_lair (loaded_item E root uuid fs k)) = Some (getSequence root uuid)"
    using getItem_name [of E root uuid k] by auto
  moreover have "n \<notin> set (k # B) \<or> n = k \<and> distinct (k # B)" using n well_formedD(2) [OF wf] by (auto simp: idx)
  from whole_sequence_batch [OF this] b have "b = as_batch [rmdir E (map_option butlast (m_lair (loaded_item E root uuid fs k)))]"
    unfolding idx by (metis sum.inject(2))
  ultimately have "rmdir E (Some (getSequence root uuid)) fs = (PRL_ERR_SUCCESS, fs')"
    using execute_succeeds [of _ fs fs'] run by fastforce
  note m = rmdir_map [OF laws this]
  show "map_of fs' q = (if below_dir (getSequence root uuid) q then None else map_of fs q)" by (rule m)
  have "\<not> is_dir (getSequence root uuid) fs'" by (simp add: is_dir_iff m)
  then show "getIndex E root uuid fs' = []" by (simp add: getIndex_def)
qed

text \<open>C15. Removing a backup with what depends on it, when the batch succeeds, leaves exactly the
  backups before it in its sequence, untouched: the same metadata, the same files, the same data.
  Removing the first one removes the directory of the sequence.  Nothing outside changes.
\<close>

theorem removal_with_dependents:
  assumes "store_laws E" "image_laws E backing view"
    and "well_formed_sequence E backing root uuid fs"
    and "n \<in> set (getIndex E root uuid fs)"
    and "confectioner_chain E root uuid fs (getIndex E root uuid fs) n = Inr b"
    and "batch_execute b fs = (PRL_ERR_SUCCESS, fs')"
  shows "getIndex E root uuid fs' = takeWhile (\<lambda>m. m \<noteq> n) (getIndex E root uuid fs) \<and>
    (\<forall>m \<in> set (getIndex E root uuid fs'). loaded_item E root uuid fs' m = loaded_item E root uuid fs m \<and>
      (\<forall>f \<in> set (images E root uuid fs m). map_of fs' f = map_of fs f \<and> view fs' f = view fs f)) \<and>
    (if n = hd (getIndex E root uuid fs) then \<forall>q. below_dir (getSequence root uuid) q \<longrightarrow> map_of fs' q = None
     else well_formed_sequence E backing root uuid fs') \<and>
    (\<forall>q. \<not> below_dir (getSequence root uuid) q \<longrightarrow> map_of fs' q = map_of fs q)"
proof -
  from split_list_first [OF assms(4)] obtain A B where idx: "getIndex E root uuid fs = A @ n # B" "n \<notin> set A" by auto
  then have before: "takeWhile (\<lambda>m. m \<noteq> n) (A @ n # B) = A" by (simp add: takeWhile_append)
  show ?thesis
  proof (cases "A = []")
    case True
    then have h: "n = hd (getIndex E root uuid fs)" by (simp add: idx)
    note w = whole_sequence_removed [OF assms(1,3) disjI2 [OF h] assms(5,6)]
    show ?thesis using True h w by (simp add: idx)
  next
    case False
    note c = chain_removal_keeps_earlier [OF assms(1-3) idx(1) False assms(5,6)]
    from False idx(2) have "n \<noteq> hd (A @ n # B)" by (cases A) auto
    with c show ?thesis unfolding idx(1) before by simp
  qed
qed


section \<open>Where removals surprise\<close>

text \<open>A number that no backup of the sequence has: the whole sequence is removed.\<close>

lemma unknown_number_removes_the_sequence:
  assumes "store_laws E" "well_formed_sequence E backing root uuid fs" "n \<notin> set (getIndex E root uuid fs)"
    and "confectioner_chain E root uuid fs (getIndex E root uuid fs) n = Inr b"
    and "batch_execute b fs = (PRL_ERR_SUCCESS, fs')" "below_dir (getSequence root uuid) q"
  shows "map_of fs' q = None"
  using whole_sequence_removed(1) [OF assms(1,2) disjI1 [OF assms(3)] assms(4,5)] assms(6) by simp

text \<open>
  The only item of a sequence, removed with \<^verbatim>\<open>PBT_KEEP_CHAIN\<close>: the directory stays without
  items.  The catalogue lists it, \<^verbatim>\<open>first()\<close> of its index is undefined, and a later removal of it
  fails because its batch is empty.
\<close>

lemma keep_chain_leaves_empty_sequence:
  assumes laws: "store_laws E" and wf: "well_formed_sequence E backing root uuid fs"
    and idx: "getIndex E root uuid fs = [n]"
    and keep: "confectioner_keep E root uuid fs [n] n catalog = Inr b"
    and run: "batch_execute b fs = (PRL_ERR_SUCCESS, fs')"
  shows "map_of fs' (getSequence root uuid) = Some Dir" "getIndex E root uuid fs' = []"
    "first_item (getIndex E root uuid fs') = None"
    "confectioner_chain E root uuid fs' [] k = Inr b' \<Longrightarrow> batch_execute b' fs' = (PRL_ERR_UNINITIALIZED, fs')"
proof -
  have "b = as_batch (unlinkItem E (loaded_item E root uuid fs n))"
    using keep_batch [of "[]" n "[]"] keep by (simp add: shifter_def)
  with run have s: "succeeds (unlinkItem E (loaded_item E root uuid fs n)) fs fs'" by (auto intro: execute_succeeds)
  have n: "n \<in> set (getIndex E root uuid fs)" by (simp add: idx)
  have gone: "map_of fs' q = (if \<exists>n \<in> {n}. below_dir (getItem E root uuid n) q \<or> q \<in> set (images E root uuid fs n)
      then None else map_of fs q)" for q
    using unlinkItem_effect [OF laws loaded_form(1) [OF well_formedD(4) [OF wf n]] s, of q] by (simp add: images_def)
  show empty: "getIndex E root uuid fs' = []"
    using unlinked(1) [OF laws wf _ refl refl gone] by (simp add: idx)
  then show "first_item (getIndex E root uuid fs') = None" by (simp add: first_item_def)
  have d: "map_of fs (getSequence root uuid) = Some Dir"
    using idx by (auto simp: getIndex_def is_dir_iff split: if_splits)
  have "\<not> below_dir (getItem E root uuid n) (getSequence root uuid)" by (rule not_below_short) (simp add: getItem_def)
  moreover have "getSequence root uuid \<notin> set (images E root uuid fs n)" using image_file(1) [OF wf n] d by force
  ultimately show "map_of fs' (getSequence root uuid) = Some Dir" using d by (simp add: gone)
  show "confectioner_chain E root uuid fs' [] k = Inr b' \<Longrightarrow> batch_execute b' fs' = (PRL_ERR_UNINITIALIZED, fs')"
    by (auto simp: confectioner_chain_def as_batch_def batch_execute_def)
qed

text \<open>
  All backups of a VM: the directory goes with all its sequences, but only those that the user may
  write to are locked, so that others may be read at the same time.
\<close>

lemma removal_of_all_locks_writable_only:
  assumes "store_laws E" "rc_backupId cmd = []" "rc_vmUuid cmd = vm" "vm \<noteq> []"
    and "getIndexForWrite E [vm] fs \<noteq> []"
    and lock: "\<forall>u \<in> set (getIndexForWrite E [vm] fs). u \<notin> m_exclusive lock \<and> u \<notin> fst ` set (m_shared lock)"
    and ok: "ClearAndDeleteDir E (Some [vm]) fs = (True, fs')"
  shows "\<exists>lock'. remove_task E thread cmd lock fs = (PRL_ERR_SUCCESS, lock', fs') \<and> m_shared lock' = m_shared lock"
    "below_dir [vm] q \<Longrightarrow> map_of fs' q = None"
proof -
  let ?us = "getIndexForWrite E [vm] fs"
  have dist: "distinct ?us" by (simp add: getIndexForWrite_def getSequences_def distinct_child_dirs)
  have take: "\<exists>lock'. lock_loop grabExclusive us k s = (PRL_ERR_SUCCESS, k + length us, lock') \<and> m_shared lock' = m_shared s"
    if "distinct us" "\<forall>u \<in> set us. u \<notin> m_exclusive s \<and> u \<notin> fst ` set (m_shared s)" for us k s
    using that
  proof (induction us arbitrary: k s)
    case (Cons u us)
    then have g: "grabExclusive u s = (PRL_ERR_SUCCESS, s\<lparr>m_exclusive := insert u (m_exclusive s)\<rparr>)"
      by (simp add: grabExclusive_def)
    from Cons.IH [of "s\<lparr>m_exclusive := insert u (m_exclusive s)\<rparr>" "Suc k"] Cons.prems g show ?case by auto
  qed simp
  from take [OF dist lock, of 0] obtain lock1 where l: "lock_loop grabExclusive ?us 0 lock = (PRL_ERR_SUCCESS, length ?us, lock1)"
    "m_shared lock1 = m_shared lock" by auto
  have sh: "m_shared (foldl (\<lambda>s u. releaseExclusive u s) s us) = m_shared s" for s us
    by (induction us arbitrary: s) (simp_all add: releaseExclusive_def)
  have "remove_prepare E thread cmd lock fs = (Inr (as_batch [rmdir E (Some [vm])]), ?us, lock)"
    using assms(2-5) by (simp add: remove_prepare_def removeAllBackupsForVm_def Let_def)
  moreover have "batch_execute (as_batch [rmdir E (Some [vm])]) fs = (PRL_ERR_SUCCESS, fs')"
    by (simp add: batch_execute_def as_batch_map rmdir_def ok)
  ultimately show "\<exists>lock'. remove_task E thread cmd lock fs = (PRL_ERR_SUCCESS, lock', fs') \<and> m_shared lock' = m_shared lock"
    by (simp add: remove_task_def remove_do_def l remove_code_def release_loop_def sh)
  show "below_dir [vm] q \<Longrightarrow> map_of fs' q = None" using store_lawsD(1) [OF assms(1) ok] by simp
qed


section \<open>A directory of backups\<close>

text \<open>
  Numbers are written as that many strokes, and each image holds all that it shows.  Every call
  succeeds, except a rebase of what is no image.
\<close>

datatype demo_content = Head_Text backup_item | Tail_Text partial_item | Ve_Text ve_item | Image "path option" nat

definition demo_item :: "qstring list \<Rightarrow> item" where
  "demo_item l = \<lparr>item_ident = [], item_host = [], item_serverUuid = [], item_dateTime = 0, item_creator = [],
     item_size = 0, item_type = Untyped, item_description = [], item_originalSize = 0,
     item_bundlePermissions = 0, item_tibFileList = l, item_flags = 0\<rparr>"

definition demo_head :: "qstring list \<Rightarrow> backup_item" where
  "demo_head l = item.extend (demo_item l) (backup_item.fields [] 0)"

definition demo_tail :: "qstring list \<Rightarrow> partial_item" where
  "demo_tail l = item.extend (demo_item l) (partial_item.fields 0)"

fun demo_run :: "arg list \<Rightarrow> demo_content files \<Rightarrow> bool \<times> demo_content files" where
  "demo_run as fs =
     (case last as of
        Word _ \<Rightarrow> (False, fs)
      | Path f \<Rightarrow>
          (case map_of fs f of
             Some (File (Image _ d)) \<Rightarrow>
               (True, AList.update f (File (Image (case as ! 6 of Path b \<Rightarrow> Some b | Word _ \<Rightarrow> None) d)) fs)
           | _ \<Rightarrow> (False, fs)))"

definition demo_env :: "demo_content backup_env" where
  "demo_env = \<lparr>isUuid = (\<lambda>s. True),
     QString_toUInt = (\<lambda>s. if set s \<subseteq> {CHR ''1''} then Some (of_nat (length s)) else None),
     number_text = (\<lambda>n. replicate (unat n) (CHR ''1'')), PRL_BACKUP_METADATA = ''meta'',
     BACKUP_PROTO_V4 = 4, QEMU_IMG_BIN = ''qemu-img'', absent = PRL_ERR_FILE_NOT_FOUND,
     blank_head = demo_head [], blank_tail = demo_tail [],
     read_head = (\<lambda>c. case c of Head_Text b \<Rightarrow> Inr b | _ \<Rightarrow> Inl PRL_ERR_FAILURE),
     read_tail = (\<lambda>c. case c of Tail_Text t \<Rightarrow> Inr t | _ \<Rightarrow> Inl PRL_ERR_FAILURE),
     read_ve = (\<lambda>c. case c of Ve_Text v \<Rightarrow> Inr v | _ \<Rightarrow> Inl PRL_ERR_FAILURE),
     head_text = Head_Text, tail_text = Tail_Text, ve_text = Ve_Text,
     file_size = (\<lambda>c. case c of Image _ d \<Rightarrow> of_nat d | _ \<Rightarrow> 0),
     saveToFile = (\<lambda>p c fs. (PRL_ERR_SUCCESS, AList.update p (File c) fs)),
     ClearAndDeleteDir = (\<lambda>d fs. case d of None \<Rightarrow> (False, fs)
       | Some d \<Rightarrow> (True, filter (\<lambda>(p, _). \<not> below_dir d p) fs)),
     remove_file = (\<lambda>f fs. (True, filter (\<lambda>(p, _). p \<noteq> f) fs)),
     run_command = demo_run, can_read = (\<lambda>p. True), can_write = (\<lambda>p. True)\<rparr>"

definition demo_backing :: "demo_content \<Rightarrow> path option" where
  "demo_backing c = (case c of Image b _ \<Rightarrow> b | _ \<Rightarrow> None)"

definition demo_view :: "demo_content files \<Rightarrow> path \<Rightarrow> nat option" where
  "demo_view fs f = (case map_of fs f of Some (File (Image _ d)) \<Rightarrow> Some d | _ \<Rightarrow> None)"

definition demo_files :: "demo_content files" where
  "demo_files =
    [([''vm''], Dir), ([''vm'', ''meta''], File (Ve_Text \<lparr>ve_uuid = ''vm'', ve_name = [], ve_vmType = PVBT_VM, ve_version = 4\<rparr>)),
     ([''vm'', ''u''], Dir), ([''vm'', ''u'', ''base''], Dir),
     ([''vm'', ''u'', ''base'', ''meta''], File (Head_Text (demo_head [''a'']))),
     ([''vm'', ''u'', ''11''], Dir), ([''vm'', ''u'', ''11'', ''meta''], File (Tail_Text (demo_tail [''b'']))),
     ([''vm'', ''u'', ''111''], Dir), ([''vm'', ''u'', ''111'', ''meta''], File (Tail_Text (demo_tail [''c'']))),
     ([''vm'', ''u'', ''a''], File (Image None 10)),
     ([''vm'', ''u'', ''b''], File (Image (Some [''vm'', ''u'', ''a'']) 20)),
     ([''vm'', ''u'', ''c''], File (Image (Some [''vm'', ''u'', ''b'']) 30))]"

lemma demo_store_laws: "store_laws demo_env"
proof -
  have "set (replicate k (CHR ''1'')) \<subseteq> {CHR ''1''}" for k by (simp add: set_replicate_conv_if)
  moreover have "replicate k (CHR ''1'') \<noteq> ''base''" for k by (cases k) auto
  ultimately show ?thesis
    unfolding store_laws_def demo_env_def
    by (auto simp: map_of_drop below_dir_def update_conv' fun_eq_iff prl_failed_def split: demo_content.splits)
qed

lemma demo_image_laws: "image_laws demo_env demo_backing demo_view"
proof -
  have run: "\<And>f b fs fs'. run_command demo_env (rebase_command demo_env f b) fs = (True, fs') \<Longrightarrow>
      \<exists>x d. map_of fs f = Some (File (Image x d)) \<and> fs' = AList.update f (File (Image b d)) fs"
    by (auto simp: demo_env_def rebase_command_def split: option.splits node.splits demo_content.splits)
  show ?thesis unfolding image_laws_def
  proof (intro conjI allI impI)
    fix f b fs fs' assume "run_command demo_env (rebase_command demo_env f b) fs = (True, fs')"
    from run [OF this] obtain x d where u: "map_of fs f = Some (File (Image x d))"
      "fs' = AList.update f (File (Image b d)) fs" by blast
    show "\<exists>c. map_of fs' f = Some (File c) \<and> demo_backing c = b" by (simp add: u update_conv demo_backing_def)
    show "demo_view fs' f = demo_view fs f" by (simp add: u update_conv demo_view_def)
    fix q assume "q \<noteq> f" then show "map_of fs' q = map_of fs q" by (simp add: u update_conv)
  qed (simp add: demo_view_def)
qed

lemma based_on_code [code]:
  "based_on (backing :: 'c \<Rightarrow> path option) fs bs im \<longleftrightarrow>
     (\<forall>j \<in> set [0..<length im]. case map_of fs (im ! j) of
        Some (File c) \<Rightarrow> backing c = (if j < length bs then Some (bs ! j) else None) | _ \<Rightarrow> False)"
proof -
  have "(\<exists>c. x = Some (File c) \<and> Q c) \<longleftrightarrow> (case x of Some (File c) \<Rightarrow> Q c | _ \<Rightarrow> False)" for x :: "'c node option" and Q
    by (auto split: option.splits node.splits)
  then show ?thesis unfolding based_on_def by (auto simp: atLeast0LessThan)
qed

lemma demo_index: "getIndex demo_env [''vm''] ''u'' demo_files = [1, 2, 3]"
  by code_simp


lemma demo_well_formed: "well_formed_sequence demo_env demo_backing [''vm''] ''u'' demo_files"
  by code_simp

definition demo_keep :: "demo_content files batch" where
  "demo_keep = (case confectioner_keep demo_env [''vm''] ''u'' demo_files [1, 2, 3] 2
      (fst (ve_loadItem demo_env [''vm''] demo_files None)) of Inr b \<Rightarrow> b | Inl _ \<Rightarrow> [])"

definition demo_chain :: "demo_content files batch" where
  "demo_chain = (case confectioner_chain demo_env [''vm''] ''u'' demo_files [1, 2, 3] 2 of Inr b \<Rightarrow> b | Inl _ \<Rightarrow> [])"

lemma demo_loaded:
  "loaded_item demo_env [''vm''] ''u'' demo_files 1 = \<lparr>m_number = 1, m_files = [[''vm'', ''u'', ''a'']],
     m_lair = Some [''vm'', ''u'', ''base''], m_data = Head ((demo_head [''a''])\<lparr>item_type := PRL_BACKUP_FULL_TYPE\<rparr>)\<rparr>"
  "loaded_item demo_env [''vm''] ''u'' demo_files 2 = \<lparr>m_number = 2, m_files = [[''vm'', ''u'', ''b'']],
     m_lair = Some [''vm'', ''u'', ''11''], m_data = Tail ((demo_tail [''b''])\<lparr>item_type := PRL_BACKUP_INCREMENTAL_TYPE\<rparr>)\<rparr>"
  "loaded_item demo_env [''vm''] ''u'' demo_files 3 = \<lparr>m_number = 3, m_files = [[''vm'', ''u'', ''c'']],
     m_lair = Some [''vm'', ''u'', ''111''], m_data = Tail ((demo_tail [''c''])\<lparr>item_type := PRL_BACKUP_INCREMENTAL_TYPE\<rparr>)\<rparr>"
  by code_simp+

lemma demo_catalog: "fst (ve_loadItem demo_env [''vm''] demo_files None) =
    Inr \<lparr>ve_uuid = ''vm'', ve_name = [], ve_vmType = PVBT_VM, ve_version = 4\<rparr>"
  by (simp add: ve_loadItem_def loadFromFile_def ve_showItem_def demo_env_def demo_files_def)

lemma demo_keep_eq:
  "confectioner_keep demo_env [''vm''] ''u'' demo_files [1, 2, 3] 2 (fst (ve_loadItem demo_env [''vm''] demo_files None)) = Inr demo_keep"
  "demo_keep = as_batch (shifter demo_env [''vm''] ''u'' demo_files (Some 1) (Some 3) 2)"
  by (simp_all add: demo_keep_def confectioner_keep_def demo_catalog position_def) (simp_all add: demo_env_def)

lemma demo_actions:
  "map_of fs f = Some (File (Image x d)) \<Longrightarrow>
    rebase demo_env f b fs = (PRL_ERR_SUCCESS, AList.update f (File (Image b d)) fs)"
  "rmdir demo_env (Some p) fs = (PRL_ERR_SUCCESS, filter (\<lambda>(q, _). \<not> below_dir p q) fs)"
  "unlink_file demo_env p fs = (PRL_ERR_SUCCESS, filter (\<lambda>(q, _). q \<noteq> p) fs)"
  "meta demo_env root u i (Tail t) (Tail t') fs = (PRL_ERR_SUCCESS, AList.update (showItem demo_env root u (m_number i))
    (File (Tail_Text (t'\<lparr>item_size := meta_getSize demo_env i fs\<rparr>))) fs)"
  by (simp_all add: rebase_def rebase_command_def rmdir_def unlink_file_def meta_def seq_update_def demo_env_def
      split: option.splits)

lemma demo_keep_runs: "fst (batch_execute demo_keep demo_files) = PRL_ERR_SUCCESS"
proof -
  have "map_of demo_files [''vm'', ''u'', ''c''] = Some (File (Image (Some [''vm'', ''u'', ''b'']) 30))"
    by (simp add: demo_files_def)
  note r = demo_actions(1) [OF this]
  show ?thesis unfolding demo_keep_eq(2) shifter_def demo_loaded Let_def option.case
    by (simp add: as_batch_map batch_execute_def rebaseItem_def base_of_def r demo_actions unlinkItem_def)
qed

lemma demo_chain_eq:
  "confectioner_chain demo_env [''vm''] ''u'' demo_files [1, 2, 3] 2 = Inr demo_chain"
  "demo_chain = as_batch (unlinkItem demo_env (loaded_item demo_env [''vm''] ''u'' demo_files 2) @
     unlinkItem demo_env (loaded_item demo_env [''vm''] ''u'' demo_files 3))"
  by (simp_all add: demo_chain_def confectioner_chain_def)

lemma demo_chain_runs: "fst (batch_execute demo_chain demo_files) = PRL_ERR_SUCCESS"
  unfolding demo_chain_eq(2) demo_loaded by (simp add: as_batch_map batch_execute_def demo_actions unlinkItem_def)

theorem keep_chain_removal_witness:
  "getIndex demo_env [''vm''] ''u'' (snd (batch_execute demo_keep demo_files)) = [1, 3] \<and>
   demo_view (snd (batch_execute demo_keep demo_files)) [''vm'', ''u'', ''c''] = Some 30"
proof -
  have run: "batch_execute demo_keep demo_files = (PRL_ERR_SUCCESS, snd (batch_execute demo_keep demo_files))"
    using demo_keep_runs by (intro prod_eqI) simp_all
  have "2 \<in> set (getIndex demo_env [''vm''] ''u'' demo_files)" "getIndex demo_env [''vm''] ''u'' demo_files \<noteq> [2]"
    by (simp_all add: demo_index)
  note k = keep_chain_removal [OF demo_store_laws demo_image_laws demo_well_formed this demo_keep_eq(1) [folded demo_index] run]
  have "images demo_env [''vm''] ''u'' demo_files 3 = [[''vm'', ''u'', ''c'']]" by (simp add: images_def demo_loaded)
  moreover have "demo_view demo_files [''vm'', ''u'', ''c''] = Some 30" by (simp add: demo_view_def demo_files_def)
  moreover have i: "getIndex demo_env [''vm''] ''u'' (snd (batch_execute demo_keep demo_files)) = [1, 3]"
    using k unfolding demo_index by simp
  moreover have "3 \<in> set (getIndex demo_env [''vm''] ''u'' (snd (batch_execute demo_keep demo_files)))" by (simp add: i)
  ultimately show ?thesis using k by fastforce
qed

theorem removal_with_dependents_witness:
  "getIndex demo_env [''vm''] ''u'' (snd (batch_execute demo_chain demo_files)) = [1] \<and>
   map_of (snd (batch_execute demo_chain demo_files)) [''vm'', ''u'', ''a''] = Some (File (Image None 10))"
proof -
  have run: "batch_execute demo_chain demo_files = (PRL_ERR_SUCCESS, snd (batch_execute demo_chain demo_files))"
    using demo_chain_runs by (intro prod_eqI) simp_all
  have "2 \<in> set (getIndex demo_env [''vm''] ''u'' demo_files)" by (simp add: demo_index)
  note k = removal_with_dependents [OF demo_store_laws demo_image_laws demo_well_formed this demo_chain_eq(1) [folded demo_index] run]
  have "images demo_env [''vm''] ''u'' demo_files 1 = [[''vm'', ''u'', ''a'']]" by (simp add: images_def demo_loaded)
  moreover have "map_of demo_files [''vm'', ''u'', ''a''] = Some (File (Image None 10))" by (simp add: demo_files_def)
  moreover have i: "getIndex demo_env [''vm''] ''u'' (snd (batch_execute demo_chain demo_files)) = [1]"
    using k unfolding demo_index by simp
  moreover have "1 \<in> set (getIndex demo_env [''vm''] ''u'' (snd (batch_execute demo_chain demo_files)))" by (simp add: i)
  ultimately show ?thesis using k by fastforce
qed


definition demo_base :: backup_item where
  "demo_base = (demo_head [])\<lparr>item_uuid := ''u''\<rparr>"

definition demo_choice :: backup_choice where
  "demo_choice = \<lparr>PBT_FULL = False, PBT_INCREMENTAL = True, m_sBackupUuid = ''u'', m_nBackupNumber = 4\<rparr>"

definition demo_made :: "demo_content files" where
  "demo_made = AList.update [''vm'', ''u'', ''1111''] Dir demo_files"

lemma demo_canonical: "canonical_names demo_env [''vm''] ''u'' demo_files"
  unfolding canonical_names_def
proof (intro allI impI)
  fix x n assume x: "map_of demo_files (getSequence [''vm''] ''u'' @ [x]) = Some Dir" "QString_toUInt demo_env x = Some n"
  have "x = ''base'' \<or> x = ''11'' \<or> x = ''111''"
    using x(1) by (simp add: demo_files_def getSequence_def split: if_splits)
  moreover have "QString_toUInt demo_env ''base'' = None" "QString_toUInt demo_env ''11'' = Some 2" "QString_toUInt demo_env ''111'' = Some 3"
    "number_text demo_env 2 = ''11''" "number_text demo_env 3 = ''111''" by code_simp+
  ultimately show "x = number_text demo_env n" using x(2) by auto
qed

lemma demo_guess:
  "guess_incremental demo_env [''vm''] demo_files (Some demo_base) False (\<lambda>_. Inr False) 4 [''u'']
     (demo_choice\<lparr>m_nBackupNumber := 0, m_sBackupUuid := []\<rparr>) = Inr (False, demo_choice)"
  by (simp add: guess_incremental_def demo_choice_def demo_base_def demo_index Let_def)
    (simp add: demo_env_def demo_head_def backup_item.defs item.defs)

lemma demo_create:
  "\<exists>fs2. create demo_env [''vm''] ''u'' (demo_tail []) 4 demo_made = Some (PRL_ERR_SUCCESS, fs2)"
proof -
  let ?fs = "AList.update (showItem demo_env [''vm''] ''u'' 4) (File (Tail_Text (demo_tail []))) demo_made"
  have s: "saveToFile demo_env p c fs = (PRL_ERR_SUCCESS, AList.update p (File c) fs)" for p c fs
    by (simp add: demo_env_def)
  have "first_item (getIndex demo_env [''vm''] ''u'' ?fs) = Some 1" by code_simp
  moreover have at: "showItem demo_env [''vm''] ''u'' 1 = [''vm'', ''u'', ''base'', ''meta'']"
    "showItem demo_env [''vm''] ''u'' 4 = [''vm'', ''u'', ''1111'', ''meta'']" by code_simp+
  have "read_head demo_env (Head_Text h) = Inr h" for h by (simp add: demo_env_def)
  then have "getHeadItem demo_env [''vm''] ''u'' 1 ?fs = Inr ((demo_head [''a''])\<lparr>item_type := PRL_BACKUP_FULL_TYPE\<rparr>)"
    by (simp add: getHeadItem_def loadFromFile_def at update_conv demo_made_def demo_files_def)
  moreover have "tail_text demo_env t = Tail_Text t" for t by (simp add: demo_env_def)
  ultimately show ?thesis by (simp add: create_def seq_update_def save_def s)
qed

theorem incremental_backup_is_appended_witness:
  "\<exists>fs2. create demo_env [''vm''] ''u'' (demo_tail []) 4 demo_made = Some (PRL_ERR_SUCCESS, fs2) \<and>
     getIndex demo_env [''vm''] ''u'' fs2 = [1, 2, 3, 4]"
proof -
  from demo_create obtain fs2 where c: "create demo_env [''vm''] ''u'' (demo_tail []) 4 demo_made = Some (PRL_ERR_SUCCESS, fs2)" ..
  have u: "item_uuid demo_base = ''u''" "m_nBackupNumber demo_choice = 4" "m_sBackupUuid demo_choice = ''u''"
    by (simp_all add: demo_base_def demo_choice_def)
  have n: "getItem demo_env [''vm''] ''u'' 4 = [''vm'', ''u'', ''1111'']" by code_simp
  have f: "map_of demo_files (showItem demo_env [''vm''] ''u'' 4) = None" by code_simp
  have m: "map_of demo_made = (map_of demo_files)(getItem demo_env [''vm''] ''u'' 4 \<mapsto> Dir)"
    by (simp add: demo_made_def update_conv' n)
  from incremental_backup_is_appended [OF demo_store_laws _ demo_guess, unfolded u demo_index, OF demo_canonical _ _ _ m f c]
  have "getIndex demo_env [''vm''] ''u'' fs2 = [1, 2, 3, 4]" by simp
  with c show ?thesis by blast
qed

end
