(* ===== verification/BackupTree.thy ===== *)
theory BackupTree
  imports BackupCases
begin

text \<open>
  The list of backups that a server shows, \<^verbatim>\<open>Tasks/Task_GetBackupTree.cpp\<close>: of every VM or container
  the sequences that can be read, or a single backup, or a chain.
\<close>

section \<open>A sequence\<close>

text \<open>What is shown of a sequence: the item of its full backup and those of the incremental ones, with disks.\<close>

record 'd shown_backup =
  sh_head :: backup_item
  sh_disks :: 'd
  sh_tails :: "(partial_item \<times> 'd) list"

text \<open>\<^verbatim>\<open>Sequence::getDisks\<close> reads the configuration and asks for the images.\<close>

type_synonym ('c, 'd) disks = "path \<Rightarrow> qstring \<Rightarrow> 32 word \<Rightarrow> 'c files \<Rightarrow> prl_result + 'd"

fun tail_list ::
  "'c backup_env \<Rightarrow> ('c, 'd) disks \<Rightarrow> path \<Rightarrow> qstring \<Rightarrow> 'c files \<Rightarrow> 32 word list \<Rightarrow> (partial_item \<times> 'd) list" where
  "tail_list E D root uuid fs [] = []"
| "tail_list E D root uuid fs (n # ns) =
     (case getTailItem E root uuid n fs of
        Inl _ \<Rightarrow> tail_list E D root uuid fs ns
      | Inr p \<Rightarrow>
          (case D root uuid n fs of
             Inl _ \<Rightarrow> tail_list E D root uuid fs ns
           | Inr d \<Rightarrow> (p, d) # tail_list E D root uuid fs ns))"

definition filterList ::
  "'c backup_env \<Rightarrow> ('c, 'd) disks \<Rightarrow> path \<Rightarrow> qstring \<Rightarrow> 'c files \<Rightarrow> 32 word \<Rightarrow> 32 word list \<Rightarrow> 'd shown_backup option" where
  "filterList E D root uuid fs h flt =
     (if flt = [] then None
      else (case getHeadItem E root uuid h fs of
              Inl _ \<Rightarrow> None
            | Inr b \<Rightarrow>
                (case D root uuid h fs of
                   Inl _ \<Rightarrow> None
                 | Inr d \<Rightarrow> Some \<lparr>sh_head = b, sh_disks = d, sh_tails = tail_list E D root uuid fs (remove1 h flt)\<rparr>)))"

definition branch_show ::
  "'c backup_env \<Rightarrow> ('c, 'd) disks \<Rightarrow> path \<Rightarrow> qstring \<Rightarrow> 'c files \<Rightarrow> 'd shown_backup option" where
  "branch_show E D root uuid fs =
     (case getIndex E root uuid fs of [] \<Rightarrow> None | x # xs \<Rightarrow> filterList E D root uuid fs x (x # xs))"

definition filterOne ::
  "'c backup_env \<Rightarrow> ('c, 'd) disks \<Rightarrow> path \<Rightarrow> qstring \<Rightarrow> 'c files \<Rightarrow> qstring \<Rightarrow> 32 word \<Rightarrow> 'd shown_backup option" where
  "filterOne E D root uuid fs sequence number =
     (if sequence \<noteq> uuid \<or> number \<notin> set (getIndex E root uuid fs) then None
      else filterList E D root uuid fs (hd (getIndex E root uuid fs)) [number])"

definition filterChain ::
  "'c backup_env \<Rightarrow> ('c, 'd) disks \<Rightarrow> path \<Rightarrow> qstring \<Rightarrow> 'c files \<Rightarrow> qstring \<Rightarrow> 32 word \<Rightarrow> 'd shown_backup option" where
  "filterChain E D root uuid fs sequence number =
     (if sequence \<noteq> uuid \<or> number \<notin> set (getIndex E root uuid fs) then None
      else filterList E D root uuid fs (hd (getIndex E root uuid fs))
             (dropWhile (\<lambda>n. n \<noteq> number) (getIndex E root uuid fs)))"


section \<open>The tasks\<close>

record tree_query =
  q_id :: qstring
  PBT_BACKUP_ID :: bool
  PBT_CHAIN :: bool
  PBT_VM :: bool
  PBT_CT :: bool

definition query_init :: "tree_query \<Rightarrow> tree_query" where
  "query_init q = (if \<not> PBT_VM q \<and> \<not> PBT_CT q then q\<lparr>PBT_VM := True\<rparr> else q)"

definition tree_prepare :: "tree_query \<Rightarrow> prl_result" where
  "tree_prepare q =
     (if (PBT_BACKUP_ID q \<or> PBT_CHAIN q) \<and> q_id q = [] then PRL_ERR_INVALID_PARAM
      else if PBT_BACKUP_ID q \<and> PBT_CHAIN q then PRL_ERR_INVALID_PARAM
      else PRL_ERR_SUCCESS)"

definition backupFilterEnabled :: "tree_query \<Rightarrow> bool" where
  "backupFilterEnabled q \<longleftrightarrow> PBT_BACKUP_ID q \<or> PBT_CHAIN q"

text \<open>
  \<open>alive k\<close> is the answer to the \<open>k\<close>-th question whether the client is connected.  The task runs in one
  thread; \<open>lock\<close> is the state of the locks of sequences, which other threads leave alone meanwhile.
  The result \<open>False\<close> says that the connection was lost.
\<close>

fun seq_loop ::
  "'c backup_env \<Rightarrow> ('c, 'd) disks \<Rightarrow> (nat \<Rightarrow> bool) \<Rightarrow> nat \<Rightarrow> tree_query \<Rightarrow> qstring \<Rightarrow> 32 word \<Rightarrow> qstring \<Rightarrow> 'c files \<Rightarrow>
   qstring list \<Rightarrow> nat \<Rightarrow> metadata_lock \<Rightarrow> 'd shown_backup list \<Rightarrow> bool \<times> nat \<times> metadata_lock \<times> 'd shown_backup list" where
  "seq_loop E D alive thread q sequence number vm fs [] k lock acc = (True, k, lock, acc)"
| "seq_loop E D alive thread q sequence number vm fs (u # us) k lock acc =
     (if \<not> alive k then (False, Suc k, lock, acc)
      else (case grabShared thread u lock of (e, lock1) \<Rightarrow>
        if prl_failed e then seq_loop E D alive thread q sequence number vm fs us (Suc k) lock1 acc
        else
          (let i = (if PBT_BACKUP_ID q then filterOne E D [vm] u fs sequence number
                    else if PBT_CHAIN q \<and> acc = [] then filterChain E D [vm] u fs sequence number
                    else branch_show E D [vm] u fs);
               lock2 = releaseShared thread u lock1
           in case i of
                None \<Rightarrow> seq_loop E D alive thread q sequence number vm fs us (Suc k) lock2 acc
              | Some b \<Rightarrow>
                  if PBT_BACKUP_ID q then (True, Suc k, lock2, acc @ [b])
                  else seq_loop E D alive thread q sequence number vm fs us (Suc k) lock2 (acc @ [b]))))"

definition wanted_type :: "tree_query \<Rightarrow> ve_item \<Rightarrow> bool" where
  "wanted_type q v \<longleftrightarrow> (if ve_vmType v = PVBT_VM then PBT_VM q else PBT_CT q)"

text \<open>\<^verbatim>\<open>std::sort\<close> by the date; the order of backups with the same date is open in the code.\<close>

definition by_date :: "'d shown_backup list \<Rightarrow> 'd shown_backup list" where
  "by_date bs = sort_key (\<lambda>b. item_dateTime (sh_head b)) bs"

fun vm_loop ::
  "'c backup_env \<Rightarrow> ('c, 'd) disks \<Rightarrow> (nat \<Rightarrow> bool) \<Rightarrow> nat \<Rightarrow> tree_query \<Rightarrow> qstring \<Rightarrow> 32 word \<Rightarrow> 'c files \<Rightarrow>
   qstring list \<Rightarrow> nat \<Rightarrow> metadata_lock \<Rightarrow> (ve_item \<times> 'd shown_backup list) list \<Rightarrow>
   (ve_item \<times> 'd shown_backup list) list option \<times> metadata_lock" where
  "vm_loop E D alive thread q sequence number fs [] k lock acc = (Some acc, lock)"
| "vm_loop E D alive thread q sequence number fs (vm # vms) k lock acc =
     (if \<not> alive k then (None, lock)
      else if \<not> isUuid E vm \<or> \<not> backupFilterEnabled q \<and> q_id q \<noteq> [] \<and> q_id q \<noteq> vm
      then vm_loop E D alive thread q sequence number fs vms (Suc k) lock acc
      else (case fst (ve_loadItem E [vm] fs None) of
              Inl _ \<Rightarrow> vm_loop E D alive thread q sequence number fs vms (Suc k) lock acc
            | Inr v \<Rightarrow>
                if \<not> wanted_type q v then vm_loop E D alive thread q sequence number fs vms (Suc k) lock acc
                else (case seq_loop E D alive thread q sequence number vm fs (getIndexForRead E True [vm] fs) (Suc k) lock []
                      of (ok, k', lock', bs) \<Rightarrow>
                        if \<not> ok then (None, lock')
                        else if bs = [] then vm_loop E D alive thread q sequence number fs vms k' lock' acc
                        else if backupFilterEnabled q then (Some (acc @ [(v, by_date bs)]), lock')
                        else vm_loop E D alive thread q sequence number fs vms k' lock' (acc @ [(v, by_date bs)]))))"

text \<open>
  The result of \<^verbatim>\<open>parseBackupId\<close> is ignored.  \<open>None\<close>: the connection was lost and there is no tree.
\<close>

definition getBackupTree ::
  "'c backup_env \<Rightarrow> ('c, 'd) disks \<Rightarrow> (nat \<Rightarrow> bool) \<Rightarrow> nat \<Rightarrow> tree_query \<Rightarrow> 'c files \<Rightarrow> metadata_lock \<Rightarrow>
   (ve_item \<times> 'd shown_backup list) list option \<times> metadata_lock" where
  "getBackupTree E D alive thread q fs lock =
     (if \<not> alive 0 then (None, lock)
      else (case (if backupFilterEnabled q then snd (parseBackupId E (q_id q)) else ([], 0)) of (s, n) \<Rightarrow>
        vm_loop E D alive thread q s n fs (child_dirs [] fs) 1 lock []))"


section \<open>What is shown\<close>

lemma shared_and_back: "grabShared t u l = (e, l') \<Longrightarrow> \<not> prl_failed e \<Longrightarrow> releaseShared t u l' = l"
  by (auto simp: grabShared_def releaseShared_def prl_failed_def split: if_splits)

lemma shared_refused_same: "grabShared t u l = (e, l') \<Longrightarrow> prl_failed e \<Longrightarrow> l' = l"
  by (auto simp: grabShared_def prl_failed_def split: if_splits)

text \<open>However the task ends, it has given back its locks.\<close>

lemma seq_loop_locks: "seq_loop E D alive thread q s n vm fs us k lock acc = (ok, k', lock', bs) \<Longrightarrow> lock' = lock"
proof (induction us arbitrary: k lock acc)
  case (Cons u us)
  obtain e l where g: "grabShared thread u lock = (e, l)" by (cases "grabShared thread u lock")
  from shared_and_back [OF g] shared_refused_same [OF g] Cons g show ?case
    by (auto simp: Let_def split: if_splits option.splits)
qed simp

lemma vm_loop_locks: "snd (vm_loop E D alive thread q s n fs vms k lock acc) = lock"
proof (induction vms arbitrary: k lock acc)
  case (Cons vm vms)
  obtain ok k' lock' bs where l: "seq_loop E D alive thread q s n vm fs (getIndexForRead E True [vm] fs) (Suc k) lock [] = (ok, k', lock', bs)"
    by (cases "seq_loop E D alive thread q s n vm fs (getIndexForRead E True [vm] fs) (Suc k) lock []") auto
  from seq_loop_locks [OF l] Cons l show ?case by (simp split: sum.split)
qed simp

lemma tree_gives_locks_back: "snd (getBackupTree E D alive thread q fs lock) = lock"
  by (simp add: getBackupTree_def vm_loop_locks split: prod.split)

text \<open>Without a filter, the sequences of a VM that nobody writes are shown, each whole.\<close>

definition shown_of :: "'c backup_env \<Rightarrow> ('c, 'd) disks \<Rightarrow> 'c files \<Rightarrow> metadata_lock \<Rightarrow> qstring \<Rightarrow> 'd shown_backup list" where
  "shown_of E D fs lock vm =
     List.map_filter (\<lambda>u. if u \<in> m_exclusive lock then None else branch_show E D [vm] u fs) (getIndexForRead E True [vm] fs)"

definition shown_vm :: "'c backup_env \<Rightarrow> ('c, 'd) disks \<Rightarrow> tree_query \<Rightarrow> 'c files \<Rightarrow> metadata_lock \<Rightarrow> qstring \<Rightarrow>
   (ve_item \<times> 'd shown_backup list) option" where
  "shown_vm E D q fs lock vm =
     (case fst (ve_loadItem E [vm] fs None) of
        Inl _ \<Rightarrow> None
      | Inr v \<Rightarrow>
          if isUuid E vm \<and> (q_id q = [] \<or> q_id q = vm) \<and> wanted_type q v \<and> shown_of E D fs lock vm \<noteq> []
          then Some (v, by_date (shown_of E D fs lock vm)) else None)"

lemma seq_loop_shows:
  assumes "\<not> PBT_BACKUP_ID q" "\<not> PBT_CHAIN q"
  shows "\<exists>k'. seq_loop E D (\<lambda>_. True) thread q s n vm fs us k lock acc =
    (True, k', lock, acc @ List.map_filter (\<lambda>u. if u \<in> m_exclusive lock then None else branch_show E D [vm] u fs) us)"
proof (induction us arbitrary: k acc)
  case Nil
  then show ?case by (simp add: List.map_filter_simps)
next
  case (Cons u us)
  obtain e l where g: "grabShared thread u lock = (e, l)" by (cases "grabShared thread u lock")
  from g have ex: "prl_failed e \<longleftrightarrow> u \<in> m_exclusive lock" by (auto simp: grabShared_def prl_failed_def split: if_splits)
  show ?case
  proof (cases "prl_failed e")
    case True
    with Cons.IH [of "Suc k" acc] shared_refused_same [OF g True] g ex assms show ?thesis
      by (simp add: List.map_filter_simps)
  next
    case False
    note given = shared_and_back [OF g False]
    show ?thesis
    proof (cases "branch_show E D [vm] u fs")
      case None
      with Cons.IH [of "Suc k" acc] given g False ex assms show ?thesis by (simp add: List.map_filter_simps)
    next
      case (Some b)
      with Cons.IH [of "Suc k" "acc @ [b]"] given g False ex assms show ?thesis by (simp add: List.map_filter_simps)
    qed
  qed
qed

lemma vm_loop_shows:
  assumes "\<not> PBT_BACKUP_ID q" "\<not> PBT_CHAIN q"
  shows "vm_loop E D (\<lambda>_. True) thread q s n fs vms k lock acc = (Some (acc @ List.map_filter (shown_vm E D q fs lock) vms), lock)"
proof (induction vms arbitrary: k acc)
  case Nil
  then show ?case by (simp add: List.map_filter_simps)
next
  case (Cons vm vms)
  let ?us = "getIndexForRead E True [vm] fs"
  obtain k' where l: "seq_loop E D (\<lambda>_. True) thread q s n vm fs ?us (Suc k) lock [] = (True, k', lock, shown_of E D fs lock vm)"
    using seq_loop_shows [OF assms, of E D thread s n vm fs ?us "Suc k" lock "[]"] by (auto simp: shown_of_def)
  have f: "\<not> backupFilterEnabled q" using assms by (simp add: backupFilterEnabled_def)
  have "vm_loop E D (\<lambda>_. True) thread q s n fs (vm # vms) k lock acc =
    vm_loop E D (\<lambda>_. True) thread q s n fs vms (if isUuid E vm \<and> (q_id q = [] \<or> q_id q = vm) \<and>
      (\<exists>v. fst (ve_loadItem E [vm] fs None) = Inr v \<and> wanted_type q v) then k' else Suc k) lock
      (case shown_vm E D q fs lock vm of None \<Rightarrow> acc | Some x \<Rightarrow> acc @ [x])"
    using f l by (cases "fst (ve_loadItem E [vm] fs None)") (auto simp: shown_vm_def)
  then show ?case by (cases "shown_vm E D q fs lock vm") (simp_all add: Cons.IH List.map_filter_simps)
qed



section \<open>Queries for one backup\<close>

text \<open>A query for one backup shows at most that one: the full backup of its sequence and its own item.\<close>

lemma seq_loop_single:
  "PBT_BACKUP_ID q \<Longrightarrow> seq_loop E D alive thread q s n vm fs us k lock [] = (ok, k', lock', bs) \<Longrightarrow>
   bs = [] \<or> (\<exists>b. bs = [b] \<and> filterOne E D [vm] s fs s n = Some b \<and> s \<in> set us)"
proof (induction us arbitrary: k lock)
  case (Cons u us)
  obtain e l where g: "grabShared thread u lock = (e, l)" by (cases "grabShared thread u lock")
  show ?case
  proof (cases "alive k \<and> \<not> prl_failed e \<and> filterOne E D [vm] u fs s n \<noteq> None")
    case True
    then have "s = u" by (auto simp: filterOne_def split: if_splits)
    with True Cons.prems g show ?thesis by (auto simp: Let_def)
  next
    case False
    with Cons.prems g have "ok = False \<and> bs = [] \<or>
        (\<exists>k1 l1. seq_loop E D alive thread q s n vm fs us k1 l1 [] = (ok, k', lock', bs))"
      by (auto simp: Let_def split: if_splits)
    with Cons.IH [OF Cons.prems(1)] show ?thesis by auto
  qed
qed simp

lemma vm_loop_single:
  assumes "PBT_BACKUP_ID q"
  shows "fst (vm_loop E D alive thread q s n fs vms k lock []) = Some t \<Longrightarrow>
    t = [] \<or> (\<exists>vm v b. t = [(v, [b])] \<and> vm \<in> set vms \<and> fst (ve_loadItem E [vm] fs None) = Inr v \<and> wanted_type q v \<and>
      filterOne E D [vm] s fs s n = Some b)"
proof (induction vms arbitrary: k lock)
  case (Cons vm vms)
  have en: "backupFilterEnabled q" using assms by (simp add: backupFilterEnabled_def)
  obtain ok k' lock' bs where l: "seq_loop E D alive thread q s n vm fs (getIndexForRead E True [vm] fs) (Suc k) lock [] = (ok, k', lock', bs)"
    by (cases "seq_loop E D alive thread q s n vm fs (getIndexForRead E True [vm] fs) (Suc k) lock []") auto
  note single = seq_loop_single [OF assms l]
  show ?case
  proof (cases "\<exists>k1 l1. fst (vm_loop E D alive thread q s n fs vms k1 l1 []) = Some t")
    case True
    then obtain k1 l1 where "fst (vm_loop E D alive thread q s n fs vms k1 l1 []) = Some t" by blast
    from Cons.IH [OF this] show ?thesis by auto
  next
    case False
    with Cons.prems en l have "bs \<noteq> [] \<and> (\<exists>v. fst (ve_loadItem E [vm] fs None) = Inr v \<and> wanted_type q v \<and> t = [(v, by_date bs)])"
      by (auto split: if_splits sum.splits)
    with single show ?thesis by (auto simp: by_date_def)
  qed
qed simp

lemma filterOne_tails:
  assumes "filterOne E D root uuid fs s n = Some b" "p \<in> set (map fst (sh_tails b))"
  shows "getTailItem E root uuid n fs = Inr p"
proof -
  from assms(1) have "sh_tails b = tail_list E D root uuid fs (remove1 (hd (getIndex E root uuid fs)) [n])"
    by (auto simp: filterOne_def filterList_def split: if_splits sum.splits)
  with assms(2) show ?thesis by (auto split: if_splits sum.splits)
qed

lemma single_backup_is_shown_alone:
  assumes "PBT_BACKUP_ID q" "fst (getBackupTree E D alive thread q fs lock) = Some t"
    and "snd (parseBackupId E (q_id q)) = (s, n)"
  shows "t = [] \<or> (\<exists>vm v b. t = [(v, [b])] \<and> filterOne E D [vm] s fs s n = Some b \<and>
    (\<forall>p \<in> set (map fst (sh_tails b)). getTailItem E [vm] s n fs = Inr p))"
proof -
  from assms have "fst (vm_loop E D alive thread q s n fs (child_dirs [] fs) 1 lock []) = Some t"
    by (auto simp: getBackupTree_def backupFilterEnabled_def split: if_splits)
  from vm_loop_single [OF assms(1) this] filterOne_tails show ?thesis by blast
qed


section \<open>An example\<close>

definition demo_two :: "demo_content files" where
  "demo_two = demo_files @
    [([''vm'', ''w''], Dir), ([''vm'', ''w'', ''base''], Dir),
     ([''vm'', ''w'', ''base'', ''meta''], File (Head_Text (demo_head [''d''])))]"

definition demo_disks :: "(demo_content, nat) disks" where
  "demo_disks root uuid n fs = Inr 0"

definition demo_query :: "qstring \<Rightarrow> bool \<Rightarrow> tree_query" where
  "demo_query s chain = \<lparr>q_id = s, PBT_BACKUP_ID = False, PBT_CHAIN = chain, PBT_VM = True, PBT_CT = False\<rparr>"

lemma demo_two_sequences:
  "getIndexForRead demo_env True [''vm''] demo_two = [''u'', ''w'']" "child_dirs [] demo_two = [''vm'']"
  "map_option (length \<circ> sh_tails) (branch_show demo_env demo_disks [''vm''] ''u'' demo_two) = Some 2"
  "map_option (length \<circ> sh_tails) (branch_show demo_env demo_disks [''vm''] ''w'' demo_two) = Some 0"
  "map_option (length \<circ> sh_tails) (filterChain demo_env demo_disks [''vm''] ''u'' demo_two ''u'' 3) = Some 1"
  "case fst (ve_loadItem demo_env [''vm''] demo_two None) of Inl _ \<Rightarrow> False | Inr v \<Rightarrow> ve_vmType v = PVBT_VM"
  by code_simp+


text \<open>
  A query for a chain shows the chain, and then the sequences of the same VM that come after it whole,
  because only the first one that is found counts as the filter.
\<close>

lemma chain_query_shows_others:
  "\<exists>v bs. fst (getBackupTree demo_env demo_disks (\<lambda>_. True) 0 (demo_query ''u.111'' True) demo_two lock_init) = Some [(v, bs)] \<and>
     length bs = 2"
proof -
  from demo_two_sequences(4,5) obtain b c where
    "filterChain demo_env demo_disks [''vm''] ''u'' demo_two ''u'' 3 = Some b" "branch_show demo_env demo_disks [''vm''] ''w'' demo_two = Some c"
    by (auto simp: map_option_case split: option.splits)
  moreover have "parseBackupId demo_env ''u.111'' = (PRL_ERR_SUCCESS, ''u'', 3)"
    by (simp add: parseBackupId_def demo_env_def Let_def)
  moreover from demo_two_sequences(6) obtain v where "fst (ve_loadItem demo_env [''vm''] demo_two None) = Inr v" "ve_vmType v = PVBT_VM"
    by (auto split: sum.splits)
  moreover have "isUuid demo_env x" for x by (simp add: demo_env_def)
  ultimately show ?thesis
    using demo_two_sequences(1,2)
    by (simp add: getBackupTree_def demo_query_def backupFilterEnabled_def wanted_type_def grabShared_def lock_init_def
      releaseShared_def Let_def by_date_def)
qed

end
