(* ===== verification/BackupActivities.thy ===== *)
theory BackupActivities
  imports Prelude
begin

text \<open>
  Backups under way on the source host, \<^verbatim>\<open>Backup::Activity\<close> of \<^verbatim>\<open>CDspVmBackupInfrastructure.cpp\<close>: an
  activity holds the snapshot of a VM or container and its exclusive operation until it ends; the
  service keeps the activities, and tracks them by the session that began them, so that they are
  aborted when it is gone.
\<close>

section \<open>Activities\<close>

text \<open>A session is the object and its handle; some tests compare the one, some the other.\<close>

record actor =
  actor_ptr :: nat
  actor_handle :: qstring

datatype final = Destroy | Merge

record activity =
  a_ident :: vm_ident
  a_actor :: actor
  a_snapshot :: bool
  a_final :: final

text \<open>What an activity does when the last reference to it goes.\<close>

datatype unit_effect = Merged vm_ident | Destroyed vm_ident | Unlocked vm_ident

definition unit_end :: "activity \<Rightarrow> unit_effect list" where
  "unit_end u =
     (if a_snapshot u then [case a_final u of Merge \<Rightarrow> Merged (a_ident u) | Destroy \<Rightarrow> Destroyed (a_ident u)] else []) @
     [Unlocked (a_ident u)]"

definition unit_init :: "vm_ident \<Rightarrow> actor \<Rightarrow> activity" where
  "unit_init i a = \<lparr>a_ident = i, a_actor = a, a_snapshot = False, a_final = Destroy\<rparr>"

text \<open>
  \<^verbatim>\<open>Unit::start\<close>.  The first argument tells whether there is a snapshot to take over; \<open>e1\<close> and \<open>e2\<close> are
  what the flavor answers, \<open>escort\<close> whether it made one.  A second snapshot is destroyed.
\<close>

definition unit_start :: "bool \<Rightarrow> prl_result \<Rightarrow> prl_result \<Rightarrow> bool \<Rightarrow> activity \<Rightarrow> prl_result \<times> activity \<times> unit_effect list" where
  "unit_start given e1 e2 escort u =
     (if \<not> given then (PRL_ERR_INVALID_ARG, u, [])
      else if a_snapshot u then (PRL_ERR_DOUBLE_INIT, u, [Destroyed (a_ident u)])
      else
        let u1 = u\<lparr>a_snapshot := True, a_final := Destroy\<rparr> in
        if prl_failed e1 then (e1, u1, [])
        else if prl_failed e2 then (e2, u1, [])
        else if \<not> escort then (PRL_ERR_UNEXPECTED, u1, [])
        else (PRL_ERR_SUCCESS, u1\<lparr>a_final := Merge\<rparr>, []))"

definition unit_abort :: "activity \<Rightarrow> activity" where
  "unit_abort u = (if a_snapshot u then u\<lparr>a_final := Destroy\<rparr> else u)"


section \<open>The service\<close>

record service =
  m_ctActivities :: "vm_ident \<Rightarrow> activity option"
  m_vmActivities :: "vm_ident \<Rightarrow> activity option"
  m_tracker :: "(qstring \<times> vm_ident) list"

definition service_init :: service where
  "service_init = \<lparr>m_ctActivities = (\<lambda>_. None), m_vmActivities = (\<lambda>_. None), m_tracker = []\<rparr>"

text \<open>The lookup of the templates \<^verbatim>\<open>find\<close> and \<^verbatim>\<open>erase\<close>: containers first.\<close>

definition activity_of :: "vm_ident \<Rightarrow> service \<Rightarrow> activity option" where
  "activity_of i s = (case m_ctActivities s i of Some u \<Rightarrow> Some u | None \<Rightarrow> m_vmActivities s i)"

definition drop_activity :: "vm_ident \<Rightarrow> service \<Rightarrow> service" where
  "drop_activity i s =
     (if m_ctActivities s i \<noteq> None then s\<lparr>m_ctActivities := (m_ctActivities s)(i := None)\<rparr>
      else s\<lparr>m_vmActivities := (m_vmActivities s)(i := None)\<rparr>)"

text \<open>\<^verbatim>\<open>Store::Fetch\<close>: an activity is the session's own when the handles are equal.\<close>

definition fetch :: "qstring \<Rightarrow> activity \<Rightarrow> bool" where
  "fetch h u \<longleftrightarrow> h = actor_handle (a_actor u)"

text \<open>What the calls of \<^verbatim>\<open>start\<close> answer; \<open>attach\<close> and \<open>destroy\<close> only matter for snapshots that are pulled.\<close>

record start_calls =
  getSnapshot :: prl_result
  attach :: prl_result
  destroy :: prl_result
  getActivity :: prl_result
  snapshot_create :: prl_result
  op_cancelled :: bool
  flavor_snapshot :: prl_result
  flavor_escort :: prl_result
  escort_made :: bool

definition start_insert ::
  "start_calls \<Rightarrow> bool \<Rightarrow> vm_ident \<Rightarrow> actor \<Rightarrow> service \<Rightarrow> prl_result \<times> unit_effect list \<times> service" where
  "start_insert C ct i a s =
     (case unit_start True (flavor_snapshot C) (flavor_escort C) (escort_made C) (unit_init i a) of (e, u, os) \<Rightarrow>
        if prl_failed e then (e, os @ unit_end u, s)
        else if ct
        then (PRL_ERR_SUCCESS, os @ (case m_ctActivities s i of None \<Rightarrow> [] | Some v \<Rightarrow> unit_end v),
              s\<lparr>m_ctActivities := (m_ctActivities s)(i \<mapsto> u)\<rparr>)
        else (PRL_ERR_SUCCESS, os @ (case m_vmActivities s i of None \<Rightarrow> [] | Some v \<Rightarrow> unit_end v),
              s\<lparr>m_vmActivities := (m_vmActivities s)(i \<mapsto> u)\<rparr>))"

definition start_ct :: "start_calls \<Rightarrow> vm_ident \<Rightarrow> actor \<Rightarrow> service \<Rightarrow> prl_result \<times> unit_effect list \<times> service" where
  "start_ct C i a s =
     (if prl_failed (getSnapshot C) then (getSnapshot C, [], s)
      else if prl_failed (getActivity C) then (getActivity C, [], s)
      else if prl_failed (snapshot_create C) then (snapshot_create C, unit_end (unit_init i a), s)
      else if op_cancelled C then (PRL_ERR_OPERATION_WAS_CANCELED, unit_end (unit_init i a), s)
      else start_insert C True i a s)"

text \<open>A stale snapshot that can be attached to is destroyed before a new one is made.\<close>

definition start_vm_pull :: "start_calls \<Rightarrow> vm_ident \<Rightarrow> actor \<Rightarrow> service \<Rightarrow> prl_result \<times> unit_effect list \<times> service" where
  "start_vm_pull C i a s =
     (if prl_failed (getSnapshot C) then (getSnapshot C, [], s)
      else if prl_succeeded (attach C) \<and> prl_failed (destroy C) then (destroy C, [], s)
      else if prl_failed (getActivity C) then (getActivity C, [], s)
      else if prl_failed (snapshot_create C) then (snapshot_create C, unit_end (unit_init i a), s)
      else if op_cancelled C then (PRL_ERR_OPERATION_WAS_CANCELED, Destroyed i # unit_end (unit_init i a), s)
      else start_insert C False i a s)"

definition start_vm_push :: "start_calls \<Rightarrow> vm_ident \<Rightarrow> actor \<Rightarrow> service \<Rightarrow> prl_result \<times> unit_effect list \<times> service" where
  "start_vm_push C i a s =
     (if prl_failed (getSnapshot C) then (getSnapshot C, [], s)
      else if prl_failed (getActivity C) then (getActivity C, [], s)
      else if op_cancelled C then (PRL_ERR_OPERATION_WAS_CANCELED, unit_end (unit_init i a), s)
      else start_insert C False i a s)"

text \<open>The three kinds of backups that can begin.\<close>

datatype backup_method = Container | Pull | Push

fun start_activity ::
  "backup_method \<Rightarrow> start_calls \<Rightarrow> vm_ident \<Rightarrow> actor \<Rightarrow> service \<Rightarrow> prl_result \<times> unit_effect list \<times> service" where
  "start_activity Container = start_ct"
| "start_activity Pull = start_vm_pull"
| "start_activity Push = start_vm_push"

definition track :: "vm_ident \<Rightarrow> actor \<Rightarrow> service \<Rightarrow> prl_result \<times> service" where
  "track i a s =
     (case activity_of i s of
        None \<Rightarrow> (PRL_ERR_FILE_NOT_FOUND, s)
      | Some u \<Rightarrow>
          if actor_ptr a \<noteq> actor_ptr (a_actor u) then (PRL_ERR_ACCESS_DENIED, s)
          else if (actor_handle a, i) \<in> set (m_tracker s) then (PRL_ERR_DOUBLE_INIT, s)
          else (PRL_ERR_SUCCESS, s\<lparr>m_tracker := (actor_handle a, i) # m_tracker s\<rparr>))"

definition service_finish :: "vm_ident \<Rightarrow> actor \<Rightarrow> service \<Rightarrow> prl_result \<times> unit_effect list \<times> service" where
  "service_finish i a s =
     (case activity_of i s of
        None \<Rightarrow> (PRL_ERR_FILE_NOT_FOUND, [], s)
      | Some u \<Rightarrow>
          if fetch (actor_handle a) u
          then (PRL_ERR_SUCCESS, unit_end u,
                (drop_activity i s)\<lparr>m_tracker := filter (\<lambda>p. p \<noteq> (actor_handle a, i)) (m_tracker s)\<rparr>)
          else (PRL_ERR_ACCESS_DENIED, [], s))"

text \<open>
  \<^verbatim>\<open>abort\<close> of a session: the loop over its entries in the tracker; the activities are aborted, and
  end, after the critical section.
\<close>

fun abort_loop :: "qstring \<Rightarrow> vm_ident list \<Rightarrow> service \<Rightarrow> activity list \<times> service" where
  "abort_loop h [] s = ([], s)"
| "abort_loop h (i # is) s =
     (case activity_of i s of
        None \<Rightarrow> abort_loop h is s
      | Some u \<Rightarrow>
          if fetch h u then (case abort_loop h is (drop_activity i s) of (us, s') \<Rightarrow> (u # us, s'))
          else abort_loop h is s)"

definition abort_session :: "qstring \<Rightarrow> service \<Rightarrow> unit_effect list \<times> service" where
  "abort_session h s =
     (case abort_loop h (map snd (filter (\<lambda>p. fst p = h) (m_tracker s))) s of (us, s1) \<Rightarrow>
        (concat (map (\<lambda>u. unit_end (unit_abort u)) us),
         s1\<lparr>m_tracker := filter (\<lambda>p. fst p \<noteq> h) (m_tracker s)\<rparr>))"

text \<open>\<^verbatim>\<open>abort\<close> of one activity: \<open>None\<close> for a request that has no valid session.\<close>

definition mark_aborted :: "vm_ident \<Rightarrow> qstring \<Rightarrow> service \<Rightarrow> service" where
  "mark_aborted i h s =
     (let f = (\<lambda>m. case m i of None \<Rightarrow> m | Some u \<Rightarrow> if fetch h u then m(i \<mapsto> unit_abort u) else m) in
      if m_ctActivities s i \<noteq> None then s\<lparr>m_ctActivities := f (m_ctActivities s)\<rparr>
      else s\<lparr>m_vmActivities := f (m_vmActivities s)\<rparr>)"

definition abort_activity :: "vm_ident \<Rightarrow> actor \<Rightarrow> service \<Rightarrow> prl_result \<times> unit_effect list \<times> service" where
  "abort_activity i a s = service_finish i a (mark_aborted i (actor_handle a) s)"


section \<open>Beginning and ending a backup of a VM\<close>

text \<open>
  \<^verbatim>\<open>Create::Begin::Flavored::do_\<close> with its reporter, and \<^verbatim>\<open>Create::End::do_\<close>.  The begin is two
  critical sections; other threads run between them.
\<close>

definition begin_second :: "vm_ident \<Rightarrow> actor \<Rightarrow> prl_result \<Rightarrow> service \<Rightarrow> prl_result \<times> service" where
  "begin_second i a cancel s =
     (case track i a s of (e, s1) \<Rightarrow> (if prl_succeeded e then cancel else e, s1))"

definition begin_failed :: "vm_ident \<Rightarrow> actor \<Rightarrow> service \<Rightarrow> unit_effect list \<times> service" where
  "begin_failed i a s = (case abort_activity i a s of (_, os, s1) \<Rightarrow> (os, s1))"

definition end_do :: "bool \<Rightarrow> vm_ident \<Rightarrow> actor \<Rightarrow> service \<Rightarrow> prl_result \<times> unit_effect list \<times> service" where
  "end_do failure_cleanup i a s = (if failure_cleanup then abort_activity i a s else service_finish i a s)"


section \<open>Runs\<close>

text \<open>
  An activity is started while its VM or container has none: the exclusive operation of the backup is
  registered before.  A pointer names one session.
\<close>

inductive service_run :: "service \<Rightarrow> bool" where
  start: "service_run service_init"
| begins: "service_run s \<Longrightarrow> activity_of i s = None \<Longrightarrow> start_activity k C i a s = (e, os, s') \<Longrightarrow> service_run s'"
| track: "service_run s \<Longrightarrow> \<forall>u. activity_of i s = Some u \<longrightarrow> actor_ptr (a_actor u) = actor_ptr a \<longrightarrow> a_actor u = a \<Longrightarrow>
    track i a s = (e, s') \<Longrightarrow> service_run s'"
| finish: "service_run s \<Longrightarrow> service_finish i a s = (e, os, s') \<Longrightarrow> service_run s'"
| abort: "service_run s \<Longrightarrow> abort_activity i a s = (e, os, s') \<Longrightarrow> service_run s'"
| gone: "service_run s \<Longrightarrow> abort_session h s = (os, s') \<Longrightarrow> service_run s'"

definition service_inv :: "service \<Rightarrow> bool" where
  "service_inv s \<longleftrightarrow>
     (\<forall>i. m_ctActivities s i = None \<or> m_vmActivities s i = None) \<and>
     (\<forall>i u. activity_of i s = Some u \<longrightarrow> a_ident u = i) \<and>
     distinct (m_tracker s) \<and>
     (\<forall>h i. (h, i) \<in> set (m_tracker s) \<longrightarrow> (\<exists>u. activity_of i s = Some u \<and> actor_handle (a_actor u) = h))"

lemma service_invI:
  assumes "\<And>i. m_ctActivities s i = None \<or> m_vmActivities s i = None"
    and "\<And>i u. activity_of i s = Some u \<Longrightarrow> a_ident u = i" and "distinct (m_tracker s)"
    and "\<And>h i. (h, i) \<in> set (m_tracker s) \<Longrightarrow> \<exists>u. activity_of i s = Some u \<and> actor_handle (a_actor u) = h"
  shows "service_inv s"
  unfolding service_inv_def using assms by blast

lemma service_invD:
  assumes "service_inv s"
  shows "m_ctActivities s i = None \<or> m_vmActivities s i = None"
    and "activity_of i s = Some u \<Longrightarrow> a_ident u = i" and "distinct (m_tracker s)"
    and "(h, i) \<in> set (m_tracker s) \<Longrightarrow> \<exists>u. activity_of i s = Some u \<and> actor_handle (a_actor u) = h"
proof -
  note d = assms [unfolded service_inv_def]
  show "m_ctActivities s i = None \<or> m_vmActivities s i = None" by (rule spec [OF conjunct1 [OF d]])
  show "a_ident u = i" if "activity_of i s = Some u"
    using that by (rule d [THEN conjunct2, THEN conjunct1, THEN spec, THEN spec, THEN mp])
  show "distinct (m_tracker s)" using d by simp
  show "\<exists>u. activity_of i s = Some u \<and> actor_handle (a_actor u) = h" if "(h, i) \<in> set (m_tracker s)"
    using that by (rule d [THEN conjunct2, THEN conjunct2, THEN conjunct2, THEN spec, THEN spec, THEN mp])
qed

lemma one_owner:
  "service_inv s \<Longrightarrow> (h, i) \<in> set (m_tracker s) \<Longrightarrow> (h', i) \<in> set (m_tracker s) \<Longrightarrow> h' = h"
  using service_invD(4) [of s h i] service_invD(4) [of s h' i] by auto

lemma activity_of_drop:
  "m_ctActivities s i = None \<or> m_vmActivities s i = None \<Longrightarrow>
   activity_of j (drop_activity i s) = (if j = i then None else activity_of j s)"
  by (auto simp: activity_of_def drop_activity_def split: option.splits)

lemma activity_of_tracker [simp]: "activity_of i (s\<lparr>m_tracker := t\<rparr>) = activity_of i s"
  by (simp add: activity_of_def split: option.split)

lemma drop_tracker [simp]: "m_tracker (drop_activity i s) = m_tracker s"
  by (simp add: drop_activity_def)

lemma drop_exclusive:
  assumes "m_ctActivities s j = None \<or> m_vmActivities s j = None"
  shows "m_ctActivities (drop_activity i s) j = None \<or> m_vmActivities (drop_activity i s) j = None"
  using assms by (cases "j = i") (auto simp: drop_activity_def)

text \<open>One activity comes or goes.\<close>

lemma inv_insert:
  assumes inv: "service_inv s" and none: "activity_of i s = None" and u: "a_ident u = i"
    and act: "\<And>j. activity_of j s' = (if j = i then Some u else activity_of j s)"
    and t: "m_tracker s' = m_tracker s"
    and ex: "\<And>j. m_ctActivities s' j = None \<or> m_vmActivities s' j = None"
  shows "service_inv s'"
proof (rule service_invI [OF ex])
  show "a_ident v = j" if "activity_of j s' = Some v" for j v
    using that u service_invD(2) [OF inv] by (simp add: act split: if_splits)
  show "distinct (m_tracker s')" using service_invD(3) [OF inv] by (simp add: t)
  show "\<exists>v. activity_of j s' = Some v \<and> actor_handle (a_actor v) = h" if "(h, j) \<in> set (m_tracker s')" for h j
  proof -
    from service_invD(4) [OF inv, of h j] that obtain v where v: "activity_of j s = Some v" "actor_handle (a_actor v) = h"
      by (auto simp: t)
    with none have "j \<noteq> i" by auto
    with v show ?thesis by (simp add: act)
  qed
qed

lemma inv_drop:
  assumes inv: "service_inv s" and act: "\<And>j. activity_of j s' = (if j \<in> gone then None else activity_of j s)"
    and t: "m_tracker s' = filter P (m_tracker s)" "\<And>h j. (h, j) \<in> set (m_tracker s) \<Longrightarrow> P (h, j) \<Longrightarrow> j \<notin> gone"
    and ex: "\<And>j. m_ctActivities s' j = None \<or> m_vmActivities s' j = None"
  shows "service_inv s'"
proof (rule service_invI [OF ex])
  show "a_ident v = j" if "activity_of j s' = Some v" for j v
    using that service_invD(2) [OF inv] by (simp add: act split: if_splits)
  show "distinct (m_tracker s')" using service_invD(3) [OF inv] by (simp add: t)
  show "\<exists>v. activity_of j s' = Some v \<and> actor_handle (a_actor v) = h" if "(h, j) \<in> set (m_tracker s')" for h j
    using that t(2) [of h j] service_invD(4) [OF inv, of h j] by (simp add: t(1) act)
qed

lemma unit_start_ident:
  "unit_start g e1 e2 x u = (e, u', os) \<Longrightarrow> a_ident u' = a_ident u \<and> a_actor u' = a_actor u"
  by (auto simp: unit_start_def Let_def split: if_splits)

text \<open>A start that fails leaves the service as it was; one that succeeds adds the activity of the session.\<close>

lemma start_insert_effect:
  assumes none: "activity_of i s = None" and run: "start_insert C ct i a s = (e, os, s')"
  shows "(prl_failed e \<and> s' = s) \<or> (e = PRL_ERR_SUCCESS \<and>
    (\<exists>u. a_ident u = i \<and> a_actor u = a \<and> (\<forall>j. activity_of j s' = (if j = i then Some u else activity_of j s))) \<and>
    m_tracker s' = m_tracker s \<and> (\<forall>j. (m_ctActivities s j = None \<or> m_vmActivities s j = None) \<longrightarrow>
      (m_ctActivities s' j = None \<or> m_vmActivities s' j = None)))"
proof -
  obtain e0 u os0 where u: "unit_start True (flavor_snapshot C) (flavor_escort C) (escort_made C) (unit_init i a) = (e0, u, os0)"
    by (cases "unit_start True (flavor_snapshot C) (flavor_escort C) (escort_made C) (unit_init i a)") auto
  from unit_start_ident [OF u] have id: "a_ident u = i" "a_actor u = a" by (simp_all add: unit_init_def)
  from none have none: "m_ctActivities s i = None" "m_vmActivities s i = None"
    by (auto simp: activity_of_def split: option.splits)
  show ?thesis
  proof (cases "prl_failed e0")
    case True
    with run u show ?thesis by (simp add: start_insert_def)
  next
    case False
    with run u none have s': "e = PRL_ERR_SUCCESS" "s' = (if ct then s\<lparr>m_ctActivities := (m_ctActivities s)(i \<mapsto> u)\<rparr>
        else s\<lparr>m_vmActivities := (m_vmActivities s)(i \<mapsto> u)\<rparr>)"
      by (auto simp: start_insert_def split: if_splits)
    have "\<forall>j. activity_of j s' = (if j = i then Some u else activity_of j s)"
      using none by (auto simp: s'(2) activity_of_def split: option.split)
    moreover have "m_ctActivities s' j = None \<or> m_vmActivities s' j = None"
      if "m_ctActivities s j = None \<or> m_vmActivities s j = None" for j
      using none that by (auto simp: s'(2))
    ultimately show ?thesis using id s' by auto
  qed
qed

lemma start_effect:
  assumes "activity_of i s = None" "start_activity k C i a s = (e, os, s')"
  shows "(prl_failed e \<and> s' = s) \<or> (e = PRL_ERR_SUCCESS \<and>
    (\<exists>u. a_ident u = i \<and> a_actor u = a \<and> (\<forall>j. activity_of j s' = (if j = i then Some u else activity_of j s))) \<and>
    m_tracker s' = m_tracker s \<and> (\<forall>j. (m_ctActivities s j = None \<or> m_vmActivities s j = None) \<longrightarrow>
      (m_ctActivities s' j = None \<or> m_vmActivities s' j = None)))"
proof (cases "prl_failed e \<and> s' = s")
  case False
  have "\<exists>os. start_insert C (k = Container) i a s = (e, os, s')"
    using assms(2) False
    by (cases k) (auto simp: start_ct_def start_vm_pull_def start_vm_push_def prl_failed_def split: if_splits)
  then show ?thesis by (elim exE) (rule start_insert_effect [OF assms(1)])
qed simp

lemma start_inv:
  assumes inv: "service_inv s" and none: "activity_of i s = None" and run: "start_activity k C i a s = (e, os, s')"
  shows "service_inv s'"
  using start_effect [OF none run]
proof (elim disjE conjE exE)
  fix u
  assume u: "a_ident u = i" "\<forall>j. activity_of j s' = (if j = i then Some u else activity_of j s)"
    and t: "m_tracker s' = m_tracker s"
    and ex: "\<forall>j. (m_ctActivities s j = None \<or> m_vmActivities s j = None) \<longrightarrow>
      (m_ctActivities s' j = None \<or> m_vmActivities s' j = None)"
  show ?thesis
    by (rule inv_insert [OF inv none u(1) spec [OF u(2)] t ex [THEN spec, THEN mp, OF service_invD(1) [OF inv]]])
qed (use inv in simp)

lemma finish_inv:
  assumes inv: "service_inv s" and run: "service_finish i a s = (e, os, s')"
  shows "service_inv s'"
proof (cases "\<exists>u. activity_of i s = Some u \<and> fetch (actor_handle a) u")
  case False
  with run inv show ?thesis by (auto simp: service_finish_def split: option.splits if_splits)
next
  case True
  then obtain u where u: "activity_of i s = Some u" "actor_handle (a_actor u) = actor_handle a"
    by (auto simp: fetch_def)
  with run have s': "s' = (drop_activity i s)\<lparr>m_tracker := filter (\<lambda>p. p \<noteq> (actor_handle a, i)) (m_tracker s)\<rparr>"
    by (simp add: service_finish_def fetch_def)
  have "activity_of j s' = (if j \<in> {i} then None else activity_of j s)" for j
    using activity_of_drop [OF service_invD(1) [OF inv], of j i] by (simp add: s')
  then show ?thesis
  proof (rule inv_drop [OF inv])
    show "m_tracker s' = filter (\<lambda>p. p \<noteq> (actor_handle a, i)) (m_tracker s)" by (simp add: s')
    show "j \<notin> {i}" if "(h, j) \<in> set (m_tracker s)" "(h, j) \<noteq> (actor_handle a, i)" for h j
      using that service_invD(4) [OF inv, of h j] u by auto
    show "m_ctActivities s' j = None \<or> m_vmActivities s' j = None" for j
      using drop_exclusive [OF service_invD(1) [OF inv, of j], of i] by (simp add: s')
  qed
qed

lemma unit_abort_simps [simp]: "a_ident (unit_abort u) = a_ident u" "a_actor (unit_abort u) = a_actor u"
    "a_snapshot (unit_abort u) = a_snapshot u"
  by (simp_all add: unit_abort_def)

lemma mark_aborted_tracker [simp]: "m_tracker (mark_aborted i h s) = m_tracker s"
  by (simp add: mark_aborted_def Let_def)

lemma mark_aborted_activity:
  "m_ctActivities s i = None \<or> m_vmActivities s i = None \<Longrightarrow> activity_of j (mark_aborted i h s) =
     (if j = i then map_option (\<lambda>u. if fetch h u then unit_abort u else u) (activity_of i s) else activity_of j s)"
  by (auto simp: mark_aborted_def activity_of_def Let_def split: option.split)

lemma mark_aborted_inv:
  assumes inv: "service_inv s"
  shows "service_inv (mark_aborted i h s)"
proof (rule service_invI)
  note act = mark_aborted_activity [OF service_invD(1) [OF inv], of _ i h]
  show "m_ctActivities (mark_aborted i h s) j = None \<or> m_vmActivities (mark_aborted i h s) j = None" for j
    using service_invD(1) [OF inv, of i] service_invD(1) [OF inv, of j]
    by (auto simp: mark_aborted_def Let_def split: option.split)
  show "a_ident u = j" if "activity_of j (mark_aborted i h s) = Some u" for j u
    using that service_invD(2) [OF inv, of j] by (auto simp: act split: if_splits)
  show "distinct (m_tracker (mark_aborted i h s))" using service_invD(3) [OF inv] by simp
  show "\<exists>u. activity_of j (mark_aborted i h s) = Some u \<and> actor_handle (a_actor u) = k"
    if "(k, j) \<in> set (m_tracker (mark_aborted i h s))" for k j
  proof (cases "j = i")
    case True
    from that service_invD(4) [OF inv, of k j] obtain u where "activity_of i s = Some u" "actor_handle (a_actor u) = k"
      by (auto simp: True)
    then show ?thesis by (simp add: act True)
  next
    case False
    with that service_invD(4) [OF inv, of k j] show ?thesis by (auto simp: act)
  qed
qed

lemma track_inv:
  assumes inv: "service_inv s" and run: "track i a s = (e, s')"
    and same: "\<And>u. activity_of i s = Some u \<Longrightarrow> actor_ptr (a_actor u) = actor_ptr a \<Longrightarrow> a_actor u = a"
  shows "service_inv s'"
proof (cases "s' = s")
  case False
  with run obtain u where u: "activity_of i s = Some u" "actor_ptr (a_actor u) = actor_ptr a"
    "(actor_handle a, i) \<notin> set (m_tracker s)" "s' = s\<lparr>m_tracker := (actor_handle a, i) # m_tracker s\<rparr>"
    by (auto simp: track_def split: option.splits if_splits)
  show ?thesis
  proof (rule service_invI)
    show "\<exists>v. activity_of j s' = Some v \<and> actor_handle (a_actor v) = h" if "(h, j) \<in> set (m_tracker s')" for h j
      using that u same [OF u(1,2)] service_invD(4) [OF inv, of h j] by auto
  qed (use u service_invD(1-3) [OF inv] in simp_all)
qed (use inv in simp)

text \<open>The loop takes the session's own activities out of the maps.\<close>

lemma abort_loop_effect:
  assumes "distinct js" "\<And>j. m_ctActivities s j = None \<or> m_vmActivities s j = None"
    and "\<And>j. j \<in> set js \<Longrightarrow> \<exists>u. activity_of j s = Some u \<and> fetch h u"
    and "abort_loop h js s = (us, s')"
  shows "us = map (\<lambda>j. the (activity_of j s)) js \<and>
    (\<forall>j. activity_of j s' = (if j \<in> set js then None else activity_of j s)) \<and>
    (\<forall>j. m_ctActivities s' j = None \<or> m_vmActivities s' j = None)"
  using assms
proof (induction js arbitrary: s us)
  case Nil
  then show ?case by (auto simp del: split_paired_All)
next
  case (Cons i js)
  from Cons.prems(3) [of i] obtain u where u: "activity_of i s = Some u" "fetch h u" by auto
  with Cons.prems(4) obtain vs where l: "abort_loop h js (drop_activity i s) = (vs, s')" "us = u # vs"
    by (auto split: prod.splits)
  have act: "activity_of j (drop_activity i s) = (if j = i then None else activity_of j s)" for j
    by (rule activity_of_drop [OF Cons.prems(2)])
  have own: "\<exists>v. activity_of j (drop_activity i s) = Some v \<and> fetch h v" if "j \<in> set js" for j
    using that Cons.prems(1) Cons.prems(3) [of j] by (auto simp: act)
  have ih: "vs = map (\<lambda>j. the (activity_of j (drop_activity i s))) js \<and>
    (\<forall>j. activity_of j s' = (if j \<in> set js then None else activity_of j (drop_activity i s))) \<and>
    (\<forall>j. m_ctActivities s' j = None \<or> m_vmActivities s' j = None)"
    using Cons.prems(1) by (intro Cons.IH [OF _ drop_exclusive [OF Cons.prems(2)] own l(1)]) auto
  have "map (\<lambda>j. the (activity_of j (drop_activity i s))) js = map (\<lambda>j. the (activity_of j s)) js"
    using Cons.prems(1) by (auto simp: act)
  with ih l(2) u(1) show ?case by (simp add: act del: split_paired_All)
qed

definition tracked :: "qstring \<Rightarrow> service \<Rightarrow> vm_ident list" where
  "tracked h s = map snd (filter (\<lambda>p. fst p = h) (m_tracker s))"

lemma set_tracked: "i \<in> set (tracked h s) \<longleftrightarrow> (h, i) \<in> set (m_tracker s)"
  by (cases i) (auto simp: tracked_def image_iff)

lemma distinct_tracked: "distinct (m_tracker s) \<Longrightarrow> distinct (tracked h s)"
  by (auto simp: tracked_def distinct_map inj_on_def)

lemma abort_session_effect:
  assumes inv: "service_inv s" and run: "abort_session h s = (os, s')"
  shows "os = concat (map (\<lambda>i. unit_end (unit_abort (the (activity_of i s)))) (tracked h s))"
    "m_tracker s' = filter (\<lambda>p. fst p \<noteq> h) (m_tracker s)"
    "activity_of j s' = (if (h, j) \<in> set (m_tracker s) then None else activity_of j s)"
    "service_inv s'"
proof -
  obtain us s1 where l: "abort_loop h (tracked h s) s = (us, s1)" by (cases "abort_loop h (tracked h s) s") auto
  have own: "\<exists>u. activity_of i s = Some u \<and> fetch h u" if "i \<in> set (tracked h s)" for i
    using that service_invD(4) [OF inv, of h i] by (auto simp: set_tracked fetch_def)
  note e = abort_loop_effect [OF distinct_tracked [OF service_invD(3) [OF inv]] service_invD(1) [OF inv] own l]
  have s': "s' = s1\<lparr>m_tracker := filter (\<lambda>p. fst p \<noteq> h) (m_tracker s)\<rparr>"
    "os = concat (map (\<lambda>u. unit_end (unit_abort u)) us)"
    using run l by (auto simp: abort_session_def tracked_def)
  show "os = concat (map (\<lambda>i. unit_end (unit_abort (the (activity_of i s)))) (tracked h s))"
    using e by (simp add: s'(2) comp_def)
  show tr: "m_tracker s' = filter (\<lambda>p. fst p \<noteq> h) (m_tracker s)" by (simp add: s'(1))
  have act: "activity_of j s' = (if j \<in> set (tracked h s) then None else activity_of j s)" for j
    using e by (simp add: s'(1) del: split_paired_All)
  then show "activity_of j s' = (if (h, j) \<in> set (m_tracker s) then None else activity_of j s)"
    by (simp add: set_tracked)
  from act show "service_inv s'"
  proof (rule inv_drop [OF inv _ tr])
    show "j \<notin> set (tracked h s)" if "(k, j) \<in> set (m_tracker s)" "fst (k, j) \<noteq> h" for k j
      using that one_owner [OF inv, of h j k] by (auto simp: set_tracked)
    show "m_ctActivities s' j = None \<or> m_vmActivities s' j = None" for j
      using e by (simp add: s'(1) del: split_paired_All)
  qed
qed

lemma service_run_inv: "service_run s \<Longrightarrow> service_inv s"
proof (induction rule: service_run.induct)
  case start
  show ?case by (simp add: service_inv_def service_init_def activity_of_def)
next
  case (begins s i k C a e os s')
  from this(4,2,3) show ?case using start_inv by blast
next
  case (track s i a e s')
  then show ?case using track_inv [of s i a e s'] by blast
next
  case (finish s i a e os s')
  from this(3,2) show ?case by (rule finish_inv)
next
  case (abort s i a e os s')
  then show ?case unfolding abort_activity_def by (blast intro: finish_inv mark_aborted_inv)
next
  case (gone s h os s')
  from this(3,2) show ?case by (rule abort_session_effect(4))
qed


text \<open>
  A container's backup that is cancelled when its snapshot was made ends without destroying it; that of
  a VM destroys it.
\<close>

lemma cancelled_container_keeps_snapshot:
  assumes "getSnapshot C = PRL_ERR_SUCCESS" "getActivity C = PRL_ERR_SUCCESS" "snapshot_create C = PRL_ERR_SUCCESS"
    and "op_cancelled C" "attach C \<noteq> PRL_ERR_SUCCESS"
  shows "start_activity Container C i a s = (PRL_ERR_OPERATION_WAS_CANCELED, [Unlocked i], s)"
    and "start_activity Pull C i a s = (PRL_ERR_OPERATION_WAS_CANCELED, [Destroyed i, Unlocked i], s)"
  using assms by (simp_all add: start_ct_def start_vm_pull_def unit_end_def unit_init_def prl_failed_def)


section \<open>A session ends\<close>

lemma unit_end_aborted:
  "unit_end (unit_abort u) = (if a_snapshot u then [Destroyed (a_ident u)] else []) @ [Unlocked (a_ident u)]"
  by (auto simp: unit_end_def unit_abort_def)

text \<open>C17. When a session is gone, exactly the backups that it began and that are tracked end: the
  snapshot of each is destroyed, never merged, and its exclusive operation is given back, once.  All
  other backups go on, and nothing of the session stays in the tracker.\<close>

theorem session_end_aborts_its_backups:
  assumes "service_run s" "abort_session h s = (os, s')"
  shows "os = concat (map (\<lambda>i. (if a_snapshot (the (activity_of i s)) then [Destroyed i] else []) @ [Unlocked i]) (tracked h s)) \<and>
    distinct (tracked h s) \<and>
    activity_of j s' = (if j \<in> set (tracked h s) then None else activity_of j s) \<and>
    tracked h s' = [] \<and> (h' \<noteq> h \<longrightarrow> tracked h' s' = tracked h' s)"
proof -
  from assms(1) have inv: "service_inv s" by (rule service_run_inv)
  note e = abort_session_effect [OF inv assms(2)]
  have "a_ident (the (activity_of i s)) = i" if "i \<in> set (tracked h s)" for i
    using that service_invD(4) [OF inv, of h i] service_invD(2) [OF inv, of i] by (auto simp: set_tracked)
  then have os: "os = concat (map (\<lambda>i. (if a_snapshot (the (activity_of i s)) then [Destroyed i] else []) @ [Unlocked i]) (tracked h s))"
    unfolding e(1) by (intro arg_cong [where f = concat] map_cong) (simp_all add: unit_end_aborted)
  have "tracked h s' = []" by (simp add: tracked_def e(2) filter_filter)
  moreover have "tracked h' s' = tracked h' s" if "h' \<noteq> h"
    using that unfolding tracked_def e(2) filter_filter by (intro arg_cong [where f = "map snd"] filter_cong) auto
  moreover have "activity_of j s' = (if j \<in> set (tracked h s) then None else activity_of j s)"
    using e(3) [of j] by (simp add: set_tracked)
  ultimately show ?thesis using os distinct_tracked [OF service_invD(3) [OF inv]] by blast
qed


section \<open>A backup begins while its session ends\<close>

text \<open>
  The begin of one backup: it is started, then tracked, then the task looks whether it was cancelled;
  a failure is reported and ends the activity.  The end of the session first cancels the task
  (\<^verbatim>\<open>CDspClientManager\<close>), then calls \<^verbatim>\<open>abort\<close>; both are called by the same signal, in this order.
  Others change the service in between, but not this activity.
\<close>

datatype begin_phase = Waiting | Started | Tracked | Failed | Completed | Answered

datatype session_phase = Connected | Cancelled | Gone

inductive begin_race :: "vm_ident \<Rightarrow> actor \<Rightarrow> begin_phase \<Rightarrow> session_phase \<Rightarrow> service \<Rightarrow> bool" for i a where
  waiting: "service_run s \<Longrightarrow> activity_of i s = None \<Longrightarrow> begin_race i a Waiting Connected s"
| started: "begin_race i a Waiting d s \<Longrightarrow> start_activity k C i a s = (e, os, s') \<Longrightarrow>
    begin_race i a (if prl_failed e then Failed else Started) d s'"
| tracked: "begin_race i a Started d s \<Longrightarrow> track i a s = (e, s') \<Longrightarrow>
    begin_race i a (if prl_failed e then Failed else Tracked) d s'"
| checked: "begin_race i a Tracked d s \<Longrightarrow> begin_race i a (if d = Connected then Completed else Failed) d s"
| reported: "begin_race i a Failed d s \<Longrightarrow> begin_failed i a s = (os, s') \<Longrightarrow> begin_race i a Answered d s'"
| cancels: "begin_race i a p Connected s \<Longrightarrow> begin_race i a p Cancelled s"
| leaves: "begin_race i a p Cancelled s \<Longrightarrow> abort_session (actor_handle a) s = (os, s') \<Longrightarrow> begin_race i a p Gone s'"
| others: "begin_race i a p d s \<Longrightarrow> service_inv s' \<Longrightarrow> activity_of i s' = activity_of i s \<Longrightarrow>
    ((actor_handle a, i) \<in> set (m_tracker s') \<longleftrightarrow> (actor_handle a, i) \<in> set (m_tracker s)) \<Longrightarrow> begin_race i a p d s'"

definition own_activity :: "vm_ident \<Rightarrow> actor \<Rightarrow> service \<Rightarrow> bool" where
  "own_activity i a s \<longleftrightarrow> (\<exists>u. activity_of i s = Some u \<and> a_actor u = a)"

fun phase_ok :: "vm_ident \<Rightarrow> actor \<Rightarrow> begin_phase \<Rightarrow> session_phase \<Rightarrow> service \<Rightarrow> bool" where
  "phase_ok i a Waiting d s \<longleftrightarrow> activity_of i s = None"
| "phase_ok i a Started d s \<longleftrightarrow> own_activity i a s \<and> (actor_handle a, i) \<notin> set (m_tracker s)"
| "phase_ok i a Tracked d s \<longleftrightarrow>
     own_activity i a s \<and> (actor_handle a, i) \<in> set (m_tracker s) \<or> d = Gone \<and> activity_of i s = None"
| "phase_ok i a Completed d s \<longleftrightarrow>
     (if d = Gone then activity_of i s = None else own_activity i a s \<and> (actor_handle a, i) \<in> set (m_tracker s))"
| "phase_ok i a Failed d s \<longleftrightarrow> own_activity i a s \<or> activity_of i s = None"
| "phase_ok i a Answered d s \<longleftrightarrow> activity_of i s = None"

lemma finish_effect:
  assumes inv: "service_inv s" and run: "service_finish i a s = (e, os, s')"
    and own: "own_activity i a s \<or> activity_of i s = None"
  shows "activity_of i s' = None"
  using run own activity_of_drop [OF service_invD(1) [OF inv], of i i]
  by (auto simp: service_finish_def own_activity_def fetch_def split: option.splits if_splits)

lemma begin_failed_effect:
  assumes inv: "service_inv s" and run: "begin_failed i a s = (os, s')"
    and own: "own_activity i a s \<or> activity_of i s = None"
  shows "service_inv s' \<and> activity_of i s' = None"
proof -
  let ?m = "mark_aborted i (actor_handle a) s"
  obtain e where f: "service_finish i a ?m = (e, os, s')"
    using run by (auto simp: begin_failed_def abort_activity_def split: prod.splits)
  note m = mark_aborted_activity [OF service_invD(1) [OF inv], of i i "actor_handle a"]
  from own have "own_activity i a ?m \<or> activity_of i ?m = None"
  proof
    assume "own_activity i a s"
    then obtain u where "activity_of i s = Some u" "a_actor u = a" by (auto simp: own_activity_def)
    then show ?thesis by (simp add: own_activity_def m)
  qed (simp add: m)
  with finish_effect [OF mark_aborted_inv [OF inv] f] finish_inv [OF mark_aborted_inv [OF inv] f] show ?thesis by simp
qed

lemma begin_race_ok: "begin_race i a p d s \<Longrightarrow> service_inv s \<and> phase_ok i a p d s"
proof (induction rule: begin_race.induct)
  case (waiting s)
  then show ?case by (simp add: service_run_inv)
next
  case (started d s k C e os s')
  then have none: "activity_of i s = None" and inv: "service_inv s" by simp_all
  have nt: "(actor_handle a, i) \<notin> set (m_tracker s)" using service_invD(4) [OF inv, of "actor_handle a" i] none by auto
  note inv' = start_inv [OF inv none started(2)]
  show ?case
    using start_effect [OF none started(2)]
  proof (elim disjE conjE exE)
    fix u
    assume u: "a_actor u = a" "\<forall>j. activity_of j s' = (if j = i then Some u else activity_of j s)"
      and t: "e = PRL_ERR_SUCCESS" "m_tracker s' = m_tracker s"
    from u(2) have "activity_of i s' = Some u" by (rule allE [where x = i]) simp
    with u(1) t nt inv' show ?case by (simp add: own_activity_def)
  qed (use none inv in simp)
next
  case (tracked d s e s')
  then have own: "own_activity i a s" and nt: "(actor_handle a, i) \<notin> set (m_tracker s)" and inv: "service_inv s" by simp_all
  from own obtain u where u: "activity_of i s = Some u" "a_actor u = a" by (auto simp: own_activity_def)
  with tracked(2) nt have "e = PRL_ERR_SUCCESS" "s' = s\<lparr>m_tracker := (actor_handle a, i) # m_tracker s\<rparr>"
    by (simp_all add: track_def)
  moreover from inv tracked(2) have "service_inv s'" by (rule track_inv) (simp add: u)
  ultimately show ?case using own by (simp add: own_activity_def)
next
  case (checked d s)
  then show ?case by auto
next
  case (reported d s os s')
  then show ?case using begin_failed_effect [of s i a os s'] by simp
next
  case (cancels p s)
  then show ?case by (cases p) auto
next
  case (leaves p s os s')
  note e = abort_session_effect(2,4) [OF _ leaves(2)] abort_session_effect(3) [OF _ leaves(2), of i]
  from leaves(3) e show ?case by (cases p) (auto simp: own_activity_def)
next
  case (others p d s s')
  then show ?case by (cases p) (auto simp: own_activity_def)
qed

text \<open>C18. A backup that begins while its session ends does not stay behind: in whatever order the
  steps of the begin, those of the end of the session and those of others come, when the begin has
  answered and the session is gone the VM has no activity; and a begin that completed while its
  session is connected has its activity, tracked.\<close>

theorem no_backup_outlives_its_session:
  assumes "begin_race i a p d s" "p = Completed \<or> p = Answered"
  shows "(d = Gone \<longrightarrow> activity_of i s = None) \<and>
    (d = Connected \<and> p = Completed \<longrightarrow> (\<exists>u. activity_of i s = Some u \<and> a_actor u = a \<and> i \<in> set (tracked (actor_handle a) s)))"
  using begin_race_ok [OF assms(1)] assms(2) by (auto simp: own_activity_def set_tracked)

section \<open>Examples\<close>

definition demo_actor :: actor where
  "demo_actor = \<lparr>actor_ptr = 1, actor_handle = ''session''\<rparr>"

definition demo_calls :: start_calls where
  "demo_calls = \<lparr>getSnapshot = PRL_ERR_SUCCESS, attach = PRL_ERR_FAILURE, destroy = PRL_ERR_SUCCESS,
     getActivity = PRL_ERR_SUCCESS, snapshot_create = PRL_ERR_SUCCESS, op_cancelled = False,
     flavor_snapshot = PRL_ERR_SUCCESS, flavor_escort = PRL_ERR_SUCCESS, escort_made = True\<rparr>"

definition demo_vm :: vm_ident where
  "demo_vm = (''vm'', ''dir'')"

definition demo_started :: service where
  "demo_started = snd (snd (start_activity Pull demo_calls demo_vm demo_actor service_init))"

definition demo_tracked :: service where
  "demo_tracked = snd (track demo_vm demo_actor demo_started)"

lemmas demo_defs = demo_actor_def demo_calls_def demo_vm_def demo_started_def demo_tracked_def

lemma demo_start:
  "start_activity Pull demo_calls demo_vm demo_actor service_init = (PRL_ERR_SUCCESS, [], demo_started)"
  "activity_of demo_vm service_init = None"
  by (simp_all add: demo_defs start_vm_pull_def start_insert_def unit_start_def unit_init_def service_init_def activity_of_def)

lemma demo_activity:
  "activity_of demo_vm demo_started =
     Some \<lparr>a_ident = demo_vm, a_actor = demo_actor, a_snapshot = True, a_final = Merge\<rparr>"
  "m_tracker demo_started = []"
  by (simp_all add: demo_defs start_vm_pull_def start_insert_def unit_start_def unit_init_def service_init_def activity_of_def)

lemma demo_track:
  "track demo_vm demo_actor demo_started = (PRL_ERR_SUCCESS, demo_tracked)"
  "m_tracker demo_tracked = [(''session'', demo_vm)]" "activity_of i demo_tracked = activity_of i demo_started"
  by (simp_all add: demo_tracked_def track_def demo_activity) (simp add: demo_actor_def)

lemma demo_runs: "service_run demo_started" "service_run demo_tracked"
proof -
  show s: "service_run demo_started"
    by (rule service_run.begins [OF service_run.start demo_start(2) demo_start(1)])
  show "service_run demo_tracked"
    by (rule service_run.track [OF s _ demo_track(1)]) (simp add: demo_activity)
qed

theorem session_end_aborts_its_backups_witness:
  "fst (abort_session ''session'' demo_tracked) = [Destroyed demo_vm, Unlocked demo_vm] \<and>
   activity_of demo_vm demo_tracked \<noteq> None \<and>
   activity_of demo_vm (snd (abort_session ''session'' demo_tracked)) = None"
  using session_end_aborts_its_backups [OF demo_runs(2), of "''session''" _ _ demo_vm "[]"]
  by (cases "abort_session ''session'' demo_tracked") (simp add: tracked_def demo_track demo_activity)

text \<open>The session leaves between the start and the tracking of its backup.\<close>

theorem no_backup_outlives_its_session_witness:
  "\<exists>s. begin_race demo_vm demo_actor Answered Gone s \<and> activity_of demo_vm s = None"
proof -
  let ?race = "begin_race demo_vm demo_actor"
  have w: "?race Waiting Connected service_init" by (rule begin_race.waiting [OF service_run.start demo_start(2)])
  from begin_race.started [OF w demo_start(1)] have "?race Started Connected demo_started" by simp
  then have c: "?race Started Cancelled demo_started" by (rule begin_race.cancels)
  have "abort_session (actor_handle demo_actor) demo_started = ([], demo_started)"
    by (simp add: abort_session_def demo_activity)
  from begin_race.tracked [OF begin_race.leaves [OF c this] demo_track(1)]
  have "?race Tracked Gone demo_tracked" by simp
  from begin_race.checked [OF this] have f: "?race Failed Gone demo_tracked" by simp
  obtain os s' where "begin_failed demo_vm demo_actor demo_tracked = (os, s')"
    by (cases "begin_failed demo_vm demo_actor demo_tracked") auto
  from begin_race.reported [OF f this] have a: "?race Answered Gone s'" .
  with no_backup_outlives_its_session [OF a] show ?thesis by blast
qed

end
