(* ===== verification/TemplateStorage.thy ===== *)
theory TemplateStorage
  imports BackupStore
begin

text \<open>
  The storage of templates on a shared file system, \<^verbatim>\<open>CDspTemplateStorage.cpp\<close>: a catalogue is a
  directory with one entry for each template.  What a task wants to do with entries is logged and
  then committed as one batch, whose actions can be undone.  Two lock files keep tasks of all nodes
  apart: the slow one is held for a whole batch, the fast one for a change of an entry.
\<close>

section \<open>Lock files\<close>

text \<open>
  The references to locks of one file that are alive: the catalogue object that holds one, and whether
  it is for writing.  A catalogue object shares a lock among its references; \<^verbatim>\<open>flock\<close> with
  \<^verbatim>\<open>LOCK_NB\<close> refuses a lock that conflicts with one of another open file.  \<open>can_open\<close> is the answer of
  \<^verbatim>\<open>QFile::open\<close>.
\<close>

type_synonym lock_file = "(nat \<times> bool) list"

definition flock_free :: "bool \<Rightarrow> lock_file \<Rightarrow> bool" where
  "flock_free exclusive l \<longleftrightarrow> (if exclusive then l = [] else (\<forall>h \<in> set l. \<not> snd h))"

definition getForRead :: "bool \<Rightarrow> nat \<Rightarrow> lock_file \<Rightarrow> lock_file option" where
  "getForRead can_open k l =
     (if (k, False) \<in> set l then Some ((k, False) # l)
      else if can_open \<and> flock_free False l then Some ((k, False) # l)
      else None)"

definition getForWrite :: "bool \<Rightarrow> nat \<Rightarrow> lock_file \<Rightarrow> lock_file option" where
  "getForWrite can_open k l =
     (if (k, False) \<in> set l then None
      else if (k, True) \<in> set l then Some ((k, True) # l)
      else if can_open \<and> flock_free True l then Some ((k, True) # l)
      else None)"

definition lock_release_ref :: "nat \<times> bool \<Rightarrow> lock_file \<Rightarrow> lock_file" where
  "lock_release_ref h l = remove1 h l"

inductive lock_file_run :: "lock_file \<Rightarrow> bool" where
  start: "lock_file_run []"
| read: "lock_file_run l \<Longrightarrow> getForRead c k l = Some l' \<Longrightarrow> lock_file_run l'"
| write_: "lock_file_run l \<Longrightarrow> getForWrite c k l = Some l' \<Longrightarrow> lock_file_run l'"
| release: "lock_file_run l \<Longrightarrow> lock_file_run (lock_release_ref h l)"


section \<open>Files\<close>

text \<open>\<^verbatim>\<open>CFileHelper\<close>, and the decimal form of a number.\<close>

record 'c template_env =
  te_text :: "32 word \<Rightarrow> qstring"
  te_isUuid :: "qstring \<Rightarrow> bool"
  te_config :: qstring
  WriteDirectory :: "path \<Rightarrow> 'c files \<Rightarrow> bool \<times> 'c files"
  ClearAndDelete :: "path \<Rightarrow> 'c files \<Rightarrow> bool \<times> 'c files"
  RemoveEntry :: "path \<Rightarrow> 'c files \<Rightarrow> bool \<times> 'c files"
  RenameEntry :: "path \<Rightarrow> path \<Rightarrow> 'c files \<Rightarrow> bool \<times> 'c files"

type_synonym 'c content = "path \<Rightarrow> 'c files \<Rightarrow> prl_result \<times> 'c files"

definition facade_mkdir :: "'c template_env \<Rightarrow> path \<Rightarrow> 'c files \<Rightarrow> prl_result \<times> 'c files" where
  "facade_mkdir E p fs =
     (case WriteDirectory E p fs of (ok, fs') \<Rightarrow> (if ok then PRL_ERR_SUCCESS else PRL_ERR_MAKE_DIRECTORY, fs'))"

definition facade_unlink :: "'c template_env \<Rightarrow> path \<Rightarrow> 'c files \<Rightarrow> prl_result \<times> 'c files" where
  "facade_unlink E p fs =
     (if is_dir p fs then
        (case ClearAndDelete E p fs of (ok, fs') \<Rightarrow> (if ok then PRL_ERR_SUCCESS else PRL_ERR_CANT_REMOVE_ENTRY, fs'))
      else if path_exists p fs then
        (case RemoveEntry E p fs of (ok, fs') \<Rightarrow> (if ok then PRL_ERR_SUCCESS else PRL_ERR_CANT_REMOVE_ENTRY, fs'))
      else (PRL_ERR_SUCCESS, fs))"

definition facade_rename :: "'c template_env \<Rightarrow> path \<Rightarrow> path \<Rightarrow> 'c files \<Rightarrow> prl_result \<times> 'c files" where
  "facade_rename E p q fs =
     (case RenameEntry E p q fs of (ok, fs') \<Rightarrow> (if ok then PRL_ERR_SUCCESS else PRL_ERR_CANT_RENAME_ENTRY, fs'))"


section \<open>Actions\<close>

text \<open>
  The store as a catalogue object sees it; \<open>openable\<close> tells whether the lock files can be opened.
\<close>

record 'c template_store =
  ts_files :: "'c files"
  ts_fast :: lock_file
  ts_slow :: lock_file
  ts_openable :: bool

text \<open>An action on the entry of a name; the path is that of its sandbox.\<close>

datatype 'c work =
    Unlink qstring path
  | Import qstring "'c content option" path
  | Export qstring "'c content option"

definition with_files :: "('c files \<Rightarrow> prl_result \<times> 'c files) \<Rightarrow> 'c template_store \<Rightarrow> prl_result \<times> 'c template_store" where
  "with_files f s = (case f (ts_files s) of (e, fs) \<Rightarrow> (e, s\<lparr>ts_files := fs\<rparr>))"

text \<open>The lock of the entry is held while \<open>f\<close> runs.\<close>

definition with_entry_lock :: "nat \<Rightarrow> ('c files \<Rightarrow> prl_result \<times> 'c files) \<Rightarrow> 'c template_store \<Rightarrow> prl_result \<times> 'c template_store" where
  "with_entry_lock k f s =
     (case getForWrite (ts_openable s) k (ts_fast s) of
        None \<Rightarrow> (PRL_ERR_FAILURE, s)
      | Some l \<Rightarrow>
          (case with_files f (s\<lparr>ts_fast := l\<rparr>) of (e, s') \<Rightarrow>
             (e, s'\<lparr>ts_fast := lock_release_ref (k, True) (ts_fast s')\<rparr>)))"

definition unlink_do :: "'c template_env \<Rightarrow> nat \<Rightarrow> path \<Rightarrow> path \<Rightarrow> 'c template_store \<Rightarrow> prl_result \<times> 'c template_store" where
  "unlink_do E k root backup s =
     with_entry_lock k (\<lambda>fs. if \<not> path_exists root fs then (PRL_ERR_SUCCESS, fs) else facade_rename E root backup fs) s"

definition unlink_undo :: "'c template_env \<Rightarrow> nat \<Rightarrow> path \<Rightarrow> path \<Rightarrow> 'c template_store \<Rightarrow> prl_result \<times> 'c template_store" where
  "unlink_undo E k root backup s =
     (if \<not> path_exists backup (ts_files s) then (PRL_ERR_SUCCESS, s)
      else with_entry_lock k (facade_rename E backup root) s)"

definition import_do ::
  "'c template_env \<Rightarrow> nat \<Rightarrow> path \<Rightarrow> 'c content option \<Rightarrow> path \<Rightarrow> 'c template_store \<Rightarrow> prl_result \<times> 'c template_store" where
  "import_do E k root content workspace s =
     (case content of
        None \<Rightarrow> (PRL_ERR_UNINITIALIZED, s)
      | Some f \<Rightarrow>
          (case with_files (f workspace) s of (e, s1) \<Rightarrow>
             if prl_failed e then (e, s1) else with_entry_lock k (facade_rename E workspace root) s1))"

definition import_undo :: "'c template_env \<Rightarrow> path \<Rightarrow> 'c template_store \<Rightarrow> prl_result \<times> 'c template_store" where
  "import_undo E workspace s = with_files (facade_unlink E workspace) s"

definition export_do :: "path \<Rightarrow> 'c content option \<Rightarrow> 'c template_store \<Rightarrow> prl_result \<times> 'c template_store" where
  "export_do root content s =
     (case content of None \<Rightarrow> (PRL_ERR_UNINITIALIZED, s) | Some f \<Rightarrow> with_files (f root) s)"

fun work_do :: "'c template_env \<Rightarrow> nat \<Rightarrow> path \<Rightarrow> 'c work \<Rightarrow> 'c template_store \<Rightarrow> prl_result \<times> 'c template_store" where
  "work_do E k root (Unlink n b) = unlink_do E k (root @ [n]) b"
| "work_do E k root (Import n c w) = import_do E k (root @ [n]) c w"
| "work_do E k root (Export n c) = export_do (root @ [n]) c"

text \<open>Actions that only read have no undo.  The batch does not look at the result of one.\<close>

fun work_undo :: "'c template_env \<Rightarrow> nat \<Rightarrow> path \<Rightarrow> 'c work \<Rightarrow> ('c template_store \<Rightarrow> 'c template_store) option" where
  "work_undo E k root (Unlink n b) = Some (\<lambda>s. snd (unlink_undo E k (root @ [n]) b s))"
| "work_undo E k root (Import n c w) = Some (\<lambda>s. snd (import_undo E w s))"
| "work_undo E k root (Export n c) = None"

text \<open>The destructor of an action's sandbox clears it.  Each has its own, so the order does not matter.\<close>

fun work_end :: "'c template_env \<Rightarrow> 'c work \<Rightarrow> 'c template_store \<Rightarrow> 'c template_store" where
  "work_end E (Unlink n b) s = snd (with_files (facade_unlink E b) s)"
| "work_end E (Import n c w) s = snd (with_files (facade_unlink E w) s)"
| "work_end E (Export n c) s = s"


section \<open>Batches\<close>

datatype 'c mode = Blank | Reading "'c work list" | Both "'c work list" "32 word"

definition sandbox_root :: "path \<Rightarrow> path" where
  "sandbox_root root = root @ [''sandbox'']"

text \<open>\<^verbatim>\<open>Mode::Both::getSandbox\<close>: the place for the backup or the workspace of the
  next action.  When it cannot be cleared, the destructor of the sandbox tries once more.\<close>

definition getSandbox ::
  "'c template_env \<Rightarrow> path \<Rightarrow> qstring \<Rightarrow> 32 word \<Rightarrow> 'c template_store \<Rightarrow> (prl_result + path) \<times> 'c template_store" where
  "getSandbox E root prefix stage s =
     (let p = sandbox_root root @ [prefix @ te_text E stage] in
      case with_files (facade_unlink E p) s of (e, s') \<Rightarrow>
        if prl_failed e then (Inl e, snd (with_files (facade_unlink E p) s')) else (Inr p, s'))"

text \<open>What a task asks for.\<close>

datatype 'c request = Unlinked | Imported "'c content option" | Exported "'c content option"

text \<open>\<^verbatim>\<open>Mode::Both::add\<close>\<close>

fun both_add ::
  "'c template_env \<Rightarrow> path \<Rightarrow> qstring \<Rightarrow> 'c request \<Rightarrow> 'c work list \<Rightarrow> 32 word \<Rightarrow> 'c template_store \<Rightarrow>
   (prl_result + 'c mode) \<times> 'c template_store" where
  "both_add E root n Unlinked log stage s =
     (case getSandbox E root ''b'' stage s of
        (Inl e, s') \<Rightarrow> (Inl e, s')
      | (Inr p, s') \<Rightarrow> (Inr (Both (log @ [Unlink n p]) (stage + 1)), s'))"
| "both_add E root n (Imported c) log stage s =
     (case getSandbox E root ''w'' stage s of
        (Inl e, s') \<Rightarrow> (Inl e, s')
      | (Inr p, s') \<Rightarrow> (Inr (Both (log @ [Import n c p]) (stage + 1)), s'))"
| "both_add E root n (Exported c) log stage s = (Inr (Both (log @ [Export n c]) (stage + 1)), s)"

text \<open>\<^verbatim>\<open>Mode::Both::prepare\<close>\<close>

definition both_prepare :: "'c template_env \<Rightarrow> path \<Rightarrow> 'c template_store \<Rightarrow> prl_result \<times> 'c template_store" where
  "both_prepare E root s =
     (case with_files (facade_unlink E (sandbox_root root)) s of (e, s1) \<Rightarrow>
        if prl_failed e then (e, s1) else with_files (facade_mkdir E (sandbox_root root)) s1)"

text \<open>
  \<^verbatim>\<open>Catalog::log\<close> with the visitor \<^verbatim>\<open>Log\<close>.  The first request makes the batch and takes the slow lock,
  which goes again when the request is refused.
\<close>

definition catalog_log ::
  "'c template_env \<Rightarrow> nat \<Rightarrow> path \<Rightarrow> qstring \<Rightarrow> 'c request \<Rightarrow> 'c mode \<Rightarrow> 'c template_store \<Rightarrow>
   prl_result \<times> 'c mode \<times> 'c template_store" where
  "catalog_log E k root n r m s =
     (case m of
        Blank \<Rightarrow>
          (case r of
             Exported c \<Rightarrow>
               (case getForRead (ts_openable s) k (ts_slow s) of
                  None \<Rightarrow> (PRL_ERR_FAILURE, Blank, s)
                | Some l \<Rightarrow> (PRL_ERR_SUCCESS, Reading [Export n c], s\<lparr>ts_slow := l\<rparr>))
           | _ \<Rightarrow>
               (case getForWrite (ts_openable s) k (ts_slow s) of
                  None \<Rightarrow> (PRL_ERR_FAILURE, Blank, s)
                | Some l \<Rightarrow>
                    (case both_prepare E root (s\<lparr>ts_slow := l\<rparr>) of (e, s1) \<Rightarrow>
                       if prl_failed e then (e, Blank, s1\<lparr>ts_slow := lock_release_ref (k, True) (ts_slow s1)\<rparr>)
                       else (case both_add E root n r [] 0 s1 of
                               (Inl e, s2) \<Rightarrow> (e, Blank, s2\<lparr>ts_slow := lock_release_ref (k, True) (ts_slow s2)\<rparr>)
                             | (Inr m', s2) \<Rightarrow> (PRL_ERR_SUCCESS, m', s2)))))
      | Reading log \<Rightarrow>
          (case r of
             Exported c \<Rightarrow> (PRL_ERR_SUCCESS, Reading (log @ [Export n c]), s)
           | _ \<Rightarrow> (PRL_ERR_INVALID_HANDLE, m, s))
      | Both log stage \<Rightarrow>
          (case both_add E root n r log stage s of
             (Inl e, s') \<Rightarrow> (e, m, s')
           | (Inr m', s') \<Rightarrow> (PRL_ERR_SUCCESS, m', s')))"

definition work_batch :: "'c template_env \<Rightarrow> nat \<Rightarrow> path \<Rightarrow> 'c work list \<Rightarrow> 'c template_store batch" where
  "work_batch E k root log = map (\<lambda>w. (work_do E k root w, work_undo E k root w)) log"

definition mode_execute ::
  "'c template_env \<Rightarrow> nat \<Rightarrow> path \<Rightarrow> 'c work list \<Rightarrow> 'c template_store \<Rightarrow> prl_result \<times> 'c template_store" where
  "mode_execute E k root log s =
     (case batch_execute (work_batch E k root log) s of (e, s1) \<Rightarrow> (e, foldl (\<lambda>s w. work_end E w s) s1 log))"

definition catalog_commit ::
  "'c template_env \<Rightarrow> nat \<Rightarrow> path \<Rightarrow> 'c mode \<Rightarrow> 'c template_store \<Rightarrow> prl_result \<times> 'c mode \<times> 'c template_store" where
  "catalog_commit E k root m s =
     (case m of
        Blank \<Rightarrow> (PRL_ERR_UNINITIALIZED, Blank, s)
      | Reading log \<Rightarrow> (case mode_execute E k root log s of (e, s') \<Rightarrow> (e, Reading [], s'))
      | Both log stage \<Rightarrow> (case mode_execute E k root log s of (e, s') \<Rightarrow> (e, Both [] 0, s')))"

text \<open>The requests of a task, up to the first that is refused, and the commit.\<close>

fun catalog_logs ::
  "'c template_env \<Rightarrow> nat \<Rightarrow> path \<Rightarrow> (qstring \<times> 'c request) list \<Rightarrow> 'c mode \<Rightarrow> 'c template_store \<Rightarrow>
   prl_result \<times> 'c mode \<times> 'c template_store" where
  "catalog_logs E k root [] m s = (PRL_ERR_SUCCESS, m, s)"
| "catalog_logs E k root ((n, r) # rs) m s =
     (case catalog_log E k root n r m s of (e, m', s') \<Rightarrow>
        if prl_failed e then (e, m', s') else catalog_logs E k root rs m' s')"


section \<open>Reading the catalogue\<close>

definition catalog_list :: "'c template_env \<Rightarrow> nat \<Rightarrow> path \<Rightarrow> 'c template_store \<Rightarrow> prl_result + qstring list" where
  "catalog_list E k root s =
     (case getForRead (ts_openable s) k (ts_fast s) of
        None \<Rightarrow> Inl PRL_ERR_FAILURE
      | Some _ \<Rightarrow>
          Inr (filter (\<lambda>x. te_isUuid E x \<and>
                 (path_exists (root @ [x, te_config E]) (ts_files s) \<or> path_exists (root @ [x, ''ve.conf'']) (ts_files s)))
                (child_dirs root (ts_files s))))"

definition catalog_find :: "'c template_env \<Rightarrow> nat \<Rightarrow> path \<Rightarrow> qstring \<Rightarrow> 'c template_store \<Rightarrow> prl_result \<times> path option" where
  "catalog_find E k root n s =
     (case getForRead (ts_openable s) k (ts_fast s) of
        None \<Rightarrow> (PRL_ERR_FAILURE, None)
      | Some _ \<Rightarrow>
          if \<not> te_isUuid E n then (PRL_ERR_INVALID_ARG, None)
          else if \<not> is_dir (root @ [n]) (ts_files s) then (PRL_ERR_FILE_NOT_FOUND, None)
          else (PRL_ERR_SUCCESS, Some (root @ [n])))"

end
