(* ===== verification/TemplateRollback.thy ===== *)
theory TemplateRollback
  imports TemplateStorage
begin

text \<open>
  What commits of batches do to the entries of a catalogue: a batch that succeeds does what was asked
  for, one after the other; a batch that fails leaves the entries that it does not import as they were.
\<close>

section \<open>Laws\<close>

text \<open>
  What the code relies on.  A change of a directory or file changes nothing elsewhere; what is removed
  is gone; what is renamed is found below the new name.  A rename that fails changes nothing.
\<close>

definition template_laws :: "'c template_env \<Rightarrow> bool" where
  "template_laws E \<longleftrightarrow>
     (\<forall>p fs ok fs' q. ClearAndDelete E p fs = (ok, fs') \<longrightarrow> \<not> below_dir p q \<longrightarrow> map_of fs' q = map_of fs q) \<and>
     (\<forall>p fs fs' q. ClearAndDelete E p fs = (True, fs') \<longrightarrow> below_dir p q \<longrightarrow> map_of fs' q = None) \<and>
     (\<forall>p fs ok fs' q. RemoveEntry E p fs = (ok, fs') \<longrightarrow> \<not> below_dir p q \<longrightarrow> map_of fs' q = map_of fs q) \<and>
     (\<forall>p fs fs' q. RemoveEntry E p fs = (True, fs') \<longrightarrow> below_dir p q \<longrightarrow> map_of fs' q = None) \<and>
     (\<forall>p fs ok fs' q. WriteDirectory E p fs = (ok, fs') \<longrightarrow> q \<noteq> p \<longrightarrow> map_of fs' q = map_of fs q) \<and>
     (\<forall>p fs fs'. WriteDirectory E p fs = (True, fs') \<longrightarrow> map_of fs' p = Some Dir) \<and>
     (\<forall>p p' fs fs' q. RenameEntry E p p' fs = (True, fs') \<longrightarrow>
        map_of fs' q = (if below_dir p' q then map_of fs (p @ drop (length p') q)
                        else if below_dir p q then None else map_of fs q)) \<and>
     (\<forall>p p' fs fs'. RenameEntry E p p' fs = (False, fs') \<longrightarrow> map_of fs' = map_of fs) \<and>
     inj (te_text E)"

text \<open>An entry can be renamed to a place that is free, in a directory that exists.\<close>

definition renames_work :: "'c template_env \<Rightarrow> bool" where
  "renames_work E \<longleftrightarrow>
     (\<forall>p d x fs. map_of fs p \<noteq> None \<longrightarrow> is_dir d fs \<longrightarrow> subtree (d @ [x]) fs = (\<lambda>_. None) \<longrightarrow>
        fst (RenameEntry E p (d @ [x]) fs))"

lemma template_lawsD:
  assumes "template_laws E"
  shows "ClearAndDelete E p fs = (ok, fs') \<Longrightarrow> \<not> below_dir p q \<Longrightarrow> map_of fs' q = map_of fs q"
    "ClearAndDelete E p fs = (True, fs') \<Longrightarrow> below_dir p q \<Longrightarrow> map_of fs' q = None"
    "RemoveEntry E p fs = (ok, fs') \<Longrightarrow> \<not> below_dir p q \<Longrightarrow> map_of fs' q = map_of fs q"
    "RemoveEntry E p fs = (True, fs') \<Longrightarrow> below_dir p q \<Longrightarrow> map_of fs' q = None"
    "WriteDirectory E p fs = (ok, fs') \<Longrightarrow> q \<noteq> p \<Longrightarrow> map_of fs' q = map_of fs q"
    "WriteDirectory E p fs = (True, fs') \<Longrightarrow> map_of fs' p = Some Dir"
    "RenameEntry E p p' fs = (True, fs') \<Longrightarrow> map_of fs' q = (if below_dir p' q then map_of fs (p @ drop (length p') q)
       else if below_dir p q then None else map_of fs q)"
    "RenameEntry E p p' fs = (False, fs') \<Longrightarrow> map_of fs' = map_of fs"
    "inj (te_text E)"
proof -
  note d = assms [unfolded template_laws_def]
  show "map_of fs' q = map_of fs q" if "ClearAndDelete E p fs = (ok, fs')" "\<not> below_dir p q"
    using that d [THEN conjunct1] by blast
  show "map_of fs' q = None" if "ClearAndDelete E p fs = (True, fs')" "below_dir p q"
    using that d [THEN conjunct2, THEN conjunct1] by blast
  show "map_of fs' q = map_of fs q" if "RemoveEntry E p fs = (ok, fs')" "\<not> below_dir p q"
    using that d [THEN conjunct2, THEN conjunct2, THEN conjunct1] by blast
  show "map_of fs' q = None" if "RemoveEntry E p fs = (True, fs')" "below_dir p q"
    using that d [THEN conjunct2, THEN conjunct2, THEN conjunct2, THEN conjunct1] by blast
  show "map_of fs' q = map_of fs q" if "WriteDirectory E p fs = (ok, fs')" "q \<noteq> p"
    using that d [THEN conjunct2, THEN conjunct2, THEN conjunct2, THEN conjunct2, THEN conjunct1] by blast
  show "map_of fs' p = Some Dir" if "WriteDirectory E p fs = (True, fs')"
    using that d [THEN conjunct2, THEN conjunct2, THEN conjunct2, THEN conjunct2, THEN conjunct2, THEN conjunct1] by blast
  show "map_of fs' q = (if below_dir p' q then map_of fs (p @ drop (length p') q)
       else if below_dir p q then None else map_of fs q)" if "RenameEntry E p p' fs = (True, fs')"
    using that d [THEN conjunct2, THEN conjunct2, THEN conjunct2, THEN conjunct2, THEN conjunct2, THEN conjunct2, THEN conjunct1] by blast
  show "map_of fs' = map_of fs" if "RenameEntry E p p' fs = (False, fs')"
    using that d [THEN conjunct2, THEN conjunct2, THEN conjunct2, THEN conjunct2, THEN conjunct2, THEN conjunct2, THEN conjunct2, THEN conjunct1] by blast
  show "inj (te_text E)" using d by blast
qed


section \<open>Places\<close>

text \<open>The places that actions work on: the entries, and what is in the sandbox.\<close>

definition places :: "path \<Rightarrow> path set" where
  "places root = {root @ [n] | n. n \<noteq> ''sandbox''} \<union> {sandbox_root root @ [x] | x. True}"

lemma places_apart:
  assumes "p \<in> places root" "q \<in> places root" "p \<noteq> q"
  shows "\<not> below_dir p (q @ r)"
  using assms by (auto simp: places_def sandbox_root_def below_dir_def)

lemma places_not_base:
  assumes "p \<in> places root"
  shows "\<not> below_dir p root" "\<not> below_dir p (sandbox_root root)"
  using assms by (auto simp: places_def sandbox_root_def below_dir_def)

lemma entry_place: "n \<noteq> ''sandbox'' \<Longrightarrow> root @ [n] \<in> places root"
  and sandbox_place: "sandbox_root root @ [x] \<in> places root"
  by (auto simp: places_def)

lemma sandbox_root_neq [simp]: "sandbox_root root \<noteq> root" "root \<noteq> sandbox_root root"
  by (simp_all add: sandbox_root_def)

text \<open>Two states of the files that agree but for the places of a set.\<close>

definition same_but :: "path \<Rightarrow> path set \<Rightarrow> 'c files \<Rightarrow> 'c files \<Rightarrow> bool" where
  "same_but root P fs fs' \<longleftrightarrow>
     (\<forall>p \<in> places root - P. subtree p fs' = subtree p fs) \<and>
     map_of fs' root = map_of fs root \<and> map_of fs' (sandbox_root root) = map_of fs (sandbox_root root)"

lemma same_butI:
  assumes "P \<subseteq> places root" "\<And>q. \<forall>p \<in> P. \<not> below_dir p q \<Longrightarrow> map_of fs' q = map_of fs q"
  shows "same_but root P fs fs'"
  unfolding same_but_def
proof (intro conjI ballI ext)
  fix p r assume p: "p \<in> places root - P"
  show "subtree p fs' r = subtree p fs r"
    unfolding subtree_def
    by (rule assms(2)) (use p assms(1) places_apart in blast)
next
  show "map_of fs' root = map_of fs root"
    by (rule assms(2)) (use assms(1) places_not_base(1) in blast)
  show "map_of fs' (sandbox_root root) = map_of fs (sandbox_root root)"
    by (rule assms(2)) (use assms(1) places_not_base(2) in blast)
qed

lemma same_butD:
  assumes "same_but root P fs fs'"
  shows "p \<in> places root \<Longrightarrow> p \<notin> P \<Longrightarrow> subtree p fs' = subtree p fs"
    "map_of fs' root = map_of fs root" "map_of fs' (sandbox_root root) = map_of fs (sandbox_root root)"
  using assms by (simp_all add: same_but_def)

lemma same_but_refl [simp]: "same_but root P fs fs"
  by (simp add: same_but_def)

lemma same_but_trans: "same_but root P fs fs' \<Longrightarrow> same_but root Q fs' fs'' \<Longrightarrow> same_but root (P \<union> Q) fs fs''"
  by (simp add: same_but_def)

lemma same_but_mono: "same_but root P fs fs' \<Longrightarrow> P \<subseteq> Q \<Longrightarrow> same_but root Q fs fs'"
  by (auto simp: same_but_def)

lemma path_exists_subtree: "path_exists p fs \<longleftrightarrow> subtree p fs [] \<noteq> None"
  by (simp add: path_exists_def subtree_def)

text \<open>Renaming between two places, and clearing one.\<close>

lemma rename_effect:
  assumes laws: "template_laws E" and p: "p \<in> places root" "q \<in> places root" "p \<noteq> q"
    and run: "facade_rename E p q fs = (e, fs')"
  shows "same_but root {p, q} fs fs' \<and>
    (if prl_failed e then subtree p fs' = subtree p fs \<and> subtree q fs' = subtree q fs
     else subtree q fs' = subtree p fs \<and> subtree p fs' = (\<lambda>_. None))"
proof -
  obtain ok where r: "RenameEntry E p q fs = (ok, fs')" "e = (if ok then PRL_ERR_SUCCESS else PRL_ERR_CANT_RENAME_ENTRY)"
    using run by (auto simp: facade_rename_def split: prod.splits)
  show ?thesis
  proof (cases ok)
    case True
    from r(1) True have "RenameEntry E p q fs = (True, fs')" by simp
    note m = template_lawsD(7) [OF laws this]
    have "same_but root {p, q} fs fs'" by (rule same_butI) (use p in \<open>auto simp: m\<close>)
    moreover have "subtree q fs' = subtree p fs" by (rule ext) (simp add: subtree_def m)
    moreover have "subtree p fs' = (\<lambda>_. None)"
      by (rule ext) (use places_apart [OF p(2,1)] p(3) in \<open>simp add: subtree_def m\<close>)
    ultimately show ?thesis using True r(2) by simp
  next
    case False
    with r(1) have "RenameEntry E p q fs = (False, fs')" by simp
    from template_lawsD(8) [OF laws this] have "map_of fs' = map_of fs" .
    then show ?thesis using False r(2) by (simp add: same_but_def subtree_def fun_eq_iff prl_failed_def)
  qed
qed

lemma unlink_effect:
  assumes laws: "template_laws E" and run: "facade_unlink E p fs = (e, fs')"
  shows "(\<forall>q. \<not> below_dir p q \<longrightarrow> map_of fs' q = map_of fs q) \<and>
    (\<not> prl_failed e \<longrightarrow> subtree p fs' = (\<lambda>_. None) \<or> (\<not> path_exists p fs \<and> fs' = fs))"
  using run template_lawsD(1-4) [OF laws]
  by (fastforce simp: facade_unlink_def subtree_def prl_failed_def split: if_splits prod.splits)

lemma unlink_place:
  assumes laws: "template_laws E" and p: "p \<in> places root" and run: "facade_unlink E p fs = (e, fs')"
  shows "same_but root {p} fs fs'"
  by (rule same_butI) (use p unlink_effect [OF laws run] in auto)


section \<open>Actions\<close>

definition lockable :: "nat \<Rightarrow> 'c template_store \<Rightarrow> bool" where
  "lockable k s \<longleftrightarrow> getForWrite (ts_openable s) k (ts_fast s) \<noteq> None"

text \<open>Everything but the files stays.\<close>

definition same_locks :: "'c template_store \<Rightarrow> 'c template_store \<Rightarrow> bool" where
  "same_locks s s' \<longleftrightarrow> s' = s\<lparr>ts_files := ts_files s'\<rparr>"

lemma same_locks_refl [simp]: "same_locks s s"
  by (simp add: same_locks_def)

lemma same_locks_trans: "same_locks s s' \<Longrightarrow> same_locks s' s'' \<Longrightarrow> same_locks s s''"
  by (cases s; cases s'; cases s'') (simp add: same_locks_def)

lemma same_locks_lockable: "same_locks s s' \<Longrightarrow> lockable k s' = lockable k s"
  by (cases s; cases s') (simp add: same_locks_def lockable_def)

lemma with_files_effect:
  "with_files f s = (e, s') \<Longrightarrow> f (ts_files s) = (e, ts_files s') \<and> same_locks s s'"
  by (auto simp: with_files_def same_locks_def split: prod.splits)

lemma getForWrite_Some: "getForWrite c k l = Some l' \<Longrightarrow> l' = (k, True) # l"
  by (auto simp: getForWrite_def split: if_splits)

lemma with_entry_lock_effect:
  assumes "with_entry_lock k f s = (e, s')"
  shows "same_locks s s'" "lockable k s \<Longrightarrow> f (ts_files s) = (e, ts_files s')"
    "\<not> lockable k s \<Longrightarrow> e = PRL_ERR_FAILURE \<and> s' = s"
  using assms
  by (auto simp: with_entry_lock_def with_files_def lock_release_ref_def same_locks_def lockable_def
      dest!: getForWrite_Some split: option.splits prod.splits)

fun touched :: "path \<Rightarrow> 'c work \<Rightarrow> path set" where
  "touched root (Unlink n b) = {root @ [n], b}"
| "touched root (Import n c w) = {root @ [n], w}"
| "touched root (Export n c) = {}"

fun work_name :: "'c work \<Rightarrow> qstring" where
  "work_name (Unlink n b) = n"
| "work_name (Import n c w) = n"
| "work_name (Export n c) = n"

fun work_place :: "'c work \<Rightarrow> path list" where
  "work_place (Unlink n b) = [b]"
| "work_place (Import n c w) = [w]"
| "work_place (Export n c) = []"

text \<open>
  What the imports and exports of a batch do: an import makes a tree in the place it is given, an
  export changes nothing in the catalogue.
\<close>

definition import_makes :: "('c content \<Rightarrow> path \<Rightarrow> 'c node option) \<Rightarrow> 'c content \<Rightarrow> bool" where
  "import_makes tree f \<longleftrightarrow>
     (\<forall>p fs e fs' q. f p fs = (e, fs') \<longrightarrow> \<not> below_dir p q \<longrightarrow> map_of fs' q = map_of fs q) \<and>
     (\<forall>p fs fs'. f p fs = (PRL_ERR_SUCCESS, fs') \<longrightarrow> subtree p fs' = tree f) \<and> tree f [] \<noteq> None"

definition export_reads :: "path \<Rightarrow> 'c content \<Rightarrow> bool" where
  "export_reads root f \<longleftrightarrow> (\<forall>p fs e fs' q. f p fs = (e, fs') \<longrightarrow> below_dir root q \<longrightarrow> map_of fs' q = map_of fs q)"

fun content_ok :: "('c content \<Rightarrow> path \<Rightarrow> 'c node option) \<Rightarrow> path \<Rightarrow> 'c work \<Rightarrow> bool" where
  "content_ok tree root (Import n (Some f) w) \<longleftrightarrow> import_makes tree f"
| "content_ok tree root (Export n (Some f)) \<longleftrightarrow> export_reads root f"
| "content_ok tree root _ \<longleftrightarrow> True"

definition work_ok :: "('c content \<Rightarrow> path \<Rightarrow> 'c node option) \<Rightarrow> path \<Rightarrow> 'c work \<Rightarrow> bool" where
  "work_ok tree root w \<longleftrightarrow>
     content_ok tree root w \<and> work_name w \<noteq> ''sandbox'' \<and> (\<forall>p \<in> set (work_place w). \<exists>x. p = sandbox_root root @ [x])"

lemma work_ok_places:
  "work_ok tree root w \<Longrightarrow> touched root w \<subseteq> places root"
  by (cases w) (auto simp: work_ok_def entry_place sandbox_place)

lemma below_root_place: "p \<in> places root \<Longrightarrow> below_dir root (p @ r)"
  by (auto simp: places_def sandbox_root_def below_dir_def)

lemma export_same: "export_reads root f \<Longrightarrow> f p fs = (e, fs') \<Longrightarrow> same_but root {} fs fs'"
proof -
  assume f: "export_reads root f" "f p fs = (e, fs')"
  have same: "map_of fs' q = map_of fs q" if "below_dir root q" for q
    using f that unfolding export_reads_def by blast
  have "below_dir root (sandbox_root root)" by (simp add: sandbox_root_def)
  then show ?thesis
    by (auto simp: same_but_def subtree_def fun_eq_iff intro!: same below_root_place)
qed

lemma import_same:
  "import_makes tree f \<Longrightarrow> p \<in> places root \<Longrightarrow> f p fs = (e, fs') \<Longrightarrow> same_but root {p} fs fs'"
  by (rule same_butI) (auto simp: import_makes_def)

text \<open>An action changes the entry and its sandbox only, and so does its undo.\<close>

lemma unlink_do_effect:
  assumes laws: "template_laws E" and p: "q \<in> places root" "b \<in> places root" "q \<noteq> b"
    and run: "unlink_do E k q b s = (e, s')"
  shows "same_locks s s' \<and> same_but root {q, b} (ts_files s) (ts_files s') \<and>
    (if path_exists q (ts_files s) \<and> \<not> prl_failed e
     then subtree b (ts_files s') = subtree q (ts_files s) \<and> subtree q (ts_files s') = (\<lambda>_. None)
     else subtree b (ts_files s') = subtree b (ts_files s) \<and> subtree q (ts_files s') = subtree q (ts_files s))"
proof -
  let ?f = "\<lambda>fs. if \<not> path_exists q fs then (PRL_ERR_SUCCESS, fs) else facade_rename E q b fs"
  from run have r: "with_entry_lock k ?f s = (e, s')" by (simp add: unlink_do_def)
  note l = with_entry_lock_effect [OF r]
  show ?thesis
  proof (cases "lockable k s \<and> path_exists q (ts_files s)")
    case True
    with l(2) have "facade_rename E q b (ts_files s) = (e, ts_files s')" by simp
    from rename_effect [OF laws p this] l(1) True show ?thesis by simp
  next
    case False
    with l(2,3) have "ts_files s' = ts_files s \<and> (path_exists q (ts_files s) \<longrightarrow> prl_failed e)"
      by (cases "lockable k s") (auto simp: prl_failed_def)
    with l(1) show ?thesis by (cases "path_exists q (ts_files s)") simp_all
  qed
qed

lemma work_do_same:
  assumes laws: "template_laws E" and ok: "work_ok tree root w" and run: "work_do E k root w s = (e, s')"
  shows "same_locks s s' \<and> same_but root (touched root w) (ts_files s) (ts_files s')"
proof (cases w)
  case (Unlink n b)
  from ok Unlink obtain x where p: "root @ [n] \<in> places root" "b \<in> places root" "root @ [n] \<noteq> b"
    by (auto simp: work_ok_def entry_place sandbox_place)
  from unlink_do_effect [OF laws p] run Unlink show ?thesis by simp
next
  case (Import n c w')
  with ok have p: "root @ [n] \<in> places root" "w' \<in> places root" "w' \<noteq> root @ [n]"
    by (auto simp: work_ok_def entry_place sandbox_place)
  show ?thesis
  proof (cases c)
    case None
    with run Import show ?thesis by (simp add: import_do_def)
  next
    case (Some f)
    obtain e1 s1 where f: "with_files (f w') s = (e1, s1)" by (cases "with_files (f w') s") auto
    note wf = with_files_effect [OF f]
    from ok Import Some have "import_makes tree f" by (simp add: work_ok_def)
    from import_same [OF this p(2)] wf have m1: "same_but root {w'} (ts_files s) (ts_files s1)" by blast
    show ?thesis
    proof (cases "prl_failed e1")
      case True
      with run Import Some f have "s' = s1" by (simp add: import_do_def)
      with wf m1 show ?thesis using same_but_mono [OF m1, of "touched root w"] by (simp add: Import)
    next
      case False
      with run Import Some f have r: "with_entry_lock k (facade_rename E w' (root @ [n])) s1 = (e, s')"
        by (simp add: import_do_def)
      note l = with_entry_lock_effect [OF r]
      have "same_but root {w', root @ [n]} (ts_files s1) (ts_files s')"
      proof (cases "lockable k s1")
        case True
        from rename_effect [OF laws p(2,1,3) l(2) [OF True]] show ?thesis by simp
      next
        case False
        with l(3) show ?thesis by simp
      qed
      from same_but_trans [OF m1 this] same_locks_trans [OF conjunct2 [OF wf] l(1)] show ?thesis
        by (simp add: Import insert_commute)
    qed
  qed
next
  case (Export n c)
  show ?thesis
  proof (cases c)
    case None
    with run Export show ?thesis by (simp add: export_do_def)
  next
    case (Some f)
    with run Export have f: "with_files (f (root @ [n])) s = (e, s')" by (simp add: export_do_def)
    from ok Export Some have "export_reads root f" by (simp add: work_ok_def)
    from export_same [OF this, of "root @ [n]" "ts_files s" e "ts_files s'"] with_files_effect [OF f]
    show ?thesis by (simp add: Export)
  qed
qed

lemma unlink_undo_same:
  assumes laws: "template_laws E" and p: "q \<in> places root" "b \<in> places root" "b \<noteq> q"
    and run: "unlink_undo E k q b s = (e, s')"
  shows "same_locks s s' \<and> same_but root {q, b} (ts_files s) (ts_files s')"
proof (cases "path_exists b (ts_files s)")
  case True
  with run have r: "with_entry_lock k (facade_rename E b q) s = (e, s')" by (simp add: unlink_undo_def)
  note l = with_entry_lock_effect [OF r]
  show ?thesis
  proof (cases "lockable k s")
    case True
    from rename_effect [OF laws p(2,1,3) l(2) [OF True]] l(1) show ?thesis by (simp add: insert_commute)
  next
    case False
    with l(3) show ?thesis by simp
  qed
qed (use run in \<open>simp add: unlink_undo_def\<close>)

lemma work_undo_same:
  assumes laws: "template_laws E" and ok: "work_ok tree root w" and u: "work_undo E k root w = Some u"
  shows "same_locks s (u s) \<and> same_but root (touched root w) (ts_files s) (ts_files (u s))"
proof (cases w)
  case (Unlink n b)
  with ok have p: "root @ [n] \<in> places root" "b \<in> places root" "b \<noteq> root @ [n]"
    by (auto simp: work_ok_def entry_place sandbox_place)
  obtain e s' where "unlink_undo E k (root @ [n]) b s = (e, s')" by (cases "unlink_undo E k (root @ [n]) b s") auto
  with unlink_undo_same [OF laws p this] u Unlink show ?thesis by auto
next
  case (Import n c w')
  with ok have p: "w' \<in> places root" by (auto simp: work_ok_def sandbox_place)
  obtain e s' where r: "with_files (facade_unlink E w') s = (e, s')" by (cases "with_files (facade_unlink E w') s") auto
  from with_files_effect [OF r] unlink_place [OF laws p] have
    "same_locks s s' \<and> same_but root {w'} (ts_files s) (ts_files s')" by blast
  then show ?thesis using same_but_mono [of root "{w'}" _ _ "touched root w"] u Import r
    by (auto simp: import_undo_def)
qed (use u in simp)

lemma work_end_same:
  assumes laws: "template_laws E" and ok: "work_ok tree root w"
  shows "same_locks s (work_end E w s) \<and> same_but root (set (work_place w)) (ts_files s) (ts_files (work_end E w s))"
proof (cases "work_place w = []")
  case False
  then obtain p where p: "work_place w = [p]" "p \<in> places root" "work_end E w s = snd (with_files (facade_unlink E p) s)"
    using ok by (cases w) (auto simp: work_ok_def sandbox_place)
  obtain e s' where r: "with_files (facade_unlink E p) s = (e, s')" by (cases "with_files (facade_unlink E p) s") auto
  from with_files_effect [OF r] unlink_place [OF laws p(2)] r show ?thesis by (simp add: p(1,3))
qed (cases w; simp)


section \<open>A batch that fails\<close>

text \<open>
  While a batch runs, an entry that it does not import is at its place, with its tree \<open>T\<close>, or in one of
  the sandboxes of the actions that are done, \<open>D\<close>; of all these, \<open>B\<close>, the others are empty.
\<close>

definition kept :: "path \<Rightarrow> (path \<Rightarrow> 'c node option) \<Rightarrow> path set \<Rightarrow> path set \<Rightarrow> 'c files \<Rightarrow> bool" where
  "kept q T D B fs \<longleftrightarrow>
     (subtree q fs = T \<and> (\<forall>b \<in> B. subtree b fs = (\<lambda>_. None))) \<or>
     (\<exists>b \<in> D. subtree b fs = T \<and> T [] \<noteq> None \<and> subtree q fs = (\<lambda>_. None) \<and>
        (\<forall>b' \<in> B - {b}. subtree b' fs = (\<lambda>_. None)))"

lemma kept_home: "kept q T {} B fs \<Longrightarrow> subtree q fs = T"
  by (simp add: kept_def)

lemma kept_mono: "kept q T D B fs \<Longrightarrow> D \<subseteq> D' \<Longrightarrow> kept q T D' B fs"
  by (auto simp: kept_def)

lemma kept_same:
  assumes "kept q T D B fs" "same_but root P fs fs'" "q \<in> places root - P" "B \<subseteq> places root - P" "D \<subseteq> B"
  shows "kept q T D B fs'"
proof -
  have q: "subtree q fs' = subtree q fs" using same_butD(1) [OF assms(2)] assms(3) by blast
  have b: "subtree b fs' = subtree b fs" if "b \<in> B" for b using same_butD(1) [OF assms(2)] assms(4) that by blast
  from assms(5) have "subtree b fs' = subtree b fs" if "b \<in> D" for b using that b by blast
  with assms(1) b show ?thesis unfolding kept_def q by (metis DiffE)
qed

lemma kept_unlinked:
  assumes laws: "template_laws E" and p: "q \<in> places root" "B \<subseteq> places root" "q \<notin> B" "b \<in> B" "D \<subseteq> B"
    and run: "unlink_do E k q b s = (e, s')" and k: "kept q T D B (ts_files s)"
  shows "kept q T (if prl_failed e then D else insert b D) B (ts_files s')"
proof -
  have pb: "b \<in> places root" "q \<noteq> b" using p by auto
  note u = unlink_do_effect [OF laws p(1) pb run]
  have o: "subtree c (ts_files s') = subtree c (ts_files s)" if "c \<in> B" "c \<noteq> b" for c
    using u that p(2,3) by (intro same_butD(1) [of root "{q, b}"]) auto
  show ?thesis
  proof (cases "path_exists q (ts_files s) \<and> \<not> prl_failed e")
    case True
    with k have "subtree q (ts_files s) = T \<and> (\<forall>b \<in> B. subtree b (ts_files s) = (\<lambda>_. None))" "T [] \<noteq> None"
      by (auto simp: kept_def path_exists_subtree)
    with u True o show ?thesis by (auto simp: kept_def)
  next
    case False
    with u have "subtree q (ts_files s') = subtree q (ts_files s)" "\<forall>c \<in> B. subtree c (ts_files s') = subtree c (ts_files s)"
      using o by (auto split: if_splits)
    with k p(5) have "kept q T D B (ts_files s')" unfolding kept_def by (smt (verit) DiffE subsetD)
    then show ?thesis by (auto intro: kept_mono)
  qed
qed

text \<open>The undo of a removal brings the entry back.\<close>

lemma kept_undone:
  assumes laws: "template_laws E" "renames_work E" and p: "root @ [n] \<in> places root" "B \<subseteq> places root" "root @ [n] \<notin> B" "b \<in> B" "D \<subseteq> B"
    and s: "lockable k s" "is_dir root (ts_files s)"
    and run: "unlink_undo E k (root @ [n]) b s = (e, s')" and k: "kept (root @ [n]) T (insert b D) B (ts_files s)"
  shows "kept (root @ [n]) T D B (ts_files s')"
proof (cases "path_exists b (ts_files s)")
  case False
  with run have "s' = s" by (simp add: unlink_undo_def)
  moreover have "\<not> (subtree b (ts_files s) = T \<and> T [] \<noteq> None)" using False by (auto simp: path_exists_subtree)
  ultimately show ?thesis using k by (auto simp: kept_def)
next
  case True
  have pb: "b \<in> places root" "b \<noteq> root @ [n]" using p by auto
  from k True p(4,5) have away: "subtree b (ts_files s) = T" "subtree (root @ [n]) (ts_files s) = (\<lambda>_. None)"
    "\<forall>b' \<in> B - {b}. subtree b' (ts_files s) = (\<lambda>_. None)"
    unfolding kept_def path_exists_subtree by (metis DiffI insertE singletonD subsetD)+
  from run True have r: "with_entry_lock k (facade_rename E b (root @ [n])) s = (e, s')" by (simp add: unlink_undo_def)
  from with_entry_lock_effect(2) [OF r s(1)] have f: "facade_rename E b (root @ [n]) (ts_files s) = (e, ts_files s')" .
  have "fst (RenameEntry E b (root @ [n]) (ts_files s))"
    using laws(2) True s(2) away(2) by (auto simp: renames_work_def path_exists_def)
  with f have "\<not> prl_failed e" by (auto simp: facade_rename_def split: prod.splits)
  with rename_effect [OF laws(1) pb(1) p(1) pb(2) f] have m: "same_but root {b, root @ [n]} (ts_files s) (ts_files s')"
    "subtree (root @ [n]) (ts_files s') = T" "subtree b (ts_files s') = (\<lambda>_. None)" by (simp_all add: away(1))
  have "subtree c (ts_files s') = (\<lambda>_. None)" if "c \<in> B" for c
  proof (cases "c = b")
    case False
    have "subtree c (ts_files s') = subtree c (ts_files s)"
      using m(1) that False p(2,3) by (intro same_butD(1) [of root "{b, root @ [n]}"]) auto
    with away(3) that False show ?thesis by auto
  qed (use m(3) in simp)
  with m(2) show ?thesis by (simp add: kept_def)
qed


section \<open>Running a batch\<close>

definition batch_ok :: "('c content \<Rightarrow> path \<Rightarrow> 'c node option) \<Rightarrow> path \<Rightarrow> 'c work list \<Rightarrow> bool" where
  "batch_ok tree root log \<longleftrightarrow> (\<forall>w \<in> set log. work_ok tree root w) \<and> distinct (concat (map work_place log))"

fun unlink_place_of :: "qstring \<Rightarrow> 'c work \<Rightarrow> path set" where
  "unlink_place_of n (Unlink m b) = (if m = n then {b} else {})"
| "unlink_place_of n _ = {}"

fun imports_name :: "qstring \<Rightarrow> 'c work \<Rightarrow> bool" where
  "imports_name n (Import m c w) \<longleftrightarrow> m = n"
| "imports_name n _ \<longleftrightarrow> False"

definition unlink_places :: "qstring \<Rightarrow> 'c work list \<Rightarrow> path set" where
  "unlink_places n log = (\<Union>w \<in> set log. unlink_place_of n w)"

lemma distinct_concat_owner:
  "distinct (concat (map f xs)) \<Longrightarrow> x \<in> set xs \<Longrightarrow> y \<in> set xs \<Longrightarrow> p \<in> set (f x) \<Longrightarrow> p \<in> set (f y) \<Longrightarrow> x = y"
  by (induction xs) auto

lemma unlink_place_of_work: "b \<in> unlink_place_of n w \<Longrightarrow> w = Unlink n b"
  by (cases w) (auto split: if_splits)

lemma touched_alt: "touched root w = (if work_place w = [] then {} else insert (root @ [work_name w]) (set (work_place w)))"
  by (cases w) auto

definition store_fine :: "nat \<Rightarrow> path \<Rightarrow> 'c template_store \<Rightarrow> bool" where
  "store_fine k root s \<longleftrightarrow> lockable k s \<and> is_dir root (ts_files s)"

lemma store_fine_same: "store_fine k root s \<Longrightarrow> same_locks s s' \<Longrightarrow> same_but root P (ts_files s) (ts_files s') \<Longrightarrow> store_fine k root s'"
  by (simp add: store_fine_def same_locks_lockable is_dir_iff same_butD(2))

lemma unlink_places_places:
  assumes "batch_ok tree root log"
  shows "unlink_places n log \<subseteq> places root" "root @ [m] \<notin> unlink_places n log"
proof -
  have form: "\<exists>x. b = sandbox_root root @ [x]" if "b \<in> unlink_places n log" for b
  proof -
    from that obtain w where "w \<in> set log" "w = Unlink n b" by (auto simp: unlink_places_def dest: unlink_place_of_work)
    with assms show ?thesis by (auto simp: batch_ok_def work_ok_def)
  qed
  then show "unlink_places n log \<subseteq> places root" by (auto simp: places_def)
  show "root @ [m] \<notin> unlink_places n log" by (rule notI) (drule form, simp)
qed

text \<open>An action on another entry does not come near.\<close>

lemma other_untouched:
  assumes ok: "batch_ok tree root log" and w: "w \<in> set log" "work_name w \<noteq> n"
  shows "root @ [n] \<notin> touched root w" "touched root w \<inter> unlink_places n log = {}"
proof -
  have "work_place w = [] \<or> (\<exists>x. work_place w = [sandbox_root root @ [x]])"
    using ok w by (cases w) (auto simp: batch_ok_def work_ok_def)
  then show "root @ [n] \<notin> touched root w" using w(2) by (auto simp: touched_alt)
  have own: "w' = w" if "w' \<in> set log" "p \<in> unlink_place_of n w'" "p \<in> set (work_place w)" for w' p
  proof -
    from that(2) have "p \<in> set (work_place w')" by (auto dest: unlink_place_of_work)
    with ok that w show ?thesis by (intro distinct_concat_owner [of work_place log w' w p]) (simp_all add: batch_ok_def)
  qed
  have "set (work_place w) \<inter> unlink_places n log = {}"
  proof (rule equals0I, elim IntE)
    fix p assume p: "p \<in> set (work_place w)" "p \<in> unlink_places n log"
    from p(2) obtain w' where w': "w' \<in> set log" "p \<in> unlink_place_of n w'" by (auto simp: unlink_places_def)
    from unlink_place_of_work [OF w'(2)] own [OF w' p(1)] w(2) show False by simp
  qed
  then show "touched root w \<inter> unlink_places n log = {}"
    using unlink_places_places(2) [OF ok] by (auto simp: touched_alt)
qed

lemma unlink_place_in: "w \<in> set log \<Longrightarrow> unlink_place_of n w \<subseteq> unlink_places n log"
  by (auto simp: unlink_places_def)

text \<open>One action, and its undo.\<close>

lemma kept_do:
  assumes laws: "template_laws E" and ok: "batch_ok tree root log" and n: "n \<noteq> ''sandbox''"
    and w: "w \<in> set log" "\<not> imports_name n w" and D: "D \<subseteq> unlink_places n log"
    and run: "work_do E k root w s = (e, s')" and kept: "kept (root @ [n]) T D (unlink_places n log) (ts_files s)"
  shows "kept (root @ [n]) T (if prl_failed e then D else D \<union> unlink_place_of n w) (unlink_places n log) (ts_files s')"
proof (cases "\<exists>b. w = Unlink n b")
  case True
  then obtain b where b: "w = Unlink n b" by blast
  with w(1) have "b \<in> unlink_places n log" using unlink_place_in [of w log n] by simp
  note bin = this
  from run b have u: "unlink_do E k (root @ [n]) b s = (e, s')" by simp
  from kept_unlinked [OF laws entry_place [OF n] unlink_places_places [OF ok] bin D u kept] b show ?thesis
    by (simp split: if_splits)
next
  case False
  have "work_name w \<noteq> n \<or> touched root w = {}" using False w(2) by (cases w) auto
  then have t: "root @ [n] \<notin> touched root w" "touched root w \<inter> unlink_places n log = {}"
    using other_untouched [OF ok w(1), of n] by auto
  from ok w(1) have "work_ok tree root w" by (simp add: batch_ok_def)
  from work_do_same [OF laws this run] have "same_but root (touched root w) (ts_files s) (ts_files s')" by simp
  from kept_same [OF kept this _ _ D] t entry_place [OF n] unlink_places_places(1) [OF ok]
  have "kept (root @ [n]) T D (unlink_places n log) (ts_files s')" by blast
  then show ?thesis by (auto intro: kept_mono)
qed

lemma kept_undo:
  assumes laws: "template_laws E" "renames_work E" and ok: "batch_ok tree root log" and n: "n \<noteq> ''sandbox''"
    and w: "w \<in> set log" "\<not> imports_name n w" and D: "D \<subseteq> unlink_places n log" and u: "work_undo E k root w = Some u"
    and fine: "store_fine k root s"
    and kept: "kept (root @ [n]) T (D \<union> unlink_place_of n w) (unlink_places n log) (ts_files s)"
  shows "kept (root @ [n]) T D (unlink_places n log) (ts_files (u s)) \<and> store_fine k root (u s)"
proof -
  from ok w(1) have wok: "work_ok tree root w" by (simp add: batch_ok_def)
  note same = work_undo_same [OF laws(1) wok u, of s]
  have "kept (root @ [n]) T D (unlink_places n log) (ts_files (u s))"
  proof (cases "\<exists>b. w = Unlink n b")
    case True
    then obtain b where b: "w = Unlink n b" by blast
    with w(1) have bin: "b \<in> unlink_places n log" using unlink_place_in [of w log n] by simp
    obtain e s' where r: "unlink_undo E k (root @ [n]) b s = (e, s')" by (cases "unlink_undo E k (root @ [n]) b s") auto
    from fine have f: "lockable k s" "is_dir root (ts_files s)" by (simp_all add: store_fine_def)
    from kept_undone [OF laws entry_place [OF n] unlink_places_places [OF ok] bin D f r] kept u b r show ?thesis by auto
  next
    case False
    have "work_name w \<noteq> n" using False w(2) u by (cases w) auto
    note t = other_untouched [OF ok w(1) this]
    have "unlink_place_of n w = {}" using False by (cases w) auto
    with kept have "kept (root @ [n]) T D (unlink_places n log) (ts_files s)" by simp
    from kept_same [OF this conjunct2 [OF same] _ _ D] t entry_place [OF n] unlink_places_places(1) [OF ok]
    show ?thesis by blast
  qed
  with store_fine_same [OF fine] same show ?thesis by blast
qed

lemma batch_rollback_Cons [simp]: "batch_rollback (u # us) s = batch_rollback us (u s)"
  by (simp add: batch_rollback_def)

lemma failed_loop:
  assumes laws: "template_laws E" "renames_work E" and ok: "batch_ok tree root log" and n: "n \<noteq> ''sandbox''"
    and "set ws \<subseteq> set log" "\<forall>w \<in> set log. \<not> imports_name n w" and "D \<subseteq> unlink_places n log"
    and "kept (root @ [n]) T D (unlink_places n log) (ts_files s)" "store_fine k root s"
    and "\<And>t. kept (root @ [n]) T D (unlink_places n log) (ts_files t) \<Longrightarrow> store_fine k root t \<Longrightarrow>
      subtree (root @ [n]) (ts_files (batch_rollback undo t)) = T"
    and "batch_loop (work_batch E k root ws) undo s = (e, s')" "prl_failed e"
  shows "subtree (root @ [n]) (ts_files s') = T"
  using assms(5-)
proof (induction ws arbitrary: D undo s)
  case Nil
  then show ?case by (simp add: work_batch_def)
next
  case (Cons w ws)
  obtain e1 s1 where r: "work_do E k root w s = (e1, s1)" by (cases "work_do E k root w s") auto
  from Cons.prems(1,2) have w: "w \<in> set log" "\<not> imports_name n w" by auto
  from ok w(1) have wok: "work_ok tree root w" by (simp add: batch_ok_def)
  note k1 = kept_do [OF laws(1) ok n w Cons.prems(3) r Cons.prems(4)]
  from work_do_same [OF laws(1) wok r] store_fine_same [OF Cons.prems(5)] have f1: "store_fine k root s1" by blast
  show ?case
  proof (cases "prl_failed e1")
    case True
    with Cons.prems(7) r have "s' = batch_rollback undo s1" by (simp add: work_batch_def)
    with Cons.prems(6) k1 f1 True show ?thesis by simp
  next
    case False
    let ?D = "D \<union> unlink_place_of n w"
    let ?undo = "case work_undo E k root w of None \<Rightarrow> undo | Some u \<Rightarrow> u # undo"
    show ?thesis
    proof (rule Cons.IH [of ?D s1 ?undo])
      show "set ws \<subseteq> set log" "\<forall>w \<in> set log. \<not> imports_name n w" "store_fine k root s1" "prl_failed e"
        using Cons.prems f1 by auto
      show "?D \<subseteq> unlink_places n log" using Cons.prems(3) unlink_place_in [OF w(1)] by blast
      show "kept (root @ [n]) T ?D (unlink_places n log) (ts_files s1)" using k1 False by simp
      show "batch_loop (work_batch E k root ws) ?undo s1 = (e, s')"
        using Cons.prems(7) r False by (simp add: work_batch_def)
      show "subtree (root @ [n]) (ts_files (batch_rollback ?undo t)) = T"
        if t: "kept (root @ [n]) T ?D (unlink_places n log) (ts_files t)" "store_fine k root t" for t
      proof (cases "work_undo E k root w")
        case None
        then have "?D = D" by (cases w) auto
        with Cons.prems(6) t None show ?thesis by simp
      next
        case (Some u)
        from kept_undo [OF laws ok n w Cons.prems(3) Some t(2,1)] Cons.prems(6) Some show ?thesis by simp
      qed
    qed
  qed
qed

lemma works_end_same:
  assumes laws: "template_laws E" and "\<forall>w \<in> set log. work_ok tree root w" and n: "n \<noteq> ''sandbox''"
  shows "subtree (root @ [n]) (ts_files (foldl (\<lambda>s w. work_end E w s) s log)) = subtree (root @ [n]) (ts_files s)"
  using assms(2)
proof (induction log arbitrary: s)
  case (Cons w log)
  from work_end_same [OF laws, of tree root w s] Cons.prems
  have m: "same_but root (set (work_place w)) (ts_files s) (ts_files (work_end E w s))" by simp
  have "root @ [n] \<notin> set (work_place w)" using Cons.prems by (auto simp: work_ok_def)
  with Cons.IH [of "work_end E w s"] Cons.prems same_butD(1) [OF m entry_place [OF n]] show ?case by simp
qed simp

end
