(* ===== verification/TemplateCatalog.thy ===== *)
theory TemplateCatalog
  imports TemplateRollback
begin

text \<open>
  Commits of a catalogue of templates, from the requests of a task to the entries that are there
  afterwards; and the exclusion of its lock files.
\<close>

section \<open>The log of a task\<close>

text \<open>Every path but the empty one has a parent that is a directory.\<close>

definition tree_like :: "'c files \<Rightarrow> bool" where
  "tree_like fs \<longleftrightarrow> (\<forall>p x. map_of fs (p @ [x]) \<noteq> None \<longrightarrow> map_of fs p = Some Dir)"

lemma tree_like_empty:
  assumes "tree_like fs" "map_of fs p = None"
  shows "subtree p fs = (\<lambda>_. None)"
proof
  show "subtree p fs r = None" for r
  proof (induction r rule: rev_induct)
    case (snoc x r)
    with assms(1) show ?case unfolding subtree_def tree_like_def by (metis append_assoc option.distinct(1))
  qed (simp add: subtree_def assms(2))
qed

lemma tree_like_not_dir:
  assumes "tree_like fs" "map_of fs p \<noteq> Some Dir" "r \<noteq> []"
  shows "map_of fs (p @ r) = None"
proof -
  obtain x y where r: "r = x # y" using assms(3) by (cases r) auto
  have "map_of fs (p @ [x]) = None" using assms(1,2) unfolding tree_like_def by blast
  from tree_like_empty [OF assms(1) this] show ?thesis by (simp add: r subtree_def fun_eq_iff)
qed

fun request_work :: "'c template_env \<Rightarrow> path \<Rightarrow> 32 word \<Rightarrow> qstring \<Rightarrow> 'c request \<Rightarrow> 'c work" where
  "request_work E root st n Unlinked = Unlink n (sandbox_root root @ [''b'' @ te_text E st])"
| "request_work E root st n (Imported c) = Import n c (sandbox_root root @ [''w'' @ te_text E st])"
| "request_work E root st n (Exported c) = Export n c"

fun works_of :: "'c template_env \<Rightarrow> path \<Rightarrow> 32 word \<Rightarrow> (qstring \<times> 'c request) list \<Rightarrow> 'c work list" where
  "works_of E root st [] = []"
| "works_of E root st ((n, r) # rs) = request_work E root st n r # works_of E root (st + 1) rs"

definition sandbox_empty :: "path \<Rightarrow> 'c files \<Rightarrow> bool" where
  "sandbox_empty root fs \<longleftrightarrow> is_dir (sandbox_root root) fs \<and> (\<forall>r. r \<noteq> [] \<longrightarrow> map_of fs (sandbox_root root @ r) = None)"

lemma getSandbox_fresh:
  "sandbox_empty root (ts_files s) \<Longrightarrow>
   getSandbox E root pre st s = (Inr (sandbox_root root @ [pre @ te_text E st]), s)"
  by (simp add: getSandbox_def with_files_def facade_unlink_def sandbox_empty_def is_dir_iff path_exists_def Let_def)

lemma logs_both:
  "sandbox_empty root (ts_files s) \<Longrightarrow>
   \<exists>st'. catalog_logs E k root rs (Both log st) s = (PRL_ERR_SUCCESS, Both (log @ works_of E root st rs) st', s)"
proof (induction rs arbitrary: log st)
  case (Cons a rs)
  obtain n r where a: "a = (n, r)" by (cases a)
  have "catalog_log E k root n r (Both log st) s =
      (PRL_ERR_SUCCESS, Both (log @ [request_work E root st n r]) (st + 1), s)"
    by (cases r) (simp_all add: catalog_log_def getSandbox_fresh [OF Cons.prems])
  with Cons.IH [OF Cons.prems, of "log @ [request_work E root st n r]" "st + 1"] show ?case by (simp add: a)
qed simp

lemma logs_reading: "catalog_logs E k root rs (Reading log) s = (e, m, s') \<Longrightarrow> \<exists>log'. m = Reading log'"
proof (induction rs arbitrary: log s)
  case (Cons a rs)
  obtain n r where a: "a = (n, r)" by (cases a)
  show ?case
  proof (cases r)
    case (Exported c)
    with Cons.prems a have "catalog_logs E k root rs (Reading (log @ [Export n c])) s = (e, m, s')"
      by (simp add: catalog_log_def)
    then show ?thesis by (rule Cons.IH)
  qed (use Cons.prems a in \<open>auto simp: catalog_log_def prl_failed_def\<close>)
qed auto

text \<open>The store when the sandbox is ready.\<close>

definition prepared :: "path \<Rightarrow> 'c template_store \<Rightarrow> 'c template_store \<Rightarrow> bool" where
  "prepared root s s1 \<longleftrightarrow>
     ts_fast s1 = ts_fast s \<and> ts_openable s1 = ts_openable s \<and> sandbox_empty root (ts_files s1) \<and>
     (\<forall>q. \<not> below_dir (sandbox_root root) q \<longrightarrow> map_of (ts_files s1) q = map_of (ts_files s) q)"

lemma both_prepare_effect:
  assumes laws: "template_laws E" and tree: "tree_like (ts_files s)"
    and run: "both_prepare E root s = (e, s1)" "\<not> prl_failed e"
  shows "prepared root s s1"
proof -
  obtain e0 s0 where u: "with_files (facade_unlink E (sandbox_root root)) s = (e0, s0)"
    by (cases "with_files (facade_unlink E (sandbox_root root)) s") auto
  with run have ok: "\<not> prl_failed e0" and w: "with_files (facade_mkdir E (sandbox_root root)) s0 = (e, s1)"
    by (auto simp: both_prepare_def split: if_splits)
  note u' = with_files_effect [OF u] and w' = with_files_effect [OF w]
  from w' run(2) obtain d: "WriteDirectory E (sandbox_root root) (ts_files s0) = (True, ts_files s1)"
    by (auto simp: facade_mkdir_def prl_failed_def split: prod.splits if_splits)
  note f = unlink_effect [OF laws conjunct1 [OF u']]
  have "map_of (ts_files s0) (sandbox_root root @ r) = None" if "r \<noteq> []" for r
  proof (cases "subtree (sandbox_root root) (ts_files s0) = (\<lambda>_. None)")
    case True
    then show ?thesis by (simp add: subtree_def fun_eq_iff)
  next
    case False
    with f ok have "ts_files s0 = ts_files s" "map_of (ts_files s) (sandbox_root root) = None"
      by (auto simp: path_exists_def)
    with tree_like_not_dir [OF tree _ that, of "sandbox_root root"] show ?thesis by simp
  qed
  moreover have "map_of (ts_files s1) q = map_of (ts_files s0) q" if "q \<noteq> sandbox_root root" for q
    by (rule template_lawsD(5) [OF laws d that])
  moreover have "map_of (ts_files s1) (sandbox_root root) = Some Dir" by (rule template_lawsD(6) [OF laws d])
  ultimately have "sandbox_empty root (ts_files s1)" by (simp add: sandbox_empty_def is_dir_iff)
  moreover have "map_of (ts_files s1) q = map_of (ts_files s) q" if "\<not> below_dir (sandbox_root root) q" for q
    using template_lawsD(5) [OF laws d, of q] f that by (cases "q = sandbox_root root") auto
  moreover have "ts_fast s1 = ts_fast s \<and> ts_openable s1 = ts_openable s"
    using same_locks_trans [OF conjunct2 [OF u'] conjunct2 [OF w']]
    by (cases s; cases s1) (simp add: same_locks_def)
  ultimately show ?thesis by (simp add: prepared_def)
qed

lemma logs_blank:
  assumes laws: "template_laws E" and tree: "tree_like (ts_files s)"
    and run: "catalog_logs E k root rs Blank s = (PRL_ERR_SUCCESS, Both log st, s1)"
  shows "log = works_of E root 0 rs \<and> prepared root s s1"
proof (cases rs)
  case Nil
  with run show ?thesis by simp
next
  case (Cons a rs')
  obtain n r where a: "a = (n, r)" by (cases a)
  obtain e m s2 where l: "catalog_log E k root n r Blank s = (e, m, s2)" by (cases "catalog_log E k root n r Blank s") auto
  with run Cons a have ok: "\<not> prl_failed e" "catalog_logs E k root rs' m s2 = (PRL_ERR_SUCCESS, Both log st, s1)"
    by (auto simp: prl_failed_def split: if_splits)
  show ?thesis
  proof (cases "\<exists>c. r = Exported c")
    case True
    with l ok(1) obtain lg where "m = Reading lg" by (auto simp: catalog_log_def prl_failed_def split: option.splits)
    with logs_reading [of E k root rs' lg s2] ok(2) show ?thesis by auto
  next
    case False
    from l False obtain lk where g: "getForWrite (ts_openable s) k (ts_slow s) = Some lk"
      using ok(1) by (cases r) (auto simp: catalog_log_def prl_failed_def split: option.splits)
    obtain e3 s3 where p: "both_prepare E root (s\<lparr>ts_slow := lk\<rparr>) = (e3, s3)"
      by (cases "both_prepare E root (s\<lparr>ts_slow := lk\<rparr>)") auto
    have e3: "\<not> prl_failed e3" using l False g p ok(1) by (cases r) (auto simp: catalog_log_def split: if_splits)
    have "prepared root (s\<lparr>ts_slow := lk\<rparr>) s3" by (rule both_prepare_effect [OF laws _ p e3]) (simp add: tree)
    then have pr: "prepared root s s3" by (simp add: prepared_def)
    then have em: "sandbox_empty root (ts_files s3)" by (simp add: prepared_def)
    have "m = Both [request_work E root 0 n r] 1 \<and> s2 = s3"
      using l False g p e3 by (cases r) (auto simp: catalog_log_def getSandbox_fresh [OF em])
    with logs_both [OF em, of E k rs' "[request_work E root 0 n r]" 1] ok(2) pr show ?thesis
      by (auto simp: Cons a)
  qed
qed

fun request_ok :: "('c content \<Rightarrow> path \<Rightarrow> 'c node option) \<Rightarrow> path \<Rightarrow> qstring \<times> 'c request \<Rightarrow> bool" where
  "request_ok tree root (n, Imported (Some f)) \<longleftrightarrow> n \<noteq> ''sandbox'' \<and> import_makes tree f"
| "request_ok tree root (n, Exported (Some f)) \<longleftrightarrow> n \<noteq> ''sandbox'' \<and> export_reads root f"
| "request_ok tree root (n, _) \<longleftrightarrow> n \<noteq> ''sandbox''"

lemma request_work_ok: "request_ok tree root (n, r) \<Longrightarrow> work_ok tree root (request_work E root st n r)"
  by (cases "(tree, root, (n, r))" rule: request_ok.cases) (auto simp: work_ok_def)

lemma works_places:
  "p \<in> set (concat (map work_place (works_of E root st rs))) \<Longrightarrow>
   \<exists>i < length rs. \<exists>c. p = sandbox_root root @ [c # te_text E (st + of_nat i)]"
proof (induction rs arbitrary: st)
  case (Cons a rs)
  obtain n r where a: "a = (n, r)" by (cases a)
  from Cons.prems consider "p \<in> set (work_place (request_work E root st n r))"
    | "p \<in> set (concat (map work_place (works_of E root (st + 1) rs)))" by (auto simp: a)
  then show ?case
  proof cases
    case 1
    then show ?thesis by (cases r) (auto intro!: exI [where x = 0])
  next
    case 2
    from Cons.IH [OF this] obtain i c where i: "i < length rs" "p = sandbox_root root @ [c # te_text E (st + 1 + of_nat i)]" by blast
    then show ?thesis by (intro exI [where x = "Suc i"]) (auto simp: ac_simps)
  qed
qed simp

lemma works_distinct:
  assumes "inj (te_text E)"
  shows "length rs \<le> 2 ^ 32 \<Longrightarrow> distinct (concat (map work_place (works_of E root st rs)))"
proof (induction rs arbitrary: st)
  case (Cons a rs)
  obtain n r where a: "a = (n, r)" by (cases a)
  have "set (work_place (request_work E root st n r)) \<inter> set (concat (map work_place (works_of E root (st + 1) rs))) = {}"
  proof (rule equals0I, elim IntE)
    fix p assume p: "p \<in> set (work_place (request_work E root st n r))" "p \<in> set (concat (map work_place (works_of E root (st + 1) rs)))"
    from works_places [OF p(2)] obtain i c where i: "i < length rs" "p = sandbox_root root @ [c # te_text E (st + 1 + of_nat i)]" by blast
    from p(1) obtain c' where "p = sandbox_root root @ [c' # te_text E st]" by (cases r) auto
    with i(2) have "te_text E (st + 1 + of_nat i) = te_text E st" by simp
    with assms have "st + 1 + of_nat i = st" by (simp add: inj_eq)
    then have "(of_nat (Suc i) :: 32 word) = 0" by (simp add: add.assoc)
    then have "unat (of_nat (Suc i) :: 32 word) = 0" by simp
    then have "Suc i mod 2 ^ LENGTH(32) = 0" unfolding unat_of_nat .
    moreover have "Suc i < 2 ^ 32" using i(1) Cons.prems by simp
    ultimately show False by simp
  qed
  moreover have "distinct (work_place (request_work E root st n r))" by (cases r) auto
  ultimately show ?case using Cons by (simp add: a)
qed simp

lemma works_ok:
  assumes laws: "template_laws E" and rs: "\<forall>x \<in> set rs. request_ok tree root x" "length rs < 2 ^ 32"
  shows "batch_ok tree root (works_of E root 0 rs)"
proof -
  have "\<forall>w \<in> set (works_of E root st rs). work_ok tree root w" for st
    using rs(1)
  proof (induction rs arbitrary: st)
    case (Cons a rs)
    then show ?case by (cases a) (auto intro: request_work_ok)
  qed simp
  with works_distinct [OF template_lawsD(9) [OF laws], of rs root 0] rs(2) show ?thesis
    by (simp add: batch_ok_def)
qed

lemma works_imports:
  "w \<in> set (works_of E root st rs) \<Longrightarrow> imports_name n w \<Longrightarrow> \<exists>c. (n, Imported c) \<in> set rs"
proof (induction rs arbitrary: st)
  case (Cons a rs)
  obtain m r where a: "a = (m, r)" by (cases a)
  from Cons show ?case by (cases r) (auto simp: a)
qed simp

lemma prepared_entry:
  assumes "prepared root s s1" "n \<noteq> ''sandbox''"
  shows "subtree (root @ [n]) (ts_files s1) = subtree (root @ [n]) (ts_files s)"
proof -
  have "\<not> below_dir (sandbox_root root) (root @ n # r)" for r using assms(2) by (auto simp: sandbox_root_def)
  with assms(1) show ?thesis by (simp add: prepared_def subtree_def fun_eq_iff)
qed

lemma prepared_fine: "prepared root s s1 \<Longrightarrow> lockable k s \<Longrightarrow> is_dir root (ts_files s) \<Longrightarrow> store_fine k root s1"
  by (simp add: prepared_def store_fine_def lockable_def is_dir_iff sandbox_root_def below_dir_def)

section \<open>A commit that fails\<close>



section \<open>A commit that succeeds\<close>

text \<open>What the requests ask for, one after the other.\<close>

fun asked ::
  "('c content \<Rightarrow> path \<Rightarrow> 'c node option) \<Rightarrow> (qstring \<times> 'c request) list \<Rightarrow> (qstring \<Rightarrow> path \<Rightarrow> 'c node option) \<Rightarrow>
   qstring \<Rightarrow> path \<Rightarrow> 'c node option" where
  "asked tree [] A = A"
| "asked tree ((n, Unlinked) # rs) A = asked tree rs (A(n := \<lambda>_. None))"
| "asked tree ((n, Imported (Some f)) # rs) A = asked tree rs (A(n := tree f))"
| "asked tree ((n, Imported None) # rs) A = asked tree rs A"
| "asked tree ((n, Exported c) # rs) A = asked tree rs A"

definition entries :: "path \<Rightarrow> 'c template_store \<Rightarrow> qstring \<Rightarrow> path \<Rightarrow> 'c node option" where
  "entries root s n = subtree (root @ [n]) (ts_files s)"

definition like_entries :: "path \<Rightarrow> 'c template_store \<Rightarrow> (qstring \<Rightarrow> path \<Rightarrow> 'c node option) \<Rightarrow> bool" where
  "like_entries root s A \<longleftrightarrow> (\<forall>n. n \<noteq> ''sandbox'' \<longrightarrow> entries root s n = A n)"

definition whole_entries :: "path \<Rightarrow> 'c template_store \<Rightarrow> bool" where
  "whole_entries root s \<longleftrightarrow> (\<forall>n. n \<noteq> ''sandbox'' \<longrightarrow> entries root s n [] = None \<longrightarrow> entries root s n = (\<lambda>_. None))"

lemma entries_other:
  assumes "work_ok tree root w" "same_but root (touched root w) (ts_files s) (ts_files s')" "m \<noteq> ''sandbox''" "m \<noteq> work_name w"
  shows "entries root s' m = entries root s m"
proof -
  have "root @ [m] \<notin> touched root w" using assms(1,4) by (cases w) (auto simp: work_ok_def)
  with same_butD(1) [OF assms(2) entry_place [OF assms(3)]] show ?thesis by (simp add: entries_def)
qed

lemma request_done:
  assumes laws: "template_laws E" and ok: "request_ok tree root (n, r)" and whole: "whole_entries root s"
    and run: "work_do E k root (request_work E root st n r) s = (e, s')" "\<not> prl_failed e"
  shows "like_entries root s' (asked tree [(n, r)] (entries root s))" "whole_entries root s'"
proof -
  let ?w = "request_work E root st n r"
  note wok = request_work_ok [OF ok, of E st]
  from work_do_same [OF laws wok run(1)] have same: "same_but root (touched root ?w) (ts_files s) (ts_files s')" by simp
  have name: "work_name ?w = n" by (cases r) auto
  have n: "n \<noteq> ''sandbox''" using wok name by (simp add: work_ok_def)
  note o = entries_other [OF wok same, unfolded name]
  have own: "entries root s' n = asked tree [(n, r)] (entries root s) n \<and> (entries root s' n [] = None \<longrightarrow> entries root s' n = (\<lambda>_. None))"
  proof (cases r)
    case Unlinked
    let ?b = "sandbox_root root @ [''b'' @ te_text E st]"
    from run(1) Unlinked have u: "unlink_do E k (root @ [n]) ?b s = (e, s')" by simp
    from unlink_do_effect [OF laws entry_place [OF n] sandbox_place _ u] whole n run(2) Unlinked show ?thesis
      by (cases "path_exists (root @ [n]) (ts_files s)") (simp_all add: entries_def whole_entries_def path_exists_subtree)
  next
    case (Imported c)
    let ?w = "sandbox_root root @ [''w'' @ te_text E st]"
    from run Imported obtain f e1 s1 where f: "c = Some f" "with_files (f ?w) s = (e1, s1)" "\<not> prl_failed e1"
      "with_entry_lock k (facade_rename E ?w (root @ [n])) s1 = (e, s')"
      by (auto simp: import_do_def prl_failed_def split: option.splits prod.splits if_splits)
    have e1: "e1 = PRL_ERR_SUCCESS" using f(3) by (simp add: prl_failed_def)
    from ok Imported f(1) have im: "import_makes tree f" by simp
    from with_files_effect [OF f(2)] e1 have "f ?w (ts_files s) = (PRL_ERR_SUCCESS, ts_files s1)" by simp
    with im have t: "subtree ?w (ts_files s1) = tree f" "tree f [] \<noteq> None" unfolding import_makes_def by blast+
    have "lockable k s1" using with_entry_lock_effect(3) [OF f(4)] run(2) by (auto simp: prl_failed_def)
    from with_entry_lock_effect(2) [OF f(4) this] have "facade_rename E ?w (root @ [n]) (ts_files s1) = (e, ts_files s')" .
    from rename_effect [OF laws sandbox_place entry_place [OF n] _ this] run(2) t(1)
    have "subtree (root @ [n]) (ts_files s') = tree f" by simp
    with t(2) show ?thesis by (simp only: entries_def Imported f(1) asked.simps fun_upd_same) simp
  next
    case (Exported c)
    from same Exported have "entries root s' n = entries root s n"
      using same_butD(1) [OF same entry_place [OF n]] by (simp add: entries_def)
    with whole n Exported show ?thesis by (simp add: whole_entries_def)
  qed
  have rest: "asked tree [(n, r)] (entries root s) m = entries root s m" if "m \<noteq> n" for m
    using that by (cases "(tree, [(n, r)], entries root s)" rule: asked.cases) auto
  show "like_entries root s' (asked tree [(n, r)] (entries root s))"
    unfolding like_entries_def
  proof (intro allI impI)
    fix m :: qstring assume "m \<noteq> ''sandbox''"
    with own o [of m] rest [of m] show "entries root s' m = asked tree [(n, r)] (entries root s) m" by (cases "m = n") auto
  qed
  show "whole_entries root s'"
    unfolding whole_entries_def
  proof (intro allI impI)
    fix m :: qstring assume "m \<noteq> ''sandbox''" "entries root s' m [] = None"
    with own o [of m] whole show "entries root s' m = (\<lambda>_. None)" by (cases "m = n") (auto simp: whole_entries_def)
  qed
qed

lemma asked_Cons: "asked tree (x # rs) A = asked tree rs (asked tree [x] A)"
  by (cases "(tree, x # rs, A)" rule: asked.cases) auto

lemma asked_cong:
  "\<forall>n. n \<noteq> ''sandbox'' \<longrightarrow> A n = B n \<Longrightarrow> \<forall>x \<in> set rs. request_ok tree root x \<Longrightarrow> m \<noteq> ''sandbox'' \<Longrightarrow> asked tree rs A m = asked tree rs B m"
  by (induction tree rs A arbitrary: B rule: asked.induct) auto

lemma done_loop:
  assumes laws: "template_laws E"
  shows "\<forall>x \<in> set rs. request_ok tree root x \<Longrightarrow> whole_entries root s \<Longrightarrow>
    batch_loop (work_batch E k root (works_of E root st rs)) undo s = (e, s') \<Longrightarrow> \<not> prl_failed e \<Longrightarrow>
    like_entries root s' (asked tree rs (entries root s))"
proof (induction rs arbitrary: st undo s)
  case Nil
  then show ?case by (simp add: work_batch_def like_entries_def)
next
  case (Cons x rs)
  obtain n r where x: "x = (n, r)" by (cases x)
  obtain e1 s1 where w: "work_do E k root (request_work E root st n r) s = (e1, s1)"
    by (cases "work_do E k root (request_work E root st n r) s") auto
  from Cons.prems(3,4) w x have e1: "\<not> prl_failed e1" by (auto simp: work_batch_def split: if_splits)
  with Cons.prems(3) w x obtain undo' where
    l: "batch_loop (work_batch E k root (works_of E root (st + 1) rs)) undo' s1 = (e, s')"
    by (simp add: work_batch_def)
  from Cons.prems(1) x have ok: "request_ok tree root (n, r)" "\<forall>x \<in> set rs. request_ok tree root x" by auto
  note d = request_done [OF laws ok(1) Cons.prems(2) w e1]
  have ih: "entries root s' m = asked tree rs (entries root s1) m" if "m \<noteq> ''sandbox''" for m
    using Cons.IH [OF ok(2) d(2) l Cons.prems(4)] that by (simp add: like_entries_def)
  have "asked tree rs (entries root s1) m = asked tree rs (asked tree [(n, r)] (entries root s)) m" if "m \<noteq> ''sandbox''" for m
    by (rule asked_cong [OF d(1) [unfolded like_entries_def] ok(2) that])
  note both = trans [OF ih this]
  show ?case
    unfolding like_entries_def x
  proof (intro allI impI)
    fix m :: qstring assume "m \<noteq> ''sandbox''"
    note m = this
    show "entries root s' m = asked tree ((n, r) # rs) (entries root s) m"
      by (rule trans [OF both [OF m m] asked_Cons [of tree "(n, r)" rs "entries root s", THEN fun_cong, symmetric]])
  qed
qed

text \<open>C21. A commit that succeeds does exactly what was asked for, in the order of the requests: an entry
  that was removed is gone, one that was imported has the tree that the import made, and all other
  entries are what they were; nothing of this depends on the sandbox or on the locks.\<close>

theorem successful_commit_refines_requests:
  assumes "template_laws E" "tree_like (ts_files s)"
    and "\<forall>x \<in> set rs. request_ok tree root x" "length rs < 2 ^ 32"
    and "catalog_logs E k root rs Blank s = (PRL_ERR_SUCCESS, Both log st, s1)"
    and "catalog_commit E k root (Both log st) s1 = (PRL_ERR_SUCCESS, m, s2)"
    and "n \<noteq> ''sandbox''"
  shows "entries root s2 n = asked tree rs (entries root s) n"
proof -
  from logs_blank [OF assms(1,2,5)] have log: "log = works_of E root 0 rs" and pr: "prepared root s s1" by auto
  have ok: "batch_ok tree root log" unfolding log by (rule works_ok [OF assms(1,3,4)])
  obtain s3 where x: "batch_execute (work_batch E k root log) s1 = (PRL_ERR_SUCCESS, s3)" "s2 = foldl (\<lambda>s w. work_end E w s) s3 log"
    using assms(6) by (auto simp: catalog_commit_def mode_execute_def split: prod.splits)
  have l: "batch_loop (work_batch E k root (works_of E root 0 rs)) [] s1 = (PRL_ERR_SUCCESS, s3)"
    using x(1) by (simp add: batch_execute_def log split: if_splits)
  have same: "entries root s1 m = entries root s m" if "m \<noteq> ''sandbox''" for m
    using prepared_entry [OF pr that] by (simp add: entries_def)
  have "whole_entries root s1"
    unfolding whole_entries_def
  proof (intro allI impI)
    fix m :: qstring assume m: "m \<noteq> ''sandbox''" "entries root s1 m [] = None"
    with same have "map_of (ts_files s) (root @ [m]) = None" by (simp add: entries_def subtree_def)
    from tree_like_empty [OF assms(2) this] same [OF m(1)] show "entries root s1 m = (\<lambda>_. None)" by (simp add: entries_def)
  qed
  from done_loop [OF assms(1,3) this l] assms(7) have "entries root s3 n = asked tree rs (entries root s1) n"
    by (simp add: like_entries_def)
  also have "\<dots> = asked tree rs (entries root s) n" by (rule asked_cong [OF _ assms(3,7)]) (simp add: same)
  finally show ?thesis
    unfolding x(2) entries_def
    using works_end_same [OF assms(1) _ assms(7), where tree = tree and log = log and s = s3] ok by (simp add: batch_ok_def)
qed


section \<open>Lock files\<close>

lemma writers_are_alone: "lock_file_run l \<Longrightarrow> (k, True) \<in> set l \<Longrightarrow> h \<in> set l \<Longrightarrow> h = (k, True)"
proof (induction arbitrary: k h rule: lock_file_run.induct)
  case (read l c k' l')
  from read.hyps(2) have l': "l' = (k', False) # l" and how: "(k', False) \<in> set l \<or> (\<forall>h \<in> set l. \<not> snd h)"
    by (auto simp: getForRead_def flock_free_def split: if_splits)
  from read.prems(1) l' have m: "(k, True) \<in> set l" by simp
  from read.IH [OF m, of "(k', False)"] m how show ?case by auto
next
  case (write_ l c k' l')
  from write_.hyps(2) have l': "l' = (k', True) # l" and how: "(k', True) \<in> set l \<or> l = []"
    by (auto simp: getForWrite_def flock_free_def split: if_splits)
  from how show ?case
  proof
    assume "(k', True) \<in> set l"
    with l' have "set l' = set l" by auto
    with write_.prems show ?thesis by (simp only: write_.IH)
  next
    assume "l = []"
    with write_.prems l' show ?thesis by simp
  qed
next
  case (release l h')
  from release.prems have "(k, True) \<in> set l" "h \<in> set l"
    unfolding lock_release_ref_def by (auto intro: set_remove1_subset [THEN subsetD])
  then show ?case by (rule release.IH)
qed simp


section \<open>A catalogue for examples\<close>

text \<open>Files that can always be made and removed; a rename needs its source and a target that is free.\<close>

definition demo_clear :: "path \<Rightarrow> nat files \<Rightarrow> bool \<times> nat files" where
  "demo_clear p fs = (True, filter (\<lambda>(q, _). \<not> below_dir p q) fs)"

definition demo_rename :: "path \<Rightarrow> path \<Rightarrow> nat files \<Rightarrow> bool \<times> nat files" where
  "demo_rename p q fs =
     (if path_exists p fs \<and> is_dir (butlast q) fs \<and> (\<forall>x \<in> set fs. \<not> below_dir q (fst x))
      then (True, map (\<lambda>(r, x). (if below_dir p r then q @ drop (length p) r else r, x)) fs)
      else (False, fs))"

definition demo_templates_env :: "nat template_env" where
  "demo_templates_env = \<lparr>te_text = (\<lambda>n. replicate (unat n) CHR ''1''), te_isUuid = (\<lambda>n. n \<noteq> ''sandbox''), te_config = ''config.pvs'',
     WriteDirectory = (\<lambda>p fs. (True, (p, Dir) # fs)), ClearAndDelete = demo_clear, RemoveEntry = demo_clear,
     RenameEntry = demo_rename\<rparr>"

lemma below_dir_cases: "below_dir p r \<longleftrightarrow> (\<exists>t. r = p @ t)"
proof
  assume "below_dir p r"
  then have "r = p @ drop (length p) r" unfolding below_dir_def by (metis append_take_drop_id)
  then show "\<exists>t. r = p @ t" ..
qed auto

lemma map_of_moved:
  "\<forall>x \<in> set fs. \<not> below_dir q (fst x) \<Longrightarrow>
   map_of (map (\<lambda>(r, x). (if below_dir p r then q @ drop (length p) r else r, x)) fs) r =
     (if below_dir q r then map_of fs (p @ drop (length q) r) else if below_dir p r then None else map_of fs r)"
proof (induction fs)
  case (Cons a fs)
  obtain k x where a: "a = (k, x)" by (cases a)
  show ?case
  proof (cases "below_dir p k")
    case True
    then obtain t where "k = p @ t" by (auto simp: below_dir_cases)
    with Cons a show ?thesis by (auto simp: below_dir_cases)
  next
    case False
    with Cons a show ?thesis by (auto simp: below_dir_cases)
  qed
qed simp

lemma demo_templates_laws: "template_laws demo_templates_env"
proof -
  have "inj (\<lambda>n :: 32 word. replicate (unat n) CHR ''1'')"
    by (rule injI) (metis length_replicate word_unat_eq_iff)
  then show ?thesis
    by (simp add: template_laws_def demo_templates_env_def demo_clear_def demo_rename_def map_of_drop map_of_moved)
qed

lemma demo_renames_work: "renames_work demo_templates_env"
proof -
  have "\<not> below_dir (d @ [x]) (fst a)" if "subtree (d @ [x]) fs = (\<lambda>_. None)" "a \<in> set fs" for d x a and fs :: "nat files"
  proof
    assume "below_dir (d @ [x]) (fst a)"
    then obtain t where t: "fst a = (d @ [x]) @ t" by (auto simp: below_dir_cases)
    from that(1) have "map_of fs ((d @ [x]) @ t) = None" unfolding subtree_def by (rule fun_cong)
    with that(2) t show False by (simp add: map_of_eq_None_iff) (metis fst_conv image_eqI prod.collapse)
  qed
  then show ?thesis
    by (simp add: renames_work_def demo_templates_env_def demo_rename_def path_exists_def)
qed

definition demo_templates :: "nat template_store" where
  "demo_templates = \<lparr>ts_files = [([], Dir), ([''a''], Dir), ([''a'', ''x''], File 1), ([''c''], Dir)],
     ts_fast = [], ts_slow = [], ts_openable = True\<rparr>"

definition demo_content :: "nat content" where
  "demo_content p fs = (PRL_ERR_SUCCESS, (p, Dir) # (p @ [''y''], File 7) # filter (\<lambda>(q, _). \<not> below_dir p q) fs)"

definition demo_refused :: "nat content" where
  "demo_refused p fs = (PRL_ERR_FAILURE, fs)"

definition demo_tree :: "nat content \<Rightarrow> path \<Rightarrow> nat node option" where
  "demo_tree f r = (if r = [] then Some Dir else if r = [''y''] then Some (File 7) else None)"

lemma tree_like_parents: "\<forall>q \<in> set (map fst fs). q \<noteq> [] \<longrightarrow> map_of fs (butlast q) = Some Dir \<Longrightarrow> tree_like fs"
  unfolding tree_like_def
proof (intro allI impI)
  fix p x
  assume a: "\<forall>q \<in> set (map fst fs). q \<noteq> [] \<longrightarrow> map_of fs (butlast q) = Some Dir" and "map_of fs (p @ [x]) \<noteq> None"
  then have "p @ [x] \<in> set (map fst fs)" by (simp add: map_of_eq_None_iff)
  from bspec [OF a this] show "map_of fs p = Some Dir" by simp
qed

lemma demo_templates_fine:
  "tree_like (ts_files demo_templates)" "is_dir [] (ts_files demo_templates)" "lockable 0 demo_templates"
  by (rule tree_like_parents, simp_all add: demo_templates_def is_dir_def lockable_def getForWrite_def flock_free_def)

lemma demo_content_makes: "import_makes demo_tree demo_content"
  unfolding import_makes_def demo_content_def
  by (intro conjI allI impI) (auto simp: demo_tree_def subtree_def fun_eq_iff map_of_drop)

lemma demo_refused_reads: "export_reads root demo_refused"
  by (simp add: export_reads_def demo_refused_def)

text \<open>The end of a task: its requests and the commit.\<close>

definition demo_task :: "(qstring \<times> nat request) list \<Rightarrow> prl_result \<times> nat template_store" where
  "demo_task rs = (case catalog_logs demo_templates_env 0 [] rs Blank demo_templates of (_, m, s) \<Rightarrow>
     (case catalog_commit demo_templates_env 0 [] m s of (e, _, s') \<Rightarrow> (e, s')))"

definition demo_logged :: "(qstring \<times> nat request) list \<Rightarrow> bool" where
  "demo_logged rs = (case catalog_logs demo_templates_env 0 [] rs Blank demo_templates of
     (e, Both log st, s) \<Rightarrow> \<not> prl_failed e | _ \<Rightarrow> False)"

lemmas demo_run = demo_logged_def demo_task_def demo_templates_def demo_templates_env_def demo_clear_def demo_rename_def
  demo_content_def demo_refused_def catalog_log_def catalog_commit_def mode_execute_def work_batch_def batch_execute_def
  batch_rollback_def both_prepare_def getSandbox_def with_files_def with_entry_lock_def facade_unlink_def facade_rename_def
  facade_mkdir_def unlink_do_def unlink_undo_def import_do_def import_undo_def export_do_def sandbox_root_def getForWrite_def
  flock_free_def lock_release_ref_def is_dir_def path_exists_def below_dir_def prl_failed_def

lemma demo_failing: "demo_logged [(''a'', Unlinked), (''c'', Exported (Some demo_refused))] \<and>
  prl_failed (fst (demo_task [(''a'', Unlinked), (''c'', Exported (Some demo_refused))]))"
  by (simp add: demo_run)

lemma demo_working: "demo_logged [(''a'', Unlinked), (''d'', Imported (Some demo_content))] \<and>
  \<not> prl_failed (fst (demo_task [(''a'', Unlinked), (''d'', Imported (Some demo_content))]))"
  by (simp add: demo_run)

lemma demo_task_run:
  assumes "demo_logged rs" "demo_task rs = (e, s2)"
  obtains log st s1 m where "catalog_logs demo_templates_env 0 [] rs Blank demo_templates = (PRL_ERR_SUCCESS, Both log st, s1)"
    "catalog_commit demo_templates_env 0 [] (Both log st) s1 = (e, m, s2)"
  using assms by (auto simp: demo_logged_def demo_task_def prl_failed_def split: prod.splits mode.splits)


theorem successful_commit_refines_requests_witness:
  "entries [] (snd (demo_task [(''a'', Unlinked), (''d'', Imported (Some demo_content))])) ''d'' = demo_tree demo_content"
proof -
  let ?rs = "[(''a'', Unlinked), (''d'', Imported (Some demo_content))]"
  obtain e s2 where d: "demo_task ?rs = (e, s2)" by (cases "demo_task ?rs")
  from demo_working d have f: "demo_logged ?rs" "e = PRL_ERR_SUCCESS" by (auto simp: prl_failed_def)
  from f(1) d obtain log st s1 m where r:
    "catalog_logs demo_templates_env 0 [] ?rs Blank demo_templates = (PRL_ERR_SUCCESS, Both log st, s1)"
    "catalog_commit demo_templates_env 0 [] (Both log st) s1 = (e, m, s2)" by (rule demo_task_run)
  have "entries [] s2 ''d'' = asked demo_tree ?rs (entries [] demo_templates) ''d''"
    by (rule successful_commit_refines_requests [OF demo_templates_laws demo_templates_fine(1) _ _ r(1) r(2) [unfolded f(2)]])
      (simp_all add: demo_content_makes)
  with d show ?thesis by simp
qed

text \<open>
  What a batch imports is not taken back when a later action fails, and an entry that a batch replaces
  by removing and importing it is lost then.
\<close>

lemma failed_batch_keeps_imports:
  "prl_failed (fst (demo_task [(''d'', Imported (Some demo_content)), (''c'', Exported (Some demo_refused))])) \<and>
   path_exists [''d'', ''y''] (ts_files (snd (demo_task [(''d'', Imported (Some demo_content)), (''c'', Exported (Some demo_refused))])))"
  by (simp add: demo_run)

lemma failed_batch_loses_replaced:
  "prl_failed (fst (demo_task [(''a'', Unlinked), (''a'', Imported (Some demo_content)), (''c'', Exported (Some demo_refused))])) \<and>
   \<not> path_exists [''a'', ''x''] (ts_files (snd (demo_task
       [(''a'', Unlinked), (''a'', Imported (Some demo_content)), (''c'', Exported (Some demo_refused))])))"
  by (simp add: demo_run)

end
