(* ===== verification/TemplateFacade.thy ===== *)
theory TemplateFacade
  imports VmDirectory BackupStore
begin

text \<open>
  Templates as items of a VM directory, \<^verbatim>\<open>CDspTemplateFacade.cpp\<close>: an entry that is found on a shared
  file system is settled in the ephemeral directory of that file system.  The catalogue of directories
  and its locks are those of \<open>VmDirectory\<close>, the batch is that of \<open>BackupStore\<close>.
\<close>

section \<open>State\<close>

text \<open>What is read from the entry's configuration.\<close>

record 'c entry =
  e_vmUuid :: uuid
  e_home :: qstring
  e_name :: qstring
  e_vmType :: vm_type
  e_template :: bool
  e_rest :: 'c

datatype facade_note = VmConfigChanged uuid uuid | VmRegistered uuid uuid qstring bool

text \<open>
  \<open>f_configs\<close> is the store of the configuration manager; \<open>f_next\<close> numbers the objects and uuids that
  are made.
\<close>

record 'f facade_state =
  f_catalogue :: catalogue
  f_configs :: 'f
  f_next :: nat
  f_effects :: "dir_effect list"
  f_notes :: "facade_note list"

record ('c, 'f) facade_env =
  fe_api :: catalogue_api
  createUuid :: "nat \<Rightarrow> qstring"
  saveConfig :: "'c entry \<Rightarrow> 'f \<Rightarrow> prl_result \<times> 'f"
  removeFromCache :: "qstring \<Rightarrow> 'f \<Rightarrow> 'f"
  saved_catalogue :: "catalogue \<Rightarrow> prl_result"


section \<open>Operations\<close>

definition entry_lock :: "('c, 'f) facade_env \<Rightarrow> 'c entry \<Rightarrow> 'f facade_state \<Rightarrow> temp_item" where
  "entry_lock E x s = \<lparr>t_vmUuid = e_vmUuid x, t_vmXmlPath = e_home x, t_vmName = e_name x, m_sItemId = createUuid E (f_next s)\<rparr>"

definition persist :: "('c, 'f) facade_env \<Rightarrow> 'c entry \<Rightarrow> 'f facade_state \<Rightarrow> prl_result \<times> 'f facade_state" where
  "persist E x s = (case saveConfig E x (f_configs s) of (r, f) \<Rightarrow> (r, s\<lparr>f_configs := f\<rparr>))"

definition discard :: "('c, 'f) facade_env \<Rightarrow> 'c entry \<Rightarrow> 'f facade_state \<Rightarrow> 'f facade_state" where
  "discard E x s = s\<lparr>f_configs := removeFromCache E (e_home x) (f_configs s)\<rparr>"

definition entry_item :: "'c entry \<Rightarrow> 'f facade_state \<Rightarrow> dir_item" where
  "entry_item x s = \<lparr>item_ptr = f_next s, vmUuid = e_vmUuid x, vmHome = e_home x, vmName = e_name x, ctId = [],
     vmIsTemplate = e_template x, vmType = e_vmType x\<rparr>"

definition facade_register :: "('c, 'f) facade_env \<Rightarrow> uuid \<Rightarrow> 'c entry \<Rightarrow> 'f facade_state \<Rightarrow> prl_result \<times> 'f facade_state" where
  "facade_register E folder x s =
     (case addVmDirItem (fe_api E) (saved_catalogue E (f_catalogue s)) folder (Some (entry_item x s)) (f_catalogue s) of
        (r, os, c) \<Rightarrow> (r, s\<lparr>f_catalogue := c, f_next := Suc (f_next s), f_effects := f_effects s @ os\<rparr>))"

definition facade_unregister :: "('c, 'f) facade_env \<Rightarrow> uuid \<Rightarrow> 'c entry \<Rightarrow> 'f facade_state \<Rightarrow> prl_result \<times> 'f facade_state" where
  "facade_unregister E folder x s =
     (case deleteVmDirItem (fe_api E) (saved_catalogue E (f_catalogue s)) folder (e_vmUuid x) (f_catalogue s) of
        (r, os, c) \<Rightarrow> (r, s\<lparr>f_catalogue := c, f_effects := f_effects s @ os\<rparr>))"

definition registrar_batch :: "('c, 'f) facade_env \<Rightarrow> uuid \<Rightarrow> 'c entry \<Rightarrow> 'f facade_state batch" where
  "registrar_batch E folder x =
     [(persist E x, Some (discard E x)),
      (facade_register E folder x, Some (\<lambda>s. snd (facade_unregister E folder x s)))]"

text \<open>The guard of a registrar is its lock item while it holds one.\<close>

definition registrar_begin ::
  "('c, 'f) facade_env \<Rightarrow> uuid \<Rightarrow> 'c entry \<Rightarrow> temp_item option \<Rightarrow> 'f facade_state \<Rightarrow>
   prl_result \<times> temp_item option \<times> 'f facade_state" where
  "registrar_begin E folder x m_guard s =
     (if m_guard \<noteq> None then (PRL_ERR_DOUBLE_INIT, m_guard, s)
      else (case checkAndLock (fe_api E) False folder (entry_lock E x s) (f_catalogue s) of (errs, c) \<Rightarrow>
        (errors_result errs, if prl_failed (errors_result errs) then None else Some (entry_lock E x s),
         s\<lparr>f_catalogue := c, f_next := Suc (f_next s)\<rparr>)))"

definition registrar_execute ::
  "('c, 'f) facade_env \<Rightarrow> uuid \<Rightarrow> 'c entry \<Rightarrow> temp_item option \<Rightarrow> 'f facade_state \<Rightarrow> prl_result \<times> 'f facade_state" where
  "registrar_execute E folder x m_guard s =
     (if m_guard = None then (PRL_ERR_UNINITIALIZED, s) else batch_execute (registrar_batch E folder x) s)"

definition registrar_unlock ::
  "('c, 'f) facade_env \<Rightarrow> temp_item option \<Rightarrow> 'f facade_state \<Rightarrow> prl_result \<times> 'f facade_state" where
  "registrar_unlock E m_guard s =
     (if m_guard = None then (PRL_ERR_UNINITIALIZED, s)
      else (PRL_ERR_SUCCESS, s\<lparr>f_catalogue := unlockExclusiveAll (fe_api E) m_guard (f_catalogue s)\<rparr>))"

text \<open>
  \<open>m_undo\<close> is what the batch has left to undo; a batch that failed has undone it and left nothing.
\<close>

definition registrar_rollback ::
  "('c, 'f) facade_env \<Rightarrow> ('f facade_state \<Rightarrow> 'f facade_state) list \<Rightarrow> temp_item option \<Rightarrow> 'f facade_state \<Rightarrow>
   prl_result \<times> 'f facade_state" where
  "registrar_rollback E m_undo m_guard s =
     (if m_guard = None then (PRL_ERR_UNINITIALIZED, s) else registrar_unlock E m_guard (batch_rollback m_undo s))"

definition settler :: "('c, 'f) facade_env \<Rightarrow> uuid \<Rightarrow> 'c entry \<Rightarrow> 'f facade_state \<Rightarrow> prl_result \<times> 'f facade_state" where
  "settler E folder x s =
     (let l = entry_lock E x s in
      case lockExisting (fe_api E) folder (Some l) (f_catalogue s) of (e, c) \<Rightarrow>
        let s1 = s\<lparr>f_catalogue := c, f_next := Suc (f_next s)\<rparr> in
        if prl_failed e then (e, s1)
        else (case persist E x s1 of (r, s2) \<Rightarrow>
          let s3 = (if prl_failed r then s2 else s2\<lparr>f_notes := f_notes s2 @ [VmConfigChanged folder (e_vmUuid x)]\<rparr>) in
          (r, s3\<lparr>f_catalogue := unlockExclusiveAll (fe_api E) (Some l) (f_catalogue s3)\<rparr>)))"

text \<open>
  \<^verbatim>\<open>Folder::settle\<close> calls itself with a new name when the name is taken, without a bound; \<open>None\<close> would
  be a run that does not end.
\<close>

definition renamed :: "('c, 'f) facade_env \<Rightarrow> nat \<Rightarrow> 'c entry \<Rightarrow> 'c entry" where
  "renamed E k x = x\<lparr>e_name := e_name x @ ''.'' @ createUuid E k\<rparr>"

partial_function (option) settle ::
  "('c, 'f) facade_env \<Rightarrow> uuid \<Rightarrow> 'c entry \<Rightarrow> 'f facade_state \<Rightarrow> (prl_result \<times> 'f facade_state) option" where
  "settle E folder x s =
     (case registrar_begin E folder x None s of (e, m_guard, s1) \<Rightarrow>
        if e = PRL_ERR_VM_ALREADY_REGISTERED \<or> e = PRL_ERR_VM_ALREADY_REGISTERED_VM_UUID then Some (settler E folder x s1)
        else if e = PRL_ERR_VM_ALREADY_REGISTERED_VM_NAME
        then settle E folder (renamed E (f_next s1) x) (s1\<lparr>f_next := Suc (f_next s1)\<rparr>)
        else if prl_failed e then Some (e, s1)
        else (case registrar_execute E folder x m_guard s1 of (r, s2) \<Rightarrow>
          if prl_failed r then Some (r, snd (registrar_rollback E [] m_guard s2))
          else (let s3 = snd (registrar_unlock E m_guard s2) in
                Some (r, s3\<lparr>f_notes := f_notes s3 @ [VmRegistered folder (e_vmUuid x) (e_name x) (e_template x)]\<rparr>))))"


section \<open>The catalogue under a lock\<close>

definition with_item :: "catalogue_api \<Rightarrow> uuid \<Rightarrow> dir_item \<Rightarrow> catalogue \<Rightarrow> catalogue" where
  "with_item A u i s = s\<lparr>m_lstVmDirectory := map (\<lambda>d. if dir_uuid d = u
     then d\<lparr>m_lstVmDirectoryItems := addVmDirectoryItem A i (m_lstVmDirectoryItems d)\<rparr> else d) (m_lstVmDirectory s)\<rparr>"

lemma with_item_lock: "with_item A u i (with_lock D l s) = with_lock D l (with_item A u i s)"
  by (simp add: with_item_def with_lock_def)

lemma addVmDirItem_outcome:
  assumes A: "api_ok A" "distinct (map dir_uuid (m_lstVmDirectory s))"
    and fresh: "\<forall>d \<in> set (m_lstVmDirectory s). \<forall>i \<in> set (m_lstVmDirectoryItems d). item_ptr i \<noteq> item_ptr x"
    and run: "addVmDirItem A res u (Some x) s = (r, os, s')"
  shows "if prl_failed r then s' = s else \<exists>f. s' = (with_item A u x s)\<lparr>saved_file := f\<rparr>"
proof (cases "getVmDirectoryByUuid A u (m_lstVmDirectory s)")
  case None
  with run show ?thesis by (auto simp: addVmDirItem_def prl_failed_def)
next
  case (Some n)
  note n = api_find_Some [OF A(1) Some]
  let ?d = "m_lstVmDirectory s ! n"
  let ?its = "addVmDirectoryItem A x (m_lstVmDirectoryItems ?d)"
  have "?d \<in> set (m_lstVmDirectory s)" using n(1) by simp
  with fresh have undo: "erase_first (\<lambda>i. item_ptr i = item_ptr x) ?its = m_lstVmDirectoryItems ?d"
    by (intro inserts_erase [OF api_inserts(2) [OF A(1)]]) auto
  have set: "setVmDirectory n (?d\<lparr>m_lstVmDirectoryItems := ?its\<rparr>) s = with_item A u x s"
    using setVmDirectory_by_uuid [OF A(2) n(1), of "\<lambda>d. d\<lparr>m_lstVmDirectoryItems := addVmDirectoryItem A x (m_lstVmDirectoryItems d)\<rparr>"] n(2)
    by (simp add: with_item_def)
  show ?thesis
  proof (cases "getVmDirItemByUuid A u (vmUuid x) s = None")
    case False
    with Some run show ?thesis by (auto simp: addVmDirItem_def prl_failed_def)
  next
    case True
    show ?thesis
    proof (cases "prl_failed res")
      case True
      with Some \<open>getVmDirItemByUuid A u (vmUuid x) s = None\<close> run undo show ?thesis
        by (auto simp: addVmDirItem_def saveVmDirCatalogue_def Let_def setVmDirectory_twice setVmDirectory_same)
    next
      case False
      with Some \<open>getVmDirItemByUuid A u (vmUuid x) s = None\<close> run set show ?thesis
        by (auto simp: addVmDirItem_def saveVmDirCatalogue_def Let_def)
    qed
  qed
qed

text \<open>What the two ways to lock leave.\<close>

lemma locked_state:
  assumes A: "api_ok A" "distinct (map dir_uuid (m_lstVmDirectory s))"
  shows "checkAndLock A False u l s = (errs, c) \<Longrightarrow>
      (if errs = [] then c = with_lock {u} l s \<and> u \<in> dir_uuid ` set (m_lstVmDirectory s) else c = s)"
    and "lockExisting A u (Some l) s = (e, c) \<Longrightarrow>
      (if prl_failed e then c = s else c = with_lock {u} l s \<and>
        (\<exists>d \<in> set (m_lstVmDirectory s). dir_uuid d = u \<and> t_vmUuid l \<in> vmUuid ` set (m_lstVmDirectoryItems d)))"
proof -
  have push: "push_temp n l s = with_lock {u} l s" "m_lstVmDirectory s ! n \<in> set (m_lstVmDirectory s)"
    "dir_uuid (m_lstVmDirectory s ! n) = u"
    if "getVmDirectoryByUuid A u (m_lstVmDirectory s) = Some n" for n
    using api_find_Some [OF A(1) that] push_temp_with_lock [OF A(2), of n u "{}" l] by simp_all
  show "if errs = [] then c = with_lock {u} l s \<and> u \<in> dir_uuid ` set (m_lstVmDirectory s) else c = s"
    if run: "checkAndLock A False u l s = (errs, c)"
  proof (cases "getVmDirectoryByUuid A u (m_lstVmDirectory s)")
    case None
    with run checkAndLock_alt(1) [of A False u l s] show ?thesis by auto
  next
    case (Some n)
    from push [OF Some] have u: "u \<in> dir_uuid ` set (m_lstVmDirectory s)" by (metis imageI)
    show ?thesis
    proof (cases "lockable A l (m_lstVmDirectory s ! n)")
      case True
      with run checkAndLock_alt(1) [of A False u l s] Some push(1) [OF Some] u show ?thesis by auto
    next
      case False
      from checkAndLock_alt(2) [OF Some False, of False] run have "errs \<noteq> []" by simp
      with run checkAndLock_alt(1) [of A False u l s] Some False show ?thesis by auto
    qed
  qed
  show "if prl_failed e then c = s else c = with_lock {u} l s \<and>
      (\<exists>d \<in> set (m_lstVmDirectory s). dir_uuid d = u \<and> t_vmUuid l \<in> vmUuid ` set (m_lstVmDirectoryItems d))"
    if run: "lockExisting A u (Some l) s = (e, c)"
  proof (cases "getVmDirectoryByUuid A u (m_lstVmDirectory s)")
    case None
    with run show ?thesis by (auto simp: lockExisting_def prl_failed_def)
  next
    case (Some n)
    from push [OF Some] Some run show ?thesis
      by (auto simp: lockExisting_def prl_failed_def split: if_splits intro!: bexI [of _ "m_lstVmDirectory s ! n"])
  qed
qed


section \<open>Settling\<close>

text \<open>New objects are new, and uuids that will be made are not in use as names of locks.\<close>

definition numbers_fresh :: "('c, 'f) facade_env \<Rightarrow> 'f facade_state \<Rightarrow> bool" where
  "numbers_fresh E s \<longleftrightarrow> (\<forall>d \<in> set (m_lstVmDirectory (f_catalogue s)).
     (\<forall>i \<in> set (m_lstVmDirectoryItems d). item_ptr i < f_next s) \<and>
     (\<forall>t \<in> set (temporaryCatalogue d). \<forall>k \<ge> f_next s. m_sItemId t \<noteq> createUuid E k))"

definition directories_distinct :: "'f facade_state \<Rightarrow> bool" where
  "directories_distinct s \<longleftrightarrow> distinct (map dir_uuid (m_lstVmDirectory (f_catalogue s)))"

text \<open>How a run may end.\<close>

definition settled :: "('c, 'f) facade_env \<Rightarrow> uuid \<Rightarrow> 'c entry \<Rightarrow> 'f facade_state \<Rightarrow> prl_result \<Rightarrow> 'f facade_state \<Rightarrow> bool" where
  "settled E folder x s r s' \<longleftrightarrow>
     (if prl_failed r then f_catalogue s' = f_catalogue s
      else f_catalogue s' = f_catalogue s \<and>
             (\<exists>d \<in> set (m_lstVmDirectory (f_catalogue s)). dir_uuid d = folder \<and> e_vmUuid x \<in> vmUuid ` set (m_lstVmDirectoryItems d))
        \<or> folder \<in> dir_uuid ` set (m_lstVmDirectory (f_catalogue s)) \<and>
          (\<exists>i. vmUuid i = e_vmUuid x \<and> vmHome i = e_home x \<and>
             m_lstVmDirectory (f_catalogue s') = m_lstVmDirectory (with_item (fe_api E) folder i (f_catalogue s))))"

lemma settled_same:
  "f_catalogue s = f_catalogue t \<Longrightarrow> e_vmUuid x = e_vmUuid y \<Longrightarrow> e_home x = e_home y \<Longrightarrow>
   settled E folder x s r s' \<longleftrightarrow> settled E folder y t r s'"
  by (simp add: settled_def)

lemma entry_lock_fresh:
  "numbers_fresh E s \<Longrightarrow> d \<in> set (m_lstVmDirectory (f_catalogue s)) \<Longrightarrow> t \<in> set (temporaryCatalogue d) \<Longrightarrow>
   m_sItemId t \<noteq> m_sItemId (entry_lock E x s)"
  by (simp add: numbers_fresh_def entry_lock_def)

lemma unlock_after:
  assumes A: "api_ok (fe_api E)" "directories_distinct s" "numbers_fresh E s" and u: "folder \<in> dir_uuid ` set (m_lstVmDirectory (f_catalogue s))"
  shows "unlockExclusiveAll (fe_api E) (Some (entry_lock E x s)) (with_lock {folder} (entry_lock E x s) (f_catalogue s)) = f_catalogue s"
  using A(2) u entry_lock_fresh [OF A(3)]
  by (intro unlock_all_with_lock [OF A(1)]) (auto simp: directories_distinct_def)

lemma unlock_after_item:
  assumes A: "api_ok (fe_api E)" "directories_distinct s" "numbers_fresh E s" and u: "folder \<in> dir_uuid ` set (m_lstVmDirectory (f_catalogue s))"
  shows "unlockExclusiveAll (fe_api E) (Some (entry_lock E x s))
      ((with_lock {folder} (entry_lock E x s) (with_item (fe_api E) folder i (f_catalogue s)))\<lparr>saved_file := f\<rparr>) =
    (with_item (fe_api E) folder i (f_catalogue s))\<lparr>saved_file := f\<rparr>"
proof -
  let ?l = "entry_lock E x s" and ?c = "(with_item (fe_api E) folder i (f_catalogue s))\<lparr>saved_file := f\<rparr>"
  have uu: "map dir_uuid (m_lstVmDirectory ?c) = map dir_uuid (m_lstVmDirectory (f_catalogue s))"
    by (simp add: with_item_def)
  have "folder \<in> dir_uuid ` set (m_lstVmDirectory ?c)" using u uu by (metis list.set_map)
  moreover have "m_sItemId t \<noteq> m_sItemId ?l" if "d \<in> set (m_lstVmDirectory ?c)" "t \<in> set (temporaryCatalogue d)" for d t
    using that entry_lock_fresh [OF A(3)] by (auto simp: with_item_def split: if_splits)
  ultimately have "unlockExclusiveAll (fe_api E) (Some ?l) (with_lock {folder} ?l ?c) = ?c"
    using A(2) uu by (intro unlock_all_with_lock [OF A(1)]) (auto simp: directories_distinct_def)
  moreover have "with_lock {folder} ?l ?c = (with_lock {folder} ?l (with_item (fe_api E) folder i (f_catalogue s)))\<lparr>saved_file := f\<rparr>"
    by (simp add: with_lock_def)
  ultimately show ?thesis by simp
qed

lemma settler_settles:
  assumes A: "api_ok (fe_api E)" "directories_distinct s" "numbers_fresh E s"
    and run: "settler E folder x s = (r, s')"
  shows "settled E folder x s r s'"
proof -
  obtain e c where l: "lockExisting (fe_api E) folder (Some (entry_lock E x s)) (f_catalogue s) = (e, c)"
    by (cases "lockExisting (fe_api E) folder (Some (entry_lock E x s)) (f_catalogue s)")
  note state = locked_state(2) [OF A(1) A(2) [unfolded directories_distinct_def] l]
  show ?thesis
  proof (cases "prl_failed e")
    case True
    with run l state show ?thesis by (auto simp: settler_def settled_def Let_def)
  next
    case False
    with state have c: "c = with_lock {folder} (entry_lock E x s) (f_catalogue s)" and
      d: "\<exists>d \<in> set (m_lstVmDirectory (f_catalogue s)). dir_uuid d = folder \<and> e_vmUuid x \<in> vmUuid ` set (m_lstVmDirectoryItems d)"
      by (auto simp: entry_lock_def)
    then have "folder \<in> dir_uuid ` set (m_lstVmDirectory (f_catalogue s))" by auto
    from unlock_after [OF A this, of x] have "f_catalogue s' = f_catalogue s"
      using run l False c by (auto simp: settler_def persist_def Let_def split: prod.splits if_splits)
    with d show ?thesis by (simp add: settled_def)
  qed
qed

text \<open>The errors of a lock that is refused.\<close>

lemma check_items_errors:
  "check_items A b l its acc \<in> {Inl es, Inr es} \<Longrightarrow>
   set es \<subseteq> set acc \<union> {PRL_ERR_VM_ALREADY_REGISTERED} \<union> (\<Union>i \<in> set its. set (item_errors A l i))"
proof (induction its arbitrary: acc)
  case (Cons i its)
  show ?case
  proof (cases "check_items A b l (i # its) acc = check_items A b l its (acc @ item_errors A l i)")
    case True
    with Cons.prems have "check_items A b l its (acc @ item_errors A l i) \<in> {Inl es, Inr es}" by simp
    from Cons.IH [OF this] show ?thesis by auto
  next
    case False
    with Cons.prems have "es = [PRL_ERR_VM_ALREADY_REGISTERED] \<or> es = acc @ item_errors A l i"
      by (auto split: if_splits)
    then show ?thesis by auto
  qed
qed auto

lemma checkAndLock_errors:
  assumes "checkAndLock A b u l s = (errs, c)" "e \<in> set errs"
  shows "e \<in> {PRL_ERR_VM_DIRECTORY_NOT_EXIST, PRL_ERR_VM_ALREADY_REGISTERED, PRL_ERR_VM_ALREADY_REGISTERED_UNIQUE_PARAMS} \<or>
    (\<exists>n i. getVmDirectoryByUuid A u (m_lstVmDirectory s) = Some n \<and> i \<in> set (m_lstVmDirectoryItems (m_lstVmDirectory s ! n)) \<and>
       e \<in> set (item_errors A l i))"
proof (cases "getVmDirectoryByUuid A u (m_lstVmDirectory s)")
  case None
  with assms show ?thesis by (auto simp: checkAndLock_def)
next
  case (Some n)
  let ?its = "m_lstVmDirectoryItems (m_lstVmDirectory s ! n)"
  obtain es where es: "check_items A b l ?its [] \<in> {Inl es, Inr es}" by (cases "check_items A b l ?its []") auto
  with assms Some have "e \<in> set es \<or> e = PRL_ERR_VM_ALREADY_REGISTERED_UNIQUE_PARAMS"
    by (auto simp: checkAndLock_def Let_def split: if_splits)
  with check_items_errors [OF es] Some show ?thesis by auto
qed

lemma item_errors_set:
  "e \<in> set (item_errors A l i) \<Longrightarrow> e = PRL_ERR_VM_ALREADY_REGISTERED_VM_UUID \<or> e = PRL_ERR_VM_ALREADY_REGISTERED_VM_PATH \<or>
     e = PRL_ERR_VM_ALREADY_REGISTERED_VM_NAME \<and> vmName i = t_vmName l"
  by (auto simp: item_errors_def split: if_splits)

lemma checkAndLock_refused: "checkAndLock A b u l s = (errs, c) \<Longrightarrow> prl_failed (errors_result errs) \<longleftrightarrow> errs \<noteq> []"
  using checkAndLock_errors [of A b u l s errs c "hd errs"] item_errors_set [of "hd errs" A l]
  by (cases errs) (auto simp: errors_result_def prl_failed_def)

lemma execute_catalogue:
  assumes A: "api_ok (fe_api E)" "directories_distinct s"
    and fresh: "\<forall>d \<in> set (m_lstVmDirectory (f_catalogue s)). \<forall>i \<in> set (m_lstVmDirectoryItems d). item_ptr i < f_next s"
    and run: "batch_execute (registrar_batch E folder x) s = (r, s')"
  shows "if prl_failed r then f_catalogue s' = f_catalogue s
    else \<exists>i f. vmUuid i = e_vmUuid x \<and> vmHome i = e_home x \<and>
      f_catalogue s' = (with_item (fe_api E) folder i (f_catalogue s))\<lparr>saved_file := f\<rparr>"
proof -
  obtain r1 f1 where p: "saveConfig E x (f_configs s) = (r1, f1)" by (cases "saveConfig E x (f_configs s)")
  show ?thesis
  proof (cases "prl_failed r1")
    case True
    with run p show ?thesis by (auto simp: batch_execute_def registrar_batch_def persist_def batch_rollback_def)
  next
    case False
    let ?s = "s\<lparr>f_configs := f1\<rparr>"
    let ?i = "entry_item x ?s"
    obtain r2 os c where a: "addVmDirItem (fe_api E) (saved_catalogue E (f_catalogue s)) folder (Some ?i) (f_catalogue s) = (r2, os, c)"
      by (cases "addVmDirItem (fe_api E) (saved_catalogue E (f_catalogue s)) folder (Some ?i) (f_catalogue s)") auto
    have fr: "\<forall>d \<in> set (m_lstVmDirectory (f_catalogue s)). \<forall>i \<in> set (m_lstVmDirectoryItems d). item_ptr i \<noteq> item_ptr ?i"
      using fresh by (fastforce simp: entry_item_def)
    note add = addVmDirItem_outcome [OF A(1) A(2) [unfolded directories_distinct_def] fr a]
    have i: "vmUuid ?i = e_vmUuid x" "vmHome ?i = e_home x" by (simp_all add: entry_item_def)
    show ?thesis
    proof (cases "prl_failed r2")
      case True
      with run p False a add show ?thesis
        by (auto simp: batch_execute_def registrar_batch_def persist_def batch_rollback_def facade_register_def discard_def)
    next
      case ok: False
      with run p False a have "r = PRL_ERR_SUCCESS" "f_catalogue s' = c"
        by (auto simp: batch_execute_def registrar_batch_def persist_def facade_register_def)
      with add ok i show ?thesis by (auto simp: prl_failed_def)
    qed
  qed
qed

lemma registrar_settles:
  assumes A: "api_ok (fe_api E)" "directories_distinct s" "numbers_fresh E s"
    and begun: "registrar_begin E folder x None s = (e, g, s1)" "\<not> prl_failed e"
    and run: "registrar_execute E folder x g s1 = (r, s2)"
  shows "prl_failed r \<Longrightarrow> f_catalogue (snd (registrar_rollback E [] g s2)) = f_catalogue s"
    and "\<not> prl_failed r \<Longrightarrow> settled E folder x s r (snd (registrar_unlock E g s2))"
proof -
  let ?l = "entry_lock E x s"
  obtain errs c where l: "checkAndLock (fe_api E) False folder ?l (f_catalogue s) = (errs, c)"
    by (cases "checkAndLock (fe_api E) False folder ?l (f_catalogue s)")
  from begun l have errs: "errs = []" and g: "g = Some ?l"
    and s1: "s1 = s\<lparr>f_catalogue := c, f_next := Suc (f_next s)\<rparr>"
    using checkAndLock_refused [OF l] by (auto simp: registrar_begin_def)
  from locked_state(1) [OF A(1) A(2) [unfolded directories_distinct_def] l] errs
  have c: "c = with_lock {folder} ?l (f_catalogue s)" and u: "folder \<in> dir_uuid ` set (m_lstVmDirectory (f_catalogue s))" by auto
  have d1: "directories_distinct s1"
    using A(2) uuids_with_lock [of "{folder}" ?l "f_catalogue s"] by (simp add: directories_distinct_def s1 c)
  have fr1: "\<forall>d \<in> set (m_lstVmDirectory (f_catalogue s1)). \<forall>i \<in> set (m_lstVmDirectoryItems d). item_ptr i < f_next s1"
    using A(3) by (auto simp: numbers_fresh_def s1 c with_lock_def less_Suc_eq)
  from run g have "batch_execute (registrar_batch E folder x) s1 = (r, s2)" by (simp add: registrar_execute_def)
  note ex = execute_catalogue [OF A(1) d1 fr1 this]
  show "f_catalogue (snd (registrar_rollback E [] g s2)) = f_catalogue s" if "prl_failed r"
    using ex that unlock_after [OF A u, of x] by (simp add: registrar_rollback_def registrar_unlock_def batch_rollback_def g s1 c)
  show "settled E folder x s r (snd (registrar_unlock E g s2))" if ok: "\<not> prl_failed r"
  proof -
    from ex ok obtain i f where i: "vmUuid i = e_vmUuid x" "vmHome i = e_home x"
      "f_catalogue s2 = (with_item (fe_api E) folder i (f_catalogue s1))\<lparr>saved_file := f\<rparr>" by auto
    from unlock_after_item [OF A u, where x = x and i = i and f = f] i(3) have
      "f_catalogue (snd (registrar_unlock E g s2)) = (with_item (fe_api E) folder i (f_catalogue s))\<lparr>saved_file := f\<rparr>"
      by (simp add: registrar_unlock_def g s1 c with_item_lock)
    with i(1,2) ok u show ?thesis by (auto simp: settled_def)
  qed
qed

lemma begin_refused:
  assumes A: "api_ok (fe_api E)" "directories_distinct s"
    and begun: "registrar_begin E folder x None s = (e, g, s1)" "prl_failed e"
  shows "s1 = s\<lparr>f_next := Suc (f_next s)\<rparr>"
proof -
  let ?l = "entry_lock E x s"
  obtain errs c where l: "checkAndLock (fe_api E) False folder ?l (f_catalogue s) = (errs, c)"
    by (cases "checkAndLock (fe_api E) False folder ?l (f_catalogue s)")
  with begun checkAndLock_refused [OF l] locked_state(1) [OF A(1) A(2) [unfolded directories_distinct_def] l]
  show ?thesis by (auto simp: registrar_begin_def)
qed

lemma begin_name:
  assumes "registrar_begin E folder x None s = (PRL_ERR_VM_ALREADY_REGISTERED_VM_NAME, g, s1)" "api_ok (fe_api E)"
  shows "\<exists>d \<in> set (m_lstVmDirectory (f_catalogue s)). dir_uuid d = folder \<and> e_name x \<in> vmName ` set (m_lstVmDirectoryItems d)"
proof -
  let ?e = PRL_ERR_VM_ALREADY_REGISTERED_VM_NAME
  obtain errs c where l: "checkAndLock (fe_api E) False folder (entry_lock E x s) (f_catalogue s) = (errs, c)"
    by (cases "checkAndLock (fe_api E) False folder (entry_lock E x s) (f_catalogue s)")
  with assms(1) have "errors_result errs = ?e" by (simp add: registrar_begin_def)
  then have "?e \<in> set errs" by (cases errs) (auto simp: errors_result_def)
  from checkAndLock_errors [OF l this] obtain n i where
    n: "getVmDirectoryByUuid (fe_api E) folder (m_lstVmDirectory (f_catalogue s)) = Some n" and
    i: "i \<in> set (m_lstVmDirectoryItems (m_lstVmDirectory (f_catalogue s) ! n))" "?e \<in> set (item_errors (fe_api E) (entry_lock E x s) i)"
    by auto
  from item_errors_set [OF i(2)] have "vmName i = e_name x" by (simp add: entry_lock_def)
  with i(1) api_find_Some [OF assms(2) n] show ?thesis by (metis image_eqI nth_mem)
qed

lemma with_item_has:
  assumes "api_ok A" "u \<in> dir_uuid ` set (m_lstVmDirectory c)" "m_lstVmDirectory c' = m_lstVmDirectory (with_item A u i c)"
  shows "\<exists>d \<in> set (m_lstVmDirectory c'). dir_uuid d = u \<and> vmUuid i \<in> vmUuid ` set (m_lstVmDirectoryItems d)"
proof -
  from assms(2) obtain d where d: "d \<in> set (m_lstVmDirectory c)" "dir_uuid d = u" by auto
  let ?d = "d\<lparr>m_lstVmDirectoryItems := addVmDirectoryItem A i (m_lstVmDirectoryItems d)\<rparr>"
  have "?d \<in> set (m_lstVmDirectory c')" using d by (force simp: assms(3) with_item_def)
  moreover have "dir_uuid ?d = u \<and> vmUuid i \<in> vmUuid ` set (m_lstVmDirectoryItems ?d)"
    using d by (simp add: inserts_set [OF api_inserts(2) [OF assms(1)]])
  ultimately show ?thesis by blast
qed

lemma numbers_fresh_next: "numbers_fresh E s \<Longrightarrow> numbers_fresh E (s\<lparr>f_next := Suc (f_next s)\<rparr>)"
  by (fastforce simp: numbers_fresh_def)

lemma settle_once:
  assumes A: "api_ok (fe_api E)" "directories_distinct s" "numbers_fresh E s"
    and begun: "registrar_begin E folder x None s = (e, g, s1)" "e \<noteq> PRL_ERR_VM_ALREADY_REGISTERED_VM_NAME"
  shows "\<exists>r s'. settle E folder x s = Some (r, s') \<and> settled E folder x s r s'"
proof (cases "prl_failed e")
  case True
  note s1 = begin_refused [OF A(1,2) begun(1) True]
  show ?thesis
  proof (cases "e = PRL_ERR_VM_ALREADY_REGISTERED \<or> e = PRL_ERR_VM_ALREADY_REGISTERED_VM_UUID")
    case True
    obtain r s' where r: "settler E folder x s1 = (r, s')" by (cases "settler E folder x s1")
    have "directories_distinct s1" using A(2) by (simp add: s1 directories_distinct_def)
    from settler_settles [OF A(1) this _ r] numbers_fresh_next [OF A(3)]
    have "settled E folder x s1 r s'" by (simp only: s1)
    moreover have "f_catalogue s1 = f_catalogue s" by (simp add: s1)
    ultimately have "settled E folder x s r s'" by (simp only: settled_same [of s1 s x x])
    with r True begun show ?thesis by (subst settle.simps) simp
  next
    case False
    with begun \<open>prl_failed e\<close> show ?thesis by (subst settle.simps) (simp add: settled_def s1)
  qed
next
  case False
  obtain r s2 where r: "registrar_execute E folder x g s1 = (r, s2)" by (cases "registrar_execute E folder x g s1")
  note out = registrar_settles [OF A begun(1) False r]
  have e: "e = PRL_ERR_SUCCESS" using False by (simp add: prl_failed_def)
  show ?thesis
  proof (cases "prl_failed r")
    case True
    with out(1) r begun e show ?thesis by (subst settle.simps) (simp add: settled_def)
  next
    case False
    with out(2) r begun e show ?thesis by (subst settle.simps) (simp add: settled_def Let_def)
  qed
qed

text \<open>C22. An entry is settled in one or two rounds, when the name that is made for it is free: its folder has
  an item for it afterwards, the one that was there or a new one with its home; when it fails, the
  catalogue is what it was.  In no case does a lock stay.\<close>

theorem settle_settles:
  assumes "api_ok (fe_api E)" "distinct (map dir_uuid (m_lstVmDirectory (f_catalogue s)))" "numbers_fresh E s"
    and "\<forall>d \<in> set (m_lstVmDirectory (f_catalogue s)). dir_uuid d = folder \<longrightarrow>
      e_name x @ ''.'' @ createUuid E (Suc (f_next s)) \<notin> vmName ` set (m_lstVmDirectoryItems d)"
  shows "\<exists>r s'. settle E folder x s = Some (r, s') \<and>
    map temporaryCatalogue (m_lstVmDirectory (f_catalogue s')) = map temporaryCatalogue (m_lstVmDirectory (f_catalogue s)) \<and>
    (if prl_failed r then f_catalogue s' = f_catalogue s
     else (\<exists>d \<in> set (m_lstVmDirectory (f_catalogue s')). dir_uuid d = folder \<and> e_vmUuid x \<in> vmUuid ` set (m_lstVmDirectoryItems d)) \<and>
       (m_lstVmDirectory (f_catalogue s') = m_lstVmDirectory (f_catalogue s) \<or>
        (\<exists>i. vmUuid i = e_vmUuid x \<and> vmHome i = e_home x \<and>
           m_lstVmDirectory (f_catalogue s') = m_lstVmDirectory (with_item (fe_api E) folder i (f_catalogue s)))))"
proof -
  have d: "directories_distinct s" using assms(2) by (simp add: directories_distinct_def)
  obtain e g s1 where b: "registrar_begin E folder x None s = (e, g, s1)" by (cases "registrar_begin E folder x None s") auto
  have "\<exists>r s'. settle E folder x s = Some (r, s') \<and> settled E folder x s r s'"
  proof (cases "e = PRL_ERR_VM_ALREADY_REGISTERED_VM_NAME")
    case False
    from settle_once [OF assms(1) d assms(3) b False] show ?thesis .
  next
    case True
    then have s1: "s1 = s\<lparr>f_next := Suc (f_next s)\<rparr>" by (intro begin_refused [OF assms(1) d b]) (simp add: prl_failed_def)
    let ?x = "renamed E (f_next s1) x" and ?s = "s1\<lparr>f_next := Suc (f_next s1)\<rparr>"
    obtain e2 g2 s2 where b2: "registrar_begin E folder ?x None ?s = (e2, g2, s2)" by (cases "registrar_begin E folder ?x None ?s") auto
    have "e2 \<noteq> PRL_ERR_VM_ALREADY_REGISTERED_VM_NAME"
    proof
      assume "e2 = PRL_ERR_VM_ALREADY_REGISTERED_VM_NAME"
      with b2 have "registrar_begin E folder ?x None ?s = (PRL_ERR_VM_ALREADY_REGISTERED_VM_NAME, g2, s2)" by simp
      from begin_name [OF this assms(1)] assms(4) show False by (auto simp: s1 renamed_def)
    qed
    moreover have "directories_distinct ?s" "numbers_fresh E ?s"
      using d numbers_fresh_next [OF numbers_fresh_next [OF assms(3)]] by (simp_all add: s1 directories_distinct_def)
    ultimately have "\<exists>r s'. settle E folder ?x ?s = Some (r, s') \<and> settled E folder ?x ?s r s'"
      using settle_once [OF assms(1) _ _ b2] by blast
    then have "\<exists>r s'. settle E folder ?x ?s = Some (r, s') \<and> settled E folder x s r s'"
      using settled_same [of ?s s ?x x] by (simp add: s1 renamed_def)
    with b True show ?thesis by (subst settle.simps) simp
  qed
  then obtain r s' where r: "settle E folder x s = Some (r, s')" "settled E folder x s r s'" by blast
  have has: "\<exists>d \<in> set (m_lstVmDirectory (with_item (fe_api E) u i (f_catalogue s))). dir_uuid d = u \<and> v \<in> vmUuid ` set (m_lstVmDirectoryItems d)"
    if "u \<in> dir_uuid ` set (m_lstVmDirectory (f_catalogue s))" "vmUuid i = v" for u i v
    using with_item_has [OF assms(1) that(1) refl, of i] that(2) by simp
  show ?thesis
  proof (intro exI conjI)
    show "settle E folder x s = Some (r, s')" by (rule r(1))
    show "map temporaryCatalogue (m_lstVmDirectory (f_catalogue s')) = map temporaryCatalogue (m_lstVmDirectory (f_catalogue s))"
      using r(2) by (auto simp: settled_def with_item_def split: if_splits)
    show "if prl_failed r then f_catalogue s' = f_catalogue s
     else (\<exists>d \<in> set (m_lstVmDirectory (f_catalogue s')). dir_uuid d = folder \<and> e_vmUuid x \<in> vmUuid ` set (m_lstVmDirectoryItems d)) \<and>
       (m_lstVmDirectory (f_catalogue s') = m_lstVmDirectory (f_catalogue s) \<or>
        (\<exists>i. vmUuid i = e_vmUuid x \<and> vmHome i = e_home x \<and>
           m_lstVmDirectory (f_catalogue s') = m_lstVmDirectory (with_item (fe_api E) folder i (f_catalogue s))))"
      using r(2) has unfolding settled_def by (auto split: if_splits)
  qed
qed


section \<open>An example\<close>

text \<open>A folder with one VM; configurations are kept as pairs of home and name, the latest first.\<close>

definition demo_facade :: "(unit, (qstring \<times> qstring) list) facade_env" where
  "demo_facade = \<lparr>fe_api = plain_api, createUuid = (\<lambda>k. CHR ''u'' # replicate k CHR ''1''),
     saveConfig = (\<lambda>x f. (PRL_ERR_SUCCESS, (e_home x, e_name x) # f)), removeFromCache = (\<lambda>h f. f),
     saved_catalogue = (\<lambda>_. PRL_ERR_SUCCESS)\<rparr>"

definition demo_folder :: "(qstring \<times> qstring) list facade_state" where
  "demo_folder = \<lparr>f_catalogue = catalogue0, f_configs = [], f_next = 2, f_effects = [], f_notes = []\<rparr>"

definition demo_entry :: "unit entry" where
  "demo_entry = \<lparr>e_vmUuid = ''b'', e_home = ''/b'', e_name = ''a'', e_vmType = PVT_VM, e_template = True, e_rest = ()\<rparr>"

lemma demo_folder_fine:
  "distinct (map dir_uuid (m_lstVmDirectory (f_catalogue demo_folder)))" "numbers_fresh demo_facade demo_folder"
  by (simp_all add: demo_folder_def catalogue0_def numbers_fresh_def item_of_def)

theorem settle_settles_witness:
  "\<exists>r s'. settle demo_facade ''d1'' demo_entry demo_folder = Some (r, s') \<and>
     (prl_failed r \<longrightarrow> f_catalogue s' = catalogue0)"
proof -
  have "api_ok (fe_api demo_facade)" using plain_api_ok by (simp add: demo_facade_def)
  from settle_settles [OF this demo_folder_fine, of "''d1''" demo_entry] show ?thesis
    by (auto simp: demo_folder_def catalogue0_def demo_entry_def item_of_def)
qed

lemmas facade_run = registrar_begin_def registrar_execute_def registrar_unlock_def registrar_rollback_def registrar_batch_def
  facade_register_def entry_item_def entry_lock_def persist_def settler_def renamed_def batch_execute_def checkAndLock_def
  item_errors_def same_vm_def errors_result_def push_temp_def setVmDirectory_def addVmDirItem_def getVmDirItemByUuid_def
  getVmDirectory_def saveVmDirCatalogue_def unlockExclusiveAll_def unlockExclusive_def unlock_at_def lockExisting_def
  demo_facade_def demo_folder_def demo_entry_def plain_api_def catalogue0_def item_of_def prl_failed_def temp_conflict_def

text \<open>
  An entry whose name another VM has is settled with a new name; the scanner settles it again with the
  name of its own configuration.  Then it gets one more name, which its item does not have.
\<close>

definition demo_twice :: "(qstring \<times> qstring) list facade_state option" where
  "demo_twice = (case settle demo_facade ''d1'' demo_entry demo_folder of None \<Rightarrow> None
     | Some (r, s) \<Rightarrow> map_option snd (settle demo_facade ''d1'' demo_entry s))"

lemma settled_again_is_renamed:
  "\<exists>s. demo_twice = Some s \<and>
     map vmName (m_lstVmDirectoryItems (m_lstVmDirectory (f_catalogue s) ! 0)) = [''a'', ''a.u111''] \<and>
     f_configs s = [(''/b'', ''a.u1111111''), (''/b'', ''a.u111'')]"
  by (simp add: demo_twice_def settle.simps facade_run Let_def eval_nat_numeral)

end
