(* ===== verification/HostStatistics.thy ===== *)
theory HostStatistics
  imports Prelude "HOL-Library.Word"
begin

text \<open>
  The statistics of the host, \<^verbatim>\<open>Stat/CDspStatisticsGuard.cpp\<close>, and the counters of a VM,
  \<^verbatim>\<open>Stat/CDspStatStorage.cpp\<close>.  What the samples hold is 64-bit arithmetic that wraps; the object of the SDK
  that keeps the statistics is a record of lists.  Each operation runs under the mutex of the object.
\<close>

section \<open>Samples\<close>

record cpu_sample =
  m_nUser :: "64 word"
  m_nNice :: "64 word"
  m_nSystem :: "64 word"
  m_nIdle :: "64 word"
  m_nWait :: "64 word"

record part_sample =
  m_sSystemName :: qstring
  m_nTotalBytes :: "64 word"
  m_nFreeBytes :: "64 word"

record disk_sample = part_sample +
  m_lstPartsStatInfo :: "part_sample list"

record memory_sample =
  m_nTotalSize :: "64 word"
  m_nFreeSize :: "64 word"

record uptime_sample =
  m_nOsUptimeDelta :: "64 word"
  m_nProcessUptime :: "64 word"

text \<open>The data of a process that is only copied is one field.\<close>

record 'a proc_sample =
  m_nId :: "32 word"
  m_nTotalTime :: "64 word"
  m_procData :: 'a


section \<open>Statistics\<close>

record cpu_statistics =
  cpu_userTime :: "64 word"
  cpu_systemTime :: "64 word"
  cpu_totalTime :: "64 word"
  cpu_percentsUsage :: "64 word"

record part_statistics =
  deviceSystemName :: qstring
  usageDiskSpace :: "64 word"
  freeDiskSpace :: "64 word"

record disk_statistics = part_statistics +
  m_lstPartitionsStatistics :: "part_statistics list"

record memory_statistics =
  mem_totalSize :: "64 word"
  mem_usageSize :: "64 word"
  mem_freeSize :: "64 word"

record 'a proc_statistics =
  procId :: "32 word"
  proc_totalTime :: "64 word"
  proc_percentsUsage :: "32 word"
  proc_data :: 'a

record ('a, 'u, 'i) system_statistics =
  m_lstCpusStatistics :: "cpu_statistics list"
  m_lstDisksStatistics :: "disk_statistics list"
  memoryStatistics :: memory_statistics
  swapStatistics :: memory_statistics
  osUptime :: "64 word"
  dispatcherUptime :: "64 word"
  m_lstProcessesStatistics :: "'a proc_statistics list"
  m_lstUsersStatistics :: "'u list"
  m_lstNetIfacesStatistics :: "'i list"


section \<open>Processors\<close>

definition CalcCpuTotalTime :: "cpu_sample \<Rightarrow> 64 word" where
  "CalcCpuTotalTime c = m_nUser c + m_nNice c + m_nSystem c + m_nIdle c + m_nWait c"

definition blank_cpu :: cpu_statistics where
  "blank_cpu = \<lparr>cpu_userTime = 0, cpu_systemTime = 0, cpu_totalTime = 0, cpu_percentsUsage = 0\<rparr>"

text \<open>
  \<open>percent busy total\<close> is the conversion to 32 bits of the quotient of the two numbers as doubles, times
  100; for a total of 0 the code leaves it undefined.
\<close>

definition busy_delta :: "cpu_sample \<Rightarrow> cpu_sample \<Rightarrow> 64 word" where
  "busy_delta p c = (m_nUser c - m_nUser p) + (m_nNice c - m_nNice p) + (m_nSystem c - m_nSystem p) + (m_nWait c - m_nWait p)"

definition store_cpu ::
  "(64 word \<Rightarrow> 64 word \<Rightarrow> 64 word) \<Rightarrow> cpu_sample list option \<Rightarrow> nat \<Rightarrow> cpu_sample \<Rightarrow> cpu_statistics \<Rightarrow> cpu_statistics" where
  "store_cpu percent prev i c s =
     (let s1 = s\<lparr>cpu_userTime := m_nUser c div 1000, cpu_systemTime := m_nSystem c div 1000,
                 cpu_totalTime := CalcCpuTotalTime c div 1000\<rparr>
      in case prev of
           None \<Rightarrow> s1\<lparr>cpu_percentsUsage := 50\<rparr>
         | Some ps \<Rightarrow>
             if i < length ps
             then s1\<lparr>cpu_percentsUsage := percent (busy_delta (ps ! i) c) (CalcCpuTotalTime c - CalcCpuTotalTime (ps ! i))\<rparr>
             else s1)"

fun store_cpus ::
  "(64 word \<Rightarrow> 64 word \<Rightarrow> 64 word) \<Rightarrow> cpu_sample list option \<Rightarrow> nat \<Rightarrow> cpu_sample list \<Rightarrow> cpu_statistics list \<Rightarrow> cpu_statistics list" where
  "store_cpus percent prev i [] ss = ss"
| "store_cpus percent prev i (c # cs) ss =
     (let ss1 = (if length ss = i then ss @ [blank_cpu] else ss)
      in store_cpus percent prev (Suc i) cs (ss1[i := store_cpu percent prev i c (ss1 ! i)]))"

definition StoreCpusStatInfo ::
  "(64 word \<Rightarrow> 64 word \<Rightarrow> 64 word) \<Rightarrow> cpu_sample list option \<Rightarrow> cpu_sample list \<Rightarrow>
   ('a, 'u, 'i) system_statistics \<Rightarrow> ('a, 'u, 'i) system_statistics" where
  "StoreCpusStatInfo percent prev cs g =
     g\<lparr>m_lstCpusStatistics := store_cpus percent prev 0 cs (m_lstCpusStatistics g)\<rparr>"


section \<open>Disks, memory and uptime\<close>

text \<open>\<^verbatim>\<open>GET_STATISTICS_ELEMENT\<close>: the first element with the key is changed, or a new one appended.\<close>

fun statistics_element :: "('e \<Rightarrow> 'k) \<Rightarrow> 'k \<Rightarrow> 'e \<Rightarrow> ('e \<Rightarrow> 'e) \<Rightarrow> 'e list \<Rightarrow> 'e list" where
  "statistics_element key k fresh f [] = [f fresh]"
| "statistics_element key k fresh f (x # xs) =
     (if key x = k then f x # xs else x # statistics_element key k fresh f xs)"

definition store_part :: "part_sample \<Rightarrow> part_statistics \<Rightarrow> part_statistics" where
  "store_part p s = s\<lparr>usageDiskSpace := m_nTotalBytes p - m_nFreeBytes p, freeDiskSpace := m_nFreeBytes p\<rparr>"

definition blank_part :: "qstring \<Rightarrow> part_statistics" where
  "blank_part n = \<lparr>deviceSystemName = n, usageDiskSpace = 0, freeDiskSpace = 0\<rparr>"

definition blank_disk :: "qstring \<Rightarrow> disk_statistics" where
  "blank_disk n = \<lparr>deviceSystemName = n, usageDiskSpace = 0, freeDiskSpace = 0, m_lstPartitionsStatistics = []\<rparr>"

definition store_disk :: "disk_sample \<Rightarrow> disk_statistics \<Rightarrow> disk_statistics" where
  "store_disk d s = s\<lparr>usageDiskSpace := m_nTotalBytes d - m_nFreeBytes d, freeDiskSpace := m_nFreeBytes d,
     m_lstPartitionsStatistics :=
       foldl (\<lambda>ps p. statistics_element deviceSystemName (m_sSystemName p) (blank_part (m_sSystemName p)) (store_part p) ps)
         (m_lstPartitionsStatistics s) (m_lstPartsStatInfo d)\<rparr>"

definition StoreDisksStatInfo :: "disk_sample list \<Rightarrow> ('a, 'u, 'i) system_statistics \<Rightarrow> ('a, 'u, 'i) system_statistics" where
  "StoreDisksStatInfo ds g = g\<lparr>m_lstDisksStatistics :=
     foldl (\<lambda>ss d. statistics_element deviceSystemName (m_sSystemName d) (blank_disk (m_sSystemName d)) (store_disk d) ss)
       (m_lstDisksStatistics g) ds\<rparr>"

definition memory_of :: "memory_sample \<Rightarrow> memory_statistics" where
  "memory_of m = \<lparr>mem_totalSize = m_nTotalSize m, mem_usageSize = m_nTotalSize m - m_nFreeSize m, mem_freeSize = m_nFreeSize m\<rparr>"

definition StoreRamStatInfo :: "memory_sample \<Rightarrow> ('a, 'u, 'i) system_statistics \<Rightarrow> ('a, 'u, 'i) system_statistics" where
  "StoreRamStatInfo m g = g\<lparr>memoryStatistics := memory_of m\<rparr>"

definition StoreSwapStatInfo :: "memory_sample \<Rightarrow> ('a, 'u, 'i) system_statistics \<Rightarrow> ('a, 'u, 'i) system_statistics" where
  "StoreSwapStatInfo m g = g\<lparr>swapStatistics := memory_of m\<rparr>"

definition StoreUptimeStatInfo :: "uptime_sample \<Rightarrow> ('a, 'u, 'i) system_statistics \<Rightarrow> ('a, 'u, 'i) system_statistics" where
  "StoreUptimeStatInfo u g = g\<lparr>osUptime := osUptime g + m_nOsUptimeDelta u, dispatcherUptime := m_nProcessUptime u\<rparr>"

text \<open>The lists of users and network interfaces are replaced.\<close>

definition StoreUsersStatInfo :: "'u list \<Rightarrow> ('a, 'u, 'i) system_statistics \<Rightarrow> ('a, 'u, 'i) system_statistics" where
  "StoreUsersStatInfo us g = g\<lparr>m_lstUsersStatistics := us\<rparr>"

definition StoreIfacesStatInfo :: "'i list \<Rightarrow> ('a, 'u, 'i) system_statistics \<Rightarrow> ('a, 'u, 'i) system_statistics" where
  "StoreIfacesStatInfo is g = g\<lparr>m_lstNetIfacesStatistics := is\<rparr>"


section \<open>Processes\<close>

definition ProcStatPresents :: "'a proc_sample list \<Rightarrow> 'a proc_statistics \<Rightarrow> bool" where
  "ProcStatPresents ps s \<longleftrightarrow> (\<exists>p \<in> set ps. procId s = m_nId p)"

text \<open>
  The factors of the divisor are 32 bits wide, and so is their product; the dividend is 64 bits wide.
  \<open>None\<close> is a division by zero.
\<close>

definition CalcPercentsUsage :: "64 word \<Rightarrow> 64 word \<Rightarrow> 32 word \<Rightarrow> 32 word \<Rightarrow> 32 word option" where
  "CalcPercentsUsage nTotalTime nTotalTimePrev nCpus nDeltaMs =
     (if nCpus = 0 \<or> nDeltaMs = 0 then Some 0
      else if nDeltaMs * nCpus = 0 then None
      else Some (ucast ((100 * (nTotalTime - nTotalTimePrev)) div ucast (nDeltaMs * nCpus))))"

definition blank_proc :: "'a \<Rightarrow> 32 word \<Rightarrow> 'a proc_statistics" where
  "blank_proc d n = \<lparr>procId = n, proc_totalTime = 0, proc_percentsUsage = 0, proc_data = d\<rparr>"

definition proc_percents :: "32 word \<Rightarrow> 32 word \<Rightarrow> 'a proc_sample \<Rightarrow> 64 word \<Rightarrow> 32 word option" where
  "proc_percents nCpus nDeltaMs p prev = (if prev \<noteq> 0 then CalcPercentsUsage (m_nTotalTime p) prev nCpus nDeltaMs else Some 0)"

definition store_proc :: "'a proc_sample \<Rightarrow> 32 word \<Rightarrow> 'a proc_statistics \<Rightarrow> 'a proc_statistics" where
  "store_proc p percents s = s\<lparr>proc_percentsUsage := percents, proc_totalTime := m_nTotalTime p, proc_data := m_procData p\<rparr>"

definition GetStatisticsElem :: "'a \<Rightarrow> 32 word \<Rightarrow> 'a proc_statistics list \<Rightarrow> 'a proc_statistics" where
  "GetStatisticsElem d n ss = (case find (\<lambda>s. procId s = n) ss of None \<Rightarrow> blank_proc d n | Some s \<Rightarrow> s)"

text \<open>\<open>d\<close> stands for the data of a new element, which is overwritten.\<close>

fun store_procs ::
  "'a \<Rightarrow> 32 word \<Rightarrow> 32 word \<Rightarrow> 'a proc_sample list \<Rightarrow> 'a proc_statistics list \<Rightarrow> 'a proc_statistics list option" where
  "store_procs d nCpus nDeltaMs [] ss = Some ss"
| "store_procs d nCpus nDeltaMs (p # ps) ss =
     (case proc_percents nCpus nDeltaMs p (proc_totalTime (GetStatisticsElem d (m_nId p) ss)) of
        None \<Rightarrow> None
      | Some n \<Rightarrow>
          store_procs d nCpus nDeltaMs ps (statistics_element procId (m_nId p) (blank_proc d (m_nId p)) (store_proc p n) ss))"

definition StoreProcsStatInfo ::
  "'a \<Rightarrow> 32 word \<Rightarrow> 'a proc_sample list \<Rightarrow> 32 word \<Rightarrow> ('a, 'u, 'i) system_statistics \<Rightarrow> ('a, 'u, 'i) system_statistics option" where
  "StoreProcsStatInfo d nCpus ps nDeltaMs g =
     map_option (\<lambda>ss. g\<lparr>m_lstProcessesStatistics := ss\<rparr>)
       (store_procs d nCpus nDeltaMs ps (filter (ProcStatPresents ps) (m_lstProcessesStatistics g)))"


section \<open>The counters of a VM\<close>

type_synonym timed = "64 word \<times> 64 word"

record stat_storage =
  m_absolute :: "qstring \<Rightarrow> timed option"
  m_incremental :: "qstring \<Rightarrow> timed option"

definition storage_init :: stat_storage where
  "storage_init = \<lparr>m_absolute = (\<lambda>_. None), m_incremental = (\<lambda>_. None)\<rparr>"

definition addAbsolute :: "qstring \<Rightarrow> stat_storage \<Rightarrow> stat_storage" where
  "addAbsolute n s =
     (if m_absolute s n \<noteq> None \<or> m_incremental s n \<noteq> None then s else s\<lparr>m_absolute := (m_absolute s)(n \<mapsto> (0, 0))\<rparr>)"

definition addIncremental :: "qstring \<Rightarrow> stat_storage \<Rightarrow> stat_storage" where
  "addIncremental n s =
     (if m_incremental s n \<noteq> None \<or> m_absolute s n \<noteq> None then s else s\<lparr>m_incremental := (m_incremental s)(n \<mapsto> (0, 0))\<rparr>)"

definition stat_read :: "qstring \<Rightarrow> stat_storage \<Rightarrow> timed" where
  "stat_read n s =
     (case m_absolute s n of Some v \<Rightarrow> v | None \<Rightarrow> (case m_incremental s n of Some v \<Rightarrow> v | None \<Rightarrow> (0, 0)))"

definition stat_write :: "qstring \<Rightarrow> 64 word \<Rightarrow> 64 word \<Rightarrow> stat_storage \<Rightarrow> stat_storage" where
  "stat_write n v t s =
     (if m_absolute s n \<noteq> None then s\<lparr>m_absolute := (m_absolute s)(n \<mapsto> (v, t))\<rparr>
      else if m_incremental s n \<noteq> None then s\<lparr>m_incremental := (m_incremental s)(n \<mapsto> (v, t))\<rparr>
      else s)"

datatype mass_storage = PMS_IDE_DEVICE | PMS_SCSI_DEVICE | PMS_SATA_DEVICE | PMS_VIRTIO_BLOCK_DEVICE | PMS_UNKNOWN_DEVICE

fun hdd_convert :: "mass_storage \<Rightarrow> qstring" where
  "hdd_convert PMS_IDE_DEVICE = ''ide''"
| "hdd_convert PMS_SCSI_DEVICE = ''scsi''"
| "hdd_convert PMS_SATA_DEVICE = ''sata''"
| "hdd_convert PMS_VIRTIO_BLOCK_DEVICE = ''virtio''"
| "hdd_convert PMS_UNKNOWN_DEVICE = ''unknown''"

text \<open>\<open>num\<close> is the decimal form of a number.\<close>

definition hdd_generate :: "(32 word \<Rightarrow> qstring) \<Rightarrow> mass_storage \<Rightarrow> 32 word \<Rightarrow> qstring \<Rightarrow> qstring" where
  "hdd_generate num t i stat = ''devices.'' @ hdd_convert t @ num i @ ''.'' @ stat"

definition iface_generate :: "(32 word \<Rightarrow> qstring) \<Rightarrow> 32 word \<Rightarrow> qstring \<Rightarrow> qstring" where
  "iface_generate num i stat = ''net.nic'' @ num i @ ''.'' @ stat"

definition vcpu_getName :: "(32 word \<Rightarrow> qstring) \<Rightarrow> 32 word \<Rightarrow> qstring" where
  "vcpu_getName num i = ''guest.vcpu'' @ num i @ ''.time''"


section \<open>Facts\<close>

lemma element_keys:
  assumes "\<And>x. key (f x) = key x" "key fresh = k"
  shows "map key (statistics_element key k fresh f xs) = (if k \<in> key ` set xs then map key xs else map key xs @ [k])"
  using assms by (induction xs) auto

lemma element_others:
  assumes "\<And>x. key (f x) = key x" "key fresh = k" "j \<noteq> k"
  shows "find (\<lambda>x. key x = j) (statistics_element key k fresh f xs) = find (\<lambda>x. key x = j) xs"
    and "filter (\<lambda>x. key x = j) (statistics_element key k fresh f xs) = filter (\<lambda>x. key x = j) xs"
  using assms by (induction xs) auto

lemma element_own:
  assumes "\<And>x. key (f x) = key x" "key fresh = k"
  shows "f (case find (\<lambda>x. key x = k) xs of None \<Rightarrow> fresh | Some x \<Rightarrow> x) \<in> set (statistics_element key k fresh f xs)"
  using assms by (induction xs) auto

text \<open>A percentage is right as long as the divisor fits its 32 bits.\<close>

lemma percents_exact:
  assumes "nCpus \<noteq> 0" "nDeltaMs \<noteq> 0" "unat nDeltaMs * unat nCpus < 2 ^ 32"
    and "nTotalTimePrev \<le> nTotalTime" "unat nTotalTime - unat nTotalTimePrev \<le> unat nDeltaMs * unat nCpus"
  shows "\<exists>n. CalcPercentsUsage nTotalTime nTotalTimePrev nCpus nDeltaMs = Some n \<and> unat n \<le> 100 \<and>
    unat n = 100 * (unat nTotalTime - unat nTotalTimePrev) div (unat nDeltaMs * unat nCpus)"
proof -
  let ?d = "unat nTotalTime - unat nTotalTimePrev" and ?m = "unat nDeltaMs * unat nCpus"
  have m: "unat (nDeltaMs * nCpus) = ?m" using assms(3) by (simp add: unat_word_ariths)
  have pos: "0 < ?m" using assms(1,2) by (simp add: unat_gt_0)
  have d: "unat (nTotalTime - nTotalTimePrev) = ?d" by (rule unat_sub [OF assms(4)])
  have h: "unat (100 * (nTotalTime - nTotalTimePrev)) = 100 * ?d"
  proof -
    have "unat (100 :: 64 word) * unat (nTotalTime - nTotalTimePrev) < 2 ^ LENGTH(64)" using assms(3,5) by (simp add: d)
    then have "unat (100 * (nTotalTime - nTotalTimePrev)) = unat (100 :: 64 word) * unat (nTotalTime - nTotalTimePrev)"
      by (rule unat_mult_lem [THEN iffD1])
    then show ?thesis by (simp only: d) simp
  qed
  have le: "100 * ?d div ?m \<le> 100"
  proof -
    have "100 * ?d div ?m \<le> 100 * ?m div ?m" using assms(5) by (intro div_le_mono) simp
    with pos show ?thesis by simp
  qed
  have nz: "nDeltaMs * nCpus \<noteq> 0" using m pos by (metis less_irrefl unat_0)
  have "unat (ucast (nDeltaMs * nCpus) :: 64 word) = ?m" using m assms(3) by (simp add: unsigned_ucast_eq unsigned_take_bit_eq take_bit_nat_eq_self)
  then have q: "unat ((100 * (nTotalTime - nTotalTimePrev)) div ucast (nDeltaMs * nCpus)) = 100 * ?d div ?m"
    by (simp only: unat_div h)
  have small: "unat (ucast w :: 32 word) = n" if "unat w = n" "n \<le> 100" for w :: "64 word" and n
    using that by (simp add: unsigned_ucast_eq unsigned_take_bit_eq take_bit_nat_eq_self)
  have calc: "CalcPercentsUsage nTotalTime nTotalTimePrev nCpus nDeltaMs =
      Some (ucast ((100 * (nTotalTime - nTotalTimePrev)) div ucast (nDeltaMs * nCpus)))"
    using nz assms(1,2) unfolding CalcPercentsUsage_def by (simp only: if_False simp_thms)
  show ?thesis
    by (rule exI, intro conjI, rule calc, subst small [OF q le], rule le, rule small [OF q le])
qed

text \<open>The check for zero looks at the factors, but their product can wrap to zero.\<close>

lemma percents_divide_by_zero: "CalcPercentsUsage t p 64 67108864 = None"
  by (simp add: CalcPercentsUsage_def)

text \<open>When the number of a process is given to a new one, the time goes back and the difference wraps.\<close>

lemma percents_of_reused_id: "CalcPercentsUsage 10 20 4 1000 = Some 3539053051"
  by (simp add: CalcPercentsUsage_def)

lemma percents_crash_exactly:
  "CalcPercentsUsage t p nCpus nDeltaMs = None \<longleftrightarrow> nCpus \<noteq> 0 \<and> nDeltaMs \<noteq> 0 \<and> 2 ^ 32 dvd unat nDeltaMs * unat nCpus"
proof -
  have "nDeltaMs * nCpus = 0 \<longleftrightarrow> unat (nDeltaMs * nCpus) = 0" by (simp add: unat_eq_0)
  also have "\<dots> \<longleftrightarrow> 2 ^ 32 dvd unat nDeltaMs * unat nCpus" by (simp add: unat_word_ariths dvd_eq_mod_eq_0)
  finally show ?thesis by (simp add: CalcPercentsUsage_def)
qed

text \<open>The table of processes.\<close>

lemma store_proc_id [simp]: "procId (store_proc p n s) = procId s" "procId (blank_proc d k) = k"
  by (simp_all add: store_proc_def blank_proc_def)

definition recorded :: "'a proc_sample \<Rightarrow> 32 word option \<Rightarrow> 'a proc_statistics \<Rightarrow> bool" where
  "recorded p percents s \<longleftrightarrow> procId s = m_nId p \<and> proc_totalTime s = m_nTotalTime p \<and> proc_data s = m_procData p \<and>
     Some (proc_percentsUsage s) = percents"

lemma store_procs_table:
  "store_procs d nCpus nDeltaMs ps ss = Some ss' \<Longrightarrow> distinct (map m_nId ps) \<Longrightarrow> distinct (map procId ss) \<Longrightarrow>
   distinct (map procId ss') \<and> procId ` set ss' = procId ` set ss \<union> m_nId ` set ps \<and>
   (\<forall>j. j \<notin> m_nId ` set ps \<longrightarrow> filter (\<lambda>s. procId s = j) ss' = filter (\<lambda>s. procId s = j) ss) \<and>
   (\<forall>p \<in> set ps. \<exists>s \<in> set ss'. recorded p (proc_percents nCpus nDeltaMs p (proc_totalTime (GetStatisticsElem d (m_nId p) ss))) s)"
proof (induction ps arbitrary: ss)
  case (Cons p ps)
  let ?k = "m_nId p"
  from Cons.prems(1) obtain n where n: "proc_percents nCpus nDeltaMs p (proc_totalTime (GetStatisticsElem d ?k ss)) = Some n"
    by (auto split: option.splits)
  let ?t = "statistics_element procId ?k (blank_proc d ?k) (store_proc p n) ss"
  from Cons.prems(1) n have run: "store_procs d nCpus nDeltaMs ps ?t = Some ss'" by simp
  note keys = element_keys [of procId "store_proc p n" "blank_proc d ?k" ?k ss, OF store_proc_id]
  note others = element_others [of procId "store_proc p n" "blank_proc d ?k" ?k _ ss, OF store_proc_id]
  have dist: "distinct (map procId ?t)" using Cons.prems(3) by (auto simp: keys)
  have "procId ` set ?t = set (map procId ?t)" by simp
  then have set: "procId ` set ?t = insert ?k (procId ` set ss)" unfolding keys by auto
  from Cons.prems(2) have dp: "distinct (map m_nId ps)" "?k \<notin> m_nId ` set ps" by auto
  note ih = Cons.IH [OF run dp(1) dist]
  have own: "\<exists>s \<in> set ss'. recorded p (Some n) s"
  proof -
    let ?s = "store_proc p n (GetStatisticsElem d ?k ss)"
    have id: "procId (GetStatisticsElem d ?k ss) = ?k"
      by (auto simp: GetStatisticsElem_def find_Some_iff split: option.split)
    have "?s \<in> set ?t"
      using element_own [of procId "store_proc p n" "blank_proc d ?k" ?k ss, OF store_proc_id] by (simp add: GetStatisticsElem_def)
    then have "?s \<in> set (filter (\<lambda>s. procId s = ?k) ?t)" using id by simp
    also have "filter (\<lambda>s. procId s = ?k) ?t = filter (\<lambda>s. procId s = ?k) ss'" using ih dp(2) by simp
    finally have "?s \<in> set ss'" by simp
    moreover have "recorded p (Some n) ?s" using id by (simp add: recorded_def store_proc_def)
    ultimately show ?thesis by blast
  qed
  have same: "GetStatisticsElem d (m_nId x) ?t = GetStatisticsElem d (m_nId x) ss" if "x \<in> set ps" for x
  proof -
    from that dp(2) have "m_nId x \<noteq> ?k" by (metis imageI)
    from others(1) [OF this] show ?thesis by (simp only: GetStatisticsElem_def)
  qed
  have rest: "\<forall>x \<in> set ps. \<exists>s \<in> set ss'. recorded x (proc_percents nCpus nDeltaMs x (proc_totalTime (GetStatisticsElem d (m_nId x) ss))) s"
    using ih same by auto
  have fl: "filter (\<lambda>s. procId s = j) ss' = filter (\<lambda>s. procId s = j) ss" if "j \<notin> m_nId ` set (p # ps)" for j
    using ih others(2) [of j] that by simp
  show ?case
  proof (intro conjI ballI allI impI)
    show "distinct (map procId ss')" using ih by simp
    show "procId ` set ss' = procId ` set ss \<union> m_nId ` set (p # ps)" using ih set by auto
    show "filter (\<lambda>s. procId s = j) ss' = filter (\<lambda>s. procId s = j) ss" if "j \<notin> m_nId ` set (p # ps)" for j
      by (rule fl [OF that])
    show "\<exists>s \<in> set ss'. recorded x (proc_percents nCpus nDeltaMs x (proc_totalTime (GetStatisticsElem d (m_nId x) ss))) s"
      if "x \<in> set (p # ps)" for x
      using that own rest n by auto
  qed
qed simp



text \<open>The counters of a VM.  A counter is of one kind, and reads as it was written last.\<close>

inductive stat_storage_run :: "stat_storage \<Rightarrow> bool" where
  start: "stat_storage_run storage_init"
| absolute: "stat_storage_run s \<Longrightarrow> stat_storage_run (addAbsolute n s)"
| incremental: "stat_storage_run s \<Longrightarrow> stat_storage_run (addIncremental n s)"
| write_: "stat_storage_run s \<Longrightarrow> stat_storage_run (stat_write n v t s)"

lemma counters_have_one_kind: "stat_storage_run s \<Longrightarrow> m_absolute s n = None \<or> m_incremental s n = None"
  by (induction rule: stat_storage_run.induct)
    (auto simp: storage_init_def addAbsolute_def addIncremental_def stat_write_def simp del: not_None_eq)

lemma written_counter_is_read:
  "stat_read m (stat_write n v t s) =
     (if m = n \<and> (m_absolute s n \<noteq> None \<or> m_incremental s n \<noteq> None) then (v, t) else stat_read m s)"
  by (auto simp: stat_read_def stat_write_def split: option.split)

lemma added_counter_is_read: "stat_read m (addAbsolute n s) = stat_read m s" "stat_read m (addIncremental n s) = stat_read m s"
  by (auto simp: stat_read_def addAbsolute_def addIncremental_def split: option.split)

text \<open>Different disks and statistics have different names, when numbers are written in digits.\<close>

lemma split_at:
  assumes "xs @ c # ys = xs' @ c # ys'" "c \<notin> set xs" "c \<notin> set xs'"
  shows "xs = xs' \<and> ys = ys'"
  using assms
proof (induction xs arbitrary: xs')
  case Nil
  then show ?case by (cases xs') auto
next
  case (Cons x xs)
  then show ?case by (cases xs') auto
qed

lemma digits_after_letters:
  assumes "a @ x = b @ y" "\<forall>c \<in> set a \<union> set b. \<not> Q c" "\<forall>c \<in> set x \<union> set y. Q c"
  shows "a = b \<and> x = y"
proof -
  have "takeWhile (\<lambda>c. \<not> Q c) (a @ x) = a" "takeWhile (\<lambda>c. \<not> Q c) (b @ y) = b"
    using assms(2,3) by (cases x; cases y; auto simp: takeWhile_append)+
  with assms(1) show ?thesis by auto
qed

lemma hdd_names_are_distinct:
  assumes num: "inj num" "\<And>n. set (num n) \<subseteq> set ''0123456789''"
    and eq: "hdd_generate num t i stat = hdd_generate num u j stat'"
  shows "t = u \<and> i = j \<and> stat = stat'"
proof -
  have dot: "CHR ''.'' \<notin> set (hdd_convert t @ num i)" "CHR ''.'' \<notin> set (hdd_convert u @ num j)"
    using num(2) [of i] num(2) [of j] by (cases t; cases u; auto)+
  from eq have "(hdd_convert t @ num i) @ CHR ''.'' # stat = (hdd_convert u @ num j) @ CHR ''.'' # stat'"
    by (simp add: hdd_generate_def)
  from split_at [OF this dot] have e: "hdd_convert t @ num i = hdd_convert u @ num j" "stat = stat'" by auto
  have letters: "\<forall>c \<in> set (hdd_convert t) \<union> set (hdd_convert u). \<not> (c \<in> set ''0123456789'')" by (cases t; cases u) auto
  have digits: "\<forall>c \<in> set (num i) \<union> set (num j). c \<in> set ''0123456789''" using num(2) by blast
  from digits_after_letters [OF e(1) letters digits] have "hdd_convert t = hdd_convert u" "num i = num j" by auto
  moreover from this(1) have "t = u" by (cases t; cases u) auto
  ultimately show ?thesis using e(2) num(1) by (simp add: inj_eq)
qed

end
