(* ===== verification/NetAddress.thy ===== *)
theory NetAddress
  imports Prelude "HOL-Library.Word"
begin

text \<open>
  Addresses and masks of virtual networks: the checks of \<^verbatim>\<open>PrlNetworking/netconfig.cpp\<close> on
  addresses and masks, the default address ranges, the macro \<^verbatim>\<open>IPV6_ADD_VALUE_AT_POS\<close> of
  \<^verbatim>\<open>netconfig.h\<close>, and the conversions between masks and prefixes of \<^verbatim>\<open>VMNetworking.cpp\<close>.

  An IPv4 address is a \<open>32 word\<close> in host byte order (\<^verbatim>\<open>QHostAddress::toIPv4Address\<close>), an
  IPv6 address the list of its 16 bytes in network order (\<^verbatim>\<open>Q_IPV6ADDR\<close>).
\<close>

unbundle bit_operations_syntax

type_synonym ipv4 = "32 word"
type_synonym ipv6 = "8 word list"

section \<open>Checks\<close>

lemma unat_drop_bit_less:
  assumes "w \<noteq> 0" "0 < n" shows "unat (drop_bit n (w :: 'a :: len word)) < unat w"
proof -
  have "1 < (2 :: nat) ^ n" using one_less_power [of "2 :: nat" n] assms(2) by simp
  moreover have "0 < unat w" using assms(1) by (simp add: unat_gt_0)
  ultimately have "unat w div 2 ^ n < unat w" by (rule div_less_dividend)
  then show ?thesis by (simp add: unat_drop_bit_eq drop_bit_eq_div [where 'a = nat])
qed

function validateIp_loop :: "ipv4 \<Rightarrow> bool" where
  "validateIp_loop ipAddr =
     (if ipAddr = 0 then True
      else if ipAddr AND 0xff = 0xff then False
      else validateIp_loop (drop_bit 8 ipAddr))"
  by auto
termination
  by (relation "measure unat") (auto intro!: unat_drop_bit_less)

definition validateIp :: "ipv4 \<Rightarrow> bool" where
  "validateIp ipAddr = (if ipAddr = 0 then False else validateIp_loop ipAddr)"

function validateNetMask_loop :: "bool \<Rightarrow> 32 word \<Rightarrow> bool" where
  "validateNetMask_loop bNeedOne netMask =
     (if netMask = 0 then True
      else let b = netMask AND 1 in
           if bNeedOne \<and> b = 0 then False
           else validateNetMask_loop (bNeedOne \<or> b \<noteq> 0) (drop_bit 1 netMask))"
  by auto
termination
  by (relation "measure (\<lambda>(b, m). unat m)") (auto intro!: unat_drop_bit_less)

declare validateIp_loop.simps [simp del] validateNetMask_loop.simps [simp del]

definition validateNetMask :: "32 word \<Rightarrow> bool" where
  "validateNetMask netMask =
     (if netMask AND 0x10000000 = 0 then False
      else if netMask AND 0x1f \<noteq> 0 then False
      else validateNetMask_loop False netMask)"


section \<open>Default ranges\<close>

text \<open>The values of \<^verbatim>\<open>DEFAULT_DHCP_SUBNET_IP\<close> and the other strings, read by Qt.\<close>

definition DEFAULT_DHCP_SUBNET_IP :: ipv4 where "DEFAULT_DHCP_SUBNET_IP = 0x0A258200"

definition DEFAULT_DHCP_SUBNET_MASK :: ipv4 where "DEFAULT_DHCP_SUBNET_MASK = 0xFFFFFF00"

definition DEFAULT_DHCP6_SUBNET_IP :: ipv6 where
  "DEFAULT_DHCP6_SUBNET_IP = [0xfd, 0xb2, 0x2c, 0x26, 0xf4, 0xe4, 0, 0, 0, 0, 0, 0, 0, 0, 0, 0]"

definition DEFAULT_DHCP6_SUBNET_MASK :: ipv6 where
  "DEFAULT_DHCP6_SUBNET_MASK = [0xff, 0xff, 0xff, 0xff, 0xff, 0xff, 0xff, 0xff, 0, 0, 0, 0, 0, 0, 0, 0]"

definition GetDefaultDhcpParams :: "32 word \<Rightarrow> ipv4 \<times> ipv4 \<times> ipv4" where
  "GetDefaultDhcpParams nAdapterIndex =
     (let scopeMask = DEFAULT_DHCP_SUBNET_MASK;
          scopeSubnet = DEFAULT_DHCP_SUBNET_IP + nAdapterIndex * 256
      in (scopeSubnet + 1, (scopeSubnet OR NOT scopeMask) - 1, scopeMask))"

text \<open>The macro adds to the \<open>pos\<close>-th 16 bits, counted from the end, in network order.\<close>

definition IPV6_ADD_VALUE_AT_POS :: "nat \<Rightarrow> 32 word \<Rightarrow> ipv6 \<Rightarrow> ipv6" where
  "IPV6_ADD_VALUE_AT_POS pos val ip =
     (let p = 15 - pos * 2 - 1;
          v = (push_bit 8 (ucast (ip ! p)) OR ucast (ip ! Suc p)) + ucast val :: 16 word
      in ip[p := ucast (drop_bit 8 v), Suc p := ucast v])"

definition GetDefaultDhcpV6Params :: "32 word \<Rightarrow> ipv6 \<times> ipv6 \<times> ipv6" where
  "GetDefaultDhcpV6Params nAdapterIndex =
     (let scopeSubnet = IPV6_ADD_VALUE_AT_POS 4 nAdapterIndex DEFAULT_DHCP6_SUBNET_IP;
          scopeStart = IPV6_ADD_VALUE_AT_POS 0 0 scopeSubnet;
          scopeEnd = IPV6_ADD_VALUE_AT_POS 3 0xffff (IPV6_ADD_VALUE_AT_POS 2 0xffff
                       (IPV6_ADD_VALUE_AT_POS 1 0xffff (IPV6_ADD_VALUE_AT_POS 0 0xffff scopeSubnet)))
      in (scopeStart, scopeEnd, DEFAULT_DHCP6_SUBNET_MASK))"


section \<open>Prefixes\<close>

text \<open>\<open>word_at\<close> is \<^verbatim>\<open>ntohl(m[i])\<close>.\<close>

definition word_at :: "ipv6 \<Rightarrow> nat \<Rightarrow> 32 word" where
  "word_at a i = push_bit 24 (ucast (a ! (4 * i))) OR push_bit 16 (ucast (a ! (4 * i + 1))) OR
     push_bit 8 (ucast (a ! (4 * i + 2))) OR ucast (a ! (4 * i + 3))"

text \<open>The loop need not end by its form, so not ending is a value of its model.\<close>

partial_function (option) prefix_loop :: "32 word \<Rightarrow> 8 word \<Rightarrow> 8 word option" where
  [code]: "prefix_loop m2 prefix = (if m2 = 0 then Some prefix else prefix_loop (push_bit 1 m2) (prefix + 1))"

fun prefix_words :: "ipv6 \<Rightarrow> nat list \<Rightarrow> 8 word \<Rightarrow> 8 word option" where
  "prefix_words a [] prefix = Some prefix"
| "prefix_words a (i # is) prefix =
     (if word_at a i \<noteq> 0xffffffff then prefix_loop (word_at a i) prefix
      else prefix_words a is (prefix + 32))"

definition getIPv6PrefixFromMask :: "ipv6 \<Rightarrow> 8 word option" where
  "getIPv6PrefixFromMask a = prefix_words a [0, 1, 2, 3] 0"

text \<open>
  The loop of \<^verbatim>\<open>getIPv6MaskFromPrefix\<close> on the bytes; \<open>i\<close> is the index of the byte, and
  \<open>p\<close> what is left of 128 minus the prefix.  A larger prefix makes the shift negative, which C++
  leaves undefined: the model has no value there.
\<close>

function mask_loop :: "nat \<Rightarrow> int \<Rightarrow> ipv6 \<Rightarrow> nat \<times> int \<times> ipv6" where
  "mask_loop i p a = (if 8 \<le> p then mask_loop (i - 1) (p - 8) (a[i := 0]) else (i, p, a))"
  by auto
termination by (relation "measure (\<lambda>(i, p, a). nat p)") auto

definition getIPv6MaskFromPrefix :: "32 word \<Rightarrow> ipv6 option" where
  "getIPv6MaskFromPrefix prefix6 =
     (case mask_loop 15 (sint (128 - prefix6)) (replicate 16 0xff) of
        (i, p, a) \<Rightarrow> if p = 0 then Some a else if p < 0 then None else Some (a[i := push_bit (nat p) (a ! i)]))"

text \<open>A shift by 32 or more is undefined too.\<close>

definition getIPv4MaskFromPrefix :: "32 word \<Rightarrow> ipv4 option" where
  "getIPv4MaskFromPrefix prefix4 =
     (if 32 - prefix4 < 32 then Some (push_bit (unat (32 - prefix4)) (- 1)) else None)"


declare mask_loop.simps [simp del]


section \<open>Facts about the checks\<close>

lemma validateIp_loop_drop:
  "validateIp_loop (drop_bit k ip) \<longleftrightarrow> drop_bit k ip AND 0xff \<noteq> 0xff \<and> validateIp_loop (drop_bit (k + 8) ip)"
proof (cases "drop_bit k ip = 0")
  case True
  then have "drop_bit (k + 8) ip = 0" by (metis add.commute drop_bit_drop_bit drop_bit_of_0)
  with True show ?thesis by (simp add: validateIp_loop.simps)
next
  case False
  then show ?thesis
    by (subst validateIp_loop.simps) (simp add: drop_bit_drop_bit add.commute)
qed

definition ip_byte :: "ipv4 \<Rightarrow> nat \<Rightarrow> nat" where
  "ip_byte ip k = unat ip div 256 ^ k mod 256"

lemma ip_byte_eq: "drop_bit (8 * k) ip AND 0xff = 0xff \<longleftrightarrow> ip_byte ip k = 255"
proof -
  have "drop_bit (8 * k) ip AND 0xff = (take_bit 8 (drop_bit (8 * k) ip) :: 32 word)"
    by (simp add: take_bit_eq_mask mask_eq_exp_minus_1)
  moreover have "unat (take_bit 8 (drop_bit (8 * k) ip) :: 32 word) = ip_byte ip k"
    by (simp add: ip_byte_def unsigned_take_bit_eq unat_drop_bit_eq take_bit_eq_mod [where 'a = nat]
        drop_bit_eq_div [where 'a = nat] power_mult)
  moreover have "unat (0xff :: 32 word) = 255" by simp
  ultimately show ?thesis by (metis word_unat_eq_iff)
qed

lemma validateIp_iff: "validateIp ip \<longleftrightarrow> ip \<noteq> 0 \<and> (\<forall>k < 4. ip_byte ip k \<noteq> 255)"
proof -
  have "validateIp_loop (drop_bit 0 ip) \<longleftrightarrow>
      ip_byte ip 0 \<noteq> 255 \<and> ip_byte ip 1 \<noteq> 255 \<and> ip_byte ip 2 \<noteq> 255 \<and> ip_byte ip 3 \<noteq> 255"
    using ip_byte_eq [of 0 ip] ip_byte_eq [of 1 ip] ip_byte_eq [of 2 ip] ip_byte_eq [of 3 ip]
    by (simp add: validateIp_loop_drop [of 0] validateIp_loop_drop [of 8] validateIp_loop_drop [of 16]
        validateIp_loop_drop [of 24] validateIp_loop.simps [of 0] del: drop_bit_0)
  then show ?thesis
    by (auto simp: validateIp_def All_less_Suc numeral_eq_Suc)
qed

text \<open>The masks the loop accepts: one block of bits.\<close>

lemma bit_drop_1: "bit (drop_bit 1 (m :: 32 word)) i \<longleftrightarrow> bit m (Suc i)"
  by (simp add: bit_drop_bit_eq)

lemma and_1_bit: "(m :: 32 word) AND 1 \<noteq> 0 \<longleftrightarrow> bit m 0"
  by (simp add: and_one_eq odd_iff_mod_2_eq_one bit_0)

lemma ones_loop:
  "validateNetMask_loop True m \<longleftrightarrow> (\<exists>n. \<forall>i. bit m i \<longleftrightarrow> i < n)"
proof (induction "unat m" arbitrary: m rule: less_induct)
  case less
  show ?case
  proof (cases "m = 0")
    case False
    note IH = less [OF unat_drop_bit_less [OF False zero_less_one]]
    show ?thesis
    proof (cases "bit m 0")
      case True
      have "(\<exists>n. \<forall>i. bit m i \<longleftrightarrow> i < n) \<longleftrightarrow> (\<exists>n. \<forall>i. bit (drop_bit 1 m) i \<longleftrightarrow> i < n)"
      proof
        assume "\<exists>n. \<forall>i. bit m i \<longleftrightarrow> i < n"
        then obtain n where n: "\<And>i. bit m i \<longleftrightarrow> i < n" by blast
        then have "\<forall>i. bit (drop_bit 1 m) i \<longleftrightarrow> i < n - 1" 
          by (simp only: bit_drop_1 n less_diff_conv Suc_eq_plus1 simp_thms)
        then show "\<exists>n. \<forall>i. bit (drop_bit 1 m) i \<longleftrightarrow> i < n" by blast
      next
        assume "\<exists>n. \<forall>i. bit (drop_bit 1 m) i \<longleftrightarrow> i < n"
        then obtain n where n: "\<And>i. bit m (Suc i) \<longleftrightarrow> i < n" unfolding bit_drop_1 by blast
        have "bit m i \<longleftrightarrow> i < Suc n" for i using n True by (cases i) auto
        then show "\<exists>n. \<forall>i. bit m i \<longleftrightarrow> i < n" by blast
      qed
      moreover have "validateNetMask_loop True m \<longleftrightarrow> validateNetMask_loop True (drop_bit 1 m)"
        by (subst validateNetMask_loop.simps) (use True False and_1_bit [of m] in \<open>simp add: Let_def\<close>)
      ultimately show ?thesis using IH by blast
    next
      case 0: False
      have "\<not> (\<exists>n. \<forall>i. bit m i \<longleftrightarrow> i < n)"
      proof
        assume "\<exists>n. \<forall>i. bit m i \<longleftrightarrow> i < n"
        then obtain n where "\<And>i. bit m i \<longleftrightarrow> i < n" by blast
        with 0 have "\<And>i. \<not> bit m i" by (metis gr0I less_nat_zero_code)
        then have "m = 0" by (simp add: bit_eq_iff)
        with False show False by simp
      qed
      moreover have "\<not> validateNetMask_loop True m"
        by (subst validateNetMask_loop.simps) (use 0 False and_1_bit [of m] in \<open>simp add: Let_def\<close>)
      ultimately show ?thesis by blast
    qed
  qed (auto simp: validateNetMask_loop.simps)
qed

lemma block_loop:
  "validateNetMask_loop False m \<longleftrightarrow> (\<exists>lo n. \<forall>i. bit m i \<longleftrightarrow> lo \<le> i \<and> i < n)"
proof (induction "unat m" arbitrary: m rule: less_induct)
  case less
  show ?case
  proof (cases "m = 0")
    case False
    note IH = less [OF unat_drop_bit_less [OF False zero_less_one]]
    show ?thesis
    proof (cases "bit m 0")
      case True
      have "(\<exists>lo n. \<forall>i. bit m i \<longleftrightarrow> lo \<le> i \<and> i < n) \<longleftrightarrow> (\<exists>n. \<forall>i. bit m i \<longleftrightarrow> i < n)"
      proof
        assume "\<exists>lo n. \<forall>i. bit m i \<longleftrightarrow> lo \<le> i \<and> i < n"
        then obtain lo n where n: "\<forall>i. bit m i \<longleftrightarrow> lo \<le> i \<and> i < n" by blast
        with True have "lo = 0" by simp
        with n have "\<forall>i. bit m i \<longleftrightarrow> i < n" by simp
        then show "\<exists>n. \<forall>i. bit m i \<longleftrightarrow> i < n" ..
      next
        assume "\<exists>n. \<forall>i. bit m i \<longleftrightarrow> i < n"
        then obtain n where "\<forall>i. bit m i \<longleftrightarrow> 0 \<le> i \<and> i < n" by auto
        then show "\<exists>lo n. \<forall>i. bit m i \<longleftrightarrow> lo \<le> i \<and> i < n" by blast
      qed
      moreover have "validateNetMask_loop False m \<longleftrightarrow> validateNetMask_loop True m"
        by (subst (1 2) validateNetMask_loop.simps) (use True False and_1_bit [of m] in \<open>simp add: Let_def\<close>)
      ultimately show ?thesis using ones_loop by blast
    next
      case 0: False
      have "(\<exists>lo n. \<forall>i. bit m i \<longleftrightarrow> lo \<le> i \<and> i < n) \<longleftrightarrow>
          (\<exists>lo n. \<forall>i. bit (drop_bit 1 m) i \<longleftrightarrow> lo \<le> i \<and> i < n)"
      proof
        assume "\<exists>lo n. \<forall>i. bit m i \<longleftrightarrow> lo \<le> i \<and> i < n"
        then obtain lo n where n: "\<And>i. bit m i \<longleftrightarrow> lo \<le> i \<and> i < n" by blast
        have "bit (drop_bit 1 m) i \<longleftrightarrow> lo - 1 \<le> i \<and> i < n - 1" for i
          unfolding bit_drop_1 n by arith
        then show "\<exists>lo n. \<forall>i. bit (drop_bit 1 m) i \<longleftrightarrow> lo \<le> i \<and> i < n" by blast
      next
        assume "\<exists>lo n. \<forall>i. bit (drop_bit 1 m) i \<longleftrightarrow> lo \<le> i \<and> i < n"
        then obtain lo n where n: "\<And>i. bit m (Suc i) \<longleftrightarrow> lo \<le> i \<and> i < n" unfolding bit_drop_1 by blast
        have "bit m i \<longleftrightarrow> Suc lo \<le> i \<and> i < Suc n" for i using n 0 by (cases i) auto
        then show "\<exists>lo n. \<forall>i. bit m i \<longleftrightarrow> lo \<le> i \<and> i < n" by blast
      qed
      moreover have "validateNetMask_loop False m \<longleftrightarrow> validateNetMask_loop False (drop_bit 1 m)"
        by (subst validateNetMask_loop.simps) (use 0 False and_1_bit [of m] in \<open>simp add: Let_def\<close>)
      ultimately show ?thesis using IH by blast
    qed
  next
    case True
    then have "\<forall>i. bit m i \<longleftrightarrow> 0 \<le> i \<and> i < 0" by simp
    with True show ?thesis by (simp add: validateNetMask_loop.simps) blast
  qed
qed

lemma validateNetMask_iff:
  "validateNetMask m \<longleftrightarrow> (\<exists>lo n. 5 \<le> lo \<and> lo \<le> 28 \<and> 28 < n \<and> n \<le> 32 \<and> (\<forall>i. bit m i \<longleftrightarrow> lo \<le> i \<and> i < n))"
proof -
  have "m AND 0x10000000 \<noteq> 0 \<longleftrightarrow> bit m 28"
    using bit_iff_and_push_bit_not_eq_0 [of m 28] by (simp add: push_bit_eq_mult)
  moreover have "m AND 0x1f = 0 \<longleftrightarrow> (\<forall>i < 5. \<not> bit m i)"
  proof -
    have "m AND 0x1f = take_bit 5 m" by (simp add: take_bit_eq_mask mask_eq_exp_minus_1)
    then show ?thesis by (auto simp: bit_eq_iff bit_take_bit_iff)
  qed
  ultimately have v: "validateNetMask m \<longleftrightarrow> bit m 28 \<and> (\<forall>i < 5. \<not> bit m i) \<and> (\<exists>lo n. \<forall>i. bit m i \<longleftrightarrow> lo \<le> i \<and> i < n)"
    unfolding validateNetMask_def block_loop by auto
  show ?thesis
  proof
    assume "validateNetMask m"
    then obtain lo n where n: "\<And>i. bit m i \<longleftrightarrow> lo \<le> i \<and> i < n" and b: "bit m 28" "\<forall>i < 5. \<not> bit m i"
      unfolding v by blast
    have 28: "lo \<le> 28" "28 < n" using b(1) n [of 28] by simp_all
    have "\<not> lo < 5" using b(2) [rule_format, of lo] n [of lo] 28 by auto
    moreover have "\<not> 32 < n"
    proof
      assume "32 < n"
      with 28 have "bit m 32" unfolding n by simp
      then show False using bit_imp_le_length [of m 32] by simp
    qed
    ultimately show "\<exists>lo n. 5 \<le> lo \<and> lo \<le> 28 \<and> 28 < n \<and> n \<le> 32 \<and> (\<forall>i. bit m i \<longleftrightarrow> lo \<le> i \<and> i < n)"
      using 28 n by (meson not_less)
  next
    assume "\<exists>lo n. 5 \<le> lo \<and> lo \<le> 28 \<and> 28 < n \<and> n \<le> 32 \<and> (\<forall>i. bit m i \<longleftrightarrow> lo \<le> i \<and> i < n)"
    then obtain lo n where n: "\<And>i. bit m i \<longleftrightarrow> lo \<le> i \<and> i < n" and b: "5 \<le> lo" "lo \<le> 28" "28 < n" by blast
    have "bit m 28" "\<forall>i < 5. \<not> bit m i" using b by (simp_all only: n) auto
    with n show "validateNetMask m" unfolding v by blast
  qed
qed

text \<open>The test of the comment ``most left bit must be 1'' is one of bit 28.\<close>

lemma validateNetMask_without_leftmost_bit: "validateNetMask 0x1FFFFFE0" "\<not> bit (0x1FFFFFE0 :: 32 word) 31"
  by code_simp+


section \<open>Facts about prefixes\<close>

lemma bit_push_1: "bit (push_bit 1 (m :: 32 word)) i \<longleftrightarrow> 0 < i \<and> i < 32 \<and> bit m (i - 1)"
  by (simp only: bit_push_bit_iff possible_bit_word) auto

lemma prefix_loop_step: "m \<noteq> 0 \<Longrightarrow> prefix_loop m p = prefix_loop (push_bit 1 m) (p + 1)"
  by (subst prefix_loop.simps) (simp only: if_False)

lemma prefix_loop_lowest:
  "j < 32 \<Longrightarrow> bit m j \<Longrightarrow> \<forall>i < j. \<not> bit m i \<Longrightarrow> prefix_loop m p = Some (p + of_nat (32 - j))"
proof (induction "31 - j" arbitrary: j m p)
  case 0
  then have j: "j = 31" by simp
  have "\<not> bit (push_bit 1 m) i" for i
    unfolding bit_push_1 using 0 j by auto
  then have "push_bit 1 m = 0" by (metis bit_0_eq bit_eq_iff bot_apply bot_bool_def)
  moreover have "m \<noteq> 0" using 0 by auto
  ultimately have "prefix_loop m p = prefix_loop 0 (p + 1)" using prefix_loop_step by metis
  then show ?case by (simp add: prefix_loop.simps j)
next
  case (Suc d)
  have "m \<noteq> 0" using Suc by auto
  moreover have "prefix_loop (push_bit 1 m) (p + 1) = Some (p + 1 + of_nat (32 - Suc j))"
  proof (rule Suc(1))
    show "bit (push_bit 1 m) (Suc j)" unfolding bit_push_1 using Suc by auto
    show "\<forall>i < Suc j. \<not> bit (push_bit 1 m) i" unfolding bit_push_1 using Suc by auto
  qed (use Suc in auto)
  moreover have "32 - j = Suc (32 - Suc j)" using Suc by simp
  ultimately show ?case using prefix_loop_step by simp
qed

text \<open>The loop ends for every word, with at most 32 rounds.\<close>

lemma prefix_loop_ends: "\<exists>k \<le> 32. prefix_loop m p = Some (p + of_nat k)"
proof (cases "m = 0")
  case True
  then show ?thesis by (intro exI [of _ 0]) (simp add: prefix_loop.simps)
next
  case False
  then obtain i where i: "bit m i" by (metis bit_0_eq bit_eq_iff bot_apply bot_bool_def)
  let ?j = "LEAST i. bit m i"
  have j: "bit m ?j" using i by (rule LeastI)
  have "\<forall>i < ?j. \<not> bit m i" using not_less_Least by blast
  moreover have "?j < 32" using bit_imp_le_length [OF j] by simp
  ultimately have "prefix_loop m p = Some (p + of_nat (32 - ?j))" using prefix_loop_lowest j by blast
  then show ?thesis by (meson diff_le_self)
qed

lemma prefix_words_end: "\<exists>k \<le> 32 * length is. prefix_words a is p = Some (p + of_nat k)"
proof (induction "is" arbitrary: p)
  case (Cons i "is")
  show ?case
  proof (cases "word_at a i = 0xffffffff")
    case True
    from Cons.IH [of "p + 32"] obtain k where "k \<le> 32 * length is" "prefix_words a is (p + 32) = Some (p + 32 + of_nat k)" by blast
    with True show ?thesis by (intro exI [of _ "32 + k"]) (simp add: ac_simps)
  next
    case False
    obtain k where k: "k \<le> 32" "prefix_loop (word_at a i) p = Some (p + of_nat k)"
      using prefix_loop_ends by blast
    with False show ?thesis by (intro exI [of _ k]) simp
  qed
qed (intro exI [of _ 0], simp)

text \<open>The bits of a mask.\<close>

lemma mask_loop_nth:
  "0 \<le> p \<Longrightarrow> nat p \<le> 8 * Suc i \<Longrightarrow> i < length a \<Longrightarrow>
   \<exists>a'. mask_loop i p a = (i - nat p div 8, p mod 8, a') \<and> length a' = length a \<and>
     (\<forall>j < length a. a' ! j = (if j \<le> i \<and> i < j + nat p div 8 then 0 else a ! j))"
proof (induction i p a rule: mask_loop.induct)
  case (1 i p a)
  show ?case
  proof (cases "8 \<le> p")
    case True
    have d: "nat p div 8 = Suc (nat (p - 8) div 8)" "(p - 8) mod 8 = p mod 8"
      using True by (simp_all add: nat_diff_distrib)
    have "\<exists>a'. mask_loop (i - 1) (p - 8) (a[i := 0]) = (i - 1 - nat (p - 8) div 8, (p - 8) mod 8, a') \<and>
        length a' = length (a[i := 0]) \<and> (\<forall>j < length (a[i := 0]). a' ! j =
          (if j \<le> i - 1 \<and> i - 1 < j + nat (p - 8) div 8 then 0 else a[i := 0] ! j))"
      by (rule "1.IH") (use True "1.prems" in \<open>auto simp: nat_le_iff\<close>)
    then obtain a' where a': "mask_loop (i - 1) (p - 8) (a[i := 0]) = (i - nat p div 8, p mod 8, a')"
      "length a' = length a" "\<And>j. j < length a \<Longrightarrow>
        a' ! j = (if j \<le> i - 1 \<and> i - 1 < j + nat (p - 8) div 8 then 0 else a[i := 0] ! j)"
      by (auto simp: d)
    have "a' ! j = (if j \<le> i \<and> i < j + nat p div 8 then 0 else a ! j)" if "j < length a" for j
      unfolding a'(3) [OF that] d using that "1.prems"(2) True by (cases "j = i") auto
    with a'(1,2) True show ?thesis by (subst mask_loop.simps) simp
  next
    case False
    with "1.prems" have "nat p div 8 = 0" "p mod 8 = p" by auto
    with False show ?thesis by (subst mask_loop.simps) auto
  qed
qed

lemma mask_bits:
  assumes "n \<le> 128"
  shows "\<exists>a. getIPv6MaskFromPrefix (word_of_nat n) = Some a \<and> length a = 16 \<and>
    (\<forall>j < 16. \<forall>k < 8. bit (a ! j) k \<longleftrightarrow> 8 * j + 7 < n + k)"
proof -
  define z where "z = (128 - n) div 8"
  define r where "r = (128 - n) mod 8"
  have n: "n + 8 * z + r = 128" "r < 8"
    using mult_div_mod_eq [of 8 "128 - n"] assms by (simp_all add: z_def r_def)
  let ?p = "128 - int n"
  have p: "sint (128 - word_of_nat n :: 32 word) = ?p"
  proof -
    have "128 - word_of_nat n = (word_of_int ?p :: 32 word)" by (simp add: of_int_diff)
    moreover have "sint (word_of_int ?p :: 32 word) = ?p"
      using assms by (simp only: int_word_sint) simp
    ultimately show ?thesis by simp
  qed
  have np: "nat ?p div 8 = z" "?p mod 8 = int r"
    using assms by (simp_all add: z_def r_def zmod_int of_nat_diff)
  obtain a where a: "mask_loop 15 ?p (replicate 16 0xff) = (15 - z, int r, a)" "length a = 16"
    "\<And>j. j < 16 \<Longrightarrow> a ! j = (if j \<le> 15 \<and> 15 < j + z then 0 else 0xff)"
  proof -
    have "0 \<le> ?p" "nat ?p \<le> 8 * Suc 15" "15 < length (replicate 16 (0xff :: 8 word))" using assms by simp_all
    from mask_loop_nth [OF this] show thesis unfolding np using that by auto
  qed
  have ff: "bit (0xff :: 8 word) k \<longleftrightarrow> k < 8" for k
    using bit_mask_iff [of 8 k, where 'a = "8 word"] by (simp add: mask_eq_exp_minus_1)
  have bits: "bit (a ! j) k \<longleftrightarrow> j + z \<le> 15" if "j < 16" "k < 8" for j k
    using a(3) [OF that(1)] ff [of k] that by (cases "15 < j + z") (auto simp del: bit_numeral_rec)
  show ?thesis
  proof (cases "r = 0")
    case True
    then have "getIPv6MaskFromPrefix (word_of_nat n) = Some a"
      by (simp add: getIPv6MaskFromPrefix_def p a(1))
    moreover have "bit (a ! j) k \<longleftrightarrow> 8 * j + 7 < n + k" if "j < 16" "k < 8" for j k
      unfolding bits [OF that] using n True that by linarith
    ultimately show ?thesis using a(2) by blast
  next
    case False
    then have z: "z < 16" using n by linarith
    let ?a = "a[15 - z := push_bit r (a ! (15 - z))]"
    have "getIPv6MaskFromPrefix (word_of_nat n) = Some ?a"
      using False by (simp add: getIPv6MaskFromPrefix_def p a(1))
    moreover have "bit (?a ! j) k \<longleftrightarrow> 8 * j + 7 < n + k" if "j < 16" "k < 8" for j k
    proof (cases "j = 15 - z")
      case True
      have "bit (?a ! j) k \<longleftrightarrow> r \<le> k"
        using that z True ff [of "k - r"] by (simp add: a(2,3) bit_push_bit_iff less_imp_diff_less)
      moreover have "8 * j = 120 - 8 * z" using True z by simp
      ultimately show ?thesis using n z that by linarith
    next
      case False
      then have "bit (?a ! j) k \<longleftrightarrow> j + z \<le> 15" using bits [OF that] by simp
      then show ?thesis using n z False that by linarith
    qed
    moreover have "length ?a = 16" using a(2) by simp
    ultimately show ?thesis by blast
  qed
qed

lemma bit_word_at:
  assumes "b < 32"
  shows "bit (word_at a i) b \<longleftrightarrow> bit (a ! (4 * i + 3 - b div 8)) (b mod 8)"
proof -
  have short: "\<not> bit (w :: 8 word) k" if "8 \<le> k" for w k using bit_imp_le_length [of w k] that by auto
  have bits: "bit (word_at a i) b \<longleftrightarrow>
      24 \<le> b \<and> bit (a ! (4 * i)) (b - 24) \<or> 16 \<le> b \<and> bit (a ! (4 * i + 1)) (b - 16) \<or>
      8 \<le> b \<and> bit (a ! (4 * i + 2)) (b - 8) \<or> bit (a ! (4 * i + 3)) b"
    unfolding word_at_def bit_or_iff bit_push_bit_iff bit_unsigned_iff possible_bit_word
    using assms less_imp_diff_less [OF assms] by simp
  have m: "b mod 8 = b - b div 8 * 8" by (simp add: minus_div_mult_eq_mod)
  consider "b < 8" | "8 \<le> b" "b < 16" | "16 \<le> b" "b < 24" | "24 \<le> b" using not_less by blast
  then show ?thesis
  proof cases
    case 1
    then show ?thesis unfolding bits by simp
  next
    case 2
    then have d: "b div 8 = 1" by (intro div_nat_eqI) simp_all
    with 2 m short show ?thesis unfolding bits by simp
  next
    case 3
    then have d: "b div 8 = 2" by (intro div_nat_eqI) simp_all
    with 3 m short show ?thesis unfolding bits by simp
  next
    case 4
    with assms have d: "b div 8 = 3" by (intro div_nat_eqI) simp_all
    with 4 m short show ?thesis unfolding bits by simp
  qed
qed

lemma mask_word_bits:
  assumes "n \<le> 128" "getIPv6MaskFromPrefix (word_of_nat n) = Some a" "i < 4" "b < 32"
  shows "bit (word_at a i) b \<longleftrightarrow> 32 * i + 31 < n + b"
proof -
  have m: "\<forall>j < 16. \<forall>k < 8. bit (a ! j) k \<longleftrightarrow> 8 * j + 7 < n + k"
    using mask_bits [OF assms(1)] assms(2) by auto
  let ?j = "4 * i + 3 - b div 8"
  have b: "b = 8 * (b div 8) + b mod 8" "b div 8 < 4" "b mod 8 < 8" using assms(4) by simp_all
  have "bit (word_at a i) b \<longleftrightarrow> bit (a ! ?j) (b mod 8)" by (rule bit_word_at [OF assms(4)])
  also have "\<dots> \<longleftrightarrow> 8 * ?j + 7 < n + b mod 8" using m assms(3) b(3) by auto
  also have "\<dots> \<longleftrightarrow> 32 * i + 31 < n + b" using b(1,2) by linarith
  finally show ?thesis .
qed

lemma prefix_words_step:
  assumes "n \<le> 128" "getIPv6MaskFromPrefix (word_of_nat n) = Some a" "i < 4" "32 * i \<le> n"
  shows "prefix_words a (i # is) (of_nat (32 * i)) =
    (if 32 * Suc i \<le> n then prefix_words a is (of_nat (32 * Suc i)) else Some (of_nat n))"
proof -
  note bits = mask_word_bits [OF assms(1,2,3)]
  let ?w = "word_at a i" and ?r = "n - 32 * i"
  show ?thesis
  proof (cases "32 * Suc i \<le> n")
    case True
    have "?w = 0xffffffff"
    proof (rule bit_word_eqI)
      fix b assume "b < LENGTH(32)"
      then have b: "b < 32" by simp
      have "bit (0xffffffff :: 32 word) b"
        using bit_mask_iff [of 32 b, where 'a = "32 word"] b by (simp add: mask_eq_exp_minus_1)
      then show "bit ?w b \<longleftrightarrow> bit (0xffffffff :: 32 word) b" using bits [OF b] True by simp
    qed
    with True show ?thesis by (simp add: ac_simps)
  next
    case False
    have ne: "?w \<noteq> 0xffffffff"
    proof
      assume "?w = 0xffffffff"
      then have "bit ?w 0" by simp
      with bits [of 0] False show False by simp
    qed
    have n: "n = 32 * i + ?r" "?r < 32" using assms(4) False by simp_all
    have "prefix_loop ?w (of_nat (32 * i)) = Some (of_nat (32 * i) + of_nat ?r)"
    proof (cases "?r = 0")
      case True
      have "?w = 0"
      proof (rule bit_word_eqI)
        fix b assume "b < LENGTH(32)"
        then have b: "b < 32" by simp
        have "n = 32 * i" using n True by simp
        with bits [OF b] b show "bit ?w b \<longleftrightarrow> bit 0 b" by simp
      qed
      with True show ?thesis by (simp add: prefix_loop.simps)
    next
      case False
      have "prefix_loop ?w (of_nat (32 * i)) = Some (of_nat (32 * i) + of_nat (32 - (32 - ?r)))"
      proof (rule prefix_loop_lowest)
        show "32 - ?r < 32" using False by simp
        then show "bit ?w (32 - ?r)" using bits [of "32 - ?r"] n by simp
        show "\<forall>b < 32 - ?r. \<not> bit ?w b"
        proof (intro allI impI)
          fix b assume "b < 32 - ?r"
          with bits [of b] n show "\<not> bit ?w b" by simp
        qed
      qed
      with n(2) show ?thesis by simp
    qed
    then have "prefix_loop ?w (of_nat (32 * i)) = Some (of_nat n)"
      using n(1) by (metis of_nat_add)
    with ne False show ?thesis by simp
  qed
qed


section \<open>Properties\<close>

text \<open>C38. The loops that compute a prefix end for every mask, the prefix is at most 128, and a mask made
  from a prefix of at most 128 bits has exactly this prefix.\<close>

theorem prefix_of_mask:
  "(\<exists>k \<le> 128. getIPv6PrefixFromMask a = Some (of_nat k)) \<and>
   (128 < n \<or> Option.bind (getIPv6MaskFromPrefix (of_nat n)) getIPv6PrefixFromMask = Some (of_nat n))"
proof
  show "\<exists>k \<le> 128. getIPv6PrefixFromMask a = Some (of_nat k)"
    using prefix_words_end [of "[0, 1, 2, 3]" a 0] by (simp add: getIPv6PrefixFromMask_def)
  show "128 < n \<or> Option.bind (getIPv6MaskFromPrefix (of_nat n)) getIPv6PrefixFromMask = Some (of_nat n)"
  proof (cases "128 < n")
    case False
    then have n: "n \<le> 128" by simp
    from mask_bits [OF n] obtain b where b: "getIPv6MaskFromPrefix (word_of_nat n) = Some b" by blast
    note step = prefix_words_step [OF n b]
    have "prefix_words b [0, 1, 2, 3] 0 = Some (of_nat n)"
      using step [of 0 "[1, 2, 3]"] step [of 1 "[2, 3]"] step [of 2 "[3]"] step [of 3 "[]"] n
      by (auto split: if_splits)
    with b show ?thesis by (simp add: getIPv6PrefixFromMask_def)
  qed simp
qed

end
