(* ===== verification/VirtualNetworks.thy ===== *)
theory VirtualNetworks
  imports NetAddress
begin

text \<open>
  The configuration of virtual networks (\<^verbatim>\<open>PrlNetworking/netconfig.cpp\<close>, with the choice of
  adapters of \<^verbatim>\<open>VMNetworking.cpp\<close>): defaults, patches, look-ups, the check of host-only networks
  and the adapter of the host that a VM's adapter is bound to.

  The configuration classes of the SDK are records whose setters set their own field only.  A
  network has an address \<open>vnet_ptr\<close>, because the list of networks holds pointers and one function
  below appends a pointer twice.  The host is the record \<open>net_env\<close>.
\<close>

section \<open>Data\<close>

datatype host_address = NullAddress | IPv4 ipv4 | IPv6 ipv6

type_synonym reservations = "(host_address \<times> qstring) option list"

record 'a dhcp_server =
  dhcp_enabled :: bool
  scope_start :: 'a
  scope_end :: 'a
  ip_reservations :: "reservations option"

record vz_adapter =
  vz_name :: qstring
  vz_hidden :: bool
  vz_index :: "32 word"

record host_only_network =
  dhcp_ip :: ipv4
  host_ip :: ipv4
  net_mask :: ipv4
  dhcp_ip6 :: ipv6
  host_ip6 :: ipv6
  net_mask6 :: ipv6
  virtuozzo_adapter :: "vz_adapter option"
  dhcp4 :: "ipv4 dhcp_server option"
  dhcp6 :: "ipv6 dhcp_server option"
  nat_enabled :: "bool option"

datatype net_type = PVN_HOST_ONLY | PVN_BRIDGED_ETHERNET | PVN_OTHER_TYPE

record vnet =
  vnet_ptr :: nat
  net_uuid :: qstring
  net_id :: qstring
  net_description :: qstring
  net_kind :: net_type
  net_enabled :: bool
  host_only :: "host_only_network option"
  bound_mac :: qstring
  vlan_tag :: "16 word"
  to_default_adapter :: bool

type_synonym networks = "vnet list"

type_synonym mac = "8 word list"

record eth_adapter =
  eth_name :: qstring
  eth_index :: "32 word"
  eth_virtuozzo :: bool
  eth_vlan :: "16 word"
  eth_mac :: mac
  eth_enabled :: bool

text \<open>
  The host: \<^verbatim>\<open>getAppExecuteMode() == PAM_SERVER\<close>, the adapters that can be bound, the tag and
  MAC of the interface of the default route, the conversions of MAC addresses of prlcommon, and the
  object that the constructor \<^verbatim>\<open>CVirtualNetwork\<close> makes at an address.
\<close>

record net_env =
  server_mode :: bool
  bindable :: "prl_result + eth_adapter list"
  default_iface :: "prl_result + (16 word \<times> mac)"
  stringToEthAddress :: "qstring \<Rightarrow> mac"
  ethAddressToString :: "mac \<Rightarrow> qstring"
  new_network :: "nat \<Rightarrow> vnet"
  hidden_default :: bool

definition isSharedEnabled :: "net_env \<Rightarrow> bool" where
  "isSharedEnabled E \<longleftrightarrow> \<not> server_mode E"

definition PRL_ADAPTER_START_INDEX :: "32 word" where "PRL_ADAPTER_START_INDEX = 0x10000000"

definition GET_PRL_ADAPTER_NUMBER :: "32 word \<Rightarrow> 32 word" where
  "GET_PRL_ADAPTER_NUMBER idx = idx AND 0x0fffffff"

definition IS_PRL_ADAPTER_INDEX :: "32 word \<Rightarrow> bool" where
  "IS_PRL_ADAPTER_INDEX idx \<longleftrightarrow> idx AND PRL_ADAPTER_START_INDEX \<noteq> 0"

definition PRL_INVALID_VLAN_TAG :: "16 word" where "PRL_INVALID_VLAN_TAG = 0xffff"


section \<open>Look-ups\<close>

text \<open>The adapter of a host-only network.\<close>

definition net_vz_adapter :: "vnet \<Rightarrow> vz_adapter option" where
  "net_vz_adapter n =
     (if net_kind n \<noteq> PVN_HOST_ONLY then None
      else (case host_only n of None \<Rightarrow> None | Some h \<Rightarrow> virtuozzo_adapter h))"

definition GetVirtualNetworkByID :: "networks option \<Rightarrow> qstring \<Rightarrow> vnet option" where
  "GetVirtualNetworkByID nets networkID =
     (case nets of None \<Rightarrow> None | Some ns \<Rightarrow> find (\<lambda>n. net_id n = networkID) ns)"

definition GetVirtualNetworkByUuid :: "networks option \<Rightarrow> qstring \<Rightarrow> vnet option" where
  "GetVirtualNetworkByUuid nets sUuid =
     (case nets of None \<Rightarrow> None | Some ns \<Rightarrow> find (\<lambda>n. net_uuid n = sUuid) ns)"

definition DeleteVirtualNetwork :: "networks option \<Rightarrow> nat option \<Rightarrow> networks option" where
  "DeleteVirtualNetwork nets p =
     (case (nets, p) of (Some ns, Some a) \<Rightarrow> Some (filter (\<lambda>n. vnet_ptr n \<noteq> a) ns) | _ \<Rightarrow> nets)"

definition GetNetworkByVirtuozzoAdapter :: "networks option \<Rightarrow> 32 word \<Rightarrow> vnet option" where
  "GetNetworkByVirtuozzoAdapter nets nAdapterIndex =
     (case nets of
        None \<Rightarrow> None
      | Some ns \<Rightarrow> find (\<lambda>n. case net_vz_adapter n of None \<Rightarrow> False | Some a \<Rightarrow> vz_index a = nAdapterIndex) ns)"

definition GetNetworkByBoundCardMacAndVLANTag :: "networks option \<Rightarrow> qstring \<Rightarrow> 16 word \<Rightarrow> vnet option" where
  "GetNetworkByBoundCardMacAndVLANTag nets qsMac nVLANTag =
     (case nets of
        None \<Rightarrow> None
      | Some ns \<Rightarrow> find (\<lambda>n. net_kind n = PVN_BRIDGED_ETHERNET \<and> bound_mac n = qsMac \<and> vlan_tag n = nVLANTag) ns)"

text \<open>A \<^verbatim>\<open>QMap\<close> as the list of its pairs in the order of the keys.\<close>

fun qmap_insert :: "'k :: linorder \<Rightarrow> 'v \<Rightarrow> ('k \<times> 'v) list \<Rightarrow> ('k \<times> 'v) list" where
  "qmap_insert k v [] = [(k, v)]"
| "qmap_insert k v ((k', v') # m) =
     (if k < k' then (k, v) # (k', v') # m
      else if k = k' then (k, v) # m
      else (k', v') # qmap_insert k v m)"

definition host_only_map :: "networks \<Rightarrow> (32 word \<times> vnet) list" where
  "host_only_map ns =
     fold (\<lambda>n m. case net_vz_adapter n of None \<Rightarrow> m | Some a \<Rightarrow> qmap_insert (vz_index a) n m) ns []"

definition MakeHostOnlyNetworksList :: "networks option \<Rightarrow> networks" where
  "MakeHostOnlyNetworksList nets = (case nets of None \<Rightarrow> [] | Some ns \<Rightarrow> map snd (host_only_map ns))"

definition MakeVirtuozzoAdaptersList :: "networks option \<Rightarrow> vz_adapter list" where
  "MakeVirtuozzoAdaptersList nets =
     List.map_filter (\<lambda>n. if \<not> net_enabled n then None
       else (case host_only n of None \<Rightarrow> None | Some h \<Rightarrow> virtuozzo_adapter h))
     (MakeHostOnlyNetworksList nets)"

definition GetHostOnlyNetwork :: "net_env \<Rightarrow> networks option \<Rightarrow> 32 word \<Rightarrow> vnet option" where
  "GetHostOnlyNetwork E nets adapter_index =
     (let i = (if server_mode E then if adapter_index = - 1 then 0 else adapter_index
               else if adapter_index = 0 \<or> adapter_index = - 1 then 1 else adapter_index)
      in case nets of
           None \<Rightarrow> None
         | Some ns \<Rightarrow> GetNetworkByVirtuozzoAdapter (Some ns) (GET_PRL_ADAPTER_NUMBER i))"

definition GetSharedNetwork :: "networks option \<Rightarrow> vnet option" where
  "GetSharedNetwork nets =
     find (\<lambda>n. net_enabled n \<and> (case host_only n of None \<Rightarrow> False | Some h \<Rightarrow> nat_enabled h = Some True))
       (MakeHostOnlyNetworksList nets)"

definition GetBridgedNetwork :: "networks option \<Rightarrow> vnet option" where
  "GetBridgedNetwork nets =
     (case nets of
        None \<Rightarrow> None | Some ns \<Rightarrow> find (\<lambda>n. net_enabled n \<and> net_kind n = PVN_BRIDGED_ETHERNET) ns)"

datatype emulated_type = PNA_HOST_ONLY | PNA_SHARED | PNA_BRIDGED_NETWORK | PNA_CUSTOM_3 | PNA_OTHER_TYPE

definition GetVirtualNetworkForAdapter ::
  "net_env \<Rightarrow> networks option option \<Rightarrow> emulated_type \<Rightarrow> qstring \<Rightarrow> vnet option" where
  "GetVirtualNetworkForAdapter E config emulatedType virtualNetworkID =
     (case config of
        None \<Rightarrow> None
      | Some nets \<Rightarrow>
          if virtualNetworkID \<noteq> [] then GetVirtualNetworkByID nets virtualNetworkID
          else if emulatedType = PNA_HOST_ONLY then GetHostOnlyNetwork E nets (- 1)
          else if emulatedType = PNA_SHARED then GetSharedNetwork nets
          else if emulatedType = PNA_BRIDGED_NETWORK then GetBridgedNetwork nets
          else None)"

record vm_adapter =
  adapter_index :: "32 word"
  virtual_network_id :: qstring
  emulated :: emulated_type
  bound_index :: "32 word"
  bound_name :: qstring

definition GetNetworkTypeForAdapter ::
  "net_env \<Rightarrow> networks option option \<Rightarrow> vm_adapter option \<Rightarrow> prl_result + net_type" where
  "GetNetworkTypeForAdapter E config adapter =
     (case adapter of
        None \<Rightarrow> Inl PRL_ERR_FAILURE
      | Some a \<Rightarrow>
          (case GetVirtualNetworkForAdapter E config (emulated a) (virtual_network_id a) of
             None \<Rightarrow> Inl PRL_ERR_FAILURE | Some n \<Rightarrow> Inr (net_kind n)))"

definition GetAdapterByIndex :: "vm_adapter option list \<Rightarrow> 32 word \<Rightarrow> vm_adapter option" where
  "GetAdapterByIndex adapters i =
     find (\<lambda>a. adapter_index a = i) (List.map_filter (\<lambda>a. a) adapters)"


section \<open>Reservations of addresses\<close>

definition GetDHCPIPReservations :: "vnet option \<Rightarrow> reservations option" where
  "GetDHCPIPReservations n =
     Option.bind n (\<lambda>n. Option.bind (host_only n) (\<lambda>h. Option.bind (dhcp4 h) ip_reservations))"

text \<open>The objects the constructors make; \<open>AnyIPv6\<close> and null addresses are zeros.\<close>

definition new_host_only :: host_only_network where
  "new_host_only = \<lparr>dhcp_ip = 0, host_ip = 0, net_mask = 0, dhcp_ip6 = replicate 16 0,
     host_ip6 = replicate 16 0, net_mask6 = replicate 16 0, virtuozzo_adapter = None, dhcp4 = None,
     dhcp6 = None, nat_enabled = None\<rparr>"

definition new_dhcp :: "'a \<Rightarrow> 'a dhcp_server" where
  "new_dhcp any = \<lparr>dhcp_enabled = False, scope_start = any, scope_end = any, ip_reservations = None\<rparr>"

definition new_vz_adapter :: vz_adapter where
  "new_vz_adapter = \<lparr>vz_name = [], vz_hidden = False, vz_index = 0\<rparr>"

definition or_new :: "'a \<Rightarrow> 'a option \<Rightarrow> 'a" where
  "or_new d x = (case x of None \<Rightarrow> d | Some a \<Rightarrow> a)"

text \<open>Makes what is missing on the way to the reservations, and gives them.\<close>

definition GetSafeDHCPIPReservations :: "vnet \<Rightarrow> reservations \<times> vnet" where
  "GetSafeDHCPIPReservations n =
     (let h = or_new new_host_only (host_only n);
          d = or_new (new_dhcp 0) (dhcp4 h);
          r = or_new [] (ip_reservations d)
      in (r, n\<lparr>host_only := Some (h\<lparr>dhcp4 := Some (d\<lparr>ip_reservations := Some r\<rparr>)\<rparr>)\<rparr>))"

definition isEqualEthAddress :: "net_env \<Rightarrow> qstring \<Rightarrow> qstring \<Rightarrow> bool" where
  "isEqualEthAddress E addr1 addr2 \<longleftrightarrow> stringToEthAddress E addr1 = stringToEthAddress E addr2"

definition ContainsIPReservation :: "net_env \<Rightarrow> reservations option \<Rightarrow> host_address \<Rightarrow> qstring \<Rightarrow> bool" where
  "ContainsIPReservation E rs IPAddress MacAddress =
     (case rs of
        None \<Rightarrow> False
      | Some ls \<Rightarrow> list_ex (\<lambda>l. case l of
            None \<Rightarrow> False
          | Some (ip, m) \<Rightarrow> ip = IPAddress \<or> isEqualEthAddress E m MacAddress) ls)"


section \<open>Defaults\<close>

fun dec :: "nat \<Rightarrow> qstring" where
  "dec n = (if n < 10 then [''0123456789'' ! n] else dec (n div 10) @ [''0123456789'' ! (n mod 10)])"

text \<open>\<^verbatim>\<open>%d\<close>\<close>

definition decimal :: "32 word \<Rightarrow> qstring" where
  "decimal w = (let i = sint w in if i < 0 then ''-'' @ dec (nat (- i)) else dec (nat i))"

definition GetDefaultAdapterName :: "32 word \<Rightarrow> bool \<Rightarrow> qstring" where
  "GetDefaultAdapterName nAdapterIndex bSharedEnabled =
     (let i = nAdapterIndex AND (PRL_ADAPTER_START_INDEX - 1) in
      if i = 0 \<and> bSharedEnabled then ''Virtuozzo Shared #'' @ decimal i
      else ''Virtuozzo Host-Only #'' @ decimal i)"

definition GetDefaultVirtualNetworkID :: "32 word \<Rightarrow> bool \<Rightarrow> qstring" where
  "GetDefaultVirtualNetworkID i bSharedEnabled =
     (if bSharedEnabled \<and> i < 2 then [''Shared'', ''Host-Only''] ! unat i
      else if i = 0 then ''Host-Only''
      else ''Host-Only #'' @ decimal i)"

definition GetDefaultVirtualNetworkDescription :: "32 word \<Rightarrow> bool \<Rightarrow> qstring" where
  "GetDefaultVirtualNetworkDescription i bSharedEnabled =
     (if bSharedEnabled \<and> i < 2 then [''Shared Networking'', ''Host Only Networking''] ! unat i
      else if i = 0 then ''Host Only Networking''
      else ''Host Only Network #'' @ decimal i)"

definition FillDefaultVirtualNetworkParams :: "net_env \<Rightarrow> 32 word \<Rightarrow> bool \<Rightarrow> vnet \<Rightarrow> vnet" where
  "FillDefaultVirtualNetworkParams E i bSharedEnabled n =
     (case GetDefaultDhcpParams i of (start, end4, mask4) \<Rightarrow>
      case GetDefaultDhcpV6Params i of (start6, end6, mask6) \<Rightarrow>
      let h = or_new new_host_only (host_only n);
          a = or_new new_vz_adapter (virtuozzo_adapter h);
          d4 = or_new (new_dhcp 0) (dhcp4 h);
          d6 = or_new (new_dhcp (replicate 16 0)) (dhcp6 h)
      in n\<lparr>net_kind := PVN_HOST_ONLY,
           net_id := (if net_id n = [] then GetDefaultVirtualNetworkID i bSharedEnabled else net_id n),
           net_description := (if net_description n = []
             then GetDefaultVirtualNetworkDescription i bSharedEnabled else net_description n),
           host_only := Some (h\<lparr>
             dhcp_ip := start, host_ip := start + 1, net_mask := mask4,
             dhcp_ip6 := start6, host_ip6 := IPV6_ADD_VALUE_AT_POS 0 1 start6, net_mask6 := mask6,
             virtuozzo_adapter := Some (a\<lparr>vz_hidden := hidden_default E,
               vz_name := GetDefaultAdapterName i bSharedEnabled, vz_index := i\<rparr>),
             dhcp4 := Some (d4\<lparr>dhcp_enabled := True, scope_start := start, scope_end := end4\<rparr>),
             dhcp6 := Some (d6\<lparr>dhcp_enabled := True, scope_start := start6, scope_end := end6\<rparr>),
             nat_enabled := Some (i = 0 \<and> bSharedEnabled)\<rparr>)\<rparr>)"

text \<open>Changes of the object that a pointer leads to show wherever the list holds the pointer.\<close>

definition update_net :: "nat \<Rightarrow> (vnet \<Rightarrow> vnet) \<Rightarrow> networks \<Rightarrow> networks" where
  "update_net p f ns = map (\<lambda>n. if vnet_ptr n = p then f n else n) ns"

definition fresh_ptr :: "networks \<Rightarrow> nat" where
  "fresh_ptr ns = Suc (foldr (\<lambda>n m. max (vnet_ptr n) m) ns 0)"

definition ensure_default :: "net_env \<Rightarrow> 32 word \<Rightarrow> bool \<Rightarrow> networks \<Rightarrow> networks" where
  "ensure_default E i shared ns =
     (case GetNetworkByVirtuozzoAdapter (Some ns) i of
        None \<Rightarrow> ns @ [FillDefaultVirtualNetworkParams E i shared (new_network E (fresh_ptr ns))]
      | Some n \<Rightarrow> update_net (vnet_ptr n) (FillDefaultVirtualNetworkParams E i shared) ns)"


section \<open>Adapters of the host\<close>

definition getFirstAdapter :: "eth_adapter list \<Rightarrow> prl_result + eth_adapter" where
  "getFirstAdapter l =
     (case find (\<lambda>a. \<not> (IS_PRL_ADAPTER_INDEX (eth_index a) \<or> \<not> eth_enabled a)) l of
        None \<Rightarrow> Inl PRL_NET_ERR_ETH_NO_BINDABLE_ADAPTER | Some a \<Rightarrow> Inr a)"

definition getDefaultBridgedAdapter :: "net_env \<Rightarrow> eth_adapter list \<Rightarrow> prl_result + eth_adapter" where
  "getDefaultBridgedAdapter E l =
     (case default_iface E of
        Inl e \<Rightarrow> Inl e
      | Inr (tag, m) \<Rightarrow>
          (case find (\<lambda>a. tag = eth_vlan a \<and> m = eth_mac a) l of
             None \<Rightarrow> Inl PRL_ERR_UNEXPECTED | Some a \<Rightarrow> Inr a))"

definition default_or_first :: "net_env \<Rightarrow> eth_adapter list \<Rightarrow> prl_result + eth_adapter" where
  "default_or_first E l =
     (case getDefaultBridgedAdapter E l of Inl e \<Rightarrow> getFirstAdapter l | Inr a \<Rightarrow> Inr a)"

definition PRLNET_SRV_DEFAULT_BRIDGED_ID :: qstring where "PRLNET_SRV_DEFAULT_BRIDGED_ID = ''Bridged''"

text \<open>The default bridged network of a server, the second part of \<^verbatim>\<open>FillDefaultNetworks\<close>.\<close>

definition fill_default_bridged :: "net_env \<Rightarrow> networks \<Rightarrow> networks" where
  "fill_default_bridged E ns =
     (case bindable E of
        Inl e \<Rightarrow> ns
      | Inr l \<Rightarrow>
          (case default_or_first E l of
             Inl e \<Rightarrow> ns
           | Inr a \<Rightarrow>
               let m = ethAddressToString E (eth_mac a) in
               (case GetNetworkByBoundCardMacAndVLANTag (Some ns) m (eth_vlan a) of
                  Some n \<Rightarrow> ns
                | None \<Rightarrow>
                    let f = (\<lambda>n. n\<lparr>net_enabled := True, net_id := PRLNET_SRV_DEFAULT_BRIDGED_ID,
                               net_kind := PVN_BRIDGED_ETHERNET, net_description := ''Bridged Network'',
                               bound_mac := m, vlan_tag := eth_vlan a\<rparr>)
                    in (case GetVirtualNetworkByID (Some ns) PRLNET_SRV_DEFAULT_BRIDGED_ID of
                          None \<Rightarrow> ns @ [f (new_network E (fresh_ptr ns))]
                        | Some n \<Rightarrow> update_net (vnet_ptr n) f ns @ [f n]))))"

definition FillDefaultNetworks :: "net_env \<Rightarrow> networks \<Rightarrow> networks" where
  "FillDefaultNetworks E ns =
     (let shared = isSharedEnabled E;
          ns1 = (if shared then ensure_default E 0 True ns else ns);
          ns2 = ensure_default E (if shared then 1 else 0) shared ns1
      in if \<not> server_mode E then ns2 else fill_default_bridged E ns2)"

definition FillDefaultConfiguration :: "net_env \<Rightarrow> networks" where
  "FillDefaultConfiguration E = FillDefaultNetworks E []"


section \<open>Networks at run time\<close>

definition MakeVirtualNetworkID :: "qstring \<Rightarrow> qstring" where
  "MakeVirtualNetworkID adapterName = (if adapterName = [] then ''Default'' else adapterName)"

definition CreateVirtualNetworkForAdapter ::
  "net_env \<Rightarrow> nat \<Rightarrow> qstring \<Rightarrow> qstring \<Rightarrow> 16 word \<Rightarrow> vnet" where
  "CreateVirtualNetworkForAdapter E p adapterName adapterMacAddress vlanTag =
     (let n = (new_network E p)\<lparr>net_id := MakeVirtualNetworkID adapterName,
                net_description := MakeVirtualNetworkID adapterName,
                net_kind := PVN_BRIDGED_ETHERNET, vlan_tag := vlanTag\<rparr>
      in if adapterName = [] \<or> adapterMacAddress = [] then n\<lparr>to_default_adapter := True\<rparr>
         else n\<lparr>bound_mac := adapterMacAddress\<rparr>)"

record hw_adapter =
  device_name :: qstring
  mac_address :: qstring
  hw_vlan :: "16 word"

definition append_network ::
  "net_env \<Rightarrow> qstring \<Rightarrow> qstring \<Rightarrow> 16 word \<Rightarrow> networks \<Rightarrow> networks" where
  "append_network E name m tag ns = ns @ [CreateVirtualNetworkForAdapter E (fresh_ptr ns) name m tag]"

definition FillDefaultRuntimeNetworks :: "net_env \<Rightarrow> hw_adapter list \<Rightarrow> networks \<Rightarrow> networks" where
  "FillDefaultRuntimeNetworks E hw ns =
     (let ns1 = filter (\<lambda>n. net_kind n = PVN_HOST_ONLY) ns;
          ns2 = fold (\<lambda>a. append_network E (device_name a) (mac_address a) (hw_vlan a)) hw ns1
      in if hw \<noteq> [] then append_network E [] [] PRL_INVALID_VLAN_TAG ns2 else ns2)"

text \<open>The loop of \<^verbatim>\<open>PatchConfig\<close>, over a list without repeated pointers.\<close>

definition nat_off :: "net_env \<Rightarrow> vnet \<Rightarrow> vnet" where
  "nat_off E n =
     (if \<not> isSharedEnabled E \<and> net_kind n = PVN_HOST_ONLY
      then n\<lparr>host_only := map_option (\<lambda>h. h\<lparr>nat_enabled := map_option (\<lambda>b. False) (nat_enabled h)\<rparr>) (host_only n)\<rparr>
      else n)"

fun patch_networks :: "net_env \<Rightarrow> networks \<Rightarrow> bool \<times> networks" where
  "patch_networks E [] = (False, [])"
| "patch_networks E (n # ns) =
     (if net_kind n = PVN_BRIDGED_ETHERNET \<and> to_default_adapter n
      then (case bindable E of
              Inl e \<Rightarrow> (False, n # ns)
            | Inr l \<Rightarrow>
                (case default_or_first E l of
                   Inl e \<Rightarrow> (False, n # ns)
                 | Inr a \<Rightarrow>
                     let n' = n\<lparr>bound_mac := ethAddressToString E (eth_mac a), vlan_tag := eth_vlan a\<rparr>
                     in (True, nat_off E n' # snd (patch_networks E ns))))
      else (fst (patch_networks E ns), nat_off E n # snd (patch_networks E ns)))"

definition PatchConfig :: "net_env \<Rightarrow> networks option \<Rightarrow> bool \<times> networks option" where
  "PatchConfig E nets =
     (if \<not> server_mode E then (False, nets)
      else (case nets of
              None \<Rightarrow> (False, None)
            | Some ns \<Rightarrow> (fst (patch_networks E ns), Some (snd (patch_networks E ns)))))"

text \<open>
  \<open>InitNetworkConfig\<close>: \<open>read1\<close> is what \<^verbatim>\<open>ReadNetworkConfig\<close> gives, \<open>read2\<close> what it gives
  in \<^verbatim>\<open>tryToRecoverNetworkConfig\<close>, \<open>rename_ok\<close> whether the broken file could be renamed.
\<close>

definition InitNetworkConfig ::
  "net_env \<Rightarrow> prl_result + networks option \<Rightarrow> prl_result + networks option \<Rightarrow> bool \<Rightarrow>
     (networks option \<Rightarrow> prl_result) \<Rightarrow> prl_result \<times> bool \<times> networks option" where
  "InitNetworkConfig E read1 read2 rename_ok write =
     (let r = (case read1 of Inl e \<Rightarrow> if e = PRL_ERR_FILE_NOT_FOUND then read2 else Inl e | Inr c \<Rightarrow> Inr c);
          finish = (\<lambda>restored c. if restored \<and> prl_failed (write c) then (PRL_ERR_FAILURE, False, c)
                                 else (PRL_ERR_SUCCESS, restored, c))
      in case r of
           Inr c \<Rightarrow> (case read1 of
                       Inl e \<Rightarrow> (PRL_ERR_SUCCESS, True, c)
                     | Inr c' \<Rightarrow> finish (fst (PatchConfig E c)) (snd (PatchConfig E c)))
         | Inl e \<Rightarrow>
             if e \<noteq> PRL_ERR_FILE_NOT_FOUND \<and> \<not> rename_ok then (PRL_ERR_FAILURE, False, None)
             else finish True (Some (FillDefaultConfiguration E)))"


section \<open>The check of a host-only network\<close>

definition ValidateHostOnlyNetworkParams :: "vnet \<Rightarrow> prl_result" where
  "ValidateHostOnlyNetworkParams n =
     (case host_only n of
        None \<Rightarrow> PRL_NET_VALID_FAILURE
      | Some h \<Rightarrow>
          let scopeMask = net_mask h in
          if \<not> validateNetMask scopeMask then PRL_NET_VALID_WRONG_NET_MASK
          else if \<not> validateIp (host_ip h) then PRL_NET_VALID_WRONG_HOST_IP_ADDR
          else if \<not> validateIp (dhcp_ip h) then PRL_NET_VALID_WRONG_DHCP_IP_ADDR
          else (case dhcp4 h of
                  None \<Rightarrow> PRL_ERR_SUCCESS
                | Some d \<Rightarrow>
                    if \<not> dhcp_enabled d then PRL_ERR_SUCCESS
                    else let scopeStart = scope_start d; scopeEnd = scope_end d in
                      if \<not> validateIp scopeStart \<or> \<not> validateIp scopeEnd
                      then PRL_NET_VALID_DHCP_RANGE_WRONG_IP_ADDRS
                      else if scopeEnd AND scopeMask \<noteq> scopeStart AND scopeMask
                      then PRL_NET_VALID_MISMATCH_DHCP_SCOPE_MASK
                      else if sint (scopeEnd - scopeStart) < 15
                      then PRL_NET_VALID_DHCP_SCOPE_RANGE_LESS_MIN
                      else PRL_ERR_SUCCESS))"


section \<open>The adapter of a network and of a VM\<close>

definition first_adapter :: "prl_result \<Rightarrow> (eth_adapter \<Rightarrow> bool) \<Rightarrow> eth_adapter list \<Rightarrow> prl_result + eth_adapter" where
  "first_adapter e P l = (case find P l of None \<Rightarrow> Inl e | Some a \<Rightarrow> Inr a)"

definition GetAdapterForNetwork ::
  "net_env \<Rightarrow> eth_adapter list \<Rightarrow> vnet option \<Rightarrow> prl_result + eth_adapter" where
  "GetAdapterForNetwork E l net =
     (case net of
        None \<Rightarrow> Inl PRL_NET_VMDEVICE_VIRTUAL_NETWORK_NO_ADAPTER
      | Some n \<Rightarrow>
          if net_kind n = PVN_BRIDGED_ETHERNET
          then if to_default_adapter n then default_or_first E l
               else first_adapter PRL_NET_VMDEVICE_VIRTUAL_NETWORK_NO_ADAPTER
                      (\<lambda>a. eth_mac a = stringToEthAddress E (bound_mac n) \<and> eth_vlan a = vlan_tag n) l
          else (case host_only n of
                  None \<Rightarrow> Inl PRL_NET_VMDEVICE_VIRTUAL_NETWORK_CONFIG_ERROR
                | Some h \<Rightarrow>
                    (case virtuozzo_adapter h of
                       None \<Rightarrow> Inl PRL_NET_VMDEVICE_VIRTUAL_NETWORK_CONFIG_ERROR
                     | Some v \<Rightarrow>
                         first_adapter PRL_NET_VMDEVICE_VIRTUAL_NETWORK_NO_ADAPTER
                           (\<lambda>a. eth_virtuozzo a \<and>
                              GET_PRL_ADAPTER_NUMBER (eth_index a) = GET_PRL_ADAPTER_NUMBER (vz_index v)) l)))"

text \<open>The old way, for a bridged adapter that names its adapter by index or name.\<close>

definition bridged_match :: "32 word \<Rightarrow> qstring \<Rightarrow> eth_adapter \<Rightarrow> bool" where
  "bridged_match adapterIndex adapterName a \<longleftrightarrow>
     (if IS_PRL_ADAPTER_INDEX adapterIndex \<and> eth_virtuozzo a
      then GET_PRL_ADAPTER_NUMBER adapterIndex = GET_PRL_ADAPTER_NUMBER (eth_index a)
      else eth_name a = adapterName)"

definition GetAdapterForVM ::
  "net_env \<Rightarrow> eth_adapter list \<Rightarrow> networks option \<Rightarrow> vm_adapter \<Rightarrow> prl_result + eth_adapter" where
  "GetAdapterForVM E l nets vmAdapter =
     (if virtual_network_id vmAdapter \<noteq> [] \<and> server_mode E
      then (case GetVirtualNetworkByID nets (virtual_network_id vmAdapter) of
              None \<Rightarrow> Inl PRL_NET_VMDEVICE_VIRTUAL_NETWORK_NOT_EXIST
            | Some n \<Rightarrow>
                if \<not> net_enabled n then Inl PRL_NET_VMDEVICE_VIRTUAL_NETWORK_DISABLED
                else GetAdapterForNetwork E l (Some n))
      else
        (let custom = emulated vmAdapter = PNA_CUSTOM_3;
             networkingType = (if custom then PNA_BRIDGED_NETWORK else emulated vmAdapter);
             adapterIndex = (if custom then bound_index vmAdapter OR PRL_ADAPTER_START_INDEX
                             else bound_index vmAdapter)
         in if networkingType = PNA_BRIDGED_NETWORK
            then if sint adapterIndex < 0 then default_or_first E l
                 else first_adapter PRL_NET_ADAPTER_NOT_EXIST (bridged_match adapterIndex (bound_name vmAdapter)) l
            else if networkingType \<noteq> PNA_HOST_ONLY \<and> networkingType \<noteq> PNA_SHARED
            then Inl PRL_ERR_INCONSISTENCY_VM_CONFIG
            else (case (if networkingType = PNA_SHARED then GetSharedNetwork nets
                        else GetHostOnlyNetwork E nets adapterIndex) of
                    None \<Rightarrow> Inl PRL_NET_ERR_PRL_NO_BINDABLE_ADAPTER
                  | Some n \<Rightarrow> GetAdapterForNetwork E l (Some n))))"


section \<open>Services and buffers\<close>

definition GetOffmgmtPortByService :: "(qstring \<times> 16 word) list option \<Rightarrow> qstring \<Rightarrow> 16 word" where
  "GetOffmgmtPortByService services srvName =
     (case services of
        None \<Rightarrow> 0
      | Some l \<Rightarrow> (case find (\<lambda>s. fst s = srvName) l of None \<Rightarrow> 0 | Some s \<Rightarrow> snd s))"

definition GetOffmgmtServiceByPort :: "(qstring \<times> 16 word) list option \<Rightarrow> 16 word \<Rightarrow> qstring" where
  "GetOffmgmtServiceByPort services port =
     (case services of
        None \<Rightarrow> []
      | Some l \<Rightarrow> (case find (\<lambda>s. snd s = port) l of None \<Rightarrow> [] | Some s \<Rightarrow> fst s))"

text \<open>
  The buffers of addresses.  \<open>None\<close> is a write behind the end of the buffer; \<open>pick\<close> gives the
  address of the wanted kind, and \<open>parse\<close> reads the text of an address with its mask.
\<close>

fun fill_buffer :: "(host_address \<Rightarrow> 'a option) \<Rightarrow> host_address list \<Rightarrow> 'a list \<Rightarrow> nat \<Rightarrow> ('a list \<times> nat) option" where
  "fill_buffer pick [] buf n = Some (buf, n)"
| "fill_buffer pick (a # as) buf n =
     (case pick a of
        None \<Rightarrow> fill_buffer pick as buf n
      | Some x \<Rightarrow> if n < length buf then fill_buffer pick as (buf[n := x]) (Suc n) else None)"

definition create_buffer ::
  "(host_address \<Rightarrow> 'a option) \<Rightarrow> (qstring \<Rightarrow> host_address) \<Rightarrow> 'a list option \<Rightarrow> qstring list \<Rightarrow>
     (prl_result \<times> 'a list option \<times> nat) option" where
  "create_buffer pick parse allocated ipList =
     (if ipList = [] then Some (PRL_ERR_SUCCESS, None, 0)
      else (case allocated of
              None \<Rightarrow> Some (PRL_ERR_OUT_OF_MEMORY, None, 0)
            | Some buf \<Rightarrow>
                (case fill_buffer pick (map parse ipList) buf 0 of
                   None \<Rightarrow> None
                 | Some (buf', n) \<Rightarrow> Some (PRL_ERR_SUCCESS, if n = 0 then None else Some buf', n))))"

definition CreateIpsBuffer ::
  "(qstring \<Rightarrow> host_address) \<Rightarrow> ipv4 list option \<Rightarrow> qstring list \<Rightarrow> (prl_result \<times> ipv4 list option \<times> nat) option" where
  "CreateIpsBuffer = create_buffer (\<lambda>a. case a of IPv4 x \<Rightarrow> Some x | _ \<Rightarrow> None)"

definition CreateIp6sBuffer ::
  "(qstring \<Rightarrow> host_address) \<Rightarrow> ipv6 list option \<Rightarrow> qstring list \<Rightarrow> (prl_result \<times> ipv6 list option \<times> nat) option" where
  "CreateIp6sBuffer = create_buffer (\<lambda>a. case a of IPv6 x \<Rightarrow> Some x | _ \<Rightarrow> None)"


section \<open>Facts about the check\<close>

lemma and_mask_24: "(w :: 32 word) AND 0xFFFFFF00 = push_bit 8 (drop_bit 8 w)"
proof -
  have "(0xFFFFFF00 :: 32 word) = NOT (mask 8)" by (simp add: mask_eq_exp_minus_1)
  moreover have "w AND NOT (mask 8) = push_bit 8 (drop_bit 8 w)"
    by (rule bit_word_eqI) (auto simp: bit_and_iff bit_not_iff bit_mask_iff bit_push_bit_iff bit_drop_bit_eq)
  ultimately show ?thesis by simp
qed

lemma unat_plus_small: "unat w + n < 2 ^ 32 \<Longrightarrow> unat (w + of_nat n :: 32 word) = unat w + n"
  by (simp add: unat_word_ariths unat_of_nat mod_add_right_eq)

definition default_subnet :: "32 word \<Rightarrow> 32 word" where
  "default_subnet i = DEFAULT_DHCP_SUBNET_IP + i * 256"

lemma unat_default_subnet: "i < 125 \<Longrightarrow> unat (default_subnet i) = 170230272 + 256 * unat i"
proof -
  assume "i < 125"
  then have i: "unat i < 125" by (simp add: word_less_nat_alt)
  then have "unat (i * 256) = 256 * unat i" by (simp add: unat_word_ariths)
  with i show ?thesis
    by (simp add: default_subnet_def DEFAULT_DHCP_SUBNET_IP_def unat_word_ariths)
qed

lemma default_range:
  assumes "i < 125"
  shows "GetDefaultDhcpParams i = (default_subnet i + 1, default_subnet i + 254, 0xFFFFFF00)"
proof -
  have "default_subnet i = push_bit 8 (drop_bit 8 (default_subnet i))"
  proof (rule word_unat_eq_iff [THEN iffD2])
    have "unat (push_bit 8 (drop_bit 8 (default_subnet i))) = (unat (default_subnet i) div 256 * 256) mod 2 ^ 32"
      by (simp add: unat_drop_bit_eq drop_bit_eq_div [where 'a = nat] push_bit_eq_mult unat_word_ariths)
    then show "unat (default_subnet i) = unat (push_bit 8 (drop_bit 8 (default_subnet i)))"
      using assms unat_default_subnet [OF assms] by (simp add: word_less_nat_alt)
  qed
  moreover have "push_bit 8 w AND 0xFF = 0" for w :: "32 word"
  proof -
    have "push_bit 8 w AND mask 8 = 0"
      by (rule bit_word_eqI) (auto simp: bit_and_iff bit_mask_iff bit_push_bit_iff)
    then show ?thesis by (simp add: mask_eq_exp_minus_1)
  qed
  ultimately have "default_subnet i AND 0xFF = 0" by metis
  then have "default_subnet i OR 0xFF = default_subnet i + 0xFF"
    by (simp add: disjunctive_add_eq_or)
  moreover have "NOT (0xFFFFFF00 :: 32 word) = 0xFF" by code_simp
  ultimately have "default_subnet i OR NOT 0xFFFFFF00 = default_subnet i + 0xFF" by (simp only:)
  then show ?thesis
    unfolding GetDefaultDhcpParams_def DEFAULT_DHCP_SUBNET_MASK_def Let_def default_subnet_def [symmetric]
    by (simp only:) simp
qed

lemma default_ip_valid:
  assumes "i < 125" "0 < n" "n < 255"
  shows "validateIp (default_subnet i + of_nat n)"
proof -
  have i: "unat i < 125" using assms(1) by (simp add: word_less_nat_alt)
  have u: "unat (default_subnet i + of_nat n) = 170230272 + 256 * unat i + n"
    using unat_plus_small [of "default_subnet i" n] unat_default_subnet [OF assms(1)] i assms(3) by simp
  have "default_subnet i + of_nat n \<noteq> 0" using u by auto
  moreover have "ip_byte (default_subnet i + of_nat n) k \<noteq> 255" if k4: "k < 4" for k
  proof -
    define A where "A = 130 + unat i + (37 + 10 * 256) * 256"
    have n: "170230272 + 256 * unat i + n = n + 256 * A" by (simp add: A_def)
    have b0: "(170230272 + 256 * unat i + n) mod 256 = n" "(170230272 + 256 * unat i + n) div 256 = A"
      unfolding n using assms(3) by simp_all
    have b1: "A mod 256 = 130 + unat i" "A div 256 = 37 + 10 * 256"
    proof -
      have A: "A = (130 + unat i) + 256 * (37 + 10 * 256)" by (simp add: A_def)
      show "A mod 256 = 130 + unat i" unfolding A mod_mult_self2 using i by simp
      show "A div 256 = 37 + 10 * 256" unfolding A using i by (subst div_mult_self2) simp_all
    qed
    consider "k = 0" | "k = 1" | "k = 2" | "k = 3" using k4 by linarith
    then show ?thesis
    proof cases
      case 1 then show ?thesis using assms(3) b0 by (simp add: ip_byte_def u)
    next
      case 2 then show ?thesis using i b0 b1 by (simp add: ip_byte_def u)
    next
      case 3
      have "(170230272 + 256 * unat i + n) div 256 ^ 2 = 37 + 10 * 256"
        using b0(2) b1(2) div_mult2_eq [of "170230272 + 256 * unat i + n" 256 256] by (simp add: power2_eq_square)
      with 3 show ?thesis by (simp add: ip_byte_def u)
    next
      case 4
      have "(170230272 + 256 * unat i + n) div 256 ^ 3 = 10"
        using b0(2) b1(2) div_mult2_eq [of "170230272 + 256 * unat i + n" 256 65536] div_mult2_eq [of A 256 256]
        by simp
      with 4 show ?thesis by (simp add: ip_byte_def u)
    qed
  qed
  ultimately show ?thesis by (simp add: validateIp_iff)
qed

lemma default_scope_subnet:
  assumes "i < 125"
  shows "(default_subnet i + 254) AND 0xFFFFFF00 = (default_subnet i + 1) AND 0xFFFFFF00"
proof -
  have i: "unat i < 125" using assms by (simp add: word_less_nat_alt)
  have "unat (drop_bit 8 (default_subnet i + of_nat n)) = 664962 + unat i" if "n < 255" for n
  proof -
    have "unat (default_subnet i + of_nat n) = 170230272 + 256 * unat i + n"
      using unat_plus_small [of "default_subnet i" n] unat_default_subnet [OF assms] i that by simp
    also have "\<dots> = n + 256 * (664962 + unat i)" by simp
    finally have "unat (drop_bit 8 (default_subnet i + of_nat n)) = (n + 256 * (664962 + unat i)) div 256"
      by (simp only: unat_drop_bit_eq drop_bit_eq_div [where 'a = nat]) simp
    also have "\<dots> = 664962 + unat i" using that by (subst div_mult_self2) simp_all
    finally show ?thesis .
  qed
  from this [of 254] this [of 1] have "drop_bit 8 (default_subnet i + 254) = drop_bit 8 (default_subnet i + 1)"
    by (simp add: word_unat_eq_iff)
  then show ?thesis unfolding and_mask_24 by simp
qed

lemma default_mask_valid: "validateNetMask 0xFFFFFF00"
  by code_simp

lemma validate_success:
  "ValidateHostOnlyNetworkParams n = PRL_ERR_SUCCESS \<longleftrightarrow>
   (\<exists>h. host_only n = Some h \<and> validateNetMask (net_mask h) \<and> validateIp (host_ip h) \<and> validateIp (dhcp_ip h) \<and>
     (\<forall>d. dhcp4 h = Some d \<and> dhcp_enabled d \<longrightarrow>
        validateIp (scope_start d) \<and> validateIp (scope_end d) \<and>
        scope_end d AND net_mask h = scope_start d AND net_mask h \<and>
        15 \<le> sint (scope_end d - scope_start d)))"
  by (auto simp: ValidateHostOnlyNetworkParams_def Let_def split: option.splits)

lemma host_only_of_default:
  assumes "GetDefaultDhcpParams i = (start, end4, mask4)"
  shows "\<exists>h d. host_only (FillDefaultVirtualNetworkParams E i shared n) = Some h \<and> net_mask h = mask4 \<and>
    host_ip h = start + 1 \<and> dhcp_ip h = start \<and> dhcp4 h = Some d \<and> dhcp_enabled d \<and>
    scope_start d = start \<and> scope_end d = end4"
  by (simp add: FillDefaultVirtualNetworkParams_def assms Let_def split: prod.split)

lemma default_params_validate:
  assumes "i < 125"
  shows "ValidateHostOnlyNetworkParams (FillDefaultVirtualNetworkParams E i shared n) = PRL_ERR_SUCCESS"
proof -
  have ips: "validateIp (default_subnet i + 1)" "validateIp (default_subnet i + 1 + 1)" "validateIp (default_subnet i + 254)"
    using default_ip_valid [OF assms, of 1] default_ip_valid [OF assms, of 2] default_ip_valid [OF assms, of 254]
    by (simp_all add: add.assoc)
  have range: "default_subnet i + 254 - (default_subnet i + 1) = (253 :: 32 word)" by simp
  have r: "15 \<le> sint (default_subnet i + 254 - (default_subnet i + 1))" unfolding range by simp
  obtain h d where "host_only (FillDefaultVirtualNetworkParams E i shared n) = Some h"
    "net_mask h = 0xFFFFFF00" "host_ip h = default_subnet i + 1 + 1" "dhcp_ip h = default_subnet i + 1"
    "dhcp4 h = Some d" "scope_start d = default_subnet i + 1" "scope_end d = default_subnet i + 254"
    using host_only_of_default [OF default_range [OF assms], of E shared n] by blast
  with ips r default_mask_valid default_scope_subnet [OF assms] show ?thesis
    unfolding validate_success by (metis option.inject)
qed

text \<open>The next default network would have 255 as the third byte of its addresses.\<close>

lemma default_params_125:
  "ValidateHostOnlyNetworkParams (FillDefaultVirtualNetworkParams E 125 shared n) \<noteq> PRL_ERR_SUCCESS"
proof -
  obtain start end4 mask4 where p: "GetDefaultDhcpParams 125 = (start, end4, mask4)" using prod_cases3 by blast
  then have "start = fst (GetDefaultDhcpParams 125)" by simp
  then have "start = 0x0A25FF01" by (simp add: GetDefaultDhcpParams_def DEFAULT_DHCP_SUBNET_IP_def Let_def)
  moreover have "\<not> validateIp (0x0A25FF01 + 1)" by code_simp
  ultimately show ?thesis
    using host_only_of_default [OF p, of E shared n] by (auto simp: validate_success)
qed


text \<open>The range of an accepted DHCP server.\<close>

lemma sint_diff:
  assumes "\<bar>int (unat e) - int (unat s)\<bar> < 2 ^ 31"
  shows "sint (e - s :: 32 word) = int (unat e) - int (unat s)"
proof -
  have "e - s = word_of_int (int (unat e) - int (unat s))" by simp
  then have "sint (e - s) = (int (unat e) - int (unat s) + 2 ^ 31) mod 2 ^ 32 - 2 ^ 31"
    by (simp only: int_word_sint) simp
  then show ?thesis using assms by simp
qed

lemma scope_in_block:
  assumes m: "\<And>i. bit (m :: 32 word) i \<longleftrightarrow> lo \<le> i \<and> i < 32" and lo: "lo \<le> 28"
    and eq: "e AND m = s AND m" and r: "15 \<le> sint (e - s)"
  shows "unat s + 15 \<le> unat e \<and> drop_bit lo e = drop_bit lo s"
proof -
  have d: "drop_bit lo e = drop_bit lo s"
  proof (rule bit_word_eqI)
    fix j assume "j < LENGTH(32)"
    show "bit (drop_bit lo e) j \<longleftrightarrow> bit (drop_bit lo s) j"
    proof (cases "lo + j < 32")
      case True
      then have "bit (e AND m) (lo + j) = bit e (lo + j)" "bit (s AND m) (lo + j) = bit s (lo + j)"
        by (simp_all add: bit_and_iff m)
      with eq show ?thesis by (simp add: bit_drop_bit_eq)
    next
      case False
      then show ?thesis using bit_imp_le_length [of e "lo + j"] bit_imp_le_length [of s "lo + j"]
        by (auto simp: bit_drop_bit_eq)
    qed
  qed
  then have "unat e div 2 ^ lo = unat s div 2 ^ lo"
    by (metis drop_bit_eq_div unat_drop_bit_eq)
  then obtain q where q: "unat e = 2 ^ lo * q + unat e mod 2 ^ lo" "unat s = 2 ^ lo * q + unat s mod 2 ^ lo"
    by (metis mult_div_mod_eq)
  have "(2 :: nat) ^ lo \<le> 2 ^ 28" using lo by (intro power_increasing) simp_all
  then have "unat e mod 2 ^ lo < 2 ^ 28" "unat s mod 2 ^ lo < 2 ^ 28"
    using mod_less_divisor [of "2 ^ lo"] by (meson less_le_trans zero_less_numeral zero_less_power)+
  with q obtain K a b where "unat e = K + a" "unat s = K + b" "a < 2 ^ 28" "b < 2 ^ 28" by metis
  then have "\<bar>int (unat e) - int (unat s)\<bar> < 2 ^ 31" by simp
  from sint_diff [OF this] r d show ?thesis by linarith
qed

text \<open>With a mask that lacks the left-most bit, a range from a higher to a lower address is accepted.\<close>

lemma reversed_range_accepted:
  "\<exists>n h d. ValidateHostOnlyNetworkParams n = PRL_ERR_SUCCESS \<and> host_only n = Some h \<and> dhcp4 h = Some d \<and>
     dhcp_enabled d \<and> scope_end d < scope_start d"
proof -
  define d :: "ipv4 dhcp_server" where
    "d = \<lparr>dhcp_enabled = True, scope_start = 0xE0000001, scope_end = 0x10, ip_reservations = None\<rparr>"
  define h where "h = new_host_only\<lparr>net_mask := 0x1FFFFFE0, host_ip := 1, dhcp_ip := 2, dhcp4 := Some d\<rparr>"
  define n where "n = \<lparr>vnet_ptr = 1, net_uuid = [], net_id = [], net_description = [], net_kind = PVN_HOST_ONLY,
    net_enabled = True, host_only = Some h, bound_mac = [], vlan_tag = 0, to_default_adapter = False\<rparr>"
  have ips: "validateIp 1" "validateIp 2" "validateIp 0xE0000001" "validateIp 0x10" by code_simp+
  have "(0x10 :: 32 word) AND 0x1FFFFFE0 = 0xE0000001 AND 0x1FFFFFE0" "15 \<le> sint (0x10 - 0xE0000001 :: 32 word)"
    "(0x10 :: 32 word) < 0xE0000001" by code_simp+
  with ips validateNetMask_without_leftmost_bit(1)
  have "ValidateHostOnlyNetworkParams n = PRL_ERR_SUCCESS" "scope_end d < scope_start d"
    by (simp_all add: validate_success n_def h_def d_def)
  then show ?thesis by (intro exI [of _ n] exI [of _ h] exI [of _ d]) (simp add: n_def h_def d_def)
qed



section \<open>Facts about look-ups and defaults\<close>

lemma find_SomeD: "find P xs = Some x \<Longrightarrow> P x \<and> x \<in> set xs"
  by (induction xs) (auto split: if_splits)

lemma first_adapter_Inr: "first_adapter e P l = Inr a \<Longrightarrow> P a \<and> a \<in> set l"
  by (auto simp: first_adapter_def split: option.splits dest: find_SomeD)

lemma net_vz_adapter_default:
  "\<exists>a. net_vz_adapter (FillDefaultVirtualNetworkParams E i shared n) = Some a \<and> vz_index a = i"
  "net_kind (FillDefaultVirtualNetworkParams E i shared n) = PVN_HOST_ONLY"
  by (simp_all add: FillDefaultVirtualNetworkParams_def net_vz_adapter_def Let_def split: prod.split)

definition has_index :: "32 word \<Rightarrow> vnet \<Rightarrow> bool" where
  "has_index i n \<longleftrightarrow> (case net_vz_adapter n of None \<Rightarrow> False | Some a \<Rightarrow> vz_index a = i)"

lemma GetNetworkByVirtuozzoAdapter_find: "GetNetworkByVirtuozzoAdapter (Some ns) i = find (has_index i) ns"
  by (simp add: GetNetworkByVirtuozzoAdapter_def has_index_def [abs_def])

lemma has_index_default: "has_index i (FillDefaultVirtualNetworkParams E j shared n) \<longleftrightarrow> i = j"
  using net_vz_adapter_default(1) [of E j shared n] by (auto simp: has_index_def)

text \<open>After \<open>ensure_default\<close>, the first network with the index has the default parameters.\<close>

lemma find_update_net:
  assumes "find (has_index i) ns = Some n"
  shows "\<exists>m. find (has_index i) (update_net (vnet_ptr n) (FillDefaultVirtualNetworkParams E i shared) ns) =
    Some (FillDefaultVirtualNetworkParams E i shared m)"
  using assms
proof (induction ns)
  case (Cons x ns)
  show ?case
  proof (cases "vnet_ptr x = vnet_ptr n")
    case True
    then show ?thesis by (auto simp: update_net_def has_index_default)
  next
    case False
    then have "\<not> has_index i x" using Cons.prems by (auto split: if_splits)
    with False Cons show ?thesis by (simp add: update_net_def)
  qed
qed simp

lemma ensure_default_find:
  "\<exists>m. GetNetworkByVirtuozzoAdapter (Some (ensure_default E i shared ns)) i =
     Some (FillDefaultVirtualNetworkParams E i shared m)"
proof (cases "find (has_index i) ns")
  case None
  then have "find (has_index i) (ns @ [FillDefaultVirtualNetworkParams E i shared m]) =
      Some (FillDefaultVirtualNetworkParams E i shared m)" for m
    by (induction ns) (auto simp: has_index_default split: if_splits)
  with None show ?thesis by (auto simp: ensure_default_def GetNetworkByVirtuozzoAdapter_find)
next
  case (Some n)
  with find_update_net [OF Some] show ?thesis
    by (auto simp: ensure_default_def GetNetworkByVirtuozzoAdapter_find)
qed

text \<open>The bridged network that a server adds does not hide the host-only network.\<close>

lemma find_fill_bridged:
  assumes f: "find (has_index i) ns = Some n" and id: "\<forall>x \<in> set ns. net_id x \<noteq> PRLNET_SRV_DEFAULT_BRIDGED_ID"
  shows "find (has_index i) (fill_default_bridged E ns) = Some n"
proof -
  have none: "GetVirtualNetworkByID (Some ns) PRLNET_SRV_DEFAULT_BRIDGED_ID = None"
    using id by (auto simp: GetVirtualNetworkByID_def find_None_iff)
  have "find (has_index i) (ns @ [y]) = Some n" for y
    using f by (induction ns) auto
  with f none show ?thesis
    by (auto simp: fill_default_bridged_def Let_def split: sum.splits option.splits)
qed

text \<open>
  The comment ``just remove existing default-server network and add it again'' does not hold: the
  network is not removed, and its pointer is in the list twice afterwards.
\<close>

lemma default_bridged_twice:
  assumes "bindable E = Inr l" "default_or_first E l = Inr a"
    "GetNetworkByBoundCardMacAndVLANTag (Some ns) (ethAddressToString E (eth_mac a)) (eth_vlan a) = None"
    "GetVirtualNetworkByID (Some ns) PRLNET_SRV_DEFAULT_BRIDGED_ID = Some n"
  shows "\<not> distinct (map vnet_ptr (fill_default_bridged E ns))"
proof -
  have "n \<in> set ns" using assms(4) by (auto simp: GetVirtualNetworkByID_def dest: find_SomeD)
  with assms show ?thesis
    by (force simp: fill_default_bridged_def Let_def update_net_def image_iff)
qed

lemma default_or_first_in: "default_or_first E l = Inr a \<Longrightarrow> a \<in> set l"
  by (auto simp: default_or_first_def getDefaultBridgedAdapter_def getFirstAdapter_def
      split: sum.splits prod.splits option.splits dest: find_SomeD)

definition adapter_fits :: "net_env \<Rightarrow> vnet \<Rightarrow> eth_adapter \<Rightarrow> bool" where
  "adapter_fits E n a \<longleftrightarrow>
     (if net_kind n = PVN_BRIDGED_ETHERNET
      then to_default_adapter n \<or> eth_mac a = stringToEthAddress E (bound_mac n) \<and> eth_vlan a = vlan_tag n
      else eth_virtuozzo a \<and> (\<exists>h v. host_only n = Some h \<and> virtuozzo_adapter h = Some v \<and>
        GET_PRL_ADAPTER_NUMBER (eth_index a) = GET_PRL_ADAPTER_NUMBER (vz_index v)))"

lemma GetAdapterForNetwork_fits:
  "GetAdapterForNetwork E l (Some n) = Inr a \<Longrightarrow> a \<in> set l \<and> adapter_fits E n a"
  by (auto simp: GetAdapterForNetwork_def adapter_fits_def split: if_splits option.splits
      dest!: first_adapter_Inr default_or_first_in)

text \<open>The list of host-only networks is in the order of the adapters, one network for each.\<close>

lemma qmap_insert_keys: "fst ` set (qmap_insert k v m) = insert k (fst ` set m)"
  by (induction k v m rule: qmap_insert.induct) auto

lemma qmap_insert_sorted: "sorted_wrt (<) (map fst m) \<Longrightarrow> sorted_wrt (<) (map fst (qmap_insert k v m))"
proof (induction k v m rule: qmap_insert.induct)
  case (2 k v k' v' m)
  consider "k < k'" | "k = k'" | "k' < k" by (rule linorder_cases)
  then show ?case
  proof cases
    case 3
    have "\<forall>x \<in> fst ` set (qmap_insert k v m). k' < x" using 2(2) 3 by (auto simp: qmap_insert_keys)
    moreover have "\<not> k < k'" "k \<noteq> k'" using 3 by auto
    ultimately show ?thesis using 2 by simp
  qed (use 2(2) in auto)
qed simp

lemma host_only_map_sorted: "sorted_wrt (<) (map fst (host_only_map ns))"
proof -
  have "sorted_wrt (<) (map fst m) \<Longrightarrow> sorted_wrt (<) (map fst (fold (\<lambda>n m. case net_vz_adapter n of
      None \<Rightarrow> m | Some a \<Rightarrow> qmap_insert (vz_index a) n m) ns m))" for m
    by (induction ns arbitrary: m) (auto simp: qmap_insert_sorted split: option.splits)
  from this [of "[]"] show ?thesis by (simp add: host_only_map_def)
qed

text \<open>No write is behind the end of a buffer that has room for all addresses.\<close>

lemma fill_buffer_room:
  "n + length as \<le> length buf \<Longrightarrow>
   \<exists>buf'. fill_buffer pick as buf n = Some (buf', n + length (List.map_filter pick as)) \<and>
     length buf' = length buf \<and> take (n + length (List.map_filter pick as)) buf' = take n buf @ List.map_filter pick as"
proof (induction as arbitrary: buf n)
  case (Cons a as)
  show ?case
  proof (cases "pick a")
    case None
    with Cons show ?thesis by (simp add: List.map_filter_simps)
  next
    case (Some x)
    have "Suc n + length as \<le> length (buf[n := x])" using Cons.prems by simp
    from Cons.IH [OF this] Some Cons.prems show ?thesis
      by (auto simp: List.map_filter_simps take_Suc_conv_app_nth)
  qed
qed (simp add: List.map_filter_simps)

lemma create_buffer_safe:
  "length ips \<le> length buf \<Longrightarrow> create_buffer pick parse (Some buf) ips \<noteq> None"
  using fill_buffer_room [of 0 "map parse ips" buf pick] by (auto simp: create_buffer_def)


text \<open>An index with the bit of the Parallels adapters is masked only after the test for the shared network;
  so on a desktop it selects the network of adapter 0, which a plain 0 does not.\<close>

lemma host_only_of_masked_zero:
  "GetHostOnlyNetwork E (Some ns) PRL_ADAPTER_START_INDEX = GetNetworkByVirtuozzoAdapter (Some ns) 0"
  "\<not> server_mode E \<Longrightarrow> GetHostOnlyNetwork E (Some ns) 0 = GetNetworkByVirtuozzoAdapter (Some ns) 1"
  by (simp_all add: GetHostOnlyNetwork_def PRL_ADAPTER_START_INDEX_def GET_PRL_ADAPTER_NUMBER_def Let_def)


text \<open>A server with one adapter, and a network bound to it, for the examples.\<close>

definition example_env :: net_env where
  "example_env = \<lparr>server_mode = True,
     bindable = Inr [\<lparr>eth_name = ''eth0'', eth_index = 0, eth_virtuozzo = False, eth_vlan = 0xffff,
       eth_mac = [0, 1, 2, 3, 4, 5], eth_enabled = True\<rparr>],
     default_iface = Inr (0xffff, [0, 1, 2, 3, 4, 5]), stringToEthAddress = (\<lambda>s. []),
     ethAddressToString = (\<lambda>m. ''001122334455''),
     new_network = (\<lambda>p. \<lparr>vnet_ptr = p, net_uuid = [], net_id = [], net_description = [],
       net_kind = PVN_BRIDGED_ETHERNET, net_enabled = True, host_only = None, bound_mac = [], vlan_tag = 0,
       to_default_adapter = False\<rparr>),
     hidden_default = True\<rparr>"

definition example_network :: vnet where
  "example_network = (new_network example_env 1)\<lparr>net_id := ''Bridged'', vlan_tag := 0xffff, bound_mac := ''x''\<rparr>"

definition example_adapter :: eth_adapter where
  "example_adapter = \<lparr>eth_name = ''eth0'', eth_index = 0, eth_virtuozzo = False, eth_vlan = 0xffff, eth_mac = [],
     eth_enabled = True\<rparr>"


section \<open>Properties\<close>

text \<open>The default parameters of a host-only network pass the check for the first 125 networks (and
  fail it for the next); and the default configuration, of a server as of a desktop, has the
  default host-only network, and it passes the check.\<close>

theorem default_networks_are_valid:
  assumes "i < 125" "\<forall>p. net_id (new_network E p) = []"
  shows "ValidateHostOnlyNetworkParams (FillDefaultVirtualNetworkParams E i shared n) = PRL_ERR_SUCCESS \<and>
    ValidateHostOnlyNetworkParams (FillDefaultVirtualNetworkParams E 125 shared n) \<noteq> PRL_ERR_SUCCESS \<and>
    (\<exists>m. GetHostOnlyNetwork E (Some (FillDefaultConfiguration E)) (- 1) = Some m \<and>
       ValidateHostOnlyNetworkParams m = PRL_ERR_SUCCESS)"
proof -
  have "\<exists>m j shared. GetHostOnlyNetwork E (Some (FillDefaultConfiguration E)) (- 1) =
      Some (FillDefaultVirtualNetworkParams E j shared m) \<and> j < 125"
  proof (cases "server_mode E")
    case True
    let ?m = "FillDefaultVirtualNetworkParams E 0 False (new_network E (fresh_ptr []))"
    have e: "ensure_default E 0 False [] = [?m]" by (simp add: ensure_default_def GetNetworkByVirtuozzoAdapter_def)
    have "net_id ?m = ''Host-Only''"
      using assms(2) by (simp add: FillDefaultVirtualNetworkParams_def GetDefaultVirtualNetworkID_def Let_def split: prod.split)
    then have "find (has_index 0) (fill_default_bridged E [?m]) = Some ?m"
      by (intro find_fill_bridged) (simp_all add: has_index_default PRLNET_SRV_DEFAULT_BRIDGED_ID_def)
    with True e have "GetHostOnlyNetwork E (Some (FillDefaultConfiguration E)) (- 1) = Some ?m"
      by (simp add: GetHostOnlyNetwork_def FillDefaultConfiguration_def FillDefaultNetworks_def isSharedEnabled_def
          GET_PRL_ADAPTER_NUMBER_def GetNetworkByVirtuozzoAdapter_find Let_def)
    then show ?thesis by (intro exI [of _ "new_network E (fresh_ptr [])"] exI [of _ 0] exI [of _ False]) simp
  next
    case False
    obtain m where "GetNetworkByVirtuozzoAdapter (Some (ensure_default E 1 True (ensure_default E 0 True []))) 1 =
        Some (FillDefaultVirtualNetworkParams E 1 True m)"
      using ensure_default_find by blast
    with False have "GetHostOnlyNetwork E (Some (FillDefaultConfiguration E)) (- 1) =
        Some (FillDefaultVirtualNetworkParams E 1 True m)"
      by (simp add: GetHostOnlyNetwork_def FillDefaultConfiguration_def FillDefaultNetworks_def isSharedEnabled_def
          GET_PRL_ADAPTER_NUMBER_def Let_def)
    then show ?thesis by (intro exI [of _ m] exI [of _ 1] exI [of _ True]) simp
  qed
  with default_params_validate show ?thesis using assms(1) default_params_125 by metis
qed

lemma default_networks_are_valid_witness:
  "\<exists>m. GetHostOnlyNetwork example_env (Some (FillDefaultConfiguration example_env)) (- 1) = Some m \<and>
     ValidateHostOnlyNetworkParams m = PRL_ERR_SUCCESS"
  by (rule default_networks_are_valid [of 7 example_env, THEN conjunct2, THEN conjunct2])
    (simp_all add: example_env_def)





end
