(* ===== verification/Spec2Isabelle.thy ===== *)
theory Spec2Isabelle
  imports ExclusiveOps VmState VmRegistry AccessRights ClientSessions AcceptedConfig SnapshotXml CpuFeatures MultiEdit BackupTree BackupActivities TemplateCatalog TemplateFacade HostStatistics
    VirtualNetworks
begin

text \<open>
  Verification library for prl-disp-service, the dispatcher of Virtuozzo: the daemon that keeps the
  virtual machines (VMs) of a host, serves client sessions and drives libvirt.  Paths below are
  relative to \<^verbatim>\<open>src/Dispatcher/Dispatcher\<close> and \<^verbatim>\<open>src/Libraries\<close>.

  \<^bold>\<open>The parts and how they meet.\<close>  A connection becomes a session by logging in; its packages are
  handed on while the session is authorized, and long commands become tasks, threads that a table
  holds.  A client's command on a VM passes the access manager, which asks
  for the lock of the VM, the rights of the session and the confirmation lists; then it is
  registered as an exclusive operation, which keeps conflicting commands of the same VM apart; it
  may change the VM's configuration, its snapshots, or its entry in the catalogue of VM
  directories.  A configuration is validated before it is stored or started.  When a session ends
  its locks are given back and tasks that asked for it are cancelled.  libvirt's events reach the registry of VMs, which owns one state machine for
  each VM and books VMs that libvirt does not know yet.  Editing is optimistic: marks detect that
  two sessions edited the same object, and the later one merges.  Backups are kept in a directory
  with one sequence for each full backup, which the tasks that read, create and remove backups lock.
  The libraries hold the tree of snapshots, the masks of CPU features and the virtual networks.

  \<^bold>\<open>Theories.\<close>
  \<^item> \<open>PrlResult\<close>, \<open>DspCommands\<close>, \<open>AllowedCommands\<close>: the members of the SDK's enumerations that the
    code names.  \<open>Prelude\<close>: names for Qt's values, the collections of facts, lemmas on lists and maps.
  \<^item> \<open>VmLocksInterface\<close>: the locale \<open>vm_locks\<close>, what a client of VM locks may rely on.
  \<^item> \<open>ExclusiveOps\<close> (\<^verbatim>\<open>CDspVmDirHelper.cpp\<close>, \<^verbatim>\<open>CDspVmDirHelper_p.h\<close>): the conflict classes of
    commands, the gang of operations on one VM, the table of all gangs, registration with waiting,
    removal, and the VM locks.  It interprets \<open>vm_locks\<close>.
  \<^item> \<open>VmState\<close> (\<^verbatim>\<open>CDspVmStateMachine.h\<close>, and the reactor and reboot chain of \<^verbatim>\<open>CDspRegistry.cpp\<close>):
    the two transition tables with guards, actions, entries and exits; their interpreter; the
    translation of libvirt's events into the machine's.
  \<^item> \<open>VmDirectory\<close> (\<^verbatim>\<open>CDspVmDirManager.cpp\<close>): the catalogue and its file, ephemeral directories, the
    iterator, the locking of VM parameters.
  \<^item> \<open>VmRegistry\<close> (\<^verbatim>\<open>CDspRegistry.cpp\<close>): the maps of the registry, its operations, and the life cycle
    of one uuid that they refine.
  \<^item> \<open>AccessRights\<close> (\<^verbatim>\<open>CDspAccessManager.cpp\<close>): the table of rights, the checks, the conversion
    between rights and file permissions, the list of allowed commands.
  \<^item> \<open>TaskTable\<close> (\<^verbatim>\<open>CDspTaskManager.cpp\<close>, \<^verbatim>\<open>CDspTaskHelper.cpp\<close>): tasks with their threads, the table,
    its clean-up and its end.
  \<^item> \<open>ClientSessions\<close> (\<^verbatim>\<open>CDspClientManager.cpp\<close>, with parts of \<^verbatim>\<open>CDspShellHelper.cpp\<close>,
    \<^verbatim>\<open>CDspUserHelper.cpp\<close>, \<^verbatim>\<open>DspMonitor.cpp\<close>): the logins, the authorization of packages, the end of a
    session, cancellation and take-over of tasks; it composes tasks and VM locks.
  \<^item> \<open>ValidationCodes\<close>, \<open>VmConfig\<close>, \<open>ConfigChecks\<close>, \<open>DeviceChecks\<close>, \<open>VmValidation\<close>, \<open>AcceptedConfig\<close>
    (\<^verbatim>\<open>CVmValidateConfig.cpp\<close>): the codes, the configuration, the checks as lists of what they
    record, their order and use, and the well-formed configurations.
  \<^item> \<open>SnapshotTree\<close>, \<open>SnapshotStore\<close>, \<open>SnapshotXml\<close> (\<^verbatim>\<open>StatesStore\<close>): the tree with paths as pointers,
    the store's operations, and the XML form with its parser.
  \<^item> \<open>KeyValue\<close>, \<open>CpuFeatures\<close> (\<^verbatim>\<open>CpuFeatures/CCpuHelper.cpp\<close>): the parser of key=value lines as the
    locale \<open>key_value_model\<close>, interpreted for registers and for pools; masks, pools, features.
  \<^item> \<open>MultiEdit\<close> (\<^verbatim>\<open>EditHelpers\<close>, \<^verbatim>\<open>Task_EditVm::editVm\<close>, \<^verbatim>\<open>Edit::Unlocked\<close>): begin-edit marks, commits,
    merges.  The locale \<open>edit_marks\<close> states what marks promise; it is interpreted on the operations.
  \<^item> \<open>BackupLocks\<close>, \<open>BackupStore\<close>, \<open>BackupRemoval\<close>, \<open>BackupCreation\<close>
    (\<^verbatim>\<open>CDspVmBackupInfrastructure.cpp\<close>, \<^verbatim>\<open>Tasks/Task_RemoveVmBackup.cpp\<close>,
    \<^verbatim>\<open>Tasks/Task_CreateVmBackupTarget.cpp\<close>, parts of \<^verbatim>\<open>Tasks/Task_BackupHelper.cpp\<close>): the locks of
    sequences, with the locale \<open>sequence_locks\<close> for what the tasks rely on; the directories, items and
    metadata of backups; the batches that remove them; and type, number, metadata and clean-up of
    a new one.  \<open>BackupActivities\<close>: the backups under way on the source, the sessions that began them
    and the end of these.  \<open>BackupChain\<close>, \<open>BackupKeep\<close> and \<open>BackupCases\<close> hold the proofs about chains of images
    and an example store.  \<open>BackupTree\<close> (\<^verbatim>\<open>Tasks/Task_GetBackupTree.cpp\<close>) is the list of backups that
    is shown.
  \<^item> \<open>TemplateStorage\<close>, \<open>TemplateRollback\<close>, \<open>TemplateCatalog\<close> (\<^verbatim>\<open>CDspTemplateStorage.cpp\<close>): the catalogue
    of templates on a shared file system with its lock files, the actions on entries and their undo,
    and batches of them; what a batch does to the entries; commits that fail and that succeed.
    \<open>TemplateFacade\<close> (\<^verbatim>\<open>CDspTemplateFacade.cpp\<close>): how an entry becomes an item of a VM directory,
    over the catalogue of \<open>VmDirectory\<close> with its locks.
  \<^item> \<open>HostStatistics\<close> (\<^verbatim>\<open>Stat/CDspStatisticsGuard.cpp\<close>, \<^verbatim>\<open>Stat/CDspStatStorage.cpp\<close>): what the statistics
    of the host keep of each sample, and the counters of a VM.
  \<^item> \<open>NetAddress\<close>, \<open>VirtualNetworks\<close> (\<^verbatim>\<open>PrlNetworking\<close>): addresses, masks and prefixes; virtual
    networks, their defaults, checks and repair, and the adapter of a VM.

  \<^bold>\<open>What is shown.\<close>
  C1--C6: operations that run on one VM accept each other; a removal runs alone; registration
  succeeds or fails for a conflict and changes nothing; it returns; a lock stays with its session.
  C7--C8: the StartEx lock and the routes follow the state of the VM; its tools are known while it
  runs.
  C9--C10: the catalogue has no duplicates; a failed save is rolled back.
  C11--C12: the invariant of the registry and its refinement of the life cycle of a uuid.
  C13--C16: the locks of backup sequences exclude each other; what is left after a backup is removed
  alone or with its dependents, and that the images show the same; a new backup goes to the end.
  C17--C19: what ends with the session of a backup, in every order of begin and end; the list of
  backups shows what is there.
  C20--C22: a failed commit of templates restores the entries, a successful one does what was asked;
  an entry is settled or the catalogue is unchanged.
  C23--C24: what \<^verbatim>\<open>checkAccess\<close> grants; the commands that are offered.
  C25: running tasks are held, ended ones are cleaned and have answered once, cancellations return.
  C26--C27: commands are handed on for authorized sessions only; what ends with a session.
  C28: the configurations without critical errors are exactly the well-formed ones.
  C29--C31: the mark of the current snapshot; a removal changes exactly what it should; a saved tree
  reads back.
  C32--C35: masks are printed and parsed back; a dump is accepted only when complete; the meaning
  of equal masks; the disabled features.
  C36--C37: overtaken edits are merged or refused; the statistics of processes follow the sample.
  C38--C40: prefixes; what the check of a network accepts; the adapter of a VM.
  The other lemmas state what single operations do, among them the cases in which the code does
  not do what it means to.

  \<^bold>\<open>Bounds and fuel.\<close>  Loops of the code are structural recursion or \<open>function\<close> with a measure, or
  partial functions for which an end is proved.  The wait loop of \<^verbatim>\<open>registerOp\<close> runs over a list of
  wake-ups and the clock of each; it returns at the first one 60 seconds after its begin.  The loop
  over the bits of an IPv6 mask has no measure by its form; it ends after at most 32 rounds because
  each shift empties one more bit.  The stamps of \<open>MultiEdit\<close> are 64-bit words; the statements hold
  while fewer identifiers were given out than the word has values.  The default host-only networks
  have the third byte of their address counted up from 130, and 125 of them have valid addresses.
  The end of the task table sleeps 35 times at most.  A cancellation follows the chain of external
  tasks; it is a partial function, and in reachable states the chain ends.  The product of cores
  and sockets is one of 32-bit words, as in the code.
  The percentages of processes are right while the product of time and processors fits 32 bits.
  Integers that can wrap are words; sizes that Qt bounds by memory are natural numbers.

  \<^bold>\<open>Parameters.\<close>  The classes of the SDK and of Qt that hold data are records or lists with the
  fields the code uses.  Code of other repositories that computes something is an argument: the
  catalogue classes (\<open>catalogue_api\<close>), authentication of file access (\<open>vm_files\<close>, \<open>cauth\<close>), the
  merge of documents, the tools cpufeatures and cpupools (\<open>host\<close>), the interfaces and MAC conversions
  of the host (\<open>net_env\<close>), the clock, the authentication of users (\<open>auth_env\<close>), what the
  validation asks of the host, the SDK and Qt (\<open>validation_env\<close>), and the files, metadata classes and
  \<^verbatim>\<open>qemu-img\<close> of backups (\<open>backup_env\<close>, with the hypotheses \<open>store_laws\<close> and \<open>image_laws\<close>),
  and what changes the files of templates (\<open>template_env\<close>, with \<open>template_laws\<close> and \<open>renames_work\<close>)
  and saves their configurations (\<open>facade_env\<close>).
  Each hypothesis on an argument has an instance that fulfils it, in the witness of the property.  Critical sections of one mutex are atomic steps.

  \<^bold>\<open>Not modelled.\<close>  Calls into libvirt, vzctl and ploop, and the tasks that arrange them (creation,
  migration, containers, the scan for templates, and for backups the copying of images, their restoration and
  attachment): they are sequences of calls outside the repository
  over files and sockets.  The converters of \<^verbatim>\<open>Transponster\<close> work on classes generated from
  schemas.  The transport of packages is in the SDK.  Host probes read \<^verbatim>\<open>/proc\<close> and \<^verbatim>\<open>/sys\<close>.
  The threads that collect statistics, the state sender and the helpers that answer queries about
  the host consist of such calls.
\<close>

end
